(* ===== verification/Prelude.thy ===== *)
theory Prelude
  imports Main "HOL-Library.Word" "HOL-Library.AList" "HOL-Library.List_Lexorder"
    "HOL-Library.Char_ord" "HOL-Library.Multiset"
begin

text \<open>
  Shared vocabulary of the development: the machine integers and byte strings of Go, the
  parts of Go's standard library that the proxy uses on them (package \<open>strings\<close>, the
  \<open>fmt\<close> verbs for padded decimal numbers, package \<open>sort\<close>), Go maps, and the generic
  lemmas about them that the component theories rely on.

  A Go string is a sequence of bytes, and so is an HOL \<^typ>\<open>string\<close>: every \<^typ>\<open>char\<close> is
  one byte. A Go map is an association list with distinct keys. Its order stands for the
  unspecified order in which Go iterates over a map: the theorems quantify over all stores,
  so over all orders. A Go map used as a set is a list without duplicates.
  Times are nanoseconds since Go's zero time, as unbounded integers; the 64-bit bound on
  durations is proved where the code computes them.
\<close>

type_synonym u8 = "8 word"
type_synonym u16 = "16 word"
type_synonym u32 = "32 word"
type_synonym time = int
type_synonym 'v gomap = "(string \<times> 'v) list"

named_theorems gomap_simps "evaluation of the operations on Go maps"
named_theorems name_simps "rewrite rules for DNS names and node identities"
named_theorems store_defs "definitions of the lease store's operations"
named_theorems store_simps "rewrite rules for the lease store"

subsection \<open>Go maps\<close>

definition mget :: "'v gomap \<Rightarrow> string \<Rightarrow> 'v option" where
  "mget m k = map_of m k"

definition mput :: "string \<Rightarrow> 'v \<Rightarrow> 'v gomap \<Rightarrow> 'v gomap" where
  "mput k v m = AList.update k v m"

definition mdel :: "string \<Rightarrow> 'v gomap \<Rightarrow> 'v gomap" where
  "mdel k m = AList.delete k m"

definition mkeys :: "'v gomap \<Rightarrow> string list" where
  "mkeys m = map fst m"

definition mvals :: "'v gomap \<Rightarrow> 'v list" where
  "mvals m = map snd m"

definition mwf :: "'v gomap \<Rightarrow> bool" where
  "mwf m \<longleftrightarrow> distinct (map fst m)"

text \<open>
  A Go map whose values are sets of strings. Reading a missing key gives the empty set, as
  iterating over a nil map does; inserting into a missing key first makes the set.
\<close>

definition sget :: "string list gomap \<Rightarrow> string \<Rightarrow> string list" where
  "sget m k = (case mget m k of None \<Rightarrow> [] | Some xs \<Rightarrow> xs)"

definition set_insert :: "string \<Rightarrow> string list \<Rightarrow> string list" where
  "set_insert x xs = (if x \<in> set xs then xs else xs @ [x])"

subsection \<open>Package strings\<close>

definition HasSuffix :: "string \<Rightarrow> string \<Rightarrow> bool" where
  "HasSuffix s suf \<longleftrightarrow> length suf \<le> length s \<and> drop (length s - length suf) s = suf"

definition HasPrefix :: "string \<Rightarrow> string \<Rightarrow> bool" where
  "HasPrefix s pre \<longleftrightarrow> take (length pre) s = pre"

definition TrimSuffix :: "string \<Rightarrow> string \<Rightarrow> string" where
  "TrimSuffix s suf = (if HasSuffix s suf then take (length s - length suf) s else s)"

text \<open>\<open>strings.Split\<close> and \<open>strings.Cut\<close> for a separator of one byte, \<open>strings.Join\<close>.\<close>

fun split_at :: "char \<Rightarrow> string \<Rightarrow> string list" where
  "split_at c [] = [[]]"
| "split_at c (x # xs) =
     (if x = c then [] # split_at c xs
      else (case split_at c xs of [] \<Rightarrow> [[x]] | l # ls \<Rightarrow> (x # l) # ls))"

fun cut_at :: "char \<Rightarrow> string \<Rightarrow> string \<times> string \<times> bool" where
  "cut_at c [] = ([], [], False)"
| "cut_at c (x # xs) =
     (if x = c then ([], xs, True)
      else (case cut_at c xs of (a, b, ok) \<Rightarrow> (x # a, b, ok)))"

fun join_with :: "string \<Rightarrow> string list \<Rightarrow> string" where
  "join_with sep [] = []"
| "join_with sep [x] = x"
| "join_with sep (x # y # ys) = x @ sep @ join_with sep (y # ys)"

text \<open>\<open>strings.LastIndex\<close>: the position of the last occurrence of \<open>pat\<close>, if any.\<close>

fun last_index :: "string \<Rightarrow> string \<Rightarrow> nat option" where
  "last_index [] pat = (if pat = [] then Some 0 else None)"
| "last_index (x # xs) pat =
     (case last_index xs pat of
        Some i \<Rightarrow> Some (Suc i)
      | None \<Rightarrow> if HasPrefix (x # xs) pat then Some 0 else None)"

text \<open>\<open>strings.TrimSpace\<close> on ASCII white space.\<close>

definition is_space :: "char \<Rightarrow> bool" where
  "is_space c \<longleftrightarrow> c \<in> set [CHR '' '', CHR 0x09, CHR 0x0A, CHR 0x0B, CHR 0x0C, CHR 0x0D]"

definition TrimSpace :: "string \<Rightarrow> string" where
  "TrimSpace s = rev (dropWhile is_space (rev (dropWhile is_space s)))"

subsection \<open>Package fmt: decimal numbers\<close>

definition digit :: "nat \<Rightarrow> char" where
  "digit d = char_of (48 + d)"

fun dec :: "nat \<Rightarrow> string" where
  "dec n = (if n < 10 then [digit n] else dec (n div 10) @ [digit (n mod 10)])"

declare dec.simps [simp del]

text \<open>The verb \<open>%0wd\<close>.\<close>

definition pad_dec :: "nat \<Rightarrow> nat \<Rightarrow> string" where
  "pad_dec w n = replicate (w - length (dec n)) (CHR ''0'') @ dec n"

subsection \<open>Package sort\<close>

text \<open>\<open>sort.Strings\<close> orders byte strings lexicographically.\<close>

definition sort_strings :: "string list \<Rightarrow> string list" where
  "sort_strings = sort"

text \<open>
  \<open>sort.Slice\<close> with \<open>len(a) > len(b)\<close>: longest first. Go's sort is not stable; strings of
  equal length keep their order here.
\<close>

definition sort_longest :: "string list \<Rightarrow> string list" where
  "sort_longest = sort_key (\<lambda>s. - int (length s))"

subsection \<open>Lemmas on Go maps\<close>

lemma mget_Nil [simp]: "mget [] k = None"
  by (simp add: mget_def)

lemma mget_Cons: "mget ((a, v) # m) k = (if a = k then Some v else mget m k)"
  by (simp add: mget_def)

lemma mget_mput: "mget (mput k v m) = (mget m)(k \<mapsto> v)"
  by (rule ext) (simp add: mget_def mput_def update_conv')

lemma mget_mput_same [simp]: "mget (mput k v m) k = Some v"
  by (simp add: mget_mput)

lemma mget_mput_other [simp]: "k' \<noteq> k \<Longrightarrow> mget (mput k v m) k' = mget m k'"
  by (simp add: mget_mput)

lemma mget_mdel: "mget (mdel k m) = (mget m)(k := None)"
  by (rule ext) (simp add: mget_def mdel_def delete_conv')

lemma mget_mdel_same [simp]: "mget (mdel k m) k = None"
  by (simp add: mget_mdel)

lemma mget_mdel_other [simp]: "k' \<noteq> k \<Longrightarrow> mget (mdel k m) k' = mget m k'"
  by (simp add: mget_mdel)

lemmas mget_upd [gomap_simps] = mget_mput mget_mdel

lemma mwf_Nil [simp]: "mwf []"
  by (simp add: mwf_def)

lemma mwf_mput [simp]: "mwf m \<Longrightarrow> mwf (mput k v m)"
  by (simp add: mwf_def mput_def distinct_update)

lemma mwf_mdel [simp]: "mwf m \<Longrightarrow> mwf (mdel k m)"
  by (simp add: mwf_def mdel_def distinct_delete)

lemma mget_Some_set: "mget m k = Some v \<Longrightarrow> (k, v) \<in> set m"
  by (simp add: mget_def map_of_SomeD)

lemma mget_iff_set: "mwf m \<Longrightarrow> mget m k = Some v \<longleftrightarrow> (k, v) \<in> set m"
  by (simp add: mwf_def mget_def)

lemma mkeys_iff: "k \<in> set (mkeys m) \<longleftrightarrow> mget m k \<noteq> None"
  by (auto simp: mkeys_def mget_def map_of_eq_None_iff)

lemma mkeys_mget: "k \<in> set (mkeys m) \<longleftrightarrow> (\<exists>v. mget m k = Some v)"
  by (simp add: mkeys_iff)

lemma mvals_iff: "mwf m \<Longrightarrow> v \<in> set (mvals m) \<longleftrightarrow> (\<exists>k. mget m k = Some v)"
  by (force simp: mvals_def mget_iff_set)

lemma finite_dom_mget: "finite {k. mget m k \<noteq> None}"
  by (rule finite_subset [of _ "set (mkeys m)"]) (auto simp: mkeys_iff)

text \<open>
  The laws of a finite map, as the stores use them: one client lemma derived from them is
  that an update at a key commutes with every lookup elsewhere.
\<close>

locale finite_map =
  fixes get :: "'m \<Rightarrow> string \<Rightarrow> 'v option"
    and put :: "string \<Rightarrow> 'v \<Rightarrow> 'm \<Rightarrow> 'm"
    and del :: "string \<Rightarrow> 'm \<Rightarrow> 'm"
    and ok :: "'m \<Rightarrow> bool"
  assumes get_put: "get (put k v m) = (get m)(k \<mapsto> v)"
    and get_del: "get (del k m) = (get m)(k := None)"
    and ok_put: "ok m \<Longrightarrow> ok (put k v m)"
    and ok_del: "ok m \<Longrightarrow> ok (del k m)"
    and finite_get: "finite (dom (get m))"
begin

lemma fold_del: "get (fold del ks m) = (get m) |` (- set ks)"
  by (induction ks arbitrary: m) (auto simp: get_del restrict_map_def fun_eq_iff)

lemma ok_fold_del: "ok m \<Longrightarrow> ok (fold del ks m)"
  by (induction ks arbitrary: m) (auto simp: ok_del)

lemma put_put_lookup: "k \<noteq> k' \<Longrightarrow> get (put k v (put k' w m)) = get (put k' w (put k v m))"
  by (simp add: get_put fun_upd_twist)

end

interpretation gm: finite_map mget mput mdel mwf
  by unfold_locales (use finite_dom_mget in \<open>auto simp: mget_mput mget_mdel dom_def\<close>)

subsection \<open>Lemmas on maps of sets\<close>

lemma set_insert_set [simp]: "set (set_insert x xs) = insert x (set xs)"
  by (auto simp: set_insert_def)

lemma set_insert_distinct [simp]: "distinct xs \<Longrightarrow> distinct (set_insert x xs)"
  by (auto simp: set_insert_def)

lemma set_insert_neq_Nil [simp]: "set_insert x xs \<noteq> []"
  by (auto simp: set_insert_def)

lemma sget_mput: "sget (mput k xs m) k' = (if k' = k then xs else sget m k')"
  by (simp add: sget_def)

lemma sget_mdel: "sget (mdel k m) k' = (if k' = k then [] else sget m k')"
  by (simp add: sget_def)

lemma sget_None: "mget m k = None \<Longrightarrow> sget m k = []"
  by (simp add: sget_def)

lemma sget_Some: "mget m k = Some xs \<Longrightarrow> sget m k = xs"
  by (simp add: sget_def)

lemma removeAll_distinct [simp]: "distinct xs \<Longrightarrow> distinct (removeAll x xs)"
  by (simp add: distinct_removeAll)

subsection \<open>Lemmas on strings\<close>

lemma HasSuffix_iff: "HasSuffix s suf \<longleftrightarrow> (\<exists>p. s = p @ suf)"
proof
  assume "HasSuffix s suf"
  then have "s = take (length s - length suf) s @ suf"
    by (metis HasSuffix_def append_take_drop_id)
  then show "\<exists>p. s = p @ suf" ..
qed (auto simp: HasSuffix_def)

lemma HasSuffix_append [simp]: "HasSuffix (p @ suf) suf"
  by (auto simp: HasSuffix_iff)

lemma HasPrefix_iff: "HasPrefix s pre \<longleftrightarrow> (\<exists>r. s = pre @ r)"
proof
  assume "HasPrefix s pre"
  then have "s = pre @ drop (length pre) s"
    by (metis HasPrefix_def append_take_drop_id)
  then show "\<exists>r. s = pre @ r" ..
qed (auto simp: HasPrefix_def)

lemma TrimSuffix_append [simp]: "TrimSuffix (p @ suf) suf = p"
  by (simp add: TrimSuffix_def)

lemma TrimSuffix_id: "\<not> HasSuffix s suf \<Longrightarrow> TrimSuffix s suf = s"
  by (simp add: TrimSuffix_def)

lemma split_at_nonempty [simp]: "split_at c s \<noteq> []"
  by (induction s) (auto split: list.splits)

lemma join_split_at: "join_with [c] (split_at c s) = s"
proof (induction s)
  case (Cons x xs)
  then show ?case
  proof (cases "split_at c xs")
    case (Cons l ls)
    with Cons.IH show ?thesis by (cases ls) auto
  qed simp
qed simp

lemma split_at_no_sep: "l \<in> set (split_at c s) \<Longrightarrow> c \<notin> set l"
proof (induction s arbitrary: l)
  case (Cons x xs)
  then show ?case by (cases "split_at c xs") (auto split: if_splits)
qed simp

lemma cut_at_split: "cut_at c s = (a, b, ok) \<Longrightarrow> s = a @ (if ok then c # b else []) \<and> c \<notin> set a"
  by (induction s arbitrary: a b ok) (auto split: if_splits prod.splits)

lemma cut_at_append: "c \<notin> set a \<Longrightarrow> cut_at c (a @ c # b) = (a, b, True)"
  by (induction a) auto

lemma last_index_Some: "last_index s pat = Some i \<Longrightarrow> \<exists>p r. s = p @ pat @ r \<and> length p = i"
proof (induction s arbitrary: i)
  case (Cons x xs)
  show ?case
  proof (cases "last_index xs pat")
    case None
    with Cons.prems have "HasPrefix (x # xs) pat" "i = 0" by (auto split: if_splits)
    then show ?thesis by (auto simp: HasPrefix_iff)
  next
    case (Some j)
    with Cons.IH obtain p r where "xs = p @ pat @ r" "length p = j" by blast
    then have "x # xs = (x # p) @ pat @ r" "length (x # p) = i" using Some Cons.prems by auto
    then show ?thesis by blast
  qed
qed (auto split: if_splits)

lemma last_index_None: "last_index s pat = None \<Longrightarrow> \<not> (\<exists>p r. s = p @ pat @ r)"
proof (induction s)
  case (Cons x xs)
  then have IH: "\<not> (\<exists>p r. xs = p @ pat @ r)" and no: "\<not> HasPrefix (x # xs) pat"
    by (auto split: option.splits if_splits)
  show ?case
  proof
    assume "\<exists>p r. x # xs = p @ pat @ r"
    then obtain p r where "x # xs = p @ pat @ r" by blast
    then show False using IH no by (cases p) (auto simp: HasPrefix_iff)
  qed
qed (auto split: if_splits)

lemma last_index_append: "last_index s pat = Some i \<Longrightarrow> last_index (p @ s) pat = Some (length p + i)"
  by (induction p) auto

subsection \<open>Lemmas on decimal numbers\<close>

lemma digit_inj: "a < 10 \<Longrightarrow> b < 10 \<Longrightarrow> digit a = digit b \<Longrightarrow> a = b"
proof -
  assume "a < 10" "b < 10" "digit a = digit b"
  then have "of_char (digit a) = (of_char (digit b) :: nat)" by simp
  with \<open>a < 10\<close> \<open>b < 10\<close> show "a = b" by (simp add: digit_def)
qed

lemma digit_not_sep: "d < 10 \<Longrightarrow> digit d \<noteq> CHR ''.'' \<and> digit d \<noteq> CHR ''+'' \<and> digit d \<noteq> CHR '' ''"
proof -
  assume d: "d < 10"
  have "(of_char (digit d) :: nat) = 48 + d" using d by (simp add: digit_def)
  moreover have "(of_char (CHR ''.'') :: nat) = 46" "(of_char (CHR ''+'') :: nat) = 43"
    "(of_char (CHR '' '') :: nat) = 32" by simp_all
  ultimately show ?thesis by force
qed

lemma dec_digits: "c \<in> set (dec n) \<Longrightarrow> \<exists>d<10. c = digit d"
proof (induction n rule: dec.induct)
  case (1 n)
  show ?case
  proof (cases "n < 10")
    case True
    with "1.prems" show ?thesis by (subst (asm) dec.simps) auto
  next
    case False
    with "1.prems" have "c \<in> set (dec (n div 10)) \<or> c = digit (n mod 10)"
      by (subst (asm) dec.simps) auto
    then show ?thesis using "1.IH" [OF False] by (auto intro: exI [of _ "n mod 10"])
  qed
qed

lemma dec_nonempty [simp]: "dec n \<noteq> []"
  by (subst dec.simps) simp

lemma dec_no_sep:
  "CHR ''.'' \<notin> set (dec n) \<and> CHR ''+'' \<notin> set (dec n) \<and> CHR '' '' \<notin> set (dec n)"
  using dec_digits [of _ n] digit_not_sep by metis

text \<open>The value a string of decimal digits denotes; \<^const>\<open>dec\<close> is inverted by it.\<close>

definition undec :: "string \<Rightarrow> nat" where
  "undec = foldl (\<lambda>v c. 10 * v + (of_char c - 48)) 0"

lemma undec_snoc: "undec (s @ [c]) = 10 * undec s + (of_char c - 48)"
  by (simp add: undec_def)

lemma undec_dec: "undec (dec n) = n"
proof (induction n rule: dec.induct)
  case (1 n)
  have val: "of_char (digit d) - 48 = d" if "d < 10" for d :: nat
    using that by (simp add: digit_def)
  show ?case
  proof (cases "n < 10")
    case True
    then have "dec n = [] @ [digit n]" by (subst dec.simps) simp
    then show ?thesis using val [OF True] by (simp only: undec_snoc) (simp add: undec_def)
  next
    case False
    then have "dec n = dec (n div 10) @ [digit (n mod 10)]" by (subst dec.simps) simp
    with "1" [OF False] show ?thesis by (simp add: undec_snoc val)
  qed
qed

lemma undec_zeros: "undec (replicate k (CHR ''0'') @ s) = undec s"
  by (induction k) (auto simp: undec_def)

lemma pad_dec_inj: "pad_dec w a = pad_dec w b \<Longrightarrow> a = b"
  using undec_zeros undec_dec by (metis pad_dec_def)

lemma pad_dec_no_sep:
  "CHR ''.'' \<notin> set (pad_dec w n) \<and> CHR ''+'' \<notin> set (pad_dec w n) \<and> CHR '' '' \<notin> set (pad_dec w n)"
  by (auto simp: pad_dec_def dec_no_sep)

lemma length_dec: "0 < w \<Longrightarrow> n < 10 ^ w \<Longrightarrow> length (dec n) \<le> w"
proof (induction n arbitrary: w rule: dec.induct)
  case (1 n)
  show ?case
  proof (cases "n < 10")
    case True
    with "1.prems" show ?thesis by (subst dec.simps) simp
  next
    case False
    obtain v where w: "w = Suc v" "0 < v"
      using False "1.prems" by (cases w; cases "w - 1") auto
    have "n div 10 < 10 ^ v" using "1.prems" w by (simp add: less_mult_imp_div_less mult.commute)
    with "1.IH" [OF False \<open>0 < v\<close>] False w show ?thesis by (subst dec.simps) simp
  qed
qed

lemma length_pad_dec: "0 < w \<Longrightarrow> n < 10 ^ w \<Longrightarrow> length (pad_dec w n) = w"
  using length_dec by (simp add: pad_dec_def)

subsection \<open>Lemmas on sorting\<close>

lemma sort_strings_set [simp]: "set (sort_strings xs) = set xs"
  by (simp add: sort_strings_def)

lemma sort_strings_mset [simp]: "mset (sort_strings xs) = mset xs"
  by (simp add: sort_strings_def)

lemma sort_strings_sorted [simp]: "sorted (sort_strings xs)"
  by (simp add: sort_strings_def)

lemma sort_strings_distinct [simp]: "distinct (sort_strings xs) = distinct xs"
  by (simp add: sort_strings_def)

lemma sort_longest_set [simp]: "set (sort_longest xs) = set xs"
  by (simp add: sort_longest_def)

lemma sort_longest_mset [simp]: "mset (sort_longest xs) = mset xs"
  by (simp add: sort_longest_def)

lemma sort_longest_distinct [simp]: "distinct (sort_longest xs) = distinct xs"
  by (simp add: sort_longest_def)

lemma sort_longest_descending: "sorted_wrt (\<lambda>a b. length b \<le> length a) (sort_longest xs)"
proof -
  have "sorted (map (\<lambda>s. - int (length s)) (sort_longest xs))"
    by (simp add: sort_longest_def)
  then show ?thesis by (simp add: sorted_map)
qed

subsection \<open>Lemmas on filtering and folding\<close>

lemma set_map_filter: "set (List.map_filter f xs) = {y. \<exists>x \<in> set xs. f x = Some y}"
  by (induction xs) (auto simp: List.map_filter_simps split: option.splits)

lemma map_filter_pairs:
  "map_of (List.map_filter (\<lambda>c. case f c of None \<Rightarrow> None | Some r \<Rightarrow> Some (c, r)) xs) c =
     (if c \<in> set xs then f c else None)"
  by (induction xs) (auto simp: List.map_filter_simps split: option.splits)

lemma fold_set_insert: "set (fold set_insert xs ys) = set xs \<union> set ys"
  by (induction xs arbitrary: ys) auto

lemma fold_set_insert_distinct: "distinct ys \<Longrightarrow> distinct (fold set_insert xs ys)"
  by (induction xs arbitrary: ys) auto

lemma removeAll_filter: "removeAll c xs = filter (\<lambda>x. x \<noteq> c) xs"
  by (induction xs) auto

end
