(* ===== verification/Dnsname.thy ===== *)
theory Dnsname
  imports Prelude
begin

text \<open>
  Package \<open>pkg/dnsname\<close>: DNS names as byte strings. \<open>dnsname.go\<close> folds ASCII case and
  compares names, \<open>labels.go\<close> splits a name into labels and checks a label, and \<open>wire.go\<close>
  finds, in a wire-format message, a label that holds a dot.

  The theorems: the optimised \<open>Fold\<close> is the bytewise fold; \<open>EqualFold\<close> decides equality
  under it; \<open>IsAtOrBelow\<close> compares whole labels; the wire walk reads no byte out of range,
  stops on every message (pointer loops included), and reports exactly a label with a dot.
\<close>

unbundle bit_operations_syntax

subsection \<open>dnsname.go\<close>

definition isUpper :: "char \<Rightarrow> bool" where
  "isUpper c \<longleftrightarrow> CHR ''A'' \<le> c \<and> c \<le> CHR ''Z''"

definition fold_byte :: "char \<Rightarrow> char" where
  "fold_byte c = (if isUpper c then char_of ((of_char c :: nat) + 32) else c)"

text \<open>
  \<open>Fold\<close> scans for the first upper-case letter and returns the name itself if there is
  none; from the first one on it rewrites a copy (\<open>fold_copy\<close>, the inner loop).
\<close>

fun fold_copy :: "string \<Rightarrow> string" where
  "fold_copy [] = []"
| "fold_copy (b # bs) =
     (if isUpper b then char_of ((of_char b :: nat) + 32) else b) # fold_copy bs"

fun Fold :: "string \<Rightarrow> string" where
  "Fold [] = []"
| "Fold (c # cs) = (if isUpper c then fold_copy (c # cs) else c # Fold cs)"

fun equal_fold_loop :: "string \<Rightarrow> string \<Rightarrow> bool" where
  "equal_fold_loop (a # as) (b # bs) =
     (if fold_byte a \<noteq> fold_byte b then False else equal_fold_loop as bs)"
| "equal_fold_loop _ _ = True"

definition EqualFold :: "string \<Rightarrow> string \<Rightarrow> bool" where
  "EqualFold a b = (if length a \<noteq> length b then False else equal_fold_loop a b)"

definition Normalize :: "string \<Rightarrow> string" where
  "Normalize name = TrimSuffix (Fold name) ''.''"

definition IsAtOrBelow :: "string \<Rightarrow> string \<Rightarrow> bool" where
  "IsAtOrBelow name zone =
     (let n = Normalize name; z = Normalize zone in
      if z = '''' then True else n = z \<or> HasSuffix n (''.'' @ z))"

subsection \<open>labels.go\<close>

definition maxLabelLength :: nat where
  "maxLabelLength = 63"

definition Labels :: "string \<Rightarrow> string list" where
  "Labels name = (if name = '''' then [] else split_at (CHR ''.'') name)"

definition CutFirstLabel :: "string \<Rightarrow> string \<times> string \<times> bool" where
  "CutFirstLabel name = cut_at (CHR ''.'') name"

datatype label_error = LabelEmpty | LabelTooLong nat | LabelHasDot

definition CheckLabel :: "string \<Rightarrow> label_error option" where
  "CheckLabel label =
     (if label = '''' then Some LabelEmpty
      else if length label > maxLabelLength then Some (LabelTooLong (length label))
      else if CHR ''.'' \<in> set label then Some LabelHasDot
      else None)"

subsection \<open>wire.go\<close>

text \<open>
  A message is a list of bytes. Reading outside it is Go's index panic, the error \<open>IndexPanic\<close>
  here, so that "no read is out of range" is a theorem and not an assumption.
\<close>

datatype wire_error =
    Truncated
  | PointerNotBackwards nat
  | TooManyPointers
  | ReservedLabelType u8 nat
  | IndexPanic

datatype dotted = Dotted "u8 list" | NoDot nat

definition dot :: u8 where
  "dot = 46"

definition maxPointerHops :: nat where
  "maxPointerHops = 127"

definition rdataNameOffset :: "nat \<Rightarrow> nat option" where
  "rdataNameOffset t = map_of
     [(2, 0), (5, 0), (6, 0), (12, 0), (39, 0), (15, 2), (18, 2), (21, 2), (36, 2), (64, 2),
      (65, 2), (33, 6), (24, 18), (46, 18)] t"

definition byte_at :: "u8 list \<Rightarrow> nat \<Rightarrow> u8 option" where
  "byte_at msg i = (if i < length msg then Some (msg ! i) else None)"

definition u16_at :: "u8 list \<Rightarrow> nat \<Rightarrow> nat option" where
  "u16_at msg off =
     (case (byte_at msg off, byte_at msg (off + 1)) of
        (Some hi, Some lo) \<Rightarrow> Some (unat hi * 256 + unat lo)
      | _ \<Rightarrow> None)"

text \<open>
  One name: \<open>next\<close> is the offset just past the name where it sits, fixed at the first pointer.
  A pointer must point backwards, and at most \<open>maxPointerHops\<close> are followed.
\<close>

function dottedName_loop :: "u8 list \<Rightarrow> nat \<Rightarrow> nat option \<Rightarrow> nat \<Rightarrow> wire_error + dotted" where
  "dottedName_loop msg off nxt hops =
     (case byte_at msg off of
        None \<Rightarrow> Inl Truncated
      | Some c \<Rightarrow>
          (if c AND 0xC0 = 0 then
             (if c = 0 then Inr (NoDot (case nxt of None \<Rightarrow> off + 1 | Some n \<Rightarrow> n))
              else if off + 1 + unat c > length msg then Inl Truncated
              else
                let l = take (unat c) (drop (off + 1) msg) in
                if dot \<in> set l then Inr (Dotted l)
                else dottedName_loop msg (off + 1 + unat c) nxt hops)
           else if c AND 0xC0 = 0xC0 then
             (if off + 1 \<ge> length msg then Inl Truncated
              else
                let ptr = unat (c AND 0x3F) * 256 + unat (msg ! (off + 1)) in
                if ptr \<ge> off then Inl (PointerNotBackwards off)
                else if hops + 1 > maxPointerHops then Inl TooManyPointers
                else dottedName_loop msg ptr
                       (case nxt of None \<Rightarrow> Some (off + 2) | Some n \<Rightarrow> Some n) (hops + 1))
           else Inl (ReservedLabelType (c AND 0xC0) off)))"
  by pat_completeness auto
termination
  by (relation "measures [\<lambda>(msg, off, nxt, hops). maxPointerHops - hops,
                          \<lambda>(msg, off, nxt, hops). length msg - off]")
     (auto simp: byte_at_def split: if_splits)

declare dottedName_loop.simps [simp del]

definition dottedName :: "u8 list \<Rightarrow> nat \<Rightarrow> wire_error + dotted" where
  "dottedName msg off = dottedName_loop msg off None 0"

fun dotted_questions :: "u8 list \<Rightarrow> nat \<Rightarrow> nat \<Rightarrow> wire_error + dotted" where
  "dotted_questions msg 0 off = Inr (NoDot off)"
| "dotted_questions msg (Suc n) off =
     (case dottedName msg off of
        Inl e \<Rightarrow> Inl e
      | Inr (Dotted l) \<Rightarrow> Inr (Dotted l)
      | Inr (NoDot off') \<Rightarrow>
          if off' + 4 > length msg then Inl Truncated else dotted_questions msg n (off' + 4))"

fun dotted_records :: "u8 list \<Rightarrow> nat \<Rightarrow> nat \<Rightarrow> wire_error + dotted" where
  "dotted_records msg 0 off = Inr (NoDot off)"
| "dotted_records msg (Suc n) off =
     (case dottedName msg off of
        Inl e \<Rightarrow> Inl e
      | Inr (Dotted l) \<Rightarrow> Inr (Dotted l)
      | Inr (NoDot off') \<Rightarrow>
          if off' + 10 > length msg then Inl Truncated
          else
            (case (u16_at msg off', u16_at msg (off' + 8)) of
               (Some rrtype, Some rdlength) \<Rightarrow>
                 let data = off' + 10 in
                 if data + rdlength > length msg then Inl Truncated
                 else
                   (case rdataNameOffset rrtype of
                      Some k \<Rightarrow>
                        if k < rdlength then
                          (case dottedName msg (data + k) of
                             Inl e \<Rightarrow> Inl e
                           | Inr (Dotted l) \<Rightarrow> Inr (Dotted l)
                           | Inr (NoDot _) \<Rightarrow> dotted_records msg n (data + rdlength))
                        else dotted_records msg n (data + rdlength)
                    | None \<Rightarrow> dotted_records msg n (data + rdlength))
             | _ \<Rightarrow> Inl IndexPanic))"

definition DottedWireLabel :: "u8 list \<Rightarrow> wire_error + u8 list option" where
  "DottedWireLabel msg =
     (if length msg < 12 then Inl Truncated
      else
        (case (u16_at msg 4, u16_at msg 6, u16_at msg 8, u16_at msg 10) of
           (Some qd, Some an, Some ns, Some ar) \<Rightarrow>
             (case dotted_questions msg qd 12 of
                Inl e \<Rightarrow> Inl e
              | Inr (Dotted l) \<Rightarrow> Inr (Some l)
              | Inr (NoDot off) \<Rightarrow>
                  (case dotted_records msg (an + ns + ar) off of
                     Inl e \<Rightarrow> Inl e
                   | Inr (Dotted l) \<Rightarrow> Inr (Some l)
                   | Inr (NoDot _) \<Rightarrow> Inr None))
         | _ \<Rightarrow> Inl IndexPanic))"

subsection \<open>What the wire walk is checked against\<close>

text \<open>
  \<open>name_at msg off ls\<close>: the name encoded at \<open>off\<close> has the labels \<open>ls\<close> (RFC 1035 S4.1.4);
  \<open>label_at msg off l\<close>: \<open>l\<close> is one of the labels met when reading the name at \<open>off\<close>.
\<close>

definition pointer_at :: "u8 list \<Rightarrow> nat \<Rightarrow> u8 \<Rightarrow> nat" where
  "pointer_at msg off c = unat (c AND 0x3F) * 256 + unat (msg ! (off + 1))"

definition plain_label :: "u8 list \<Rightarrow> nat \<Rightarrow> u8 \<Rightarrow> bool" where
  "plain_label msg off c \<longleftrightarrow>
     byte_at msg off = Some c \<and> c AND 0xC0 = 0 \<and> c \<noteq> 0 \<and> off + 1 + unat c \<le> length msg"

definition pointer_label :: "u8 list \<Rightarrow> nat \<Rightarrow> u8 \<Rightarrow> bool" where
  "pointer_label msg off c \<longleftrightarrow>
     byte_at msg off = Some c \<and> c AND 0xC0 = 0xC0 \<and> off + 1 < length msg"

inductive name_at :: "u8 list \<Rightarrow> nat \<Rightarrow> u8 list list \<Rightarrow> bool" for msg where
  root: "byte_at msg off = Some 0 \<Longrightarrow> name_at msg off []"
| label: "plain_label msg off c \<Longrightarrow> name_at msg (off + 1 + unat c) ls \<Longrightarrow>
     name_at msg off (take (unat c) (drop (off + 1) msg) # ls)"
| pointer: "pointer_label msg off c \<Longrightarrow> name_at msg (pointer_at msg off c) ls \<Longrightarrow>
     name_at msg off ls"

inductive label_at :: "u8 list \<Rightarrow> nat \<Rightarrow> u8 list \<Rightarrow> bool" for msg where
  here: "plain_label msg off c \<Longrightarrow> label_at msg off (take (unat c) (drop (off + 1) msg))"
| further: "plain_label msg off c \<Longrightarrow> label_at msg (off + 1 + unat c) l \<Longrightarrow> label_at msg off l"
| jump: "pointer_label msg off c \<Longrightarrow> label_at msg (pointer_at msg off c) l \<Longrightarrow> label_at msg off l"

subsection \<open>Case folding\<close>

lemma isUpper_nat: "isUpper c \<longleftrightarrow> 65 \<le> (of_char c :: nat) \<and> (of_char c :: nat) \<le> 90"
  by (simp add: isUpper_def less_eq_char_def)

lemma of_char_fold_byte: "isUpper c \<Longrightarrow> (of_char (fold_byte c) :: nat) = of_char c + 32"
  by (simp add: fold_byte_def isUpper_nat)

lemma fold_byte_lower [simp]: "\<not> isUpper (fold_byte c)"
proof (cases "isUpper c")
  case True
  then show ?thesis using of_char_fold_byte [OF True] by (simp add: isUpper_nat)
qed (simp add: fold_byte_def)

lemma fold_byte_idem [simp]: "fold_byte (fold_byte c) = fold_byte c"
  by (subst fold_byte_def) simp

lemma fold_byte_dot_iff [simp]: "fold_byte c = CHR ''.'' \<longleftrightarrow> c = CHR ''.''"
proof (cases "isUpper c")
  case True
  have "fold_byte c \<noteq> CHR ''.''"
    using of_char_fold_byte [OF True] True by (intro notI) (simp add: isUpper_nat)
  moreover have "c \<noteq> CHR ''.''"
    using True by (intro notI) (simp add: isUpper_nat)
  ultimately show ?thesis by simp
qed (simp add: fold_byte_def)

lemma fold_copy_eq_map: "fold_copy s = map fold_byte s"
  by (induction s) (auto simp: fold_byte_def)

lemma Fold_map: "Fold s = map fold_byte s"
  by (induction s) (auto simp: fold_copy_eq_map fold_byte_def)

lemma Fold_append [name_simps]: "Fold (a @ b) = Fold a @ Fold b"
  by (simp add: Fold_map)

lemma length_Fold [simp]: "length (Fold s) = length s"
  by (simp add: Fold_map)

lemma Fold_Fold [simp]: "Fold (Fold s) = Fold s"
  by (simp add: Fold_map)

lemma Fold_eq_Nil [simp]: "Fold s = [] \<longleftrightarrow> s = []"
  by (simp add: Fold_map)

lemma Fold_lower: "\<forall>c\<in>set s. \<not> isUpper c \<Longrightarrow> Fold s = s"
  by (auto simp: Fold_map fold_byte_def intro: map_idI)

lemma equal_fold_loop_map:
  "length a = length b \<Longrightarrow> equal_fold_loop a b \<longleftrightarrow> map fold_byte a = map fold_byte b"
  by (induction a b rule: list_induct2) auto

lemma EqualFold_iff: "EqualFold a b \<longleftrightarrow> Fold a = Fold b"
proof (cases "length a = length b")
  case True
  then show ?thesis by (simp add: EqualFold_def equal_fold_loop_map Fold_map)
next
  case False
  then show ?thesis using length_Fold by (auto simp: EqualFold_def) (metis length_Fold)
qed

subsection \<open>Normalised names\<close>

lemma HasSuffix_dot_snoc: "HasSuffix s ''.'' \<longleftrightarrow> (\<exists>p. s = p @ ''.'')"
  by (rule HasSuffix_iff)

lemma Normalize_upper: "c \<in> set (Normalize s) \<Longrightarrow> \<not> isUpper c"
  by (auto simp: Normalize_def TrimSuffix_def Fold_map split: if_splits dest!: in_set_takeD)

lemma Fold_Normalize [simp, name_simps]: "Fold (Normalize s) = Normalize s"
  by (rule Fold_lower) (auto dest: Normalize_upper)

lemma Normalize_Fold [simp, name_simps]: "Normalize (Fold s) = Normalize s"
  by (simp add: Normalize_def)

lemma Normalize_snoc_dot [name_simps]: "Normalize (s @ ''.'') = Fold s"
  by (simp add: Normalize_def Fold_append) (simp add: Fold_map fold_byte_def isUpper_nat)

lemma Normalize_no_dot [name_simps]: "\<not> HasSuffix s ''.'' \<Longrightarrow> Normalize s = Fold s"
proof -
  assume "\<not> HasSuffix s ''.''"
  then have "\<not> HasSuffix (Fold s) ''.''"
    by (cases s rule: rev_cases) (auto simp: HasSuffix_iff Fold_map)
  then show ?thesis by (simp add: Normalize_def TrimSuffix_id)
qed

text \<open>A name ending in a byte other than a dot is normalised once and for all.\<close>

lemma Normalize_idem: "\<not> HasSuffix (Normalize s) ''.'' \<Longrightarrow> Normalize (Normalize s) = Normalize s"
  by (simp add: Normalize_no_dot)

lemma split_at_append_sep: "split_at c (a @ c # b) = split_at c a @ split_at c b"
proof (induction a)
  case (Cons x a)
  then show ?case by (cases "split_at c a") auto
qed simp

lemma split_at_inj: "split_at c a = split_at c b \<Longrightarrow> a = b"
  by (metis join_split_at)

lemma join_with_append:
  "ls \<noteq> [] \<Longrightarrow> ms \<noteq> [] \<Longrightarrow> join_with sep (ls @ ms) = join_with sep ls @ sep @ join_with sep ms"
proof (induction ls)
  case (Cons l ls)
  then show ?case by (cases ls; cases ms) auto
qed simp

lemma label_suffix_iff:
  "(n = z \<or> HasSuffix n (CHR ''.'' # z)) \<longleftrightarrow>
   (\<exists>ls. split_at (CHR ''.'') n = ls @ split_at (CHR ''.'') z)"
proof
  assume "n = z \<or> HasSuffix n (CHR ''.'' # z)"
  then show "\<exists>ls. split_at (CHR ''.'') n = ls @ split_at (CHR ''.'') z"
    by (auto simp: HasSuffix_iff split_at_append_sep)
next
  assume "\<exists>ls. split_at (CHR ''.'') n = ls @ split_at (CHR ''.'') z"
  then obtain ls where ls: "split_at (CHR ''.'') n = ls @ split_at (CHR ''.'') z" ..
  show "n = z \<or> HasSuffix n (CHR ''.'' # z)"
  proof (cases "ls = []")
    case True
    with ls show ?thesis using split_at_inj by simp
  next
    case False
    have "n = join_with ''.'' (split_at (CHR ''.'') n)" by (simp add: join_split_at)
    also have "\<dots> = join_with ''.'' ls @ ''.'' @ z"
      using ls False by (simp add: join_with_append join_split_at)
    finally show ?thesis by (auto simp: HasSuffix_iff)
  qed
qed

lemma IsAtOrBelow_refl [simp]: "IsAtOrBelow n n"
  by (simp add: IsAtOrBelow_def Let_def)

lemma IsAtOrBelow_cong: "Normalize a = Normalize a' \<Longrightarrow> IsAtOrBelow a z = IsAtOrBelow a' z"
  by (simp add: IsAtOrBelow_def)

subsection \<open>The wire walk\<close>

text \<open>One unfolding of the loop, by the kind of byte met.\<close>

lemma dottedName_loop_cases [consumes 1, case_names fail root found label pointer]:
  assumes "dottedName_loop msg off nxt hops = r"
    and "\<And>e. r = Inl e \<Longrightarrow> e \<noteq> IndexPanic \<Longrightarrow> P"
    and "byte_at msg off = Some 0 \<Longrightarrow>
           r = Inr (NoDot (case nxt of None \<Rightarrow> off + 1 | Some n \<Rightarrow> n)) \<Longrightarrow> P"
    and "\<And>c. plain_label msg off c \<Longrightarrow> dot \<in> set (take (unat c) (drop (off + 1) msg)) \<Longrightarrow>
           r = Inr (Dotted (take (unat c) (drop (off + 1) msg))) \<Longrightarrow> P"
    and "\<And>c. plain_label msg off c \<Longrightarrow> dot \<notin> set (take (unat c) (drop (off + 1) msg)) \<Longrightarrow>
           dottedName_loop msg (off + 1 + unat c) nxt hops = r \<Longrightarrow> P"
    and "\<And>c. pointer_label msg off c \<Longrightarrow> pointer_at msg off c < off \<Longrightarrow> hops < maxPointerHops \<Longrightarrow>
           dottedName_loop msg (pointer_at msg off c)
             (case nxt of None \<Rightarrow> Some (off + 2) | Some n \<Rightarrow> Some n) (hops + 1) = r \<Longrightarrow> P"
  shows P
  using assms
  by (subst (asm) dottedName_loop.simps)
     (auto simp: plain_label_def pointer_label_def pointer_at_def Let_def
       split: option.splits if_splits)

lemma dottedName_loop_sound:
  "(\<forall>n. dottedName_loop msg off nxt hops = Inr (NoDot n) \<longrightarrow>
       (\<exists>ls. name_at msg off ls \<and> (\<forall>l\<in>set ls. dot \<notin> set l))) \<and>
   (\<forall>l. dottedName_loop msg off nxt hops = Inr (Dotted l) \<longrightarrow> label_at msg off l \<and> dot \<in> set l) \<and>
   dottedName_loop msg off nxt hops \<noteq> Inl IndexPanic"
proof (induction msg off nxt hops rule: dottedName_loop.induct)
  case (1 msg off nxt hops)
  have "dottedName_loop msg off nxt hops = dottedName_loop msg off nxt hops" ..
  then show ?case
  proof (cases rule: dottedName_loop_cases)
    case (label c)
    then have IH: "(\<forall>n. dottedName_loop msg (off + 1 + unat c) nxt hops = Inr (NoDot n) \<longrightarrow>
        (\<exists>ls. name_at msg (off + 1 + unat c) ls \<and> (\<forall>l\<in>set ls. dot \<notin> set l))) \<and>
      (\<forall>l. dottedName_loop msg (off + 1 + unat c) nxt hops = Inr (Dotted l) \<longrightarrow>
        label_at msg (off + 1 + unat c) l \<and> dot \<in> set l) \<and>
      dottedName_loop msg (off + 1 + unat c) nxt hops \<noteq> Inl IndexPanic"
      using "1.IH"(1) [of c] by (auto simp: plain_label_def)
    show ?thesis
    proof (intro conjI allI impI)
      fix n
      assume "dottedName_loop msg off nxt hops = Inr (NoDot n)"
      then obtain ls where "name_at msg (off + 1 + unat c) ls" "\<forall>l\<in>set ls. dot \<notin> set l"
        using IH label(3) by auto
      then show "\<exists>ls. name_at msg off ls \<and> (\<forall>l\<in>set ls. dot \<notin> set l)"
        using name_at.label [OF label(1)] label(2) by (metis set_ConsD)
    qed (use IH label(3) label_at.further [OF label(1)] in auto)
  next
    case (pointer c)
    let ?nxt = "case nxt of None \<Rightarrow> Some (off + 2) | Some n \<Rightarrow> Some n"
    have IH: "(\<forall>n. dottedName_loop msg (pointer_at msg off c) ?nxt (hops + 1) = Inr (NoDot n) \<longrightarrow>
        (\<exists>ls. name_at msg (pointer_at msg off c) ls \<and> (\<forall>l\<in>set ls. dot \<notin> set l))) \<and>
      (\<forall>l. dottedName_loop msg (pointer_at msg off c) ?nxt (hops + 1) = Inr (Dotted l) \<longrightarrow>
        label_at msg (pointer_at msg off c) l \<and> dot \<in> set l) \<and>
      dottedName_loop msg (pointer_at msg off c) ?nxt (hops + 1) \<noteq> Inl IndexPanic"
      using "1.IH"(2) [of c "pointer_at msg off c"] pointer
      by (auto simp: pointer_label_def pointer_at_def)
    show ?thesis
    proof (intro conjI allI impI)
      fix n
      assume "dottedName_loop msg off nxt hops = Inr (NoDot n)"
      then obtain ls where "name_at msg (pointer_at msg off c) ls" "\<forall>l\<in>set ls. dot \<notin> set l"
        using IH pointer(4) by auto
      then show "\<exists>ls. name_at msg off ls \<and> (\<forall>l\<in>set ls. dot \<notin> set l)"
        using name_at.pointer [OF pointer(1)] by blast
    qed (use IH pointer(4) label_at.jump [OF pointer(1)] in auto)
  qed (auto intro: name_at.root label_at.here [simplified])
qed

lemma dottedName_no_panic: "dottedName msg off \<noteq> Inl IndexPanic"
  unfolding dottedName_def using dottedName_loop_sound by blast

lemma dottedName_Dotted: "dottedName msg off = Inr (Dotted l) \<Longrightarrow> label_at msg off l \<and> dot \<in> set l"
  unfolding dottedName_def using dottedName_loop_sound by blast

lemma u16_at_Some: "off + 2 \<le> length msg \<Longrightarrow> \<exists>n. u16_at msg off = Some n"
  by (simp add: u16_at_def byte_at_def)

lemma dotted_questions_sound:
  "dotted_questions msg n off \<noteq> Inl IndexPanic \<and>
   (\<forall>l. dotted_questions msg n off = Inr (Dotted l) \<longrightarrow> dot \<in> set l \<and> (\<exists>o'. label_at msg o' l))"
proof (induction n arbitrary: off)
  case (Suc n)
  then show ?case
    using dottedName_no_panic [of msg off] dottedName_Dotted [of msg off]
    by (auto split: sum.splits dotted.splits)
qed simp

lemma dotted_records_sound:
  "dotted_records msg n off \<noteq> Inl IndexPanic \<and>
   (\<forall>l. dotted_records msg n off = Inr (Dotted l) \<longrightarrow> dot \<in> set l \<and> (\<exists>o'. label_at msg o' l))"
proof (induction n arbitrary: off)
  case (Suc n)
  show ?case
  proof (cases "dottedName msg off")
    case (Inr d)
    show ?thesis
    proof (cases d)
      case (NoDot off')
      show ?thesis
      proof (cases "off' + 10 > length msg")
        case False
        then obtain t r where "u16_at msg off' = Some t" "u16_at msg (off' + 8) = Some r"
          using u16_at_Some [of off' msg] u16_at_Some [of "off' + 8" msg] by auto
        then show ?thesis
          using Inr NoDot False Suc.IH [of "off' + 10 + r"]
            dottedName_no_panic [of msg "off' + 10 + the (rdataNameOffset t)"]
            dottedName_Dotted [of msg "off' + 10 + the (rdataNameOffset t)"]
          by (cases "rdataNameOffset t") (auto simp: Let_def split: sum.splits dotted.splits)
      qed (use Inr NoDot in simp)
    qed (use Inr dottedName_Dotted in auto)
  qed (use dottedName_no_panic in auto)
qed simp

text \<open>
  Walking any byte string as a DNS message reads no byte out of range and always
  returns; a label it reports really is a label of a name of the message, and holds a dot.
\<close>

theorem DottedWireLabel_safe:
  "DottedWireLabel msg \<noteq> Inl IndexPanic \<and>
   (\<forall>l. DottedWireLabel msg = Inr (Some l) \<longrightarrow> dot \<in> set l \<and> (\<exists>off. label_at msg off l))"
proof (cases "length msg < 12")
  case False
  then obtain q a b c where
    "u16_at msg 4 = Some q" "u16_at msg 6 = Some a" "u16_at msg 8 = Some b" "u16_at msg 10 = Some c"
    using u16_at_Some [of 4 msg] u16_at_Some [of 6 msg] u16_at_Some [of 8 msg]
      u16_at_Some [of 10 msg] by auto
  then show ?thesis
    using False dotted_questions_sound dotted_records_sound
    by (auto simp: DottedWireLabel_def split: sum.splits dotted.splits)
qed (simp add: DottedWireLabel_def)

theorem DottedWireLabel_safe_witness:
  "\<exists>off. label_at [0, 0, 0, 0, 0, 1, 0, 0, 0, 0, 0, 0, 3, 97, 46, 98, 0, 0, 1, 0, 1] off [97, 46, 98]"
proof -
  have "DottedWireLabel [0, 0, 0, 0, 0, 1, 0, 0, 0, 0, 0, 0, 3, 97, 46, 98, 0, 0, 1, 0, 1] = Inr (Some [97, 46, 98])"
    by code_simp
  with DottedWireLabel_safe show ?thesis by blast
qed

text \<open>
  \<open>Fold\<close>, which returns its argument until the first upper-case letter and rewrites a copy
  from there on, is the bytewise fold of ASCII letters, and \<open>EqualFold\<close> decides equality of the
  folded names.
\<close>

theorem Fold_bytewise:
  "Fold s = map fold_byte s \<and> (EqualFold s t \<longleftrightarrow> Fold s = Fold t)"
  by (simp add: Fold_map EqualFold_iff)

text \<open>
  \<open>IsAtOrBelow\<close> compares whole labels: a name is at or below a zone exactly if the labels of
  the zone, case folded and without a trailing dot, end the labels of the name.
\<close>

theorem IsAtOrBelow_labels:
  "IsAtOrBelow name zone \<longleftrightarrow> (\<exists>ls. Labels (Normalize name) = ls @ Labels (Normalize zone))"
proof (cases "Normalize zone = []")
  case False
  then have "split_at (CHR ''.'') [] \<noteq> ls @ split_at (CHR ''.'') (Normalize zone)" for ls
    using split_at_inj [of "CHR ''.''" "[]" "Normalize zone"]
    by (cases ls) (auto simp: append_eq_Cons_conv)
  then show ?thesis using False label_suffix_iff [of "Normalize name" "Normalize zone"]
    by (auto simp: IsAtOrBelow_def Labels_def)
qed (simp add: IsAtOrBelow_def Labels_def)

end
