(* ===== verification/Dns_Model.thy ===== *)
theory Dns_Model
  imports Dnsname
begin

text \<open>
  The DNS data the proxy works on. The types are those of the package
  \<open>codeberg.org/miekg/dns\<close> as far as the proxy reads or writes their fields: a resource
  record is a header and typed RDATA, a \<open>*dns.KEY\<close> is a record of its own, and a message has
  the five sections of that library (its \<open>Pseudo\<close> section carries EDNS(0) options and SIG(0)).
  Pointers to records that the code tests for nil are \<open>key option\<close>; the elements of a
  section are never nil, since the library's unpacker makes none. \<open>Clone\<close> is the identity,
  since a value of the model is never shared.

  What that library computes is not defined here: it is the argument \<open>lib\<close> of every
  definition that needs it, a record of functions (\<open>dnslib\<close>).
\<close>

subsection \<open>Resource records\<close>

datatype edns0 =
    ERFC3597 u16 string
  | EDE u16 string
  | EDNS0_other u16 string

record key =
  key_name :: string
  key_class :: u16
  key_ttl :: u32
  Flags :: u16
  Protocol :: u8
  Algorithm :: u8
  PublicKey :: string

record sig =
  SignerName :: string
  sig_Algorithm :: u8
  sig_KeyTag :: u16
  sig_Labels :: u8
  OrigTTL :: u32
  Expiration :: u32
  Inception :: u32
  Signature :: string

text \<open>Record types whose RDATA is one name, and those with a preference and a name.\<close>

datatype name_type = NS | MD | MF | MB | MG | MR | DNAME | CNAME
datatype pref_type = MX | AFSDB | RT | KX
datatype pair_type = MINFO | RP

datatype rdata =
    KEY_data u16 u8 u8 string
  | A_data string
  | AAAA_data string
  | PTR_data string
  | SRV_data u16 u16 u16 string
  | TXT_data "string list"
  | Name_data name_type string
  | Pref_data pref_type u16 string
  | Pair_data pair_type string string
  | PX_data u16 string string
  | NAPTR_data u16 u16 string string string string
  | SOA_data string string "u32 list"
  | SIG_data sig
  | OPT_data "edns0 list"
  | EDNS0_data edns0
  | ANY_data
  | RFC3597_data u16 string
  | Other_data u16 string

record rr =
  rr_name :: string
  rr_class :: u16
  rr_ttl :: u32
  rr_data :: rdata

definition TypeSOA :: u16 where "TypeSOA = 6"
definition TypeCNAME :: u16 where "TypeCNAME = 5"
definition TypeKEY :: u16 where "TypeKEY = 25"
definition TypeANY :: u16 where "TypeANY = 255"
definition TypePTR :: u16 where "TypePTR = 12"
definition TypeTXT :: u16 where "TypeTXT = 16"
definition ClassINET :: u16 where "ClassINET = 1"
definition ClassNONE :: u16 where "ClassNONE = 254"
definition ClassANY :: u16 where "ClassANY = 255"

definition RcodeSuccess :: u16 where "RcodeSuccess = 0"
definition RcodeFormatError :: u16 where "RcodeFormatError = 1"
definition RcodeServerFailure :: u16 where "RcodeServerFailure = 2"
definition RcodeNameError :: u16 where "RcodeNameError = 3"
definition RcodeRefused :: u16 where "RcodeRefused = 5"
definition RcodeYXDomain :: u16 where "RcodeYXDomain = 6"
definition RcodeYXRrset :: u16 where "RcodeYXRrset = 7"

lemmas dns_consts = TypeSOA_def TypeCNAME_def TypeKEY_def TypeANY_def TypePTR_def TypeTXT_def
  ClassINET_def ClassNONE_def ClassANY_def RcodeSuccess_def RcodeFormatError_def
  RcodeServerFailure_def RcodeNameError_def RcodeRefused_def RcodeYXDomain_def RcodeYXRrset_def

text \<open>The type code of a record (the IANA registry's numbers): \<open>dns.RRToType\<close>.\<close>

fun name_type_code :: "name_type \<Rightarrow> u16" where
  "name_type_code NS = 2"
| "name_type_code MD = 3"
| "name_type_code MF = 4"
| "name_type_code CNAME = 5"
| "name_type_code MB = 7"
| "name_type_code MG = 8"
| "name_type_code MR = 9"
| "name_type_code DNAME = 39"

fun pref_type_code :: "pref_type \<Rightarrow> u16" where
  "pref_type_code MX = 15"
| "pref_type_code AFSDB = 18"
| "pref_type_code RT = 21"
| "pref_type_code KX = 36"

fun pair_type_code :: "pair_type \<Rightarrow> u16" where
  "pair_type_code MINFO = 14"
| "pair_type_code RP = 17"

fun type_code :: "rdata \<Rightarrow> u16" where
  "type_code (KEY_data _ _ _ _) = 25"
| "type_code (A_data _) = 1"
| "type_code (AAAA_data _) = 28"
| "type_code (PTR_data _) = 12"
| "type_code (SRV_data _ _ _ _) = 33"
| "type_code (TXT_data _) = 16"
| "type_code (Name_data t _) = name_type_code t"
| "type_code (Pref_data t _ _) = pref_type_code t"
| "type_code (Pair_data t _ _) = pair_type_code t"
| "type_code (PX_data _ _ _) = 26"
| "type_code (NAPTR_data _ _ _ _ _ _) = 35"
| "type_code (SOA_data _ _ _) = 6"
| "type_code (SIG_data _) = 24"
| "type_code (OPT_data _) = 41"
| "type_code (EDNS0_data _) = 41"
| "type_code ANY_data = 255"
| "type_code (RFC3597_data t _) = t"
| "type_code (Other_data t _) = t"

definition RRToType :: "rr \<Rightarrow> u16" where
  "RRToType r = type_code (rr_data r)"

text \<open>A \<open>*dns.KEY\<close> used as a \<open>dns.RR\<close>, and the type assertion back.\<close>

definition of_key :: "key \<Rightarrow> rr" where
  "of_key k = \<lparr>rr_name = key_name k, rr_class = key_class k, rr_ttl = key_ttl k,
     rr_data = KEY_data (Flags k) (Protocol k) (Algorithm k) (PublicKey k)\<rparr>"

definition as_key :: "rr \<Rightarrow> key option" where
  "as_key r = (case rr_data r of
     KEY_data f p a k \<Rightarrow> Some \<lparr>key_name = rr_name r, key_class = rr_class r, key_ttl = rr_ttl r,
       Flags = f, Protocol = p, Algorithm = a, PublicKey = k\<rparr>
   | _ \<Rightarrow> None)"

definition as_sig :: "rr \<Rightarrow> sig option" where
  "as_sig r = (case rr_data r of SIG_data s \<Rightarrow> Some s | _ \<Rightarrow> None)"

lemma as_key_of_key [simp]: "as_key (of_key k) = Some k"
  by (simp add: as_key_def of_key_def)

lemma as_key_Some: "as_key r = Some k \<longleftrightarrow> r = of_key k"
  by (cases r; cases k) (auto simp: as_key_def of_key_def split: rdata.splits)

lemma RRToType_of_key [simp]: "RRToType (of_key k) = 25"
  by (simp add: RRToType_def of_key_def)

lemma of_key_inject [simp]: "of_key a = of_key b \<longleftrightarrow> a = b"
  by (metis as_key_of_key option.inject)

subsection \<open>Messages\<close>

record msg =
  msg_ID :: u16
  msg_Opcode :: u8
  msg_Response :: bool
  msg_Authoritative :: bool
  msg_Truncated :: bool
  msg_UDPSize :: u16
  msg_Rcode :: u16
  msg_Question :: "rr list"
  msg_Answer :: "rr list"
  msg_Ns :: "rr list"
  msg_Extra :: "rr list"
  msg_Pseudo :: "rr list"
  msg_Data :: "u8 list"

definition OpcodeUpdate :: u8 where
  "OpcodeUpdate = 5"

definition empty_msg :: msg where
  "empty_msg = \<lparr>msg_ID = 0, msg_Opcode = 0, msg_Response = False, msg_Authoritative = False,
     msg_Truncated = False, msg_UDPSize = 0, msg_Rcode = 0, msg_Question = [], msg_Answer = [],
     msg_Ns = [], msg_Extra = [], msg_Pseudo = [], msg_Data = []\<rparr>"

subsection \<open>The library\<close>

text \<open>
  \<open>KeyTag k\<close> is \<open>k.KeyTag()\<close> (RFC 4034 appendix B), \<open>DataString\<close> and \<open>DataLen\<close> are the
  presentation text and wire length of RDATA (\<open>rr.Data().String()\<close>, \<open>rr.Data().Len()\<close>),
  \<open>PackRR\<close> packs a message with the record as its one answer, and \<open>UnpackMsg\<close> unpacks one,
  giving its question, answer, authority and additional sections. \<open>DefaultMsgSize\<close> is the UDP
  size the library advertises, \<open>RRString\<close> the presentation line of a record (\<open>rr.String()\<close>).
\<close>

record dnslib =
  KeyTag :: "key \<Rightarrow> u16"
  DataString :: "rdata \<Rightarrow> string"
  DataLen :: "rdata \<Rightarrow> nat"
  PackRR :: "rr \<Rightarrow> string option"
  UnpackMsg :: "string \<Rightarrow> (rr list \<times> rr list \<times> rr list \<times> rr list) option"
  DefaultMsgSize :: u16
  RRString :: "rr \<Rightarrow> string"

end
