(* ===== verification/Lease_Option.thy ===== *)
theory Lease_Option
  imports Dns_Model
begin

unbundle bit_operations_syntax

text \<open>
  The Update Lease EDNS(0) option of RFC 9664 (\<open>pkg/lease/lease.go\<close>), with the parts of Go's
  \<open>encoding/hex\<close> and \<open>encoding/binary\<close> it uses. Options and their seconds are 32-bit words.

  The theorems: what \<open>Encode\<close> appends, \<open>Decode\<close> reads back; a text is accepted exactly if it
  is the hex form of four or eight bytes with a valid pair of durations; the search finds the
  first option in message order, pseudo section first, and misses none.
\<close>

subsection \<open>Package encoding/hex\<close>

datatype hex_error = InvalidByteError char | ErrLength

definition hex_digit :: "nat \<Rightarrow> char" where
  "hex_digit d = (if d < 10 then char_of (48 + d) else char_of (87 + d))"

definition from_hex :: "char \<Rightarrow> nat option" where
  "from_hex c =
     (let n = of_char c :: nat in
      if 48 \<le> n \<and> n \<le> 57 then Some (n - 48)
      else if 97 \<le> n \<and> n \<le> 102 then Some (n - 87)
      else if 65 \<le> n \<and> n \<le> 70 then Some (n - 55)
      else None)"

fun EncodeToString :: "u8 list \<Rightarrow> string" where
  "EncodeToString [] = []"
| "EncodeToString (b # bs) =
     hex_digit (unat b div 16) # hex_digit (unat b mod 16) # EncodeToString bs"

fun DecodeString :: "string \<Rightarrow> hex_error + u8 list" where
  "DecodeString [] = Inr []"
| "DecodeString [c] =
     (case from_hex c of None \<Rightarrow> Inl (InvalidByteError c) | Some _ \<Rightarrow> Inl ErrLength)"
| "DecodeString (c # d # s) =
     (case from_hex c of
        None \<Rightarrow> Inl (InvalidByteError c)
      | Some a \<Rightarrow> (case from_hex d of
          None \<Rightarrow> Inl (InvalidByteError d)
        | Some b \<Rightarrow> (case DecodeString s of
            Inl e \<Rightarrow> Inl e
          | Inr bs \<Rightarrow> Inr (of_nat (16 * a + b) # bs))))"

subsection \<open>Package encoding/binary\<close>

definition PutUint32 :: "u32 \<Rightarrow> u8 list" where
  "PutUint32 w = [ucast (drop_bit 24 w), ucast (drop_bit 16 w), ucast (drop_bit 8 w), ucast w]"

definition Uint32 :: "u8 \<Rightarrow> u8 \<Rightarrow> u8 \<Rightarrow> u8 \<Rightarrow> u32" where
  "Uint32 a b c d =
     ucast d OR push_bit 8 (ucast c) OR push_bit 16 (ucast b) OR push_bit 24 (ucast a)"

subsection \<open>The option\<close>

record LeaseOption =
  Lease :: u32
  KeyLease :: "u32 option"

datatype lease_error =
    LeaseExceedsKeyLease u32 u32
  | InvalidHex hex_error
  | InvalidOptionLength nat
  | OptionNotFoundInOPT
  | OptionNotFoundInMessage

definition OPTION_CODE :: u16 where
  "OPTION_CODE = 2"

definition Encode4Byte :: "u32 \<Rightarrow> LeaseOption" where
  "Encode4Byte lease = \<lparr>Lease = lease, KeyLease = None\<rparr>"

definition Encode8Byte :: "u32 \<Rightarrow> u32 \<Rightarrow> LeaseOption" where
  "Encode8Byte lease keyLease = \<lparr>Lease = lease, KeyLease = Some keyLease\<rparr>"

definition Validate :: "LeaseOption \<Rightarrow> lease_error option" where
  "Validate lo =
     (case KeyLease lo of
        Some kl \<Rightarrow>
          if kl \<noteq> 0 \<and> Lease lo \<noteq> 0 \<and> Lease lo > kl
          then Some (LeaseExceedsKeyLease (Lease lo) kl) else None
      | None \<Rightarrow> None)"

text \<open>\<open>Encode\<close> appends to the options of an OPT record.\<close>

definition Encode :: "LeaseOption \<Rightarrow> edns0 list \<Rightarrow> lease_error + edns0 list" where
  "Encode lo opts =
     (case Validate lo of
        Some e \<Rightarrow> Inl e
      | None \<Rightarrow>
          let keyLease = (case KeyLease lo of Some kl \<Rightarrow> kl | None \<Rightarrow> 0);
              buf = PutUint32 (Lease lo) @ PutUint32 keyLease
          in Inr (opts @ [ERFC3597 OPTION_CODE (EncodeToString buf)]))"

text \<open>
  \<open>decodeERFC\<close> is a method that writes its receiver: the result is the receiver afterwards
  and the error. The receiver keeps what was decoded when only the final validation fails.
\<close>

definition decodeERFC :: "LeaseOption \<Rightarrow> string \<Rightarrow> LeaseOption \<times> lease_error option" where
  "decodeERFC lo code =
     (case DecodeString code of
        Inl e \<Rightarrow> (lo, Some (InvalidHex e))
      | Inr [a, b, c, d] \<Rightarrow>
          let lo' = \<lparr>Lease = Uint32 a b c d, KeyLease = None\<rparr> in (lo', Validate lo')
      | Inr [a, b, c, d, e, f, g, h] \<Rightarrow>
          let lo' = \<lparr>Lease = Uint32 a b c d, KeyLease = Some (Uint32 e f g h)\<rparr>
          in (lo', Validate lo')
      | Inr data \<Rightarrow> (lo, Some (InvalidOptionLength (length data))))"

definition is_lease_option :: "edns0 \<Rightarrow> string option" where
  "is_lease_option e =
     (case e of ERFC3597 c data \<Rightarrow> if c = OPTION_CODE then Some data else None | _ \<Rightarrow> None)"

fun find_in_options :: "edns0 list \<Rightarrow> string option" where
  "find_in_options [] = None"
| "find_in_options (e # es) =
     (case is_lease_option e of Some d \<Rightarrow> Some d | None \<Rightarrow> find_in_options es)"

definition Decode :: "LeaseOption \<Rightarrow> edns0 list \<Rightarrow> LeaseOption \<times> lease_error option" where
  "Decode lo opts =
     (case find_in_options opts of
        Some code \<Rightarrow> decodeERFC lo code
      | None \<Rightarrow> (lo, Some OptionNotFoundInOPT))"

text \<open>The closure \<open>scan\<close> of \<open>FindOption\<close>, over the records of one section.\<close>

fun scan :: "rr list \<Rightarrow> string option" where
  "scan [] = None"
| "scan (r # rs) =
     (case rr_data r of
        EDNS0_data e \<Rightarrow> (case is_lease_option e of Some d \<Rightarrow> Some d | None \<Rightarrow> scan rs)
      | OPT_data es \<Rightarrow> (case find_in_options es of Some d \<Rightarrow> Some d | None \<Rightarrow> scan rs)
      | _ \<Rightarrow> scan rs)"

definition FindOption :: "msg option \<Rightarrow> string option" where
  "FindOption m =
     (case m of
        None \<Rightarrow> None
      | Some m \<Rightarrow> (case scan (msg_Pseudo m) of
          Some d \<Rightarrow> Some d
        | None \<Rightarrow> scan (msg_Extra m)))"

definition DecodeOption :: "string \<Rightarrow> lease_error + LeaseOption" where
  "DecodeOption code =
     (case decodeERFC \<lparr>Lease = 0, KeyLease = None\<rparr> code of
        (lo, None) \<Rightarrow> Inr lo
      | (_, Some e) \<Rightarrow> Inl e)"

definition FindAndDecode :: "msg option \<Rightarrow> lease_error + LeaseOption" where
  "FindAndDecode m =
     (case FindOption m of
        None \<Rightarrow> Inl OptionNotFoundInMessage
      | Some code \<Rightarrow> DecodeOption code)"

subsection \<open>Hex and big-endian round trips\<close>

lemma from_hex_digit: "d < 16 \<Longrightarrow> from_hex (hex_digit d) = Some d"
  by (simp add: from_hex_def hex_digit_def Let_def)

lemma DecodeString_EncodeToString: "DecodeString (EncodeToString bs) = Inr bs"
proof (induction bs)
  case (Cons b bs)
  have "unat b < 2 ^ LENGTH(8)" by (rule unsigned_less)
  then have "unat b div 16 < 16" by simp
  moreover have "unat b mod 16 < 16" by simp
  moreover have "(of_nat (16 * (unat b div 16) + unat b mod 16) :: u8) = b"
    by (simp only: mult_div_mod_eq) simp
  ultimately show ?case using Cons by (simp only: EncodeToString.simps DecodeString.simps) (simp add: from_hex_digit)
qed simp

lemma DecodeString_length: "DecodeString s = Inr bs \<Longrightarrow> length s = 2 * length bs"
  by (induction s arbitrary: bs rule: DecodeString.induct) (auto split: option.splits sum.splits)

lemma Uint32_bytes:
  "Uint32 (ucast (drop_bit 24 w)) (ucast (drop_bit 16 w)) (ucast (drop_bit 8 w)) (ucast w) = w"
proof (rule bit_word_eqI)
  fix n assume "n < LENGTH(32)"
  then show "bit (Uint32 (ucast (drop_bit 24 w)) (ucast (drop_bit 16 w)) (ucast (drop_bit 8 w)) (ucast w)) n = bit w n"
    by (cases "24 \<le> n"; cases "16 \<le> n"; cases "8 \<le> n") (auto simp: Uint32_def bit_simps)
qed

subsection \<open>Encoding and decoding\<close>

definition key_lease_or_0 :: "LeaseOption \<Rightarrow> u32" where
  "key_lease_or_0 lo = (case KeyLease lo of Some kl \<Rightarrow> kl | None \<Rightarrow> 0)"

lemma Validate_default:
  "Validate lo = None \<Longrightarrow> Validate \<lparr>Lease = Lease lo, KeyLease = Some (key_lease_or_0 lo)\<rparr> = None"
  by (simp add: Validate_def key_lease_or_0_def split: option.splits if_splits)

lemma decodeERFC_encoded:
  "decodeERFC lo0 (EncodeToString (PutUint32 l @ PutUint32 k)) =
     (\<lparr>Lease = l, KeyLease = Some k\<rparr>, Validate \<lparr>Lease = l, KeyLease = Some k\<rparr>)"
  by (simp only: decodeERFC_def DecodeString_EncodeToString)
     (simp add: PutUint32_def Uint32_bytes Let_def)

lemma Encode_Inr:
  "Encode lo opts = Inr opts' \<longleftrightarrow> Validate lo = None \<and>
     opts' = opts @ [ERFC3597 OPTION_CODE (EncodeToString (PutUint32 (Lease lo) @ PutUint32 (key_lease_or_0 lo)))]"
  by (auto simp: Encode_def key_lease_or_0_def Let_def split: option.splits)

lemma find_in_options_append:
  "find_in_options (xs @ ys) = (case find_in_options xs of Some d \<Rightarrow> Some d | None \<Rightarrow> find_in_options ys)"
  by (induction xs) (auto split: option.splits)

lemma find_in_options_None: "find_in_options es = None \<longleftrightarrow> (\<forall>e \<in> set es. is_lease_option e = None)"
  by (induction es) (auto split: option.splits)

lemma DecodeOption_Inr: "DecodeOption code = Inr lo \<longleftrightarrow>
   (\<exists>lo0. decodeERFC \<lparr>Lease = 0, KeyLease = None\<rparr> code = (lo0, None) \<and> lo0 = lo)"
  by (auto simp: DecodeOption_def split: prod.splits option.splits)

text \<open>The options of a message in the order of the search: one list for both sections.\<close>

definition record_options :: "rr \<Rightarrow> edns0 list" where
  "record_options r = (case rr_data r of EDNS0_data e \<Rightarrow> [e] | OPT_data es \<Rightarrow> es | _ \<Rightarrow> [])"

definition message_options :: "msg \<Rightarrow> edns0 list" where
  "message_options m = concat (map record_options (msg_Pseudo m @ msg_Extra m))"

lemma scan_options: "scan rs = find_in_options (concat (map record_options rs))"
proof (induction rs)
  case (Cons r rs)
  then show ?case
    by (cases "rr_data r") (auto simp: record_options_def find_in_options_append split: option.splits)
qed simp

text \<open>
  An option that \<open>Encode\<close> accepts is read back by \<open>Decode\<close> from the OPT record it was
  appended to, with the same LEASE and, for an option without KEY-LEASE, a KEY-LEASE of zero,
  whatever the receiver held before, provided the record carried no Update Lease option yet.
\<close>

theorem lease_option_roundtrip:
  assumes "Encode lo opts = Inr opts'" and "find_in_options opts = None"
  shows "Decode lo0 opts' = (\<lparr>Lease = Lease lo, KeyLease = Some (key_lease_or_0 lo)\<rparr>, None)"
  using assms Validate_default [of lo]
  by (auto simp: Decode_def Encode_Inr find_in_options_append is_lease_option_def decodeERFC_encoded)

theorem lease_option_roundtrip_witness:
  "Decode (Encode4Byte 0) [EDE 18 ''x'', ERFC3597 2 ''0000003c00000e10''] = (Encode8Byte 60 3600, None)"
proof -
  have "Encode (Encode8Byte 60 3600) [EDE 18 ''x''] = Inr [EDE 18 ''x'', ERFC3597 2 ''0000003c00000e10'']"
    by code_simp
  from lease_option_roundtrip [OF this] show ?thesis
    by (simp add: is_lease_option_def Encode8Byte_def key_lease_or_0_def)
qed

text \<open>
  \<open>DecodeOption\<close> accepts a text exactly if it is hex for four bytes, which give a LEASE
  alone, or for eight bytes, which give LEASE and KEY-LEASE with a LEASE that does not exceed
  a KEY-LEASE unless one of them is zero.
\<close>

theorem DecodeOption_accepts:
  "DecodeOption code = Inr lo \<longleftrightarrow>
     (\<exists>a b c d. DecodeString code = Inr [a, b, c, d] \<and> lo = Encode4Byte (Uint32 a b c d)) \<or>
     (\<exists>a b c d e f g h. DecodeString code = Inr [a, b, c, d, e, f, g, h] \<and>
        lo = Encode8Byte (Uint32 a b c d) (Uint32 e f g h) \<and>
        (Uint32 e f g h = 0 \<or> Uint32 a b c d \<le> Uint32 e f g h))"
  unfolding DecodeOption_Inr
  by (auto simp: decodeERFC_def Encode4Byte_def Encode8Byte_def Validate_def Let_def not_less
      split: sum.splits list.splits if_splits)

text \<open>
  \<open>FindOption\<close> returns the first Update Lease option of the message: the options of the
  pseudo section come before those of the additional section, bare ones and those nested in
  an OPT record alike, and none is missed.
\<close>

theorem FindOption_first:
  "FindOption (Some m) = (case dropWhile (\<lambda>e. is_lease_option e = None) (message_options m) of
     [] \<Rightarrow> None | e # _ \<Rightarrow> is_lease_option e)"
proof -
  have first: "find_in_options es = (case dropWhile (\<lambda>e. is_lease_option e = None) es of
     [] \<Rightarrow> None | e # _ \<Rightarrow> is_lease_option e)" for es
    by (induction es) (auto split: option.splits)
  have "FindOption (Some m) = find_in_options (message_options m)"
    by (simp add: FindOption_def scan_options message_options_def find_in_options_append split: option.split)
  with first show ?thesis by simp
qed

end
