(* ===== verification/Lease_Store.thy ===== *)
theory Lease_Store
  imports Node_Identity
begin

text \<open>
  The in-memory lease store (\<open>pkg/lease/state.go\<close>): a forest of KEY nodes and non-KEY nodes,
  kept as two flat maps by node identity, with two derived indices, \<open>nameIdx\<close> from a name to
  the KEY nodes at it and \<open>children\<close> from a node to the set of its children.

  One definition per method of \<open>InMemoryLeaseStore\<close>. A method that can fail returns the store
  after the call together with the error, so that what a failing call leaves behind is part of
  the model. The clock is the argument \<open>now\<close>. The persistence hook is an arbitrary function
  whose error is discarded; the model keeps the sequence of calls made to it.
\<close>

subsection \<open>State\<close>

datatype NodeKind = NodeKindKEY | NodeKindNonKEY

record BaseRecord =
  NodeKind :: NodeKind
  RRType :: u16
  ExpiresAt :: time
  LeaseDuration :: u32
  RegisteredAt :: time
  ParentKeyName :: string

record Record = BaseRecord +
  KeyName :: string
  KeyRR :: key
  KeyLeaseDuration :: u32
  UpstreamZone :: string

record NonKEYRecord = BaseRecord +
  RRKey :: string
  RR :: rr
  nk_UpstreamZone :: string

record NonKEYRecordSet =
  Records :: "NonKEYRecord gomap"
  set_UpstreamZone :: string

record store =
  leases :: "Record gomap"
  nonKeyRecords :: "NonKEYRecord gomap"
  nameIdx :: "string list gomap"
  children :: "string list gomap"
  persistenceHook :: bool
  hook_calls :: "(string \<times> Record) list"

datatype store_error =
    KeyRRIsNil
  | KeyNameIsEmpty
  | NonKEYParent string string
  | NoLeaseToRenew string
  | NodeKeyIsEmpty
  | OwnerKeyNameIsEmpty
  | OwnedByOther rr string
  | NotOwnedBy string string string

subsection \<open>Time\<close>

definition Second :: int where
  "Second = 1000000000"

definition seconds :: "u32 \<Rightarrow> int" where
  "seconds d = int (unat d) * Second"

definition IsExpired :: "time \<Rightarrow> Record \<Rightarrow> bool" where
  "IsExpired now r \<longleftrightarrow> now > ExpiresAt r"

definition TimeRemaining :: "time \<Rightarrow> Record \<Rightarrow> int" where
  "TimeRemaining now r =
     (let remaining = ExpiresAt r - now in if remaining < 0 then 0 else remaining)"

subsection \<open>The tree's edges\<close>

definition attachNodeLocked :: "string \<Rightarrow> string \<Rightarrow> store \<Rightarrow> store" where
  "attachNodeLocked nodeKey parentNodeKey s =
     (if parentNodeKey = [] then s
      else s\<lparr>children :=
        mput parentNodeKey (set_insert nodeKey (sget (children s) parentNodeKey)) (children s)\<rparr>)"

definition detachNodeLocked :: "string \<Rightarrow> string \<Rightarrow> store \<Rightarrow> store" where
  "detachNodeLocked nodeKey parentNodeKey s =
     (if parentNodeKey = [] then s
      else case mget (children s) parentNodeKey of
        None \<Rightarrow> s
      | Some kids \<Rightarrow>
          let kids' = removeAll nodeKey kids in
          if kids' = [] then s\<lparr>children := mdel parentNodeKey (children s)\<rparr>
          else s\<lparr>children := mput parentNodeKey kids' (children s)\<rparr>)"

definition call_hook :: "string \<Rightarrow> Record \<Rightarrow> store \<Rightarrow> store" where
  "call_hook oper r s =
     (if persistenceHook s then s\<lparr>hook_calls := hook_calls s @ [(oper, r)]\<rparr> else s)"

subsection \<open>KEY leases\<close>

definition NewInMemoryManager :: store where
  "NewInMemoryManager = \<lparr>leases = [], nonKeyRecords = [], nameIdx = [], children = [],
     persistenceHook = False, hook_calls = []\<rparr>"

definition SetPersistenceHook :: "bool \<Rightarrow> store \<Rightarrow> store" where
  "SetPersistenceHook hook s = s\<lparr>persistenceHook := hook\<rparr>"

definition RegisterWithParent ::
  "dnslib \<Rightarrow> time \<Rightarrow> string \<Rightarrow> key option \<Rightarrow> u32 \<Rightarrow> u32 \<Rightarrow> string \<Rightarrow> store \<Rightarrow> store \<times> store_error option"
where
  "RegisterWithParent lib now parentArg keyArg leaseDuration keyLeaseDuration zoneArg s =
     (case keyArg of
        None \<Rightarrow> (s, Some KeyRRIsNil)
      | Some keyRR \<Rightarrow>
          let dnsName = Normalize (key_name keyRR) in
          if dnsName = [] then (s, Some KeyNameIsEmpty)
          else
            let nodeKey = NodeKey lib keyRR;
                parent0 = Normalize parentArg;
                parentNodeKey = (if parent0 = nodeKey then [] else parent0)
            in
            if parentNodeKey \<noteq> [] \<and> mget (nonKeyRecords s) parentNodeKey \<noteq> None
            then (s, Some (NonKEYParent nodeKey parentNodeKey))
            else
              let upstreamZone = Normalize zoneArg;
                  record = \<lparr>NodeKind = NodeKindKEY, RRType = RRToType (of_key keyRR),
                    ExpiresAt = now + seconds leaseDuration, LeaseDuration = leaseDuration,
                    RegisteredAt = now, ParentKeyName = parentNodeKey, KeyName = dnsName,
                    KeyRR = keyRR, KeyLeaseDuration = keyLeaseDuration, UpstreamZone = upstreamZone\<rparr>;
                  s1 = (case mget (leases s) nodeKey of
                          Some existing \<Rightarrow> detachNodeLocked nodeKey (ParentKeyName existing) s
                        | None \<Rightarrow> s\<lparr>nameIdx :=
                            mput dnsName (sget (nameIdx s) dnsName @ [nodeKey]) (nameIdx s)\<rparr>);
                  s2 = s1\<lparr>leases := mput nodeKey record (leases s1)\<rparr>;
                  s3 = attachNodeLocked nodeKey parentNodeKey s2
              in (call_hook ''register'' record s3, None))"

definition Register ::
  "dnslib \<Rightarrow> time \<Rightarrow> key option \<Rightarrow> u32 \<Rightarrow> u32 \<Rightarrow> string \<Rightarrow> store \<Rightarrow> store \<times> store_error option"
where
  "Register lib now keyArg leaseDuration keyLeaseDuration upstreamZone s =
     RegisterWithParent lib now [] keyArg leaseDuration keyLeaseDuration upstreamZone s"

definition RenewLease ::
  "dnslib \<Rightarrow> time \<Rightarrow> key option \<Rightarrow> u32 \<Rightarrow> u32 \<Rightarrow> store \<Rightarrow> store \<times> store_error option"
where
  "RenewLease lib now keyArg leaseDuration keyLeaseDuration s =
     (case keyArg of
        None \<Rightarrow> (s, Some KeyRRIsNil)
      | Some keyRR \<Rightarrow>
          let nodeKey = NodeKey lib keyRR in
          (case mget (leases s) nodeKey of
             None \<Rightarrow> (s, Some (NoLeaseToRenew nodeKey))
           | Some existing \<Rightarrow>
               let existing' = existing\<lparr>ExpiresAt := now + seconds leaseDuration,
                     LeaseDuration := leaseDuration, KeyLeaseDuration := keyLeaseDuration,
                     KeyRR := keyRR\<rparr>
               in (call_hook ''renew'' existing' (s\<lparr>leases := mput nodeKey existing' (leases s)\<rparr>), None)))"

definition live :: "time \<Rightarrow> Record option \<Rightarrow> Record option" where
  "live now rec = (case rec of None \<Rightarrow> None | Some r \<Rightarrow> if IsExpired now r then None else Some r)"

definition FindByName :: "time \<Rightarrow> store \<Rightarrow> string \<Rightarrow> Record list" where
  "FindByName now s dnsName =
     List.map_filter (\<lambda>nodeKey. live now (mget (leases s) nodeKey)) (sget (nameIdx s) (Normalize dnsName))"

definition LookupByKEY :: "dnslib \<Rightarrow> time \<Rightarrow> store \<Rightarrow> key \<Rightarrow> Record option" where
  "LookupByKEY lib now s k = live now (mget (leases s) (NodeKey lib k))"

definition LookupBySIG :: "time \<Rightarrow> store \<Rightarrow> string \<Rightarrow> u8 \<Rightarrow> u16 \<Rightarrow> Record option" where
  "LookupBySIG now s signerName alg keyTag =
     live now (mget (leases s) (NodeKeyFromSIG signerName alg keyTag))"

definition Get :: "store \<Rightarrow> string \<Rightarrow> Record option" where
  "Get s nodeKey = mget (leases s) (Normalize nodeKey)"

definition ListAll :: "store \<Rightarrow> Record list" where
  "ListAll s = mvals (leases s)"

definition ListOwners :: "store \<Rightarrow> string list" where
  "ListOwners s =
     (let seen = fold set_insert (map ParentKeyName (mvals (nonKeyRecords s)))
                   (fold set_insert (mkeys (leases s)) [])
      in sort_strings seen)"

subsection \<open>Walking the tree\<close>

definition ChildrenOf :: "store \<Rightarrow> string \<Rightarrow> string list" where
  "ChildrenOf s nodeKey = sort_strings (sget (children s) (Normalize nodeKey))"

definition all_children :: "string list gomap \<Rightarrow> string list" where
  "all_children ch = concat (mvals ch)"

lemma sget_all_children: "c \<in> set (sget ch p) \<Longrightarrow> c \<in> set (all_children ch)"
  by (cases "mget ch p") (force simp: sget_def all_children_def mvals_def dest: mget_Some_set)+

text \<open>The inner loop of \<open>ListSubtreeKeys\<close> over the children of one node.\<close>

fun push_unvisited ::
  "string list \<Rightarrow> string list \<times> string list \<times> string list \<Rightarrow> string list \<times> string list \<times> string list"
where
  "push_unvisited [] (visited, all, stack) = (visited, all, stack)"
| "push_unvisited (child # cs) (visited, all, stack) =
     (if child \<in> set visited then push_unvisited cs (visited, all, stack)
      else push_unvisited cs (child # visited, all @ [child], child # stack))"

lemma push_unvisited_spec:
  "push_unvisited cs (v, a, st) = (v', a', st') \<Longrightarrow>
     \<exists>xs. v' = rev xs @ v \<and> a' = a @ xs \<and> st' = rev xs @ st \<and> set xs = set cs - set v \<and> distinct xs"
proof (induction cs arbitrary: v a st)
  case (Cons c cs)
  show ?case
  proof (cases "c \<in> set v")
    case True
    then show ?thesis using Cons.IH [of v a st] Cons.prems by auto
  next
    case False
    then obtain xs where "v' = rev xs @ c # v" "a' = a @ c # xs" "st' = rev xs @ c # st"
      "set xs = set cs - set (c # v)" "distinct xs"
      using Cons.IH [of "c # v" "a @ [c]" "c # st"] Cons.prems by auto
    with False show ?thesis by (intro exI [of _ "c # xs"]) auto
  qed
qed simp

text \<open>
  The outer loop. It ends because each round pops one node, and a node is pushed only when it
  is visited for the first time.
\<close>

function subtree_loop ::
  "string list gomap \<Rightarrow> string list \<times> string list \<times> string list \<Rightarrow> string list"
where
  "subtree_loop ch (visited, all, []) = all"
| "subtree_loop ch (visited, all, cur # stack) =
     subtree_loop ch (push_unvisited (sget ch cur) (visited, all, stack))"
  by pat_completeness auto

lemma subtree_loop_measure:
  assumes "push_unvisited (sget ch cur) (v, a, st) = (v', a', st')"
  shows "card (set (all_children ch) - set v') + length st' \<le> card (set (all_children ch) - set v) + length st"
proof -
  obtain xs where xs: "v' = rev xs @ v" "st' = rev xs @ st" "set xs = set (sget ch cur) - set v" "distinct xs"
    using push_unvisited_spec [OF assms] by blast
  let ?U = "set (all_children ch) - set v"
  have sub: "set xs \<subseteq> ?U" using xs(3) sget_all_children by auto
  have "set (all_children ch) - set v' = ?U - set xs" using xs(1) by auto
  then have "card (set (all_children ch) - set v') = card ?U - length xs"
    using sub xs(4) by (simp add: card_Diff_subset distinct_card)
  moreover have "length xs \<le> card ?U" using sub xs(4) by (metis card_mono distinct_card finite_Diff finite_set)
  ultimately show ?thesis using xs(2) by simp
qed

termination subtree_loop
proof (relation "measure (\<lambda>(ch, v, a, st). card (set (all_children ch) - set v) + length st)")
  fix ch visited all cur stack
  obtain v' a' st' where p: "push_unvisited (sget ch cur) (visited, all, stack) = (v', a', st')"
    by (cases "push_unvisited (sget ch cur) (visited, all, stack)")
  from subtree_loop_measure [OF this]
  show "((ch, push_unvisited (sget ch cur) (visited, all, stack)), ch, visited, all, cur # stack)
     \<in> measure (\<lambda>(ch, v, a, st). card (set (all_children ch) - set v) + length st)"
    by (simp add: p)
qed simp

definition ListSubtreeKeys :: "store \<Rightarrow> string \<Rightarrow> string list" where
  "ListSubtreeKeys s nodeKey =
     (let nk = Normalize nodeKey in sort_longest (subtree_loop (children s) ([nk], [], [nk])))"

text \<open>The loop of \<open>deleteSubtreeLocked\<close> that collects the nodes to remove.\<close>

function collect_loop :: "string list gomap \<Rightarrow> string list \<Rightarrow> string list \<Rightarrow> string list" where
  "collect_loop ch [] seen = seen"
| "collect_loop ch (current # stack) seen =
     (if current \<in> set seen then collect_loop ch stack seen
      else collect_loop ch (rev (sget ch current) @ stack) (current # seen))"
  by pat_completeness auto
termination
proof (relation "inv_image (less_than <*lex*> less_than)
    (\<lambda>(ch, st, seen). (card (set (all_children ch) \<union> set st - set seen), length st))")
  fix ch :: "string list gomap" and current and stack seen :: "string list"
  let ?U = "set (all_children ch)"
  assume "current \<in> set seen"
  then have "?U \<union> set stack - set seen = ?U \<union> set (current # stack) - set seen" by auto
  then show "((ch, stack, seen), ch, current # stack, seen) \<in> inv_image (less_than <*lex*> less_than)
    (\<lambda>(ch, st, seen). (card (set (all_children ch) \<union> set st - set seen), length st))"
    by simp
next
  fix ch :: "string list gomap" and current and stack seen :: "string list"
  let ?U = "set (all_children ch)"
  assume "current \<notin> set seen"
  then have "?U \<union> set (rev (sget ch current) @ stack) - set (current # seen)
      \<subset> ?U \<union> set (current # stack) - set seen"
    using sget_all_children by fastforce
  then have "card (?U \<union> set (rev (sget ch current) @ stack) - set (current # seen))
      < card (?U \<union> set (current # stack) - set seen)"
    by (intro psubset_card_mono) auto
  then show "((ch, rev (sget ch current) @ stack, current # seen), ch, current # stack, seen)
      \<in> inv_image (less_than <*lex*> less_than)
    (\<lambda>(ch, st, seen). (card (set (all_children ch) \<union> set st - set seen), length st))"
    by simp
qed (auto intro: wf_inv_image wf_lex_prod)

text \<open>The removal of one collected node.\<close>

definition delete_name :: "string \<Rightarrow> string list gomap \<Rightarrow> string list gomap" where
  "delete_name key idx =
     (let dnsName = NodeKeyName key; existing = sget idx dnsName in
      if existing = [] then idx
      else let updated = filter (\<lambda>nk. nk \<noteq> key) existing in
        if updated = [] then mdel dnsName idx else mput dnsName updated idx)"

definition delete_node :: "string \<Rightarrow> store \<Rightarrow> store" where
  "delete_node key s =
     (let s' = (case mget (leases s) key of
          Some rec \<Rightarrow>
            let s1 = call_hook ''delete'' rec (detachNodeLocked key (ParentKeyName rec) s)
            in s1\<lparr>leases := mdel key (leases s1), nameIdx := delete_name key (nameIdx s1)\<rparr>
        | None \<Rightarrow> (case mget (nonKeyRecords s) key of
            Some nkRec \<Rightarrow>
              let s1 = detachNodeLocked key (ParentKeyName nkRec) s
              in s1\<lparr>nonKeyRecords := mdel key (nonKeyRecords s1)\<rparr>
          | None \<Rightarrow> s))
      in s'\<lparr>children := mdel key (children s')\<rparr>)"

definition deleteSubtreeLocked :: "string \<Rightarrow> store \<Rightarrow> store" where
  "deleteSubtreeLocked rootKey s =
     fold delete_node (sort_longest (collect_loop (children s) [rootKey] [])) s"

definition DeleteSubtree :: "string \<Rightarrow> store \<Rightarrow> store \<times> store_error option" where
  "DeleteSubtree nodeKey s =
     (let nk = Normalize nodeKey in
      if nk = [] then (s, Some NodeKeyIsEmpty) else (deleteSubtreeLocked nk s, None))"

definition Delete :: "string \<Rightarrow> store \<Rightarrow> store \<times> store_error option" where
  "Delete nodeKey s = DeleteSubtree nodeKey s"

subsection \<open>Non-KEY records\<close>

text \<open>The first loop of \<open>UpsertNonKEYRecords\<close>, which checks the whole batch.\<close>

fun check_batch ::
  "dnslib \<Rightarrow> store \<Rightarrow> string \<Rightarrow> rr list \<Rightarrow> (string \<times> rr) list \<Rightarrow> store_error + (string \<times> rr) list"
where
  "check_batch lib s owner [] toApply = Inr toApply"
| "check_batch lib s owner (r # rs) toApply =
     (let id = RecordKey lib r in
      if id = [] then check_batch lib s owner rs toApply
      else case mget (nonKeyRecords s) id of
        Some existing \<Rightarrow>
          if ParentKeyName existing \<noteq> owner then Inl (OwnedByOther r (ParentKeyName existing))
          else check_batch lib s owner rs (toApply @ [(id, r)])
      | None \<Rightarrow> check_batch lib s owner rs (toApply @ [(id, r)]))"

definition apply_candidate ::
  "time \<Rightarrow> string \<Rightarrow> u32 \<Rightarrow> string \<Rightarrow> string \<times> rr \<Rightarrow> store \<Rightarrow> store"
where
  "apply_candidate now owner leaseDuration zone c s =
     (let id = fst c; r = snd c;
          (entry, s1) = (case mget (nonKeyRecords s) id of
             Some entry \<Rightarrow> (entry, s)
           | None \<Rightarrow>
               let entry = \<lparr>NodeKind = NodeKindNonKEY, RRType = 0, ExpiresAt = 0, LeaseDuration = 0,
                     RegisteredAt = 0, ParentKeyName = owner, RRKey = id, RR = r, nk_UpstreamZone = []\<rparr>
               in (entry, attachNodeLocked id owner s));
          entry' = entry\<lparr>RR := r, RRType := RRToType r, nk_UpstreamZone := zone,
            LeaseDuration := leaseDuration, RegisteredAt := now, ExpiresAt := now + seconds leaseDuration\<rparr>
      in s1\<lparr>nonKeyRecords := mput id entry' (nonKeyRecords s1)\<rparr>)"

definition UpsertNonKEYRecords ::
  "dnslib \<Rightarrow> time \<Rightarrow> string \<Rightarrow> rr list \<Rightarrow> u32 \<Rightarrow> string \<Rightarrow> store \<Rightarrow> store \<times> store_error option"
where
  "UpsertNonKEYRecords lib now ownerArg records leaseDuration upstreamZone s =
     (let owner = Normalize ownerArg in
      if owner = [] then (s, Some OwnerKeyNameIsEmpty)
      else case check_batch lib s owner records [] of
        Inl e \<Rightarrow> (s, Some e)
      | Inr toApply \<Rightarrow>
          (fold (apply_candidate now owner leaseDuration (Normalize upstreamZone)) toApply s, None))"

definition RemoveNonKEYRecords :: "string \<Rightarrow> store \<Rightarrow> store" where
  "RemoveNonKEYRecords ownerArg s =
     (let owner = Normalize ownerArg;
          kids = sget (children s) owner;
          gone = filter (\<lambda>c. mget (nonKeyRecords s) c \<noteq> None) kids;
          kids' = filter (\<lambda>c. mget (nonKeyRecords s) c = None) kids
      in s\<lparr>nonKeyRecords := fold mdel gone (nonKeyRecords s),
           children := (if kids' = [] then mdel owner (children s) else mput owner kids' (children s))\<rparr>)"

definition RemoveSingleNonKEYRecord :: "string \<Rightarrow> string \<Rightarrow> store \<Rightarrow> store \<times> store_error option" where
  "RemoveSingleNonKEYRecord ownerArg rrKey s =
     (let owner = Normalize ownerArg in
      case mget (nonKeyRecords s) rrKey of
        None \<Rightarrow> (s, None)
      | Some entry \<Rightarrow>
          if ParentKeyName entry \<noteq> owner then (s, Some (NotOwnedBy rrKey owner (ParentKeyName entry)))
          else
            let s1 = s\<lparr>nonKeyRecords := mdel rrKey (nonKeyRecords s)\<rparr> in
            (case mget (children s1) owner of
               None \<Rightarrow> (s1, None)
             | Some kids \<Rightarrow>
                 let kids' = removeAll rrKey kids in
                 if kids' = [] then (s1\<lparr>children := mdel owner (children s1)\<rparr>, None)
                 else (s1\<lparr>children := mput owner kids' (children s1)\<rparr>, None)))"

definition GetNonKEYRecordSet :: "store \<Rightarrow> string \<Rightarrow> NonKEYRecordSet option" where
  "GetNonKEYRecordSet s ownerArg =
     (let kids = sget (children s) (Normalize ownerArg);
          records = List.map_filter
            (\<lambda>c. case mget (nonKeyRecords s) c of None \<Rightarrow> None | Some rec \<Rightarrow> Some (c, rec)) kids
      in if records = [] then None
         else Some \<lparr>Records = records, set_UpstreamZone = nk_UpstreamZone (snd (last records))\<rparr>)"

definition LookupNonKEYRecord :: "dnslib \<Rightarrow> store \<Rightarrow> rr \<Rightarrow> NonKEYRecord option" where
  "LookupNonKEYRecord lib s r = (let id = RecordKey lib r in if id = [] then None else mget (nonKeyRecords s) id)"

end
