(* ===== verification/Store_Invariant.thy ===== *)
theory Store_Invariant
  imports Lease_Store
begin

text \<open>
  The invariant of the lease store and its preservation by every operation.

  \<open>wf_store\<close> says that the two node maps are keyed by the identities of what they hold and
  that both indices are exactly what the parent and name fields of the nodes say: \<open>children\<close>
  has no edge too many, none too few and no empty set, \<open>nameIdx\<close> likewise. While a subtree is
  being deleted the edges below the nodes already removed are missing; \<open>wf_upto D\<close> is the
  invariant with the nodes \<open>D\<close> so excused.
\<close>

subsection \<open>The invariant\<close>

definition parent_of :: "store \<Rightarrow> string \<Rightarrow> string option" where
  "parent_of s c =
     (case mget (leases s) c of
        Some r \<Rightarrow> Some (ParentKeyName r)
      | None \<Rightarrow> map_option ParentKeyName (mget (nonKeyRecords s) c))"

definition wf_lease :: "dnslib \<Rightarrow> string \<Rightarrow> Record \<Rightarrow> bool" where
  "wf_lease lib nid r \<longleftrightarrow>
     nid = NodeKey lib (KeyRR r) \<and> KeyName r = Normalize (key_name (KeyRR r)) \<and> KeyName r \<noteq> [] \<and>
     ParentKeyName r \<noteq> nid \<and> NodeKind r = NodeKindKEY \<and> RRType r = TypeKEY"

definition wf_record :: "dnslib \<Rightarrow> string \<Rightarrow> NonKEYRecord \<Rightarrow> bool" where
  "wf_record lib nid r \<longleftrightarrow>
     nid = RecordKey lib (RR r) \<and> RRKey r = nid \<and> ParentKeyName r \<noteq> [] \<and>
     NodeKind r = NodeKindNonKEY \<and> RRType r = RRToType (RR r)"

definition wf_sets :: "string list gomap \<Rightarrow> bool" where
  "wf_sets m \<longleftrightarrow> mwf m \<and> (\<forall>k xs. mget m k = Some xs \<longrightarrow> xs \<noteq> [] \<and> distinct xs)"

definition wf_upto :: "dnslib \<Rightarrow> string set \<Rightarrow> store \<Rightarrow> bool" where
  "wf_upto lib D s \<longleftrightarrow>
     mwf (leases s) \<and> mwf (nonKeyRecords s) \<and> wf_sets (nameIdx s) \<and> wf_sets (children s) \<and>
     (\<forall>nid r. mget (leases s) nid = Some r \<longrightarrow> wf_lease lib nid r) \<and>
     (\<forall>nid r. mget (nonKeyRecords s) nid = Some r \<longrightarrow> wf_record lib nid r) \<and>
     (\<forall>nid. mget (leases s) nid = None \<or> mget (nonKeyRecords s) nid = None) \<and>
     (\<forall>p c. c \<in> set (sget (children s) p) \<longleftrightarrow> p \<noteq> [] \<and> p \<notin> D \<and> parent_of s c = Some p) \<and>
     (\<forall>n nid. nid \<in> set (sget (nameIdx s) n) \<longleftrightarrow>
        (\<exists>r. mget (leases s) nid = Some r \<and> KeyName r = n))"

definition wf_store :: "dnslib \<Rightarrow> store \<Rightarrow> bool" where
  "wf_store lib s \<longleftrightarrow> wf_upto lib {} s"

lemma wf_uptoI:
  assumes "mwf (leases s)" "mwf (nonKeyRecords s)" "wf_sets (nameIdx s)" "wf_sets (children s)"
    and "\<And>nid r. mget (leases s) nid = Some r \<Longrightarrow> wf_lease lib nid r"
    and "\<And>nid r. mget (nonKeyRecords s) nid = Some r \<Longrightarrow> wf_record lib nid r"
    and "\<And>nid. mget (leases s) nid = None \<or> mget (nonKeyRecords s) nid = None"
    and "\<And>p c. c \<in> set (sget (children s) p) \<longleftrightarrow> p \<noteq> [] \<and> p \<notin> D \<and> parent_of s c = Some p"
    and "\<And>n nid. nid \<in> set (sget (nameIdx s) n) \<longleftrightarrow> (\<exists>r. mget (leases s) nid = Some r \<and> KeyName r = n)"
  shows "wf_upto lib D s"
  using assms unfolding wf_upto_def by blast

lemma wf_uptoD:
  assumes "wf_upto lib D s"
  shows wf_mwf_leases: "mwf (leases s)"
    and wf_mwf_records: "mwf (nonKeyRecords s)"
    and wf_sets_nameIdx: "wf_sets (nameIdx s)"
    and wf_sets_children: "wf_sets (children s)"
    and wf_lease_at: "mget (leases s) nid = Some r \<Longrightarrow> wf_lease lib nid r"
    and wf_record_at: "mget (nonKeyRecords s) nid = Some q \<Longrightarrow> wf_record lib nid q"
    and wf_disjoint: "mget (leases s) nid = None \<or> mget (nonKeyRecords s) nid = None"
    and wf_children: "c \<in> set (sget (children s) p) \<longleftrightarrow> p \<noteq> [] \<and> p \<notin> D \<and> parent_of s c = Some p"
    and wf_nameIdx: "nid \<in> set (sget (nameIdx s) n) \<longleftrightarrow> (\<exists>r. mget (leases s) nid = Some r \<and> KeyName r = n)"
  using assms by (simp_all add: wf_upto_def)

subsection \<open>Maps of non-empty sets\<close>

lemma wf_setsI: "mwf m \<Longrightarrow> (\<And>k xs. mget m k = Some xs \<Longrightarrow> xs \<noteq> [] \<and> distinct xs) \<Longrightarrow> wf_sets m"
  by (simp add: wf_sets_def)

lemma wf_sets_Nil [simp]: "wf_sets []"
  by (simp add: wf_sets_def)

lemma wf_sets_mput: "wf_sets m \<Longrightarrow> xs \<noteq> [] \<Longrightarrow> distinct xs \<Longrightarrow> wf_sets (mput k xs m)"
  by (auto simp: wf_sets_def mget_mput)

lemma wf_sets_mdel: "wf_sets m \<Longrightarrow> wf_sets (mdel k m)"
  by (auto simp: wf_sets_def mget_mdel split: if_splits)

lemma wf_sets_sget: "wf_sets m \<Longrightarrow> distinct (sget m k)"
  by (auto simp: wf_sets_def sget_def split: option.splits)

lemma wf_sets_Some: "wf_sets m \<Longrightarrow> mget m k = Some xs \<longleftrightarrow> sget m k = xs \<and> xs \<noteq> []"
  by (auto simp: wf_sets_def sget_def split: option.splits)

subsection \<open>The helpers that change one index\<close>

lemma attach_frame [simp]:
  "leases (attachNodeLocked c p s) = leases s"
  "nonKeyRecords (attachNodeLocked c p s) = nonKeyRecords s"
  "nameIdx (attachNodeLocked c p s) = nameIdx s"
  "persistenceHook (attachNodeLocked c p s) = persistenceHook s"
  "hook_calls (attachNodeLocked c p s) = hook_calls s"
  by (simp_all add: attachNodeLocked_def)

lemma detach_frame [simp]:
  "leases (detachNodeLocked c p s) = leases s"
  "nonKeyRecords (detachNodeLocked c p s) = nonKeyRecords s"
  "nameIdx (detachNodeLocked c p s) = nameIdx s"
  "persistenceHook (detachNodeLocked c p s) = persistenceHook s"
  "hook_calls (detachNodeLocked c p s) = hook_calls s"
  by (simp_all add: detachNodeLocked_def Let_def split: option.split)

lemma hook_frame [simp]:
  "leases (call_hook h r s) = leases s"
  "nonKeyRecords (call_hook h r s) = nonKeyRecords s"
  "nameIdx (call_hook h r s) = nameIdx s"
  "children (call_hook h r s) = children s"
  "persistenceHook (call_hook h r s) = persistenceHook s"
  by (simp_all add: call_hook_def)

lemma sget_attach:
  "sget (children (attachNodeLocked c p s)) q =
     (if p \<noteq> [] \<and> q = p then set_insert c (sget (children s) p) else sget (children s) q)"
  by (simp add: attachNodeLocked_def sget_mput)

lemma sget_detach:
  "sget (children (detachNodeLocked c p s)) q =
     (if p \<noteq> [] \<and> q = p then removeAll c (sget (children s) p) else sget (children s) q)"
  by (cases "mget (children s) p")
     (auto simp: detachNodeLocked_def Let_def sget_mput sget_mdel sget_None sget_Some)

lemma wf_sets_attach: "wf_sets (children s) \<Longrightarrow> wf_sets (children (attachNodeLocked c p s))"
  by (simp add: attachNodeLocked_def wf_sets_mput wf_sets_sget)

lemma wf_sets_detach: "wf_sets (children s) \<Longrightarrow> wf_sets (children (detachNodeLocked c p s))"
  by (auto simp: detachNodeLocked_def Let_def wf_sets_mdel wf_sets_Some
      intro!: wf_sets_mput removeAll_distinct wf_sets_sget split: option.splits)

lemma parent_of_cong:
  "leases s = leases s' \<Longrightarrow> nonKeyRecords s = nonKeyRecords s' \<Longrightarrow> parent_of s = parent_of s'"
  by (rule ext) (simp add: parent_of_def split: option.split)

lemma parent_of_Some:
  "parent_of s c = Some p \<longleftrightarrow>
     (\<exists>r. mget (leases s) c = Some r \<and> ParentKeyName r = p) \<or>
     (mget (leases s) c = None \<and> (\<exists>r. mget (nonKeyRecords s) c = Some r \<and> ParentKeyName r = p))"
  by (auto simp: parent_of_def split: option.splits)

subsection \<open>Identities do not collide\<close>

lemma NodeKey_not_record:
  assumes "wf_upto lib D s" "plain_text lib"
  shows "mget (nonKeyRecords s) (NodeKey lib k) = None"
proof (rule ccontr)
  assume "mget (nonKeyRecords s) (NodeKey lib k) \<noteq> None"
  then obtain r where "mget (nonKeyRecords s) (NodeKey lib k) = Some r" by auto
  with assms(1) have "NodeKey lib k = RecordKey lib (RR r)" by (auto dest: wf_record_at simp: wf_record_def)
  with assms(2) show False by (metis NodeKey_tail RecordKey_not_NodeKey)
qed

lemma RecordKey_not_lease:
  assumes "wf_upto lib D s" "plain_text lib"
  shows "mget (leases s) (RecordKey lib r) = None"
proof (rule ccontr)
  assume "mget (leases s) (RecordKey lib r) \<noteq> None"
  then obtain l where "mget (leases s) (RecordKey lib r) = Some l" by auto
  with assms(1) have "RecordKey lib r = NodeKey lib (KeyRR l)" by (auto dest: wf_lease_at simp: wf_lease_def)
  with assms(2) show False by (metis NodeKey_tail RecordKey_not_NodeKey)
qed

lemma KeyName_eq: "wf_lease lib (NodeKey lib k) r \<Longrightarrow> KeyName r = Normalize (key_name k)"
  by (auto simp: wf_lease_def NodeKey_eq_SIG dest!: NodeKeyFromSIG_inj)

lemma wf_lease_NodeKeyName: "wf_lease lib nid r \<Longrightarrow> NodeKeyName nid = KeyName r"
  by (metis wf_lease_def NodeKeyName_NodeKey)

lemma wf_lease_Normalize: "wf_lease lib nid r \<Longrightarrow> Normalize nid = nid"
  by (simp add: wf_lease_def)

subsection \<open>Creation\<close>

lemma wf_NewInMemoryManager: "wf_store lib NewInMemoryManager"
  by (simp add: wf_store_def wf_upto_def NewInMemoryManager_def sget_def parent_of_def)

lemma wf_SetPersistenceHook: "wf_store lib (SetPersistenceHook h s) = wf_store lib s"
proof -
  have "parent_of (SetPersistenceHook h s) = parent_of s"
    by (rule parent_of_cong) (simp_all add: SetPersistenceHook_def)
  then show ?thesis unfolding wf_store_def wf_upto_def by (simp add: SetPersistenceHook_def)
qed

lemma wf_call_hook: "wf_upto lib D (call_hook h r s) = wf_upto lib D s"
  unfolding wf_upto_def hook_frame parent_of_cong [OF hook_frame(1,2)] ..

subsection \<open>Registration\<close>

lemma RenewLease_wf:
  assumes wf: "wf_upto lib D s" and r: "RenewLease lib now (Some k) l kl s = (s', None)"
  shows "wf_upto lib D s'"
proof -
  let ?nid = "NodeKey lib k"
  obtain old where old: "mget (leases s) ?nid = Some old"
    using r by (auto simp: RenewLease_def Let_def split: option.splits)
  define rec where "rec = old\<lparr>ExpiresAt := now + seconds l, LeaseDuration := l, KeyLeaseDuration := kl, KeyRR := k\<rparr>"
  have s': "s' = call_hook ''renew'' rec (s\<lparr>leases := mput ?nid rec (leases s)\<rparr>)"
    using r old by (simp add: RenewLease_def Let_def rec_def)
  have wl: "wf_lease lib ?nid old" using wf_lease_at [OF wf old] .
  then have new: "wf_lease lib ?nid rec" using KeyName_eq [OF wl] by (auto simp: wf_lease_def rec_def)
  have same: "ParentKeyName rec = ParentKeyName old" "KeyName rec = KeyName old" by (simp_all add: rec_def)
  have none: "mget (nonKeyRecords s) ?nid = None" using wf_disjoint [OF wf, of ?nid] old by simp
  have par: "parent_of (s\<lparr>leases := mput ?nid rec (leases s)\<rparr>) = parent_of s"
    using old same by (auto simp: parent_of_def fun_eq_iff mget_mput split: option.split)
  show ?thesis unfolding s' wf_call_hook
  proof (rule wf_uptoI)
    fix nid r assume "mget (leases (s\<lparr>leases := mput ?nid rec (leases s)\<rparr>)) nid = Some r"
    then show "wf_lease lib nid r" using new wf_lease_at [OF wf] by (auto simp: mget_mput split: if_splits)
  next
    fix nid show "mget (leases (s\<lparr>leases := mput ?nid rec (leases s)\<rparr>)) nid = None \<or>
        mget (nonKeyRecords (s\<lparr>leases := mput ?nid rec (leases s)\<rparr>)) nid = None"
      using none wf_disjoint [OF wf, of nid] by (auto simp: mget_mput)
  next
    fix n nid show "nid \<in> set (sget (nameIdx (s\<lparr>leases := mput ?nid rec (leases s)\<rparr>)) n) \<longleftrightarrow>
        (\<exists>r. mget (leases (s\<lparr>leases := mput ?nid rec (leases s)\<rparr>)) nid = Some r \<and> KeyName r = n)"
      using old same wf_nameIdx [OF wf, of nid n] by (auto simp: mget_mput)
  qed (simp_all add: par wf_uptoD [OF wf])
qed

text \<open>The parent under which a registration files a key, and the record it writes.\<close>

definition reg_parent :: "dnslib \<Rightarrow> string \<Rightarrow> key \<Rightarrow> string" where
  "reg_parent lib parentArg k = (if Normalize parentArg = NodeKey lib k then [] else Normalize parentArg)"

definition reg_record :: "dnslib \<Rightarrow> time \<Rightarrow> string \<Rightarrow> key \<Rightarrow> u32 \<Rightarrow> u32 \<Rightarrow> string \<Rightarrow> Record" where
  "reg_record lib now parentArg k l kl zone =
     \<lparr>NodeKind = NodeKindKEY, RRType = TypeKEY, ExpiresAt = now + seconds l, LeaseDuration = l,
      RegisteredAt = now, ParentKeyName = reg_parent lib parentArg k, KeyName = Normalize (key_name k),
      KeyRR = k, KeyLeaseDuration = kl, UpstreamZone = Normalize zone\<rparr>"

lemma reg_record_sel [simp]:
  "ParentKeyName (reg_record lib now pa k l kl z) = reg_parent lib pa k"
  "KeyName (reg_record lib now pa k l kl z) = Normalize (key_name k)"
  "KeyRR (reg_record lib now pa k l kl z) = k"
  by (simp_all add: reg_record_def)

lemma reg_parent_neq [simp]: "reg_parent lib pa k \<noteq> NodeKey lib k"
  using NodeKey_neq_Nil by (metis reg_parent_def)

lemma wf_reg_record:
  "Normalize (key_name k) \<noteq> [] \<Longrightarrow> wf_lease lib (NodeKey lib k) (reg_record lib now pa k l kl z)"
  by (simp add: wf_lease_def reg_record_def)

text \<open>The store before the new edge is added and the hook is called.\<close>

definition reg_base :: "dnslib \<Rightarrow> key \<Rightarrow> Record \<Rightarrow> store \<Rightarrow> store" where
  "reg_base lib k rec s =
     (let nodeKey = NodeKey lib k; dnsName = Normalize (key_name k);
          s1 = (case mget (leases s) nodeKey of
                  Some existing \<Rightarrow> detachNodeLocked nodeKey (ParentKeyName existing) s
                | None \<Rightarrow> s\<lparr>nameIdx := mput dnsName (sget (nameIdx s) dnsName @ [nodeKey]) (nameIdx s)\<rparr>)
      in s1\<lparr>leases := mput nodeKey rec (leases s)\<rparr>)"

lemma reg_base_frame [simp]:
  "leases (reg_base lib k rec s) = mput (NodeKey lib k) rec (leases s)"
  "nonKeyRecords (reg_base lib k rec s) = nonKeyRecords s"
  "persistenceHook (reg_base lib k rec s) = persistenceHook s"
  "hook_calls (reg_base lib k rec s) = hook_calls s"
  by (simp_all add: reg_base_def Let_def split: option.split)

lemma RegisterWithParent_cases:
  "RegisterWithParent lib now pa ka l kl z s =
     (case ka of
        None \<Rightarrow> (s, Some KeyRRIsNil)
      | Some k \<Rightarrow>
          if Normalize (key_name k) = [] then (s, Some KeyNameIsEmpty)
          else if reg_parent lib pa k \<noteq> [] \<and> mget (nonKeyRecords s) (reg_parent lib pa k) \<noteq> None
          then (s, Some (NonKEYParent (NodeKey lib k) (reg_parent lib pa k)))
          else
            let rec = reg_record lib now pa k l kl z
            in (call_hook ''register'' rec
                  (attachNodeLocked (NodeKey lib k) (reg_parent lib pa k) (reg_base lib k rec s)), None))"
proof (cases ka)
  case (Some k)
  show ?thesis
    unfolding RegisterWithParent_def Some option.case Let_def
      reg_parent_def [symmetric] RRToType_of_key TypeKEY_def [symmetric] reg_record_def [symmetric]
    by (cases "mget (leases s) (NodeKey lib k)") (simp_all add: reg_base_def Let_def)
qed (simp add: RegisterWithParent_def)

lemma RegisterWithParent_ok:
  assumes "RegisterWithParent lib now pa ka l kl z s = (s', None)"
  obtains k where "ka = Some k" "Normalize (key_name k) \<noteq> []"
    "reg_parent lib pa k = [] \<or> mget (nonKeyRecords s) (reg_parent lib pa k) = None"
    "s' = call_hook ''register'' (reg_record lib now pa k l kl z)
       (attachNodeLocked (NodeKey lib k) (reg_parent lib pa k)
         (reg_base lib k (reg_record lib now pa k l kl z) s))"
  using assms by (auto simp: RegisterWithParent_cases Let_def split: option.splits if_splits)

lemma reg_base_children:
  assumes wf: "wf_upto lib D s" and lib: "plain_text lib"
  shows "c \<in> set (sget (children (reg_base lib k rec s)) p) \<longleftrightarrow>
    c \<noteq> NodeKey lib k \<and> c \<in> set (sget (children s) p)"
proof (cases "mget (leases s) (NodeKey lib k)")
  case None
  then have "parent_of s (NodeKey lib k) = None"
    using NodeKey_not_record [OF wf lib] by (simp add: parent_of_def)
  then have "NodeKey lib k \<notin> set (sget (children s) p)" by (simp add: wf_children [OF wf])
  then show ?thesis using None by (auto simp: reg_base_def Let_def)
next
  case (Some r)
  then have "c \<in> set (sget (children s) p) \<Longrightarrow> c = NodeKey lib k \<Longrightarrow> p = ParentKeyName r \<and> p \<noteq> []"
    using wf_children [OF wf, of c p] by (auto simp: parent_of_def)
  then show ?thesis using Some by (auto simp: reg_base_def Let_def sget_detach)
qed

lemma reg_base_nameIdx:
  assumes wf: "wf_upto lib D s"
  shows "wf_sets (nameIdx (reg_base lib k rec s))"
    and "n \<in> set (sget (nameIdx (reg_base lib k rec s)) nm) \<longleftrightarrow>
      (if n = NodeKey lib k then nm = Normalize (key_name k) else n \<in> set (sget (nameIdx s) nm))"
proof -
  let ?i = "NodeKey lib k" and ?n = "Normalize (key_name k)"
  have at: "?i \<in> set (sget (nameIdx s) nm) \<longleftrightarrow> mget (leases s) ?i \<noteq> None \<and> nm = ?n" for nm
    using wf_lease_at [OF wf, of ?i] by (auto simp: wf_nameIdx [OF wf] KeyName_eq)
  have d: "distinct (sget (nameIdx s) ?n)" using wf_sets_nameIdx [OF wf] by (rule wf_sets_sget)
  show "wf_sets (nameIdx (reg_base lib k rec s))"
    using wf_sets_nameIdx [OF wf] at d
    by (cases "mget (leases s) ?i") (auto simp: reg_base_def Let_def intro!: wf_sets_mput)
  show "n \<in> set (sget (nameIdx (reg_base lib k rec s)) nm) \<longleftrightarrow>
      (if n = ?i then nm = ?n else n \<in> set (sget (nameIdx s) nm))"
    using at by (cases "mget (leases s) ?i") (auto simp: reg_base_def Let_def sget_mput)
qed

lemma reg_base_wf_children: "wf_upto lib D s \<Longrightarrow> wf_sets (children (reg_base lib k rec s))"
  by (simp add: reg_base_def Let_def wf_sets_children wf_sets_detach split: option.split)

lemma parent_of_reg:
  "leases s' = mput i rec (leases s) \<Longrightarrow> nonKeyRecords s' = nonKeyRecords s \<Longrightarrow>
     parent_of s' c = (if c = i then Some (ParentKeyName rec) else parent_of s c)"
  by (simp add: parent_of_def mget_mput split: option.split)

lemma RegisterWithParent_wf:
  assumes wf: "wf_store lib s" and lib: "plain_text lib"
    and ok: "RegisterWithParent lib now pa ka l kl z s = (s', None)"
  shows "wf_store lib s'"
proof -
  note wf = wf [unfolded wf_store_def]
  from ok obtain k where name: "Normalize (key_name k) \<noteq> []"
    and s': "s' = call_hook ''register'' (reg_record lib now pa k l kl z)
       (attachNodeLocked (NodeKey lib k) (reg_parent lib pa k)
         (reg_base lib k (reg_record lib now pa k l kl z) s))"
    by (rule RegisterWithParent_ok)
  let ?i = "NodeKey lib k" and ?p = "reg_parent lib pa k" and ?rec = "reg_record lib now pa k l kl z"
  let ?b = "reg_base lib k ?rec s"
  let ?t = "attachNodeLocked ?i ?p ?b"
  have par: "parent_of ?t c = (if c = ?i then Some ?p else parent_of s c)" for c
    using parent_of_reg [of ?t ?i ?rec s c] by simp
  have "wf_upto lib {} ?t"
  proof (rule wf_uptoI)
    fix n r assume "mget (leases ?t) n = Some r"
    then show "wf_lease lib n r" using wf_reg_record [OF name] wf_lease_at [OF wf]
      by (auto simp: mget_mput split: if_splits)
  next
    fix n show "mget (leases ?t) n = None \<or> mget (nonKeyRecords ?t) n = None"
      using wf_disjoint [OF wf, of n] NodeKey_not_record [OF wf lib] by (auto simp: mget_mput)
  next
    fix p c show "c \<in> set (sget (children ?t) p) \<longleftrightarrow> p \<noteq> [] \<and> p \<notin> {} \<and> parent_of ?t c = Some p"
      by (auto simp: sget_attach par reg_base_children [OF wf lib] wf_children [OF wf])
  next
    fix nm n show "n \<in> set (sget (nameIdx ?t) nm) \<longleftrightarrow> (\<exists>r. mget (leases ?t) n = Some r \<and> KeyName r = nm)"
      by (auto simp: reg_base_nameIdx(2) [OF wf] mget_mput wf_nameIdx [OF wf])
  qed (simp_all add: wf_uptoD [OF wf] reg_base_nameIdx(1) [OF wf] reg_base_wf_children [OF wf] wf_sets_attach)
  then show ?thesis by (simp add: wf_store_def s' wf_call_hook)
qed

subsection \<open>Upserting records\<close>

definition foreign :: "dnslib \<Rightarrow> store \<Rightarrow> string \<Rightarrow> rr \<Rightarrow> bool" where
  "foreign lib s owner r \<longleftrightarrow>
     (\<exists>e. mget (nonKeyRecords s) (RecordKey lib r) = Some e \<and> ParentKeyName e \<noteq> owner)"

lemma check_batch_Cons:
  "check_batch lib s owner (r # rs) acc =
     (if foreign lib s owner r
      then Inl (OwnedByOther r (ParentKeyName (the (mget (nonKeyRecords s) (RecordKey lib r)))))
      else check_batch lib s owner rs (acc @ [(RecordKey lib r, r)]))"
  by (auto simp: foreign_def Let_def split: option.split)

lemma check_batch_Inr:
  "check_batch lib s owner rs acc = Inr t \<longleftrightarrow>
     (\<forall>r \<in> set rs. \<not> foreign lib s owner r) \<and> t = acc @ map (\<lambda>r. (RecordKey lib r, r)) rs"
proof (induction rs arbitrary: acc)
  case (Cons r rs)
  then show ?case unfolding check_batch_Cons by auto
qed auto

lemma check_batch_Inl:
  "check_batch lib s owner rs acc = Inl e \<Longrightarrow>
     \<exists>r e'. r \<in> set rs \<and> foreign lib s owner r \<and>
       mget (nonKeyRecords s) (RecordKey lib r) = Some e' \<and> e = OwnedByOther r (ParentKeyName e')"
proof (induction rs arbitrary: acc)
  case (Cons r rs)
  show ?case
  proof (cases "foreign lib s owner r")
    case True
    then obtain e' where "mget (nonKeyRecords s) (RecordKey lib r) = Some e'" by (auto simp: foreign_def)
    with True Cons.prems show ?thesis unfolding check_batch_Cons by (intro exI [of _ r]) auto
  next
    case False
    with Cons.prems have "check_batch lib s owner rs (acc @ [(RecordKey lib r, r)]) = Inl e"
      unfolding check_batch_Cons by simp
    from Cons.IH [OF this] show ?thesis by auto
  qed
qed simp

definition upsert_record :: "time \<Rightarrow> string \<Rightarrow> u32 \<Rightarrow> string \<Rightarrow> string \<Rightarrow> rr \<Rightarrow> NonKEYRecord" where
  "upsert_record now owner l zone i r =
     \<lparr>NodeKind = NodeKindNonKEY, RRType = RRToType r, ExpiresAt = now + seconds l, LeaseDuration = l,
      RegisteredAt = now, ParentKeyName = owner, RRKey = i, RR = r, nk_UpstreamZone = zone\<rparr>"

lemma upsert_record_sel [simp]:
  "ParentKeyName (upsert_record now owner l zone i r) = owner"
  "RR (upsert_record now owner l zone i r) = r"
  by (simp_all add: upsert_record_def)

lemma apply_candidate_frame [simp]:
  "leases (apply_candidate now owner l zone c s) = leases s"
  "nameIdx (apply_candidate now owner l zone c s) = nameIdx s"
  "persistenceHook (apply_candidate now owner l zone c s) = persistenceHook s"
  "hook_calls (apply_candidate now owner l zone c s) = hook_calls s"
  by (simp_all add: apply_candidate_def Let_def split: option.split prod.split)

lemma apply_candidate_records:
  assumes wf: "wf_upto lib D s" and own: "\<not> foreign lib s owner r"
  shows "nonKeyRecords (apply_candidate now owner l zone (RecordKey lib r, r) s) =
    mput (RecordKey lib r) (upsert_record now owner l zone (RecordKey lib r) r) (nonKeyRecords s)"
proof (cases "mget (nonKeyRecords s) (RecordKey lib r)")
  case (Some e)
  then have e: "ParentKeyName e = owner" "NodeKind e = NodeKindNonKEY" "RRKey e = RecordKey lib r"
    using own wf_record_at [OF wf Some] by (auto simp: foreign_def wf_record_def)
  have "e\<lparr>RR := r, RRType := RRToType r, nk_UpstreamZone := zone, LeaseDuration := l,
      RegisteredAt := now, ExpiresAt := now + seconds l\<rparr> = upsert_record now owner l zone (RecordKey lib r) r"
    using e by (cases e) (simp add: upsert_record_def)
  then show ?thesis using Some by (simp add: apply_candidate_def Let_def)
qed (simp add: apply_candidate_def Let_def upsert_record_def)

lemma apply_candidate_children:
  assumes wf: "wf_store lib s" and own: "\<not> foreign lib s owner r" and ne: "owner \<noteq> []"
    and lib: "plain_text lib"
  shows "c \<in> set (sget (children (apply_candidate now owner l zone (RecordKey lib r, r) s)) p) \<longleftrightarrow>
     (if c = RecordKey lib r then p = owner else c \<in> set (sget (children s) p))"
proof -
  note wf = wf [unfolded wf_store_def]
  let ?i = "RecordKey lib r"
  have nl: "mget (leases s) ?i = None" using RecordKey_not_lease [OF wf lib] .
  show ?thesis
  proof (cases "mget (nonKeyRecords s) ?i")
    case None
    then have "?i \<notin> set (sget (children s) p)" for p
      using nl by (simp add: wf_children [OF wf] parent_of_def)
    then show ?thesis using None ne by (auto simp: apply_candidate_def Let_def sget_attach)
  next
    case (Some e)
    then have "?i \<in> set (sget (children s) p) \<longleftrightarrow> p = owner"
      using nl own ne by (auto simp: wf_children [OF wf] parent_of_def foreign_def)
    then show ?thesis using Some by (auto simp: apply_candidate_def Let_def)
  qed
qed

lemma parent_of_upsert:
  "nonKeyRecords s' = mput i rec (nonKeyRecords s) \<Longrightarrow> leases s' = leases s \<Longrightarrow> mget (leases s) i = None \<Longrightarrow>
     parent_of s' c = (if c = i then Some (ParentKeyName rec) else parent_of s c)"
  by (auto simp: parent_of_def mget_mput split: option.split)

lemma apply_candidate_wf:
  assumes wfs: "wf_store lib s" and own: "\<not> foreign lib s owner r" and ne: "owner \<noteq> []"
    and lib: "plain_text lib"
  shows "wf_store lib (apply_candidate now owner l zone (RecordKey lib r, r) s)"
proof -
  note wf = wfs [unfolded wf_store_def]
  let ?i = "RecordKey lib r" and ?t = "apply_candidate now owner l zone (RecordKey lib r, r) s"
  let ?e = "upsert_record now owner l zone ?i r"
  note recs = apply_candidate_records [OF wf own]
  have nl: "mget (leases s) ?i = None" using RecordKey_not_lease [OF wf lib] .
  have par: "parent_of ?t c = (if c = ?i then Some owner else parent_of s c)" for c
    using parent_of_upsert [OF recs _ nl] by simp
  show ?thesis unfolding wf_store_def
  proof (rule wf_uptoI)
    show "wf_sets (children ?t)"
      using wf_sets_children [OF wf]
      by (simp add: apply_candidate_def Let_def wf_sets_attach split: option.split)
  next
    fix n q assume "mget (nonKeyRecords ?t) n = Some q"
    then show "wf_record lib n q" using wf_record_at [OF wf] ne
      by (auto simp: recs mget_mput wf_record_def upsert_record_def split: if_splits)
  next
    fix n show "mget (leases ?t) n = None \<or> mget (nonKeyRecords ?t) n = None"
      using nl wf_disjoint [OF wf, of n] by (auto simp: recs mget_mput)
  next
    fix p c show "c \<in> set (sget (children ?t) p) \<longleftrightarrow> p \<noteq> [] \<and> p \<notin> {} \<and> parent_of ?t c = Some p"
      using ne by (auto simp: apply_candidate_children [OF wfs own ne lib] par wf_children [OF wf])
  qed (simp_all add: wf_uptoD [OF wf] recs)
qed

lemma foreign_apply:
  assumes "wf_upto lib D s" "\<not> foreign lib s owner r" "\<not> foreign lib s owner q"
  shows "\<not> foreign lib (apply_candidate now owner l zone (RecordKey lib r, r) s) owner q"
  using assms(3) by (auto simp: foreign_def apply_candidate_records [OF assms(1,2)] mget_mput split: option.splits)

abbreviation upsert_all :: "dnslib \<Rightarrow> time \<Rightarrow> string \<Rightarrow> u32 \<Rightarrow> string \<Rightarrow> rr list \<Rightarrow> store \<Rightarrow> store" where
  "upsert_all lib now owner l zone rs s \<equiv>
     fold (apply_candidate now owner l zone) (map (\<lambda>r. (RecordKey lib r, r)) rs) s"

lemma upsert_all_props:
  assumes "wf_store lib s" "\<forall>r \<in> set rs. \<not> foreign lib s owner r" "owner \<noteq> []" "plain_text lib"
  shows "wf_store lib (upsert_all lib now owner l zone rs s) \<and>
    leases (upsert_all lib now owner l zone rs s) = leases s \<and>
    nonKeyRecords (upsert_all lib now owner l zone rs s) =
      fold (\<lambda>r. mput (RecordKey lib r) (upsert_record now owner l zone (RecordKey lib r) r)) rs (nonKeyRecords s)"
  using assms
proof (induction rs arbitrary: s)
  case (Cons r rs)
  let ?t = "apply_candidate now owner l zone (RecordKey lib r, r) s"
  have r: "\<not> foreign lib s owner r" using Cons.prems by simp
  have "wf_store lib ?t" by (rule apply_candidate_wf) (use Cons.prems in auto)
  moreover have "\<forall>q \<in> set rs. \<not> foreign lib ?t owner q"
    using Cons.prems foreign_apply [OF Cons.prems(1) [unfolded wf_store_def] r] by auto
  moreover note apply_candidate_records [OF Cons.prems(1) [unfolded wf_store_def] r]
  ultimately show ?case using Cons.IH [of ?t] Cons.prems(3,4) by simp
qed simp

lemma UpsertNonKEYRecords_cases:
  "UpsertNonKEYRecords lib now oa rs l z s =
     (if Normalize oa = [] then (s, Some OwnerKeyNameIsEmpty)
      else case check_batch lib s (Normalize oa) rs [] of
        Inl e \<Rightarrow> (s, Some e)
      | Inr _ \<Rightarrow> (upsert_all lib now (Normalize oa) l (Normalize z) rs s, None))"
proof (cases "check_batch lib s (Normalize oa) rs []")
  case (Inr t)
  then have "t = map (\<lambda>r. (RecordKey lib r, r)) rs" by (simp add: check_batch_Inr)
  with Inr show ?thesis by (simp add: UpsertNonKEYRecords_def Let_def)
qed (simp add: UpsertNonKEYRecords_def Let_def)

lemma UpsertNonKEYRecords_ok:
  assumes "UpsertNonKEYRecords lib now oa rs l z s = (s', None)"
  shows "Normalize oa \<noteq> []" "\<forall>r \<in> set rs. \<not> foreign lib s (Normalize oa) r"
    "s' = upsert_all lib now (Normalize oa) l (Normalize z) rs s"
  using assms by (cases "check_batch lib s (Normalize oa) rs []";
      auto simp: UpsertNonKEYRecords_cases check_batch_Inr split: if_splits)+

lemma UpsertNonKEYRecords_wf:
  assumes "wf_store lib s" "plain_text lib" "UpsertNonKEYRecords lib now oa rs l z s = (s', None)"
  shows "wf_store lib s'"
  using UpsertNonKEYRecords_ok [OF assms(3)] upsert_all_props [OF assms(1) _ _ assms(2)] by simp

subsection \<open>Removing records\<close>

lemma wf_sets_filter:
  "wf_sets m \<Longrightarrow> wf_sets (if filter P (sget m k) = [] then mdel k m else mput k (filter P (sget m k)) m)"
  by (simp add: wf_sets_mdel wf_sets_mput wf_sets_sget)

lemma sget_filter:
  "sget (if filter P (sget m k) = [] then mdel k m else mput k (filter P (sget m k)) m) q =
     (if q = k then filter P (sget m k) else sget m q)"
  by (simp add: sget_mput sget_mdel)

text \<open>Removing a set \<open>G\<close> of records, all children of \<open>p\<close>, from the map and from their parent's set.\<close>

lemma wf_remove_records:
  assumes wf: "wf_upto lib D s"
    and G: "\<And>c. c \<in> G \<Longrightarrow> \<exists>e. mget (nonKeyRecords s) c = Some e \<and> ParentKeyName e = p"
    and nk: "mwf nk" "mget nk = (mget (nonKeyRecords s)) |` (- G)"
    and ch: "wf_sets ch" "\<And>q. set (sget ch q) = (if q = p then set (sget (children s) p) - G else set (sget (children s) q))"
  shows "wf_upto lib D (s\<lparr>nonKeyRecords := nk, children := ch\<rparr>)"
proof -
  let ?t = "s\<lparr>nonKeyRecords := nk, children := ch\<rparr>"
  have dj: "mget (leases s) c = None" if "c \<in> G" for c
    using G [OF that] wf_disjoint [OF wf, of c] by auto
  have rec: "mget nk c = (if c \<in> G then None else mget (nonKeyRecords s) c)" for c
    by (simp add: nk(2) restrict_map_def)
  have par: "parent_of ?t c = (if c \<in> G then None else parent_of s c)" for c
    using dj by (auto simp: parent_of_def rec split: option.split)
  have pG: "parent_of s c = Some p" if "c \<in> G" for c
    using G [OF that] dj [OF that] by (auto simp: parent_of_def)
  show ?thesis
  proof (rule wf_uptoI)
    fix q c show "c \<in> set (sget (children ?t) q) \<longleftrightarrow> q \<noteq> [] \<and> q \<notin> D \<and> parent_of ?t c = Some q"
      using pG by (auto simp: ch(2) par wf_children [OF wf])
  qed (use nk(1) ch(1) in \<open>auto simp: rec wf_uptoD [OF wf] split: if_splits\<close>)
qed

definition owned :: "store \<Rightarrow> string \<Rightarrow> string set" where
  "owned s p = {c. \<exists>e. mget (nonKeyRecords s) c = Some e \<and> ParentKeyName e = p}"

lemma wf_owned_iff:
  assumes wf: "wf_store lib s"
  shows "c \<in> owned s p \<longleftrightarrow> c \<in> set (sget (children s) p) \<and> mget (nonKeyRecords s) c \<noteq> None"
proof -
  note wf = wf [unfolded wf_store_def]
  show ?thesis
  proof (cases "mget (nonKeyRecords s) c")
    case (Some e)
    moreover have "mget (leases s) c = None" using Some wf_disjoint [OF wf, of c] by simp
    ultimately show ?thesis using wf_record_at [OF wf Some]
      by (auto simp: owned_def wf_children [OF wf] parent_of_def wf_record_def)
  qed (simp add: owned_def)
qed

lemma RemoveNonKEYRecords_records:
  assumes wf: "wf_store lib s"
  shows "mget (nonKeyRecords (RemoveNonKEYRecords oa s)) = (mget (nonKeyRecords s)) |` (- owned s (Normalize oa))"
proof -
  have "set (filter (\<lambda>c. mget (nonKeyRecords s) c \<noteq> None) (sget (children s) (Normalize oa))) = owned s (Normalize oa)"
    using wf_owned_iff [OF wf] by auto
  then show ?thesis by (simp add: RemoveNonKEYRecords_def Let_def gm.fold_del)
qed

lemma RemoveNonKEYRecords_wf:
  assumes wf: "wf_store lib s"
  shows "wf_store lib (RemoveNonKEYRecords oa s)"
proof -
  note wf' = wf [unfolded wf_store_def]
  let ?p = "Normalize oa" and ?P = "\<lambda>c. mget (nonKeyRecords s) c = None"
  define nk where "nk = nonKeyRecords (RemoveNonKEYRecords oa s)"
  define ch where "ch = children (RemoveNonKEYRecords oa s)"
  have ch': "ch = (if filter ?P (sget (children s) ?p) = [] then mdel ?p (children s)
      else mput ?p (filter ?P (sget (children s) ?p)) (children s))"
    by (simp add: ch_def RemoveNonKEYRecords_def Let_def)
  have t: "RemoveNonKEYRecords oa s = s\<lparr>nonKeyRecords := nk, children := ch\<rparr>"
    by (simp add: nk_def ch_def RemoveNonKEYRecords_def Let_def)
  show ?thesis unfolding wf_store_def t
  proof (rule wf_remove_records [OF wf', of "owned s ?p" ?p])
    show "mwf nk" using wf_mwf_records [OF wf']
      by (simp add: nk_def RemoveNonKEYRecords_def Let_def gm.ok_fold_del)
    show "mget nk = (mget (nonKeyRecords s)) |` (- owned s ?p)"
      unfolding nk_def by (rule RemoveNonKEYRecords_records [OF wf])
    show "wf_sets ch" unfolding ch' using wf_sets_children [OF wf'] by (rule wf_sets_filter)
    show "set (sget ch q) = (if q = ?p then set (sget (children s) ?p) - owned s ?p else set (sget (children s) q))" for q
      unfolding ch' sget_filter using wf_owned_iff [OF wf] by auto
  qed (simp add: owned_def)
qed

lemma RemoveSingle_cases:
  assumes "wf_store lib s" "mget (nonKeyRecords s) c = Some e" "ParentKeyName e = Normalize oa"
  shows "RemoveSingleNonKEYRecord oa c s =
    (s\<lparr>nonKeyRecords := mdel c (nonKeyRecords s),
       children := (if filter (\<lambda>x. x \<noteq> c) (sget (children s) (Normalize oa)) = []
         then mdel (Normalize oa) (children s)
         else mput (Normalize oa) (filter (\<lambda>x. x \<noteq> c) (sget (children s) (Normalize oa))) (children s))\<rparr>, None)"
proof -
  have "c \<in> owned s (Normalize oa)" using assms by (simp add: owned_def)
  then obtain kids where "mget (children s) (Normalize oa) = Some kids"
    using wf_owned_iff [OF assms(1), of c "Normalize oa"] sget_None [of "children s" "Normalize oa"]
    by (cases "mget (children s) (Normalize oa)") auto
  then show ?thesis using assms(2,3)
    by (simp add: RemoveSingleNonKEYRecord_def Let_def sget_Some removeAll_filter)
qed

lemma RemoveSingleNonKEYRecord_wf:
  assumes wf: "wf_store lib s" and r: "RemoveSingleNonKEYRecord oa c s = (s', err)"
  shows "wf_store lib s'"
proof (cases "\<exists>e. mget (nonKeyRecords s) c = Some e \<and> ParentKeyName e = Normalize oa")
  case False
  then have "s' = s" using r by (auto simp: RemoveSingleNonKEYRecord_def Let_def split: option.splits if_splits)
  then show ?thesis using wf by simp
next
  case True
  then obtain e where e: "mget (nonKeyRecords s) c = Some e" "ParentKeyName e = Normalize oa" by blast
  note wf' = wf [unfolded wf_store_def]
  let ?p = "Normalize oa" and ?ks = "filter (\<lambda>x. x \<noteq> c) (sget (children s) (Normalize oa))"
  let ?ch = "if ?ks = [] then mdel ?p (children s) else mput ?p ?ks (children s)"
  have s': "s' = s\<lparr>nonKeyRecords := mdel c (nonKeyRecords s), children := ?ch\<rparr>"
    using r RemoveSingle_cases [OF wf e] by (metis Pair_inject)
  have "wf_upto lib {} (s\<lparr>nonKeyRecords := mdel c (nonKeyRecords s), children := ?ch\<rparr>)"
  proof (rule wf_remove_records [OF wf', of "{c}" ?p])
    show "wf_sets ?ch" using wf_sets_children [OF wf'] by (rule wf_sets_filter)
    show "set (sget ?ch q) = (if q = ?p then set (sget (children s) ?p) - {c} else set (sget (children s) q))" for q
      unfolding sget_filter by auto
  qed (use e wf_mwf_records [OF wf'] in \<open>auto simp: mget_mdel restrict_map_def fun_eq_iff\<close>)
  then show ?thesis unfolding s' wf_store_def .
qed

end
