(* ===== verification/Store_Tree.thy ===== *)
theory Store_Tree
  imports Store_Invariant
begin

text \<open>
  Walking and deleting subtrees. The two work-list loops of the store, that of
  \<open>ListSubtreeKeys\<close> and that of \<open>deleteSubtreeLocked\<close>, compute exactly the nodes reachable over
  the \<open>children\<close> index, also when the parent links form a cycle, which nothing in the store
  rules out. Deleting a subtree then removes exactly these nodes and keeps the invariant.
\<close>

subsection \<open>Reachability over the children index\<close>

definition edges :: "string list gomap \<Rightarrow> (string \<times> string) set" where
  "edges ch = {(p, c). c \<in> set (sget ch p)}"

lemma edges_Image: "edges ch `` {p} = set (sget ch p)"
  by (auto simp: edges_def)

lemma Image_closed_rtrancl: "X \<subseteq> Y \<Longrightarrow> R `` Y \<subseteq> Y \<Longrightarrow> R\<^sup>* `` X \<subseteq> Y"
  by (metis Image_closed_trancl Image_mono subset_refl subset_trans)

lemma collect_loop_mono: "set seen \<union> set stack \<subseteq> set (collect_loop ch stack seen)"
  by (induction ch stack seen rule: collect_loop.induct) auto

lemma collect_loop_sub: "set (collect_loop ch stack seen) \<subseteq> set seen \<union> (edges ch)\<^sup>* `` set stack"
proof (induction ch stack seen rule: collect_loop.induct)
  case (2 ch cur stack seen)
  have "(edges ch)\<^sup>* `` set (sget ch cur) \<subseteq> (edges ch)\<^sup>* `` {cur}"
    by (auto simp: edges_def intro: converse_rtrancl_into_rtrancl)
  moreover have "(edges ch)\<^sup>* `` set (cur # stack) = (edges ch)\<^sup>* `` {cur} \<union> (edges ch)\<^sup>* `` set stack" by auto
  moreover have "cur \<in> (edges ch)\<^sup>* `` {cur}" by simp
  ultimately show ?case using 2 by (cases "cur \<in> set seen") (simp_all add: Image_Un, blast+)
qed simp

lemma collect_loop_closed:
  "edges ch `` set seen \<subseteq> set seen \<union> set stack \<Longrightarrow>
   edges ch `` set (collect_loop ch stack seen) \<subseteq> set (collect_loop ch stack seen)"
proof (induction ch stack seen rule: collect_loop.induct)
  case (2 ch cur stack seen)
  show ?case
  proof (cases "cur \<in> set seen")
    case True
    with 2(1) 2(3) show ?thesis by auto
  next
    case False
    have "edges ch `` set (cur # seen) \<subseteq> set (cur # seen) \<union> set (rev (sget ch cur) @ stack)"
      using 2(3) by (auto simp: edges_def)
    from 2(2) [OF False this] False show ?thesis by simp
  qed
qed simp

lemma collect_loop_distinct: "distinct seen \<Longrightarrow> distinct (collect_loop ch stack seen)"
  by (induction ch stack seen rule: collect_loop.induct) auto

lemma collect_loop_reach: "set (collect_loop ch [root] []) = (edges ch)\<^sup>* `` {root}"
proof
  show "set (collect_loop ch [root] []) \<subseteq> (edges ch)\<^sup>* `` {root}"
    using collect_loop_sub [of ch "[root]" "[]"] by simp
  show "(edges ch)\<^sup>* `` {root} \<subseteq> set (collect_loop ch [root] [])"
    using collect_loop_mono [of "[]" "[root]" ch] by (intro Image_closed_rtrancl collect_loop_closed) auto
qed

lemma subtree_loop_spec:
  assumes "edges ch `` (set v - set st) \<subseteq> set v" "set st \<subseteq> set v" "set v \<subseteq> (edges ch)\<^sup>* `` {root}"
    and "root \<in> set v" "set a = set v - {root}" "distinct a"
  shows "set (subtree_loop ch (v, a, st)) = (edges ch)\<^sup>* `` {root} - {root} \<and> distinct (subtree_loop ch (v, a, st))"
  using assms
proof (induction "card (set (all_children ch) - set v) + length st" arbitrary: v a st rule: less_induct)
  case less
  show ?case
  proof (cases st)
    case Nil
    with less.prems have "(edges ch)\<^sup>* `` {root} \<subseteq> set v" by (intro Image_closed_rtrancl) auto
    with Nil less.prems show ?thesis by auto
  next
    case (Cons cur st')
    obtain v' a' st'' where pu: "push_unvisited (sget ch cur) (v, a, st') = (v', a', st'')"
      by (cases "push_unvisited (sget ch cur) (v, a, st')")
    obtain xs where xs: "v' = rev xs @ v" "a' = a @ xs" "st'' = rev xs @ st'"
      "set xs = set (sget ch cur) - set v" "distinct xs"
      using push_unvisited_spec [OF pu] by blast
    have lt: "card (set (all_children ch) - set v') + length st'' < card (set (all_children ch) - set v) + length st"
      using subtree_loop_measure [OF pu] Cons by simp
    have reach: "set (sget ch cur) \<subseteq> (edges ch)\<^sup>* `` {root}"
      using less.prems(2,3) Cons by (auto simp: edges_def dest: subsetD intro: rtrancl_into_rtrancl)
    have "set (subtree_loop ch (v', a', st'')) = (edges ch)\<^sup>* `` {root} - {root} \<and> distinct (subtree_loop ch (v', a', st''))"
    proof (rule less.hyps [OF lt])
      show "edges ch `` (set v' - set st'') \<subseteq> set v'"
        using less.prems(1) Cons xs by (fastforce simp: edges_def)
      show "set v' \<subseteq> (edges ch)\<^sup>* `` {root}" using less.prems(3) reach xs by auto
      show "set a' = set v' - {root}" using less.prems(4,5) xs by auto
      show "distinct a'" using less.prems(4-6) xs by auto
    qed (use less.prems Cons xs in auto)
    then show ?thesis by (simp add: Cons pu)
  qed
qed

lemma ListSubtreeKeys_set:
  "set (ListSubtreeKeys s n) = (edges (children s))\<^sup>* `` {Normalize n} - {Normalize n}"
  "distinct (ListSubtreeKeys s n)"
  using subtree_loop_spec [of "children s" "[Normalize n]" "[Normalize n]" "Normalize n" "[]"]
  by (simp_all add: ListSubtreeKeys_def Let_def)

subsection \<open>Deleting one node\<close>

lemma delete_node_maps:
  "leases (delete_node k s) = (if mget (leases s) k = None then leases s else mdel k (leases s))"
  "nonKeyRecords (delete_node k s) =
     (if mget (leases s) k = None \<and> mget (nonKeyRecords s) k \<noteq> None then mdel k (nonKeyRecords s) else nonKeyRecords s)"
  "nameIdx (delete_node k s) = (if mget (leases s) k = None then nameIdx s else delete_name k (nameIdx s))"
  by (auto simp: delete_node_def Let_def split: option.split)

lemma delete_node_children:
  "sget (children (delete_node k s)) q =
     (if q = k then []
      else if \<exists>p. parent_of s k = Some p \<and> p \<noteq> [] \<and> q = p then removeAll k (sget (children s) q)
      else sget (children s) q)"
  by (auto simp: delete_node_def Let_def sget_mdel sget_detach parent_of_def split: option.split)

lemma wf_sets_delete_node: "wf_sets (children s) \<Longrightarrow> wf_sets (children (delete_node k s))"
  by (auto simp: delete_node_def Let_def wf_sets_mdel wf_sets_detach split: option.split)

lemma wf_sets_delete_name: "wf_sets m \<Longrightarrow> wf_sets (delete_name k m)"
  by (auto simp: delete_name_def Let_def wf_sets_mdel intro!: wf_sets_mput distinct_filter wf_sets_sget)

lemma sget_delete_name:
  "sget (delete_name k m) n = (if n = NodeKeyName k then filter (\<lambda>x. x \<noteq> k) (sget m n) else sget m n)"
  by (simp add: delete_name_def Let_def sget_mput sget_mdel)

lemma delete_node_lookup:
  assumes wf: "wf_upto lib D s"
  shows "mget (leases (delete_node k s)) = (mget (leases s))(k := None)"
    and "mget (nonKeyRecords (delete_node k s)) = (mget (nonKeyRecords s))(k := None)"
    and "parent_of (delete_node k s) = (parent_of s)(k := None)"
proof -
  show l: "mget (leases (delete_node k s)) = (mget (leases s))(k := None)"
    by (auto simp: delete_node_maps mget_mdel)
  show r: "mget (nonKeyRecords (delete_node k s)) = (mget (nonKeyRecords s))(k := None)"
    using wf_disjoint [OF wf, of k] by (auto simp: delete_node_maps mget_mdel)
  show "parent_of (delete_node k s) = (parent_of s)(k := None)"
    by (rule ext) (simp add: parent_of_def l r split: option.split)
qed

lemma delete_node_wf:
  assumes wf: "wf_upto lib D s"
  shows "wf_upto lib (insert k D) (delete_node k s)"
proof (rule wf_uptoI)
  note lk = delete_node_lookup [OF wf, of k]
  show "mwf (leases (delete_node k s))" "mwf (nonKeyRecords (delete_node k s))"
    using wf_mwf_leases [OF wf] wf_mwf_records [OF wf] by (simp_all add: delete_node_maps)
  show "wf_sets (nameIdx (delete_node k s))" "wf_sets (children (delete_node k s))"
    using wf_sets_nameIdx [OF wf] wf_sets_children [OF wf]
    by (simp_all add: delete_node_maps wf_sets_delete_name wf_sets_delete_node)
  show "mget (leases (delete_node k s)) i = Some r \<Longrightarrow> wf_lease lib i r" for i r
    using wf_lease_at [OF wf] by (simp add: lk split: if_splits)
  show "mget (nonKeyRecords (delete_node k s)) i = Some r \<Longrightarrow> wf_record lib i r" for i r
    using wf_record_at [OF wf] by (simp add: lk split: if_splits)
  show "mget (leases (delete_node k s)) i = None \<or> mget (nonKeyRecords (delete_node k s)) i = None" for i
    using wf_disjoint [OF wf, of i] by (simp add: lk)
  show "c \<in> set (sget (children (delete_node k s)) p) \<longleftrightarrow>
      p \<noteq> [] \<and> p \<notin> insert k D \<and> parent_of (delete_node k s) c = Some p" for p c
    by (auto simp: delete_node_children lk wf_children [OF wf])
  show "i \<in> set (sget (nameIdx (delete_node k s)) n) \<longleftrightarrow>
      (\<exists>r. mget (leases (delete_node k s)) i = Some r \<and> KeyName r = n)" for n i
  proof (cases "mget (leases s) k")
    case None
    then show ?thesis by (auto simp: delete_node_maps lk wf_nameIdx [OF wf])
  next
    case (Some r)
    have "NodeKeyName k = KeyName r" using wf_lease_at [OF wf Some] by (rule wf_lease_NodeKeyName)
    then show ?thesis using Some by (auto simp: delete_node_maps mget_mdel sget_delete_name wf_nameIdx [OF wf] split: if_splits)
  qed
qed

subsection \<open>Deleting a subtree\<close>

lemma fold_delete_node:
  assumes "wf_upto lib D s"
  shows "wf_upto lib (D \<union> set ks) (fold delete_node ks s) \<and>
    mget (leases (fold delete_node ks s)) = (mget (leases s)) |` (- set ks) \<and>
    mget (nonKeyRecords (fold delete_node ks s)) = (mget (nonKeyRecords s)) |` (- set ks)"
  using assms
proof (induction ks arbitrary: s D)
  case (Cons k ks)
  from Cons.IH [OF delete_node_wf [OF Cons.prems, of k]] delete_node_lookup [OF Cons.prems, of k]
  show ?case by (auto simp: restrict_map_def fun_eq_iff)
qed (simp add: restrict_map_def)

text \<open>The nodes of the subtree at \<open>root\<close>, the root included.\<close>

definition subtree :: "store \<Rightarrow> string \<Rightarrow> string set" where
  "subtree s root = (edges (children s))\<^sup>* `` {root}"

lemma deleteSubtreeLocked_lookup:
  assumes wf: "wf_store lib s"
  shows "wf_upto lib (subtree s root) (deleteSubtreeLocked root s)"
    and "mget (leases (deleteSubtreeLocked root s)) = (mget (leases s)) |` (- subtree s root)"
    and "mget (nonKeyRecords (deleteSubtreeLocked root s)) = (mget (nonKeyRecords s)) |` (- subtree s root)"
  using fold_delete_node [OF wf [unfolded wf_store_def], of "sort_longest (collect_loop (children s) [root] [])"]
  by (simp_all add: deleteSubtreeLocked_def subtree_def collect_loop_reach del: collect_loop.simps)

lemma subtree_closed:
  assumes wf: "wf_store lib s" and "p \<in> subtree s root" "parent_of s c = Some p" "p \<noteq> []"
  shows "c \<in> subtree s root"
proof -
  have "(p, c) \<in> edges (children s)" using assms by (simp add: edges_def wf_store_def wf_children)
  with assms(2) show ?thesis by (auto simp: subtree_def intro: rtrancl_into_rtrancl)
qed

lemma parent_of_restrict:
  "mget (leases t) = (mget (leases s)) |` A \<Longrightarrow> mget (nonKeyRecords t) = (mget (nonKeyRecords s)) |` A \<Longrightarrow>
     parent_of t = (parent_of s) |` A"
  by (rule ext) (simp add: parent_of_def restrict_map_def split: option.split)

lemma deleteSubtreeLocked_wf:
  assumes wf: "wf_store lib s" and root: "root \<noteq> []"
  shows "wf_store lib (deleteSubtreeLocked root s)"
proof -
  let ?t = "deleteSubtreeLocked root s" and ?D = "subtree s root"
  note d = deleteSubtreeLocked_lookup [OF wf, of root]
  have par: "parent_of ?t = (parent_of s) |` (- ?D)" by (rule parent_of_restrict [OF d(2,3)])
  have out: "p \<notin> ?D" if "parent_of ?t c = Some p" "p \<noteq> []" for p c
    using that subtree_closed [OF wf, of p root c] by (auto simp: par restrict_map_def split: if_splits)
  show ?thesis unfolding wf_store_def
  proof (rule wf_uptoI)
    show "c \<in> set (sget (children ?t) p) \<longleftrightarrow> p \<noteq> [] \<and> p \<notin> {} \<and> parent_of ?t c = Some p" for p c
      using out by (auto simp: wf_children [OF d(1)])
  qed (rule wf_uptoD [OF d(1)]; assumption?)+
qed

lemma DeleteSubtree_wf:
  assumes "wf_store lib s" "DeleteSubtree n s = (s', err)"
  shows "wf_store lib s'"
  using assms deleteSubtreeLocked_wf by (auto simp: DeleteSubtree_def Let_def split: if_splits)

end
