(* ===== verification/Store_Spec.thy ===== *)
theory Store_Spec
  imports Store_Tree
begin

text \<open>
  What the lease store promises, without its indices: a finite map from identities to nodes,
  each with a parent field. Every operation of \<open>InMemoryLeaseStore\<close> refines an operation on
  that map, in which children, names and subtrees are read off the nodes themselves. The
  interface is the locale \<open>lease_tree\<close>; its clients are the expiry engine and the handlers.
\<close>

subsection \<open>The abstract forest\<close>

datatype node = KeyNode Record | DataNode NonKEYRecord

type_synonym forest = "string \<Rightarrow> node option"

fun node_parent :: "node \<Rightarrow> string" where
  "node_parent (KeyNode r) = ParentKeyName r"
| "node_parent (DataNode r) = ParentKeyName r"

definition abs_store :: "store \<Rightarrow> forest" where
  "abs_store s i =
     (case mget (leases s) i of
        Some r \<Rightarrow> Some (KeyNode r)
      | None \<Rightarrow> map_option DataNode (mget (nonKeyRecords s) i))"

definition forest_edges :: "forest \<Rightarrow> (string \<times> string) set" where
  "forest_edges F = {(p, c). p \<noteq> [] \<and> (\<exists>n. F c = Some n \<and> node_parent n = p)}"

definition descendants :: "forest \<Rightarrow> string \<Rightarrow> string set" where
  "descendants F root = (forest_edges F)\<^sup>* `` {root}"

definition data_of :: "forest \<Rightarrow> string \<Rightarrow> string set" where
  "data_of F owner = {c. \<exists>r. F c = Some (DataNode r) \<and> ParentKeyName r = owner}"

subsection \<open>Abstract operations\<close>

definition forest_delete :: "string \<Rightarrow> forest \<Rightarrow> forest" where
  "forest_delete root F = F |` (- descendants F root)"

definition forest_upsert :: "dnslib \<Rightarrow> time \<Rightarrow> string \<Rightarrow> u32 \<Rightarrow> string \<Rightarrow> rr list \<Rightarrow> forest \<Rightarrow> forest" where
  "forest_upsert lib now owner l zone rs =
     fold (\<lambda>r F. F(RecordKey lib r \<mapsto> DataNode (upsert_record now owner l zone (RecordKey lib r) r))) rs"

definition renewed :: "time \<Rightarrow> key \<Rightarrow> u32 \<Rightarrow> u32 \<Rightarrow> Record \<Rightarrow> Record" where
  "renewed now k l kl r =
     r\<lparr>ExpiresAt := now + seconds l, LeaseDuration := l, KeyLeaseDuration := kl, KeyRR := k\<rparr>"

subsection \<open>Relating the two\<close>

lemma abs_store_Key: "abs_store s i = Some (KeyNode r) \<longleftrightarrow> mget (leases s) i = Some r"
  by (auto simp: abs_store_def split: option.splits)

lemma abs_store_Data:
  "wf_store lib s \<Longrightarrow> abs_store s i = Some (DataNode r) \<longleftrightarrow> mget (nonKeyRecords s) i = Some r"
  using wf_disjoint [of lib "{}" s i] by (auto simp: wf_store_def abs_store_def split: option.splits)

lemma abs_store_None:
  "abs_store s i = None \<longleftrightarrow> mget (leases s) i = None \<and> mget (nonKeyRecords s) i = None"
  by (auto simp: abs_store_def split: option.splits)

lemma parent_of_abs: "parent_of s c = map_option node_parent (abs_store s c)"
  by (auto simp: parent_of_def abs_store_def option.map_comp comp_def split: option.splits)

lemma edges_abs:
  assumes "wf_store lib s"
  shows "edges (children s) = forest_edges (abs_store s)"
  using wf_children [OF assms [unfolded wf_store_def]]
  by (auto simp: edges_def forest_edges_def parent_of_abs)

lemma subtree_abs: "wf_store lib s \<Longrightarrow> subtree s root = descendants (abs_store s) root"
  by (simp add: subtree_def descendants_def edges_abs)

lemma owned_abs: "wf_store lib s \<Longrightarrow> owned s p = data_of (abs_store s) p"
  by (auto simp: owned_def data_of_def abs_store_Data)

lemma abs_store_restrict:
  "mget (leases t) = (mget (leases s)) |` A \<Longrightarrow> mget (nonKeyRecords t) = (mget (nonKeyRecords s)) |` A \<Longrightarrow>
     abs_store t = (abs_store s) |` A"
  by (rule ext) (simp add: abs_store_def restrict_map_def split: option.split)

lemma abs_store_lease:
  assumes "leases t = mput i rec (leases s)" "nonKeyRecords t = nonKeyRecords s"
  shows "abs_store t = (abs_store s)(i \<mapsto> KeyNode rec)"
  using assms by (intro ext) (simp add: abs_store_def mget_mput split: option.split)

lemma abs_store_record:
  assumes "leases t = leases s" "nonKeyRecords t = mput i rec (nonKeyRecords s)" "mget (leases s) i = None"
  shows "abs_store t = (abs_store s)(i \<mapsto> DataNode rec)"
  using assms by (intro ext) (auto simp: abs_store_def mget_mput split: option.split)

lemma abs_store_hook [simp]: "abs_store (call_hook h r s) = abs_store s"
  by (rule ext) (simp add: abs_store_def split: option.split)

subsection \<open>Every operation refines its abstract counterpart\<close>

lemma RegisterWithParent_abs:
  assumes "RegisterWithParent lib now pa (Some k) l kl z s = (s', None)"
  shows "abs_store s' = (abs_store s)(NodeKey lib k \<mapsto> KeyNode (reg_record lib now pa k l kl z))"
  using assms by (elim RegisterWithParent_ok) (auto intro!: abs_store_lease)

lemma RenewLease_abs:
  assumes "RenewLease lib now (Some k) l kl s = (s', None)"
  obtains r where "mget (leases s) (NodeKey lib k) = Some r"
    "abs_store s' = (abs_store s)(NodeKey lib k \<mapsto> KeyNode (renewed now k l kl r))"
proof -
  obtain r where r: "mget (leases s) (NodeKey lib k) = Some r"
    and s': "s' = call_hook ''renew'' (renewed now k l kl r)
      (s\<lparr>leases := mput (NodeKey lib k) (renewed now k l kl r) (leases s)\<rparr>)"
    using assms by (auto simp: RenewLease_def Let_def renewed_def split: option.splits)
  have "abs_store s' = (abs_store s)(NodeKey lib k \<mapsto> KeyNode (renewed now k l kl r))"
    unfolding s' abs_store_hook by (rule abs_store_lease) simp_all
  with r show ?thesis by (rule that)
qed

lemma DeleteSubtree_abs:
  assumes "wf_store lib s" "DeleteSubtree n s = (s', None)"
  shows "abs_store s' = forest_delete (Normalize n) (abs_store s)"
proof -
  have "s' = deleteSubtreeLocked (Normalize n) s"
    using assms(2) by (auto simp: DeleteSubtree_def Let_def split: if_splits)
  then show ?thesis
    using abs_store_restrict [OF deleteSubtreeLocked_lookup(2,3) [OF assms(1)]]
    by (simp add: forest_delete_def subtree_abs [OF assms(1)])
qed

lemma apply_candidate_abs:
  assumes "wf_store lib s" "plain_text lib" "\<not> foreign lib s owner r"
  shows "abs_store (apply_candidate now owner l zone (RecordKey lib r, r) s) =
    (abs_store s)(RecordKey lib r \<mapsto> DataNode (upsert_record now owner l zone (RecordKey lib r) r))"
  using assms by (intro abs_store_record)
    (simp_all add: wf_store_def apply_candidate_records RecordKey_not_lease)

lemma upsert_all_abs:
  assumes "wf_store lib s" "plain_text lib" "owner \<noteq> []" "\<forall>r \<in> set rs. \<not> foreign lib s owner r"
  shows "abs_store (upsert_all lib now owner l zone rs s) = forest_upsert lib now owner l zone rs (abs_store s)"
  using assms
proof (induction rs arbitrary: s)
  case (Cons r rs)
  let ?t = "apply_candidate now owner l zone (RecordKey lib r, r) s"
  have "wf_store lib ?t" by (rule apply_candidate_wf) (use Cons.prems in auto)
  moreover have "\<forall>q \<in> set rs. \<not> foreign lib ?t owner q"
    using Cons.prems foreign_apply [of lib "{}" s owner r] by (auto simp: wf_store_def)
  ultimately show ?case using Cons.IH [of ?t] Cons.prems apply_candidate_abs [of lib s owner r now l zone]
    by (simp add: forest_upsert_def fun_upd_def)
qed (simp add: forest_upsert_def)

lemma UpsertNonKEYRecords_abs:
  assumes "wf_store lib s" "plain_text lib" "UpsertNonKEYRecords lib now oa rs l z s = (s', None)"
  shows "abs_store s' = forest_upsert lib now (Normalize oa) l (Normalize z) rs (abs_store s)"
  using UpsertNonKEYRecords_ok [OF assms(3)] upsert_all_abs [OF assms(1,2)] by simp

lemma owned_lease_None: "wf_store lib s \<Longrightarrow> c \<in> owned s p \<Longrightarrow> mget (leases s) c = None"
  using wf_disjoint [of lib "{}" s c] by (auto simp: wf_store_def owned_def)

lemma abs_store_records_restrict:
  assumes "leases t = leases s" "mget (nonKeyRecords t) = (mget (nonKeyRecords s)) |` (- G)"
    and "\<And>c. c \<in> G \<Longrightarrow> mget (leases s) c = None"
  shows "abs_store t = (abs_store s) |` (- G)"
  using assms by (intro ext) (auto simp: abs_store_def restrict_map_def split: option.split)

lemma RemoveNonKEYRecords_abs:
  assumes wf: "wf_store lib s"
  shows "abs_store (RemoveNonKEYRecords oa s) = (abs_store s) |` (- data_of (abs_store s) (Normalize oa))"
proof (rule abs_store_records_restrict)
  show "leases (RemoveNonKEYRecords oa s) = leases s" by (simp add: RemoveNonKEYRecords_def Let_def)
qed (use RemoveNonKEYRecords_records [OF wf] owned_lease_None [OF wf] in \<open>simp_all add: owned_abs [OF wf, symmetric]\<close>)

lemma RemoveSingleNonKEYRecord_abs:
  assumes wf: "wf_store lib s"
  shows "RemoveSingleNonKEYRecord oa c s =
     (case mget (nonKeyRecords s) c of
        None \<Rightarrow> (s, None)
      | Some e \<Rightarrow> if ParentKeyName e \<noteq> Normalize oa
          then (s, Some (NotOwnedBy c (Normalize oa) (ParentKeyName e)))
          else (fst (RemoveSingleNonKEYRecord oa c s), None))"
    and "snd (RemoveSingleNonKEYRecord oa c s) = None \<Longrightarrow>
      abs_store (fst (RemoveSingleNonKEYRecord oa c s)) = (abs_store s) |` (- (data_of (abs_store s) (Normalize oa) \<inter> {c}))"
proof -
  show 1: "RemoveSingleNonKEYRecord oa c s =
     (case mget (nonKeyRecords s) c of
        None \<Rightarrow> (s, None)
      | Some e \<Rightarrow> if ParentKeyName e \<noteq> Normalize oa
          then (s, Some (NotOwnedBy c (Normalize oa) (ParentKeyName e)))
          else (fst (RemoveSingleNonKEYRecord oa c s), None))"
    using RemoveSingle_cases [OF wf, of c _ oa]
    by (cases "mget (nonKeyRecords s) c") (auto simp: RemoveSingleNonKEYRecord_def Let_def)
  assume "snd (RemoveSingleNonKEYRecord oa c s) = None"
  then consider (none) "mget (nonKeyRecords s) c = None"
    | (own) e where "mget (nonKeyRecords s) c = Some e" "ParentKeyName e = Normalize oa"
    by (subst (asm) 1) (auto split: option.splits if_splits)
  then show "abs_store (fst (RemoveSingleNonKEYRecord oa c s)) = (abs_store s) |` (- (data_of (abs_store s) (Normalize oa) \<inter> {c}))"
  proof cases
    case none
    then have "data_of (abs_store s) (Normalize oa) \<inter> {c} = {}"
      by (auto simp: owned_abs [OF wf, symmetric] owned_def)
    then show ?thesis using none by (simp add: RemoveSingleNonKEYRecord_def restrict_map_def)
  next
    case own
    then have "data_of (abs_store s) (Normalize oa) \<inter> {c} = {c}"
      by (auto simp: owned_abs [OF wf, symmetric] owned_def)
    moreover have "abs_store (fst (RemoveSingleNonKEYRecord oa c s)) = (abs_store s) |` (- {c})"
      using own wf_disjoint [OF wf [unfolded wf_store_def], of c] RemoveSingle_cases [OF wf own]
      by (intro abs_store_records_restrict) (auto simp: mget_mdel restrict_map_def fun_eq_iff)
    ultimately show ?thesis by simp
  qed
qed

subsection \<open>Every read agrees with the forest\<close>

lemma live_Some: "live now m = Some r \<longleftrightarrow> m = Some r \<and> \<not> IsExpired now r"
  by (auto simp: live_def split: option.splits)

lemma FindByName_set:
  assumes wf: "wf_store lib s"
  shows "set (FindByName now s n) =
    {r. (\<exists>i. abs_store s i = Some (KeyNode r)) \<and> KeyName r = Normalize n \<and> \<not> IsExpired now r}"
proof -
  have "r \<in> set (FindByName now s n) \<longleftrightarrow>
      (\<exists>i \<in> set (sget (nameIdx s) (Normalize n)). mget (leases s) i = Some r \<and> \<not> IsExpired now r)" for r
    by (simp add: FindByName_def set_map_filter live_Some)
  then show ?thesis
    unfolding Bex_def wf_nameIdx [OF wf [unfolded wf_store_def]] abs_store_Key by auto
qed

lemma ChildrenOf_set:
  assumes wf: "wf_store lib s" and "Normalize n \<noteq> []"
  shows "set (ChildrenOf s n) = {c. \<exists>m. abs_store s c = Some m \<and> node_parent m = Normalize n}"
    and "distinct (ChildrenOf s n)" "sorted (ChildrenOf s n)"
  using wf_children [OF wf [unfolded wf_store_def]] assms(2) wf_sets_children [OF wf [unfolded wf_store_def]]
  by (auto simp: ChildrenOf_def parent_of_abs wf_sets_sget)

lemma ListOwners_set:
  assumes wf: "wf_store lib s"
  shows "set (ListOwners s) = {i. (\<exists>r. abs_store s i = Some (KeyNode r)) \<or> data_of (abs_store s) i \<noteq> {}}"
    and "distinct (ListOwners s)" "sorted (ListOwners s)"
proof -
  have "ParentKeyName ` set (mvals (nonKeyRecords s)) = {i. owned s i \<noteq> {}}"
    using mvals_iff [OF wf_mwf_records [OF wf [unfolded wf_store_def]]] by (fastforce simp: owned_def image_iff)
  then show "set (ListOwners s) = {i. (\<exists>r. abs_store s i = Some (KeyNode r)) \<or> data_of (abs_store s) i \<noteq> {}}"
    by (auto simp: ListOwners_def Let_def fold_set_insert mkeys_mget abs_store_Key owned_abs [OF wf, symmetric])
qed (simp_all add: ListOwners_def Let_def fold_set_insert_distinct)

lemma GetNonKEYRecordSet_spec:
  assumes wf: "wf_store lib s"
  shows "GetNonKEYRecordSet s n = None \<longleftrightarrow> data_of (abs_store s) (Normalize n) = {}"
    and "GetNonKEYRecordSet s n = Some S \<Longrightarrow>
      mget (Records S) c = Some r \<longleftrightarrow> abs_store s c = Some (DataNode r) \<and> ParentKeyName r = Normalize n"
proof -
  define recs where "recs = List.map_filter
    (\<lambda>c. case mget (nonKeyRecords s) c of None \<Rightarrow> None | Some r \<Rightarrow> Some (c, r)) (sget (children s) (Normalize n))"
  have get: "mget recs c = (if c \<in> owned s (Normalize n) then mget (nonKeyRecords s) c else None)" for c
    unfolding recs_def mget_def map_filter_pairs using wf_owned_iff [OF wf] by (auto simp: mget_def)
  have own: "c \<in> owned s (Normalize n) \<longleftrightarrow> mget recs c \<noteq> None" for c
    using get wf_owned_iff [OF wf] by auto
  have empty: "recs = [] \<longleftrightarrow> owned s (Normalize n) = {}"
    using own by (cases recs) (auto simp: mget_Cons split: if_splits)
  show "GetNonKEYRecordSet s n = None \<longleftrightarrow> data_of (abs_store s) (Normalize n) = {}"
    using empty by (simp add: GetNonKEYRecordSet_def Let_def recs_def [symmetric] owned_abs [OF wf, symmetric])
  assume "GetNonKEYRecordSet s n = Some S"
  then have "Records S = recs"
    by (auto simp: GetNonKEYRecordSet_def Let_def recs_def [symmetric] split: if_splits)
  then show "mget (Records S) c = Some r \<longleftrightarrow> abs_store s c = Some (DataNode r) \<and> ParentKeyName r = Normalize n"
    using get by (auto simp: abs_store_Data [OF wf] owned_def split: if_splits)
qed

subsection \<open>The interface\<close>

text \<open>
  The contract of \<open>LeaseStorage\<close> as far as the clients use it: an invariant \<open>ok\<close>, the forest a
  state stands for, and what the operations do to it. \<open>name\<close> is the normalisation every
  operation applies to a node key.
\<close>

locale lease_tree =
  fixes ok :: "'s \<Rightarrow> bool"
    and forest_of :: "'s \<Rightarrow> forest"
    and name :: "string \<Rightarrow> string"
    and delete_subtree :: "string \<Rightarrow> 's \<Rightarrow> 's \<times> store_error option"
    and remove_record :: "string \<Rightarrow> string \<Rightarrow> 's \<Rightarrow> 's \<times> store_error option"
    and remove_records :: "string \<Rightarrow> 's \<Rightarrow> 's"
    and subtree_keys :: "'s \<Rightarrow> string \<Rightarrow> string list"
  assumes ok_delete: "ok s \<Longrightarrow> delete_subtree n s = (s', e) \<Longrightarrow> ok s'"
    and ok_remove: "ok s \<Longrightarrow> remove_record p c s = (s', e) \<Longrightarrow> ok s'"
    and ok_remove_all: "ok s \<Longrightarrow> ok (remove_records p s)"
    and delete_forest: "ok s \<Longrightarrow> delete_subtree n s = (s', None) \<Longrightarrow>
      forest_of s' = forest_delete (name n) (forest_of s)"
    and delete_error: "delete_subtree n s = (s', Some err) \<Longrightarrow> s' = s \<and> name n = []"
    and remove_forest: "ok s \<Longrightarrow> remove_record p c s = (s', None) \<Longrightarrow>
      forest_of s' = (forest_of s) |` (- (data_of (forest_of s) (name p) \<inter> {c}))"
    and remove_error: "remove_record p c s = (s', Some err) \<Longrightarrow> s' = s"
    and remove_all_forest: "ok s \<Longrightarrow>
      forest_of (remove_records p s) = (forest_of s) |` (- data_of (forest_of s) (name p))"
    and subtree_forest: "ok s \<Longrightarrow> set (subtree_keys s n) = descendants (forest_of s) (name n) - {name n}"
begin

text \<open>An operation only ever takes nodes away, and only from the subtree or the owner it names.\<close>

lemma delete_shrinks:
  assumes "ok s" "delete_subtree n s = (s', e)" "forest_of s' i = Some v"
  shows "forest_of s i = Some v"
  using assms delete_forest [of s n s'] delete_error [of n s s']
  by (cases e) (auto simp: forest_delete_def restrict_map_def split: if_splits)

lemma remove_shrinks:
  assumes "ok s" "remove_record p c s = (s', e)" "forest_of s' i = Some v"
  shows "forest_of s i = Some v"
  using assms remove_forest [of s p c s'] remove_error [of p c s s']
  by (cases e) (auto simp: restrict_map_def split: if_splits)

text \<open>What is outside the subtree survives its deletion unchanged.\<close>

lemma delete_keeps:
  assumes "ok s" "delete_subtree n s = (s', e)" "i \<noteq> name n" "i \<notin> set (subtree_keys s n)"
  shows "forest_of s' i = forest_of s i"
  using assms delete_forest [of s n s'] delete_error [of n s s'] subtree_forest [of s n]
  by (cases e) (auto simp: forest_delete_def restrict_map_def)

text \<open>After a deletion that succeeded nothing of the subtree is left, and nobody owns data of it.\<close>

lemma delete_gone:
  assumes "ok s" "delete_subtree n s = (s', None)" "i = name n \<or> i \<in> set (subtree_keys s n)"
  shows "forest_of s' i = None" "i \<noteq> [] \<Longrightarrow> data_of (forest_of s') i = {}"
proof -
  have D: "i \<in> descendants (forest_of s) (name n)"
    using assms subtree_forest [of s n] by (auto simp: descendants_def)
  note d = delete_forest [OF assms(1,2)]
  show "forest_of s' i = None" using D by (simp add: d forest_delete_def restrict_map_def)
  have "c \<in> descendants (forest_of s) (name n)"
    if "forest_of s c = Some (DataNode r)" "ParentKeyName r = i" "i \<noteq> []" for c r
  proof -
    have "(i, c) \<in> forest_edges (forest_of s)" using that by (auto simp: forest_edges_def)
    with D show ?thesis by (auto simp: descendants_def intro: rtrancl_into_rtrancl)
  qed
  then show "i \<noteq> [] \<Longrightarrow> data_of (forest_of s') i = {}"
    by (auto simp: d data_of_def forest_delete_def restrict_map_def split: if_splits)
qed

lemma ok_fold_remove: "ok s \<Longrightarrow> ok (fold (\<lambda>c s. fst (remove_record p c s)) cs s)"
proof (induction cs arbitrary: s)
  case (Cons c cs)
  have "ok (fst (remove_record p c s))" using Cons.prems ok_remove by (metis prod.collapse)
  with Cons.IH show ?case by simp
qed simp

end

lemma RemoveSingle_error: "RemoveSingleNonKEYRecord p c s = (s', Some e) \<Longrightarrow> s' = s"
  by (auto simp: RemoveSingleNonKEYRecord_def Let_def split: option.splits if_splits)

interpretation ls: lease_tree "wf_store lib" abs_store Normalize DeleteSubtree RemoveSingleNonKEYRecord
    RemoveNonKEYRecords ListSubtreeKeys for lib
proof unfold_locales
  show "wf_store lib s \<Longrightarrow> RemoveSingleNonKEYRecord p c s = (s', None) \<Longrightarrow>
      abs_store s' = (abs_store s) |` (- (data_of (abs_store s) (Normalize p) \<inter> {c}))" for s p c s'
    using RemoveSingleNonKEYRecord_abs(2) [of lib s p c] by simp
  show "wf_store lib s \<Longrightarrow> set (ListSubtreeKeys s n) = descendants (abs_store s) (Normalize n) - {Normalize n}" for s n
    by (simp add: ListSubtreeKeys_set descendants_def edges_abs)
  show "DeleteSubtree n s = (s', Some e) \<Longrightarrow> s' = s \<and> Normalize n = []" for n s s' e
    by (auto simp: DeleteSubtree_def Let_def split: if_splits)
qed (rule DeleteSubtree_wf RemoveSingleNonKEYRecord_wf RemoveNonKEYRecords_wf DeleteSubtree_abs
    RemoveNonKEYRecords_abs RemoveSingle_error; assumption)+

end
