(* ===== verification/Store_Properties.thy ===== *)
theory Store_Properties
  imports Store_Spec
begin

text \<open>
  The properties of the lease store: its invariant holds in every state that calls of its
  methods can reach, and each method does to the forest what its documentation says, on the
  success branch and on every error branch. A concrete store with a parent key, a child key and
  two records serves as the witness of the hypotheses.
\<close>

subsection \<open>The store as a state machine\<close>

inductive store_step :: "dnslib \<Rightarrow> store \<Rightarrow> store \<Rightarrow> bool" for lib where
  step_register: "RegisterWithParent lib now pa ka l kl z s = (s', err) \<Longrightarrow> store_step lib s s'"
| step_renew: "RenewLease lib now ka l kl s = (s', err) \<Longrightarrow> store_step lib s s'"
| step_delete: "DeleteSubtree n s = (s', err) \<Longrightarrow> store_step lib s s'"
| step_upsert: "UpsertNonKEYRecords lib now oa rs l z s = (s', err) \<Longrightarrow> store_step lib s s'"
| step_remove_all: "s' = RemoveNonKEYRecords oa s \<Longrightarrow> store_step lib s s'"
| step_remove: "RemoveSingleNonKEYRecord oa c s = (s', err) \<Longrightarrow> store_step lib s s'"
| step_hook: "s' = SetPersistenceHook h s \<Longrightarrow> store_step lib s s'"

inductive store_reach :: "dnslib \<Rightarrow> store \<Rightarrow> bool" for lib where
  reach_new: "store_reach lib NewInMemoryManager"
| reach_step: "store_reach lib s \<Longrightarrow> store_step lib s s' \<Longrightarrow> store_reach lib s'"

lemma RegisterWithParent_error: "RegisterWithParent lib now pa ka l kl z s = (s', Some e) \<Longrightarrow> s' = s"
  by (auto simp: RegisterWithParent_cases Let_def split: option.splits if_splits)

lemma RenewLease_error: "RenewLease lib now ka l kl s = (s', Some e) \<Longrightarrow> s' = s"
  by (auto simp: RenewLease_def Let_def split: option.splits)

lemma UpsertNonKEYRecords_error: "UpsertNonKEYRecords lib now oa rs l z s = (s', Some e) \<Longrightarrow> s' = s"
  by (auto simp: UpsertNonKEYRecords_def Let_def split: if_splits sum.splits)

lemma RenewLease_nil: "RenewLease lib now None l kl s = (s, Some KeyRRIsNil)"
  by (simp add: RenewLease_def)

lemma store_step_wf:
  assumes "plain_text lib" "wf_store lib s" "store_step lib s s'"
  shows "wf_store lib s'"
  using assms(3)
proof (cases rule: store_step.cases)
  case (step_register now pa ka l kl z err)
  then show ?thesis using assms
    by (cases err) (metis RegisterWithParent_wf, metis RegisterWithParent_error)
next
  case (step_renew now ka l kl err)
  then show ?thesis using assms unfolding wf_store_def
    by (cases err) (metis RenewLease_wf RenewLease_nil Pair_inject option.exhaust option.distinct(1), metis RenewLease_error)
next
  case (step_upsert now oa rs l z err)
  then show ?thesis using assms
    by (cases err) (metis UpsertNonKEYRecords_wf, metis UpsertNonKEYRecords_error)
next
  case (step_delete n err)
  then show ?thesis using assms(2) DeleteSubtree_wf by blast
next
  case (step_remove_all oa)
  then show ?thesis using assms(2) RemoveNonKEYRecords_wf by blast
next
  case (step_remove oa c err)
  then show ?thesis using assms(2) RemoveSingleNonKEYRecord_wf by blast
next
  case (step_hook h)
  then show ?thesis using assms(2) wf_SetPersistenceHook by blast
qed

subsection \<open>A concrete store\<close>

definition parent_key :: key where
  "parent_key = \<lparr>key_name = ''Example.'', key_class = 1, key_ttl = 0, Flags = 512, Protocol = 3,
     Algorithm = 15, PublicKey = ''AAAA''\<rparr>"

definition child_key :: key where
  "child_key = \<lparr>key_name = ''sub.example.'', key_class = 1, key_ttl = 0, Flags = 512, Protocol = 3,
     Algorithm = 15, PublicKey = ''BBBBB''\<rparr>"

definition host_address :: rr where
  "host_address = \<lparr>rr_name = ''sub.example.'', rr_class = 1, rr_ttl = 60, rr_data = A_data ''192.0.2.1''\<rparr>"

definition alias_record :: rr where
  "alias_record = \<lparr>rr_name = ''x.'', rr_class = 1, rr_ttl = 60, rr_data = Name_data CNAME ''sub.example.''\<rparr>"

definition sample_store :: store where
  "sample_store =
     (let s1 = fst (Register sample_lib 0 (Some parent_key) 60 120 ''example.'' NewInMemoryManager);
          s2 = fst (RegisterWithParent sample_lib 0 (NodeKey sample_lib parent_key) (Some child_key) 60 120 ''example.'' s1);
          s3 = fst (UpsertNonKEYRecords sample_lib 0 (NodeKey sample_lib child_key) [host_address, alias_record] 60 ''example.'' s2)
      in s3)"

lemma store_reach_ops:
  "store_reach lib s \<Longrightarrow> store_reach lib (fst (RegisterWithParent lib now pa ka l kl z s))"
  "store_reach lib s \<Longrightarrow> store_reach lib (fst (UpsertNonKEYRecords lib now oa rs l z s))"
  by (metis prod.collapse reach_step step_register, metis prod.collapse reach_step step_upsert)

lemma sample_store_reach: "store_reach sample_lib sample_store"
  unfolding sample_store_def Let_def Register_def by (intro store_reach_ops reach_new)

subsection \<open>Properties\<close>



lemma wf_sample_store: "wf_store sample_lib sample_store"
  by (metis plain_text_sample sample_store_reach store_reach.induct store_step_wf wf_NewInMemoryManager)


text \<open>
  \<open>UpsertNonKEYRecords\<close> applies the whole batch or nothing. It fails exactly if the owner is
  empty or a record of the batch is stored under another owner, and then the store is
  unchanged; otherwise every record of the batch is stored under the owner with the new lease,
  and no other node is touched.
\<close>

theorem upsert_all_or_nothing:
  assumes "plain_text lib" "wf_store lib s"
  shows "case UpsertNonKEYRecords lib now oa rs l z s of
      (s', None) \<Rightarrow> Normalize oa \<noteq> [] \<and> (\<forall>r \<in> set rs. \<not> foreign lib s (Normalize oa) r) \<and>
        abs_store s' = forest_upsert lib now (Normalize oa) l (Normalize z) rs (abs_store s)
    | (s', Some e) \<Rightarrow> s' = s \<and>
        (e = OwnerKeyNameIsEmpty \<and> Normalize oa = [] \<or>
         (\<exists>r \<in> set rs. \<exists>e'. mget (nonKeyRecords s) (RecordKey lib r) = Some e' \<and>
            ParentKeyName e' \<noteq> Normalize oa \<and> e = OwnedByOther r (ParentKeyName e')))"
proof -
  obtain s' err where u: "UpsertNonKEYRecords lib now oa rs l z s = (s', err)"
    by (cases "UpsertNonKEYRecords lib now oa rs l z s")
  show ?thesis
  proof (cases err)
    case None
    with u show ?thesis
      using UpsertNonKEYRecords_ok [of lib now oa rs l z s s'] UpsertNonKEYRecords_abs [OF assms(2,1), of now oa rs l z s']
      by simp
  next
    case (Some e)
    have s': "s' = s" using u Some UpsertNonKEYRecords_error by simp
    have "e = OwnerKeyNameIsEmpty \<and> Normalize oa = [] \<or> check_batch lib s (Normalize oa) rs [] = Inl e"
      using u Some by (cases "check_batch lib s (Normalize oa) rs []")
        (auto simp: UpsertNonKEYRecords_cases split: if_splits)
    moreover have "\<exists>r \<in> set rs. \<exists>e'. mget (nonKeyRecords s) (RecordKey lib r) = Some e' \<and>
        ParentKeyName e' \<noteq> Normalize oa \<and> e = OwnedByOther r (ParentKeyName e')"
      if "check_batch lib s (Normalize oa) rs [] = Inl e"
      using check_batch_Inl [OF that] unfolding foreign_def by (metis option.inject)
    ultimately show ?thesis using s' u Some by auto
  qed
qed

theorem upsert_all_or_nothing_witness:
  "UpsertNonKEYRecords sample_lib 5 ''example.+015+00516'' [alias_record\<lparr>rr_name := ''y.''\<rparr>, host_address] 60 ''example.'' sample_store =
     (sample_store, Some (OwnedByOther host_address ''sub.example.+015+00517''))"
proof -
  have "snd (UpsertNonKEYRecords sample_lib 5 ''example.+015+00516'' [alias_record\<lparr>rr_name := ''y.''\<rparr>, host_address] 60 ''example.'' sample_store)
      = Some (OwnedByOther host_address ''sub.example.+015+00517'')" by code_simp
  with upsert_all_or_nothing [OF plain_text_sample wf_sample_store, where now = 5 and
      oa = "''example.+015+00516''" and rs = "[alias_record\<lparr>rr_name := ''y.''\<rparr>, host_address]" and
      l = 60 and z = "''example.''"]
  show ?thesis by (auto split: prod.splits option.splits)
qed

text \<open>
  \<open>RegisterWithParent\<close> succeeds exactly if a key is given, its name is not empty and the
  parent is not a non-KEY record. It then writes exactly the node of that key, filed under the
  normalised parent, or under none if the key names itself as its parent; otherwise the store
  is unchanged.
\<close>

theorem register_refines:
  assumes "plain_text lib" "wf_store lib s"
  shows "case RegisterWithParent lib now pa ka l kl z s of
      (s', None) \<Rightarrow> (\<exists>k. ka = Some k \<and> Normalize (key_name k) \<noteq> [] \<and>
        \<not> (\<exists>r. abs_store s (reg_parent lib pa k) = Some (DataNode r)) \<and>
        abs_store s' = (abs_store s)(NodeKey lib k \<mapsto> KeyNode (reg_record lib now pa k l kl z)))
    | (s', Some e) \<Rightarrow> s' = s \<and>
        (ka = None \<or> (\<exists>k. ka = Some k \<and> (Normalize (key_name k) = [] \<or>
           (\<exists>r. abs_store s (reg_parent lib pa k) = Some (DataNode r)))))"
proof -
  have nil: "mget (nonKeyRecords s) [] = None"
    using wf_record_at [OF assms(2) [unfolded wf_store_def], of "[]"]
    by (metis RecordKey_neq_Nil wf_record_def option.exhaust)
  obtain s' err where u: "RegisterWithParent lib now pa ka l kl z s = (s', err)"
    by (cases "RegisterWithParent lib now pa ka l kl z s")
  show ?thesis
  proof (cases err)
    case None
    with u obtain k where k: "ka = Some k" "Normalize (key_name k) \<noteq> []"
      "reg_parent lib pa k = [] \<or> mget (nonKeyRecords s) (reg_parent lib pa k) = None"
      by (auto elim: RegisterWithParent_ok)
    have "abs_store s' = (abs_store s)(NodeKey lib k \<mapsto> KeyNode (reg_record lib now pa k l kl z))"
      using u None k(1) by (intro RegisterWithParent_abs) simp
    then show ?thesis using u None k nil by (auto simp: abs_store_Data [OF assms(2)])
  next
    case (Some e)
    then have "s' = s" using u RegisterWithParent_error by simp
    then show ?thesis using u Some
      by (auto simp: RegisterWithParent_cases abs_store_Data [OF assms(2)] Let_def split: option.splits if_splits)
  qed
qed

theorem register_refines_witness:
  "fst (RegisterWithParent sample_lib 7 ''X. 1 5'' (Some parent_key) 60 60 ''z.'' sample_store) = sample_store"
proof -
  have "snd (RegisterWithParent sample_lib 7 ''X. 1 5'' (Some parent_key) 60 60 ''z.'' sample_store) \<noteq> None"
    by code_simp
  with register_refines [OF plain_text_sample wf_sample_store, where now = 7 and
      pa = "''X. 1 5''" and ka = "Some parent_key" and l = 60 and kl = 60 and z = "''z.''"]
  show ?thesis by (auto split: prod.splits option.splits)
qed

text \<open>
  \<open>RenewLease\<close> succeeds exactly if the key is registered, and then changes nothing but that
  node's expiry, durations and key record: parent, registration time, zone and every other node
  stay as they are.
\<close>

theorem renew_refines:
  assumes "RenewLease lib now (Some k) l kl s = (s', err)"
  shows "(err = None \<longleftrightarrow> (\<exists>r. abs_store s (NodeKey lib k) = Some (KeyNode r))) \<and>
    (err \<noteq> None \<longrightarrow> s' = s) \<and>
    (\<forall>r. err = None \<longrightarrow> abs_store s (NodeKey lib k) = Some (KeyNode r) \<longrightarrow>
       abs_store s' = (abs_store s)(NodeKey lib k \<mapsto> KeyNode (r\<lparr>ExpiresAt := now + seconds l,
         LeaseDuration := l, KeyLeaseDuration := kl, KeyRR := k\<rparr>)))"
proof (cases err)
  case None
  then obtain r where r: "mget (leases s) (NodeKey lib k) = Some r"
    "abs_store s' = (abs_store s)(NodeKey lib k \<mapsto> KeyNode (renewed now k l kl r))"
    using assms by (auto elim: RenewLease_abs)
  then show ?thesis using None by (auto simp: abs_store_Key renewed_def)
next
  case (Some e)
  then show ?thesis using assms
    by (auto simp: RenewLease_def Let_def abs_store_Key split: option.splits)
qed

theorem renew_refines_witness:
  "\<exists>r. Get (fst (RenewLease sample_lib 9 (Some child_key) 30 90 sample_store)) ''sub.example.+015+00517'' = Some r \<and>
     LeaseDuration r = 30 \<and> ParentKeyName r = ''example.+015+00516''"
proof -
  have nk: "NodeKey sample_lib child_key = ''sub.example.+015+00517''" by code_simp
  have "map_option ParentKeyName (mget (leases sample_store) ''sub.example.+015+00517'') = Some ''example.+015+00516''"
    by code_simp
  then obtain r where r: "mget (leases sample_store) ''sub.example.+015+00517'' = Some r" "ParentKeyName r = ''example.+015+00516''"
    by auto
  let ?s = "fst (RenewLease sample_lib 9 (Some child_key) 30 90 sample_store)"
  have "abs_store ?s ''sub.example.+015+00517'' = Some (KeyNode (r\<lparr>ExpiresAt := 9 + seconds 30,
      LeaseDuration := 30, KeyLeaseDuration := 90, KeyRR := child_key\<rparr>))"
    using renew_refines [where lib = sample_lib and now = 9 and k = child_key and l = 30 and kl = 90 and s = sample_store] r nk
    by (cases "RenewLease sample_lib 9 (Some child_key) 30 90 sample_store") (auto simp: abs_store_Key)
  moreover have "Normalize ''sub.example.+015+00517'' = ''sub.example.+015+00517''" by code_simp
  ultimately show ?thesis using r(2) by (simp add: Get_def abs_store_Key)
qed

text \<open>
  C38. \<open>DeleteSubtree\<close> removes exactly the node and everything below it, over parent links of any
  shape, cycles included: the nodes outside that subtree keep their value, none of its nodes
  remains, and the loop that collects them always ends.
\<close>

theorem delete_subtree_exact:
  assumes "wf_store lib s" "Normalize n \<noteq> []"
  shows "\<exists>s'. DeleteSubtree n s = (s', None) \<and> wf_store lib s' \<and>
    (\<forall>i. abs_store s' i = (if i \<in> descendants (abs_store s) (Normalize n) then None else abs_store s i))"
proof -
  obtain s' where s': "DeleteSubtree n s = (s', None)"
    using assms(2) by (auto simp: DeleteSubtree_def Let_def)
  have "abs_store s' i = (if i \<in> descendants (abs_store s) (Normalize n) then None else abs_store s i)" for i
    using ls.delete_forest [OF assms(1) s'] by (simp add: forest_delete_def restrict_map_def)
  with s' ls.ok_delete [OF assms(1) s'] show ?thesis by blast
qed

theorem delete_subtree_exact_witness:
  "\<exists>s'. DeleteSubtree ''example.+015+00516.'' sample_store = (s', None) \<and> wf_store sample_lib s' \<and>
     abs_store s' ''other'' = abs_store sample_store ''other''"
proof -
  have "Normalize ''example.+015+00516.'' \<noteq> []" by code_simp
  from delete_subtree_exact [OF wf_sample_store this] obtain s' where
    s': "DeleteSubtree ''example.+015+00516.'' sample_store = (s', None)" "wf_store sample_lib s'"
    "\<forall>i. abs_store s' i = (if i \<in> descendants (abs_store sample_store) (Normalize ''example.+015+00516.'') then None
       else abs_store sample_store i)" by blast
  have "abs_store sample_store ''other'' = None" by code_simp
  with s' show ?thesis by auto
qed

text \<open>
  \<open>ListSubtreeKeys\<close> returns every proper descendant of a node, KEY or not, exactly once and
  never the node itself, longest identity first.
\<close>

theorem ListSubtreeKeys_exact:
  assumes "wf_store lib s"
  shows "set (ListSubtreeKeys s n) = descendants (abs_store s) (Normalize n) - {Normalize n} \<and>
    distinct (ListSubtreeKeys s n) \<and>
    sorted_wrt (\<lambda>a b. length b \<le> length a) (ListSubtreeKeys s n)"
  using ls.subtree_forest [OF assms] ListSubtreeKeys_set(2) sort_longest_descending
  by (simp add: ListSubtreeKeys_def Let_def)

theorem ListSubtreeKeys_exact_witness:
  "''x. 1 5'' \<in> descendants (abs_store sample_store) ''example.+015+00516''"
proof -
  have "''x. 1 5'' \<in> set (ListSubtreeKeys sample_store ''example.+015+00516'')" by code_simp
  moreover have "Normalize ''example.+015+00516'' = ''example.+015+00516''" by code_simp
  ultimately show ?thesis
    using ListSubtreeKeys_exact [OF wf_sample_store, of "''example.+015+00516''"] by auto
qed

text \<open>
  The order is that of the identities' lengths, not of depth: a CNAME record two levels below
  the root comes after the key it hangs from.
\<close>

lemma ListSubtreeKeys_not_deepest_first:
  "ListSubtreeKeys sample_store ''example.+015+00516'' =
     [''sub.example. 1 1 11 a192.0.2.1.'', ''sub.example.+015+00517'', ''x. 1 5''] \<and>
   parent_of sample_store ''x. 1 5'' = Some ''sub.example.+015+00517''"
  by code_simp

text \<open>
  The reads agree with the forest: \<open>FindByName\<close> returns the KEY nodes at a name whose lease
  has not run out; \<open>GetNonKEYRecordSet\<close> returns nil exactly for a node without records and
  otherwise its records by identity; \<open>ListOwners\<close> returns, sorted and without repetition, every
  KEY node and every owner of records.
\<close>

theorem reads_agree:
  assumes "wf_store lib s"
  shows "set (FindByName now s n) =
      {r. (\<exists>i. abs_store s i = Some (KeyNode r)) \<and> KeyName r = Normalize n \<and> now \<le> ExpiresAt r} \<and>
    (GetNonKEYRecordSet s n = None \<longleftrightarrow> data_of (abs_store s) (Normalize n) = {}) \<and>
    (\<forall>S c r. GetNonKEYRecordSet s n = Some S \<longrightarrow>
       (mget (Records S) c = Some r \<longleftrightarrow> abs_store s c = Some (DataNode r) \<and> ParentKeyName r = Normalize n)) \<and>
    set (ListOwners s) = {i. (\<exists>r. abs_store s i = Some (KeyNode r)) \<or> data_of (abs_store s) i \<noteq> {}} \<and>
    sorted (ListOwners s) \<and> distinct (ListOwners s)"
  using FindByName_set [OF assms] GetNonKEYRecordSet_spec [OF assms] ListOwners_set [OF assms]
  by (simp add: IsExpired_def not_less)

theorem reads_agree_witness:
  "GetNonKEYRecordSet sample_store ''example.+015+00516'' = None \<and>
   data_of (abs_store sample_store) ''example.+015+00516'' = {}"
proof -
  have "GetNonKEYRecordSet sample_store ''example.+015+00516'' = None" by code_simp
  moreover have "Normalize ''example.+015+00516'' = ''example.+015+00516''" by code_simp
  ultimately show ?thesis using reads_agree [OF wf_sample_store, of 0 "''example.+015+00516''"] by simp
qed

end
