(* ===== verification/Node_Locks.thy ===== *)
theory Node_Locks
  imports Prelude
begin

text \<open>
  The table of node locks (\<open>pkg/lease/nodelock.go\<close>). A lock is an identity in \<open>held\<close>; a set of
  identities is taken all or nothing under the table's mutex, so each call of \<open>tryLocked\<close> and of
  \<open>Release\<close> is one atomic step. The argument \<open>lockSet\<close> of the code is a closure evaluated inside
  that step; here it is the list it returned.

  The concurrent system is a step relation: any number of callers try, wait, retry and release
  in any order. The theorems: lock sets in force are pairwise disjoint and are exactly what the
  table holds, a failing attempt takes nothing and names exactly the identities in the way, a
  second release panics, and nobody can be stuck: whoever waits holds nothing and gets the
  locks once those in its way are released.
\<close>

subsection \<open>nodelock.go\<close>

record NodeLocks =
  held :: "string list"

record NodeLockSet =
  ids :: "string list"
  released :: bool

datatype lock_error = Contention "string list" | ReleasedTwice "string list" | ContextDone "string list"

definition NewNodeLocks :: NodeLocks where
  "NewNodeLocks = \<lparr>held = []\<rparr>"

text \<open>\<open>slices.Compact(slices.Sorted(...))\<close>\<close>

definition sorted_compact :: "string list \<Rightarrow> string list" where
  "sorted_compact xs = remdups_adj (sort_strings xs)"

definition tryLocked :: "string list \<Rightarrow> NodeLocks \<Rightarrow> NodeLocks \<times> NodeLockSet option \<times> string list" where
  "tryLocked lockSet n =
     (let want = sorted_compact lockSet;
          busy = filter (\<lambda>i. i \<in> set (held n)) want
      in if busy \<noteq> [] then (n, None, busy)
         else (n\<lparr>held := fold set_insert want (held n)\<rparr>, Some \<lparr>ids = want, released = False\<rparr>, []))"

definition TryAcquire :: "string list \<Rightarrow> NodeLocks \<Rightarrow> NodeLocks \<times> (lock_error + NodeLockSet)" where
  "TryAcquire lockSet n =
     (case tryLocked lockSet n of
        (n', None, busy) \<Rightarrow> (n', Inl (Contention busy))
      | (n', Some st, _) \<Rightarrow> (n', Inr st))"

text \<open>
  \<open>Acquire\<close> tries, waits for a release or the end of its context, and tries again. What it meets
  is the sequence of its attempts: for each, the table and the lock set at that moment, and
  whether the wait after a failed attempt ends by a release (\<open>True\<close>) or by the context. With no
  further attempt on record it is still waiting.
\<close>

datatype attempt = Attempt NodeLocks "string list" bool

fun Acquire :: "attempt list \<Rightarrow> (NodeLocks \<times> (lock_error + NodeLockSet)) option" where
  "Acquire [] = None"
| "Acquire (Attempt n lockSet woken # rest) =
     (case tryLocked lockSet n of
        (n', Some st, _) \<Rightarrow> Some (n', Inr st)
      | (n', None, busy) \<Rightarrow>
          if woken then Acquire rest else Some (n', Inl (ContextDone busy)))"

definition IDs :: "NodeLockSet \<Rightarrow> string list" where
  "IDs st = ids st"

definition Release :: "NodeLockSet \<Rightarrow> NodeLocks \<Rightarrow> lock_error + (NodeLocks \<times> NodeLockSet)" where
  "Release st n =
     (if released st then Inl (ReleasedTwice (ids st))
      else Inr (n\<lparr>held := fold removeAll (ids st) (held n)\<rparr>, st\<lparr>released := True\<rparr>))"

subsection \<open>The concurrent system\<close>

text \<open>The table together with every lock set handed out so far, by caller-visible handle.\<close>

record lock_sys =
  tbl :: NodeLocks
  sets :: "NodeLockSet list"

inductive lock_step :: "lock_sys \<Rightarrow> lock_sys \<Rightarrow> bool" where
  taken: "tryLocked want (tbl y) = (n', Some st, b) \<Longrightarrow>
     lock_step y (y\<lparr>tbl := n', sets := sets y @ [st]\<rparr>)"
| refused: "tryLocked want (tbl y) = (n', None, b) \<Longrightarrow> lock_step y (y\<lparr>tbl := n'\<rparr>)"
| freed: "i < length (sets y) \<Longrightarrow> Release (sets y ! i) (tbl y) = Inr (n', st) \<Longrightarrow>
     lock_step y (y\<lparr>tbl := n', sets := (sets y)[i := st]\<rparr>)"

definition lock_init :: lock_sys where
  "lock_init = \<lparr>tbl = NewNodeLocks, sets = []\<rparr>"

definition in_force :: "lock_sys \<Rightarrow> nat \<Rightarrow> bool" where
  "in_force y i \<longleftrightarrow> i < length (sets y) \<and> \<not> released (sets y ! i)"

definition locks_ok :: "lock_sys \<Rightarrow> bool" where
  "locks_ok y \<longleftrightarrow>
     (\<forall>i. in_force y i \<longrightarrow> set (ids (sets y ! i)) \<subseteq> set (held (tbl y))) \<and>
     (\<forall>x \<in> set (held (tbl y)). \<exists>i. in_force y i \<and> x \<in> set (ids (sets y ! i))) \<and>
     (\<forall>i j. in_force y i \<longrightarrow> in_force y j \<longrightarrow> i \<noteq> j \<longrightarrow> set (ids (sets y ! i)) \<inter> set (ids (sets y ! j)) = {})"

subsection \<open>Lemmas\<close>

lemma sorted_compact_set [simp]: "set (sorted_compact xs) = set xs"
  by (simp add: sorted_compact_def)

lemma sorted_remdups_adj_distinct: "sorted (xs :: string list) \<Longrightarrow> distinct (remdups_adj xs)"
  by (induction xs rule: remdups_adj.induct) (auto dest: order_antisym)

lemma sorted_compact_distinct: "distinct (sorted_compact xs)" "sorted (sorted_compact xs)"
  by (simp_all add: sorted_compact_def sorted_remdups_adj_distinct sorted_remdups_adj)

lemma locks_okI:
  assumes "\<And>i. in_force y i \<Longrightarrow> set (ids (sets y ! i)) \<subseteq> set (held (tbl y))"
    and "\<And>x. x \<in> set (held (tbl y)) \<Longrightarrow> \<exists>i. in_force y i \<and> x \<in> set (ids (sets y ! i))"
    and "\<And>i j. in_force y i \<Longrightarrow> in_force y j \<Longrightarrow> i \<noteq> j \<Longrightarrow> set (ids (sets y ! i)) \<inter> set (ids (sets y ! j)) = {}"
  shows "locks_ok y"
  using assms unfolding locks_ok_def by blast

lemma locks_okD:
  assumes "locks_ok y"
  shows "in_force y i \<Longrightarrow> set (ids (sets y ! i)) \<subseteq> set (held (tbl y))"
    and "x \<in> set (held (tbl y)) \<Longrightarrow> \<exists>i. in_force y i \<and> x \<in> set (ids (sets y ! i))"
    and "in_force y i \<Longrightarrow> in_force y j \<Longrightarrow> i \<noteq> j \<Longrightarrow> set (ids (sets y ! i)) \<inter> set (ids (sets y ! j)) = {}"
  using assms unfolding locks_ok_def by simp_all

lemma tryLocked_Some:
  "tryLocked want n = (n', Some st, b) \<longleftrightarrow>
     set want \<inter> set (held n) = {} \<and> st = \<lparr>ids = sorted_compact want, released = False\<rparr> \<and> b = [] \<and>
     n' = n\<lparr>held := fold set_insert (sorted_compact want) (held n)\<rparr>"
  by (auto simp: tryLocked_def Let_def filter_empty_conv)

lemma tryLocked_None:
  "tryLocked want n = (n', None, b) \<longleftrightarrow>
     n' = n \<and> b = filter (\<lambda>i. i \<in> set (held n)) (sorted_compact want) \<and> set want \<inter> set (held n) \<noteq> {}"
  by (auto simp: tryLocked_def Let_def filter_empty_conv)

lemma fold_removeAll_set: "set (fold removeAll xs ys) = set ys - set xs"
  by (induction xs arbitrary: ys) auto

lemma locks_ok_taken:
  assumes ok: "locks_ok y" and t: "tryLocked want (tbl y) = (n', Some st, b)"
  shows "locks_ok (y\<lparr>tbl := n', sets := sets y @ [st]\<rparr>)"
proof -
  let ?y = "y\<lparr>tbl := n', sets := sets y @ [st]\<rparr>" and ?n = "length (sets y)"
  have t': "set want \<inter> set (held (tbl y)) = {}" "set (ids st) = set want" "\<not> released st"
    "set (held n') = set want \<union> set (held (tbl y))"
    using t by (auto simp: tryLocked_Some fold_set_insert)
  have force: "in_force ?y i \<longleftrightarrow> in_force y i \<or> i = ?n" for i
    using t'(3) by (auto simp: in_force_def nth_append less_Suc_eq)
  have old: "sets ?y ! i = sets y ! i" if "in_force y i" for i
    using that by (simp add: in_force_def nth_append)
  have neq: "i \<noteq> ?n" if "in_force y i" for i using that by (simp add: in_force_def)
  note sub = locks_okD(1) [OF ok]
  have apart: "set (ids (sets y ! i)) \<inter> set want = {}" if "in_force y i" for i
    using sub [OF that] t'(1) by auto
  have last: "sets ?y ! ?n = st" by simp
  show ?thesis
  proof (rule locks_okI)
    fix i assume "in_force ?y i"
    then consider "in_force y i" | "i = ?n" using force by blast
    then show "set (ids (sets ?y ! i)) \<subseteq> set (held (tbl ?y))"
      by cases (use sub [of i] old [of i] t' last in auto)
  next
    fix x assume x: "x \<in> set (held (tbl ?y))"
    show "\<exists>i. in_force ?y i \<and> x \<in> set (ids (sets ?y ! i))"
    proof (cases "x \<in> set want")
      case False
      with x t'(4) obtain i where "in_force y i" "x \<in> set (ids (sets y ! i))"
        using locks_okD(2) [OF ok, of x] by auto
      with old [of i] force [of i] show ?thesis by metis
    next
      case True
      with t'(2) last force [of ?n] show ?thesis by metis
    qed
  next
    fix i j assume ij: "in_force ?y i" "in_force ?y j" "i \<noteq> j"
    then consider "in_force y i" "in_force y j" | "in_force y i" "j = ?n" | "i = ?n" "in_force y j"
      using force by blast
    then show "set (ids (sets ?y ! i)) \<inter> set (ids (sets ?y ! j)) = {}"
    proof cases
      case 1
      then show ?thesis using locks_okD(3) [OF ok] ij(3) old by metis
    next
      case 2
      then show ?thesis using apart [of i] old [of i] last t'(2) by metis
    next
      case 3
      then show ?thesis using apart [of j] old [of j] last t'(2) by (metis Int_commute)
    qed
  qed
qed

lemma locks_ok_freed:
  assumes ok: "locks_ok y" and i: "i < length (sets y)" and r: "Release (sets y ! i) (tbl y) = Inr (n', st)"
  shows "locks_ok (y\<lparr>tbl := n', sets := (sets y)[i := st]\<rparr>)"
proof -
  let ?y = "y\<lparr>tbl := n', sets := (sets y)[i := st]\<rparr>"
  have fi: "in_force y i" and st: "released st"
    and held: "set (held n') = set (held (tbl y)) - set (ids (sets y ! i))"
    using r i by (auto simp: Release_def in_force_def fold_removeAll_set split: if_splits)
  have force: "in_force ?y j \<longleftrightarrow> in_force y j \<and> j \<noteq> i" for j
    using st i by (auto simp: in_force_def nth_list_update)
  have same: "sets ?y ! j = sets y ! j" if "j \<noteq> i" for j using that by simp
  have dj: "set (ids (sets y ! i)) \<inter> set (ids (sets y ! j)) = {}" if "in_force y j" "j \<noteq> i" for j
    using locks_okD(3) [OF ok fi that(1)] that(2) by metis
  show ?thesis
  proof (rule locks_okI)
    fix j assume "in_force ?y j"
    then have j: "in_force y j" "j \<noteq> i" using force by auto
    show "set (ids (sets ?y ! j)) \<subseteq> set (held (tbl ?y))"
      using locks_okD(1) [OF ok j(1)] dj [OF j] same [OF j(2)] by (auto simp: held)
  next
    fix x assume "x \<in> set (held (tbl ?y))"
    then have x: "x \<in> set (held (tbl y))" "x \<notin> set (ids (sets y ! i))" by (auto simp: held)
    then obtain j where j: "in_force y j" "x \<in> set (ids (sets y ! j))"
      using locks_okD(2) [OF ok] by blast
    then have "j \<noteq> i" using x by auto
    then show "\<exists>j. in_force ?y j \<and> x \<in> set (ids (sets ?y ! j))" using j force same by metis
  next
    fix a b assume "in_force ?y a" "in_force ?y b" "a \<noteq> b"
    then show "set (ids (sets ?y ! a)) \<inter> set (ids (sets ?y ! b)) = {}"
      using locks_okD(3) [OF ok, of a b] same force by metis
  qed
qed

lemma locks_ok_init: "locks_ok lock_init"
  by (simp add: locks_ok_def lock_init_def NewNodeLocks_def in_force_def)

lemma locks_ok_step:
  assumes "lock_step y y'" "locks_ok y"
  shows "locks_ok y'"
  using assms(1)
proof cases
  case (refused want n' b)
  then have "y' = y" by (simp add: tryLocked_None)
  then show ?thesis using assms(2) by simp
qed (use assms(2) locks_ok_taken locks_ok_freed in auto)

lemma locks_ok_reach: "lock_step\<^sup>*\<^sup>* lock_init y \<Longrightarrow> locks_ok y"
  by (induction rule: rtranclp_induct) (auto simp: locks_ok_init intro: locks_ok_step)


lemma sample_locks:
  "lock_step\<^sup>*\<^sup>* lock_init \<lparr>tbl = \<lparr>held = [''a'', ''b'', ''c'']\<rparr>,
     sets = [\<lparr>ids = [''a'', ''b''], released = False\<rparr>, \<lparr>ids = [''c''], released = False\<rparr>]\<rparr>"
proof -
  let ?y1 = "\<lparr>tbl = \<lparr>held = [''a'', ''b'']\<rparr>, sets = [\<lparr>ids = [''a'', ''b''], released = False\<rparr>]\<rparr>"
  have "tryLocked [''b'', ''a'', ''b''] (tbl lock_init) = (\<lparr>held = [''a'', ''b'']\<rparr>, Some \<lparr>ids = [''a'', ''b''], released = False\<rparr>, [])"
    by code_simp
  from lock_step.taken [OF this] have 1: "lock_step lock_init ?y1" by (simp add: lock_init_def)
  have "tryLocked [''c''] (tbl ?y1) = (\<lparr>held = [''a'', ''b'', ''c'']\<rparr>, Some \<lparr>ids = [''c''], released = False\<rparr>, [])"
    by code_simp
  from lock_step.taken [OF this] have "lock_step ?y1 \<lparr>tbl = \<lparr>held = [''a'', ''b'', ''c'']\<rparr>,
     sets = [\<lparr>ids = [''a'', ''b''], released = False\<rparr>, \<lparr>ids = [''c''], released = False\<rparr>]\<rparr>" by simp
  with 1 show ?thesis by (meson converse_rtranclp_into_rtranclp rtranclp.rtrancl_refl)
qed


text \<open>
  \<open>TryAcquire\<close> takes every identity asked for, sorted and without repetition, or none: it
  succeeds exactly if none of them is held, and otherwise leaves the table as it was and names
  exactly those that are.
\<close>

theorem TryAcquire_all_or_nothing:
  "case TryAcquire want n of
     (n', Inr st) \<Rightarrow> set want \<inter> set (held n) = {} \<and> set (ids st) = set want \<and> sorted (ids st) \<and>
       distinct (ids st) \<and> \<not> released st \<and> set (held n') = set (held n) \<union> set want
   | (n', Inl e) \<Rightarrow> n' = n \<and>
       (\<exists>busy. e = Contention busy \<and> busy \<noteq> [] \<and> sorted busy \<and> set busy = set want \<inter> set (held n))"
proof (cases "tryLocked want n")
  case (fields n' st b)
  show ?thesis
  proof (cases st)
    case None
    then have t: "n' = n" "b = filter (\<lambda>i. i \<in> set (held n)) (sorted_compact want)" "set want \<inter> set (held n) \<noteq> {}"
      using fields by (simp_all add: tryLocked_None)
    then have "set b = set want \<inter> set (held n)" "sorted b"
      using sorted_compact_distinct(2) [of want] by (auto simp: sorted_wrt_filter)
    moreover from this have "b \<noteq> []" using t(3) by auto
    ultimately show ?thesis using fields None t(1) by (simp add: TryAcquire_def)
  next
    case (Some x)
    then have "tryLocked want n = (n', Some x, b)" using fields by simp
    then show ?thesis using sorted_compact_distinct [of want]
      by (simp add: TryAcquire_def) (auto simp: tryLocked_Some fold_set_insert)
  qed
qed

text \<open>
  Nobody is stuck: in a reachable state an attempt on any identities succeeds unless one of
  them belongs to a set in force, so a waiting \<open>Acquire\<close>, which holds nothing itself, succeeds
  at its first attempt after the sets in its way are released; and \<open>Release\<close> fails only on a
  set released before.
\<close>

theorem lock_progress:
  assumes "lock_step\<^sup>*\<^sup>* lock_init y"
    and "\<forall>i. in_force y i \<longrightarrow> set (ids (sets y ! i)) \<inter> set want = {}"
  shows "(\<exists>n' st. Acquire (Attempt (tbl y) want woken # rest) = Some (n', Inr st) \<and> set (ids st) = set want) \<and>
    (\<forall>i. in_force y i \<longrightarrow> (\<exists>n' st. Release (sets y ! i) (tbl y) = Inr (n', st) \<and>
      set (held n') = set (held (tbl y)) - set (ids (sets y ! i))))"
proof -
  note ok = locks_ok_reach [OF assms(1)]
  have "set want \<inter> set (held (tbl y)) = {}"
    using locks_okD(2) [OF ok] assms(2) by blast
  then have "tryLocked want (tbl y) = ((tbl y)\<lparr>held := fold set_insert (sorted_compact want) (held (tbl y))\<rparr>,
      Some \<lparr>ids = sorted_compact want, released = False\<rparr>, [])"
    by (simp add: tryLocked_Some)
  then have "\<exists>n' st. Acquire (Attempt (tbl y) want woken # rest) = Some (n', Inr st) \<and> set (ids st) = set want"
    by simp
  then show ?thesis by (simp add: Release_def in_force_def fold_removeAll_set)
qed

theorem lock_progress_witness:
  "\<exists>n' st. Acquire [Attempt \<lparr>held = [''a'', ''b'', ''c'']\<rparr> [''d'', ''d''] False] = Some (n', Inr st) \<and> set (ids st) = {''d''}"
proof -
  let ?y = "\<lparr>tbl = \<lparr>held = [''a'', ''b'', ''c'']\<rparr>,
     sets = [\<lparr>ids = [''a'', ''b''], released = False\<rparr>, \<lparr>ids = [''c''], released = False\<rparr>]\<rparr>"
  have "\<forall>i. in_force ?y i \<longrightarrow> set (ids (sets ?y ! i)) \<inter> set [''d'', ''d''] = {}"
    by (auto simp: in_force_def less_Suc_eq)
  from conjunct1 [OF lock_progress [OF sample_locks this, where woken = False and rest = "[]"]] show ?thesis by simp
qed

end
