(* ===== verification/Lease_Policy.thy ===== *)
theory Lease_Policy
  imports Lease_Option
begin

text \<open>
  The lease policy of a handler and the reading of its configuration (\<open>handlers/lease_policy.go\<close>,
  \<open>record_ttl.go\<close>, \<open>toUint32\<close> in \<open>opcode5_setup.go\<close>, \<open>clampLease\<close> in \<open>opcode5.go\<close>), and the
  RFC 9664 handler's reading of a request's lease option (\<open>opcode5_lease_option.go\<close>).

  The theorems: under a policy that \<open>validate\<close> accepts, every granted pair of durations is
  within all configured bounds with LEASE at most KEY-LEASE; a request that \<open>parseLease\<close>
  accepted is never raised by the clamp; and what the conversion of configured numbers does
  with a value above 32 bits.
\<close>

subsection \<open>Configuration values\<close>

text \<open>
  A value of a \<open>map[string]any\<close>, with the dynamic types the code distinguishes. \<open>int\<close> and
  \<open>int64\<close> are 64-bit. Of a \<open>float64\<close> the code uses whether it is negative and what the platform's
  conversion to \<open>uint32\<close> gives; these two are what the model keeps.
\<close>

datatype go_value =
    VInt "64 word"
  | VInt64 "64 word"
  | VFloat64 bool u32
  | VUint32 u32
  | VUint64 "64 word"
  | VString string
  | VBool bool
  | VStrings "string list"
  | VList "go_value list"
  | VMap "(string \<times> go_value) list"
  | VNil
  | VOther

type_synonym config = "(string \<times> go_value) list"

definition toUint32 :: "go_value option \<Rightarrow> u32 option" where
  "toUint32 v =
     (case v of
        Some (VInt n) \<Rightarrow> if sint n < 0 then None else Some (ucast n)
      | Some (VInt64 n) \<Rightarrow> if sint n < 0 then None else Some (ucast n)
      | Some (VFloat64 neg u) \<Rightarrow> if neg then None else Some u
      | Some (VUint32 n) \<Rightarrow> Some n
      | Some (VUint64 n) \<Rightarrow> Some (ucast n)
      | _ \<Rightarrow> None)"

fun string_items :: "go_value list \<Rightarrow> string list" where
  "string_items [] = []"
| "string_items (VString s # vs) =
     (if TrimSpace s \<noteq> [] then TrimSpace s # string_items vs else string_items vs)"
| "string_items (v # vs) = string_items vs"

definition parseStringSlice :: "go_value option \<Rightarrow> string list" where
  "parseStringSlice raw =
     (case raw of
        Some (VStrings v) \<Rightarrow> filter (\<lambda>s. s \<noteq> []) (map TrimSpace v)
      | Some (VList v) \<Rightarrow> string_items v
      | _ \<Rightarrow> [])"

subsection \<open>The policy\<close>

record LeasePolicy =
  MinKeyLease :: u32
  MaxKeyLease :: u32
  MinRRLease :: u32
  MaxRRLease :: u32

datatype policy_error =
    PolicyNotAMap
  | KeyMinAboveMax u32 u32
  | RRMinAboveMax u32 u32
  | RRMinAboveKeyMin u32 u32
  | RRMaxLooserThanKeyMax u32 u32
  | BadRecordTTL

definition validate :: "LeasePolicy \<Rightarrow> policy_error option" where
  "validate p =
     (if MaxKeyLease p > 0 \<and> MinKeyLease p > MaxKeyLease p
      then Some (KeyMinAboveMax (MinKeyLease p) (MaxKeyLease p))
      else if MaxRRLease p > 0 \<and> MinRRLease p > MaxRRLease p
      then Some (RRMinAboveMax (MinRRLease p) (MaxRRLease p))
      else if MinRRLease p > MinKeyLease p
      then Some (RRMinAboveKeyMin (MinRRLease p) (MinKeyLease p))
      else if MaxKeyLease p > 0 \<and> (MaxRRLease p = 0 \<or> MaxRRLease p > MaxKeyLease p)
      then Some (RRMaxLooserThanKeyMax (MaxRRLease p) (MaxKeyLease p))
      else None)"

definition or_zero :: "u32 option \<Rightarrow> u32" where
  "or_zero v = (case v of Some n \<Rightarrow> n | None \<Rightarrow> 0)"

definition parseLeasePolicy :: "go_value \<Rightarrow> policy_error + LeasePolicy" where
  "parseLeasePolicy raw =
     (case raw of
        VMap cfg \<Rightarrow>
          let p = \<lparr>MinKeyLease = or_zero (toUint32 (map_of cfg ''min_key_lease_sec'')),
                   MaxKeyLease = or_zero (toUint32 (map_of cfg ''max_key_lease_sec'')),
                   MinRRLease = or_zero (toUint32 (map_of cfg ''min_rr_lease_sec'')),
                   MaxRRLease = or_zero (toUint32 (map_of cfg ''max_rr_lease_sec''))\<rparr>
          in (case validate p of Some e \<Rightarrow> Inl e | None \<Rightarrow> Inr p)
      | _ \<Rightarrow> Inl PolicyNotAMap)"

definition clampLease :: "u32 \<Rightarrow> u32 \<Rightarrow> u32 \<Rightarrow> u32" where
  "clampLease lease mn mx =
     (let lease1 = (if mn > 0 \<and> lease < mn then mn else lease) in
      if mx > 0 \<and> lease1 > mx then mx else lease1)"

definition clamp :: "LeasePolicy \<Rightarrow> u32 \<Rightarrow> u32 \<Rightarrow> u32 \<times> u32" where
  "clamp p lease keyLease =
     (let l = (if lease \<noteq> 0 then clampLease lease (MinRRLease p) (MaxRRLease p) else lease);
          k = (if keyLease \<noteq> 0 then clampLease keyLease (MinKeyLease p) (MaxKeyLease p) else keyLease);
          l' = (if l \<noteq> 0 \<and> k \<noteq> 0 \<and> l > k then k else l)
      in (l', k))"

subsection \<open>The TTL of published records\<close>

definition defaultRecordTTL :: u32 where
  "defaultRecordTTL = 300"

definition MaxInt32 :: u32 where
  "MaxInt32 = 0x7FFFFFFF"

definition parseRecordTTL :: "config \<Rightarrow> policy_error + u32" where
  "parseRecordTTL cfg =
     (case map_of cfg ''record_ttl_sec'' of
        None \<Rightarrow> Inr defaultRecordTTL
      | Some raw \<Rightarrow>
          (case toUint32 (Some raw) of
             None \<Rightarrow> Inl BadRecordTTL
           | Some ttl \<Rightarrow> if ttl = 0 \<or> ttl > MaxInt32 then Inl BadRecordTTL else Inr ttl))"

subsection \<open>The lease option of a request\<close>

datatype parse_lease_error =
    NoLeaseOption
  | InvalidLeaseOption lease_error
  | LeaseBelowMinimum u32 u32
  | KeyLeaseBelowMinimum u32 u32
  | FourByteNotPermitted
  | LeaseAboveKeyLease u32 u32

definition hasUpdateLeaseOption :: "msg \<Rightarrow> bool" where
  "hasUpdateLeaseOption m \<longleftrightarrow> FindOption (Some m) \<noteq> None"

definition parseLease :: "LeasePolicy \<Rightarrow> bool \<Rightarrow> msg \<Rightarrow> parse_lease_error + (u32 \<times> u32)" where
  "parseLease policy prefer4 m =
     (let minRR = MinRRLease policy; minKey = MinKeyLease policy in
      case FindOption (Some m) of
        None \<Rightarrow> Inl NoLeaseOption
      | Some erfc \<Rightarrow>
          (case DecodeOption erfc of
             Inl e \<Rightarrow> Inl (InvalidLeaseOption e)
           | Inr lo \<Rightarrow>
               (case KeyLease lo of
                  None \<Rightarrow>
                    if minRR > 0 \<and> Lease lo < minRR then Inl (LeaseBelowMinimum (Lease lo) minRR)
                    else if \<not> prefer4 then Inl FourByteNotPermitted
                    else Inr (Lease lo, 0)
                | Some keyLease \<Rightarrow>
                    let lease = Lease lo in
                    if lease = 0 then
                      (if keyLease \<noteq> 0 \<and> minKey > 0 \<and> keyLease < minKey
                       then Inl (KeyLeaseBelowMinimum keyLease minKey)
                       else Inr (lease, keyLease))
                    else if minRR > 0 \<and> lease < minRR then Inl (LeaseBelowMinimum lease minRR)
                    else if keyLease \<noteq> 0 \<and> minKey > 0 \<and> keyLease < minKey
                    then Inl (KeyLeaseBelowMinimum keyLease minKey)
                    else if keyLease \<noteq> 0 \<and> lease > keyLease then Inl (LeaseAboveKeyLease lease keyLease)
                    else Inr (lease, keyLease))))"

subsection \<open>Properties\<close>

definition within :: "u32 \<Rightarrow> u32 \<Rightarrow> u32 \<Rightarrow> bool" where
  "within v mn mx \<longleftrightarrow> mn \<le> v \<and> (mx = 0 \<or> v \<le> mx)"

lemma clampLease_within: "mx = 0 \<or> mn \<le> mx \<Longrightarrow> within (clampLease v mn mx) mn mx"
  by (auto simp: clampLease_def within_def Let_def word_gt_0)

lemma clampLease_id: "within v mn mx \<Longrightarrow> clampLease v mn mx = v"
  by (auto simp: clampLease_def within_def Let_def not_less)

lemma clampLease_nonzero: "v \<noteq> 0 \<Longrightarrow> clampLease v mn mx \<noteq> 0"
  by (auto simp: clampLease_def Let_def)

lemma validate_bounds:
  assumes "validate p = None"
  shows "MaxKeyLease p = 0 \<or> MinKeyLease p \<le> MaxKeyLease p"
    "MaxRRLease p = 0 \<or> MinRRLease p \<le> MaxRRLease p"
    "MinRRLease p \<le> MinKeyLease p"
    "MaxKeyLease p = 0 \<or> MaxRRLease p \<noteq> 0 \<and> MaxRRLease p \<le> MaxKeyLease p"
  using assms by (auto simp: validate_def word_gt_0 not_less split: if_splits)

text \<open>
  Under a policy that \<open>validate\<close> accepts, the durations granted for any request are zero
  exactly where the request's are; a non-zero LEASE and a non-zero KEY-LEASE are within the
  configured minimum and maximum, each, and LEASE does not exceed KEY-LEASE.
\<close>

theorem clamp_within_policy:
  assumes "validate p = None" and "clamp p lease keyLease = (l, k)"
  shows "(l = 0 \<longleftrightarrow> lease = 0) \<and> (k = 0 \<longleftrightarrow> keyLease = 0) \<and>
    (l \<noteq> 0 \<longrightarrow> within l (MinRRLease p) (MaxRRLease p)) \<and>
    (k \<noteq> 0 \<longrightarrow> within k (MinKeyLease p) (MaxKeyLease p)) \<and>
    (l \<noteq> 0 \<and> k \<noteq> 0 \<longrightarrow> l \<le> k)"
proof -
  note v = validate_bounds [OF assms(1)]
  let ?l = "clampLease lease (MinRRLease p) (MaxRRLease p)"
  let ?k = "clampLease keyLease (MinKeyLease p) (MaxKeyLease p)"
  have l: "within ?l (MinRRLease p) (MaxRRLease p)" and k: "within ?k (MinKeyLease p) (MaxKeyLease p)"
    using v by (simp_all add: clampLease_within)
  have cut: "within ?k (MinRRLease p) (MaxRRLease p)" if "?l > ?k"
    using that l k v(3) by (auto simp: within_def)
  show ?thesis using assms(2) l k cut clampLease_nonzero
    by (auto simp: clamp_def Let_def split: if_splits)
qed

theorem clamp_within_policy_witness:
  "clamp \<lparr>MinKeyLease = 60, MaxKeyLease = 3600, MinRRLease = 30, MaxRRLease = 1800\<rparr> 9000 9000 = (1800, 3600) \<and>
   (1800 :: u32) \<le> 3600"
proof -
  let ?p = "\<lparr>MinKeyLease = 60, MaxKeyLease = 3600, MinRRLease = 30, MaxRRLease = 1800\<rparr> :: LeasePolicy"
  have "validate ?p = None" by code_simp
  moreover have c: "clamp ?p 9000 9000 = (1800, 3600)" by code_simp
  ultimately show ?thesis using clamp_within_policy [of ?p 9000 9000 1800 3600] by simp
qed

text \<open>
  A request that \<open>parseLease\<close> accepted is never granted more than it asked for: the clamp
  that follows can only lower its durations, and keeps those within the maxima unchanged.
\<close>

theorem accepted_lease_not_raised:
  assumes "validate p = None" and "parseLease p prefer4 m = Inr (lease, keyLease)"
    and "clamp p lease keyLease = (l, k)"
  shows "l \<le> lease \<and> k \<le> keyLease \<and>
    (within lease 0 (MaxRRLease p) \<and> within keyLease 0 (MaxKeyLease p) \<longrightarrow> l = lease \<and> k = keyLease)"
proof -
  have min: "lease \<noteq> 0 \<longrightarrow> MinRRLease p \<le> lease" "keyLease \<noteq> 0 \<longrightarrow> MinKeyLease p \<le> keyLease"
    and le: "lease \<noteq> 0 \<and> keyLease \<noteq> 0 \<longrightarrow> lease \<le> keyLease"
    using assms(2) by (auto simp: parseLease_def Let_def not_less word_gt_0 split: option.splits sum.splits if_splits)
  have "clampLease v mn mx \<le> v" if "mn \<le> v" for v mn mx :: u32
    using that by (auto simp: clampLease_def Let_def)
  with min have "l \<le> lease \<and> k \<le> keyLease"
    using assms(3) by (auto simp: clamp_def Let_def split: if_splits intro: order_trans less_imp_le)
  moreover have "l = lease \<and> k = keyLease" if "within lease 0 (MaxRRLease p)" "within keyLease 0 (MaxKeyLease p)"
    using that min le assms(3) by (auto simp: clamp_def Let_def clampLease_id within_def split: if_splits)
  ultimately show ?thesis by blast
qed

theorem accepted_lease_not_raised_witness:
  "\<exists>l k. clamp \<lparr>MinKeyLease = 60, MaxKeyLease = 0, MinRRLease = 30, MaxRRLease = 0\<rparr> 60 3600 = (l, k) \<and> l \<le> 60 \<and> k \<le> 3600"
proof -
  let ?p = "\<lparr>MinKeyLease = 60, MaxKeyLease = 0, MinRRLease = 30, MaxRRLease = 0\<rparr> :: LeasePolicy"
  let ?m = "empty_msg\<lparr>msg_Extra := [\<lparr>rr_name = ''.'', rr_class = 0, rr_ttl = 0, rr_data = OPT_data [ERFC3597 2 ''0000003c00000e10'']\<rparr>]\<rparr>"
  have "validate ?p = None" by code_simp
  moreover have "parseLease ?p False ?m = Inr (60, 3600)" by code_simp
  moreover obtain l k where "clamp ?p 60 3600 = (l, k)" by fastforce
  ultimately show ?thesis using accepted_lease_not_raised [of ?p False ?m 60 3600 l k] by blast
qed

text \<open>
  The TTL that \<open>parseRecordTTL\<close> returns is always in 1 to \<open>2^31 - 1\<close>. The value configured may
  not be: an integer is truncated to 32 bits before the range is checked, so \<open>2^32 + 300\<close> is
  read as 300.
\<close>

theorem parseRecordTTL_range:
  "case parseRecordTTL cfg of Inl _ \<Rightarrow> True | Inr ttl \<Rightarrow> 1 \<le> ttl \<and> ttl \<le> MaxInt32"
proof -
  have "1 \<le> (w :: u32)" if "w \<noteq> 0" for w
    using that by (metis One_nat_def Suc_leI unat_1 unat_gt_0 word_le_nat_alt)
  then show ?thesis
    by (auto simp: parseRecordTTL_def defaultRecordTTL_def MaxInt32_def not_less split: option.splits if_splits)
qed

lemma parseRecordTTL_truncates:
  "parseRecordTTL [(''record_ttl_sec'', VInt (2 ^ 32 + 300))] = Inr 300"
  by code_simp

end
