(* ===== verification/Upstream.thy ===== *)
theory Upstream
  imports Lease_Policy Node_Identity
begin

text \<open>
  How both handlers answer a requester and send an UPDATE upstream (\<open>handlers/handlers.go\<close>,
  \<open>handlers/result.go\<close>, \<open>pkg/updatecore/forward.go\<close>, \<open>pkg/updatecore/ttl.go\<close>,
  \<open>pkg/updatecore/inflight.go\<close>).

  The authoritative server and the cryptography are the record \<open>coordinator\<close>: what zone
  discovery, a query, the signer and the sending of a message give. Its functions may answer
  anything. The messages handed to \<open>SendUpdate\<close> are recorded in the order of sending.
\<close>

subsection \<open>Results and responses\<close>

datatype HandlerStatus = StatusProcessed | StatusNotRelevant | StatusError

record HandlerResult =
  Status :: HandlerStatus
  Message :: "msg option"

definition NewProcessedResult :: "msg \<Rightarrow> HandlerResult" where
  "NewProcessedResult m = \<lparr>Status = StatusProcessed, Message = Some m\<rparr>"

definition NewNotRelevantResult :: HandlerResult where
  "NewNotRelevantResult = \<lparr>Status = StatusNotRelevant, Message = None\<rparr>"

definition NewErrorResult :: "msg option \<Rightarrow> HandlerResult" where
  "NewErrorResult m = \<lparr>Status = StatusError, Message = m\<rparr>"

text \<open>The request's header with QR and the RCODE set; no sections.\<close>

definition updateResponse :: "msg \<Rightarrow> u16 \<Rightarrow> msg" where
  "updateResponse req rcode =
     req\<lparr>msg_Response := True, msg_Rcode := rcode, msg_Question := [], msg_Answer := [],
       msg_Ns := [], msg_Extra := [], msg_Pseudo := [], msg_Data := []\<rparr>"

definition makeErrorResponse :: "msg \<Rightarrow> u16 \<Rightarrow> msg" where
  "makeErrorResponse req rcode = updateResponse req rcode"

definition pseudo_rr :: "edns0 \<Rightarrow> rr" where
  "pseudo_rr e = \<lparr>rr_name = ''.'', rr_class = 0, rr_ttl = 0, rr_data = EDNS0_data e\<rparr>"

definition leaseResponse :: "dnslib \<Rightarrow> msg \<Rightarrow> u32 \<Rightarrow> u32 \<Rightarrow> msg" where
  "leaseResponse lib req lease keyLease =
     (let resp = (updateResponse req RcodeSuccess)\<lparr>msg_Authoritative := True, msg_UDPSize := DefaultMsgSize lib\<rparr>;
          options = (case Encode (Encode8Byte lease keyLease) [] of Inr opts \<Rightarrow> opts | Inl _ \<Rightarrow> [])
      in resp\<lparr>msg_Pseudo := msg_Pseudo resp @ map pseudo_rr options\<rparr>)"

definition refuseDottedLabels :: "msg \<Rightarrow> HandlerResult option" where
  "refuseDottedLabels r =
     (if msg_Data r = [] then None
      else case DottedWireLabel (msg_Data r) of
        Inl e \<Rightarrow> Some (NewErrorResult (Some (makeErrorResponse r RcodeFormatError)))
      | Inr None \<Rightarrow> None
      | Inr (Some label) \<Rightarrow> Some (NewErrorResult (Some (makeErrorResponse r RcodeRefused))))"

subsection \<open>Deletes\<close>

definition AsDelete :: "rr \<Rightarrow> rr" where
  "AsDelete r = r\<lparr>rr_class := ClassNONE, rr_ttl := 0\<rparr>"

definition asDeletes :: "rr list \<Rightarrow> rr list" where
  "asDeletes rrs = map AsDelete rrs"

subsection \<open>TTL consistency of an update\<close>

definition keyFor :: "rr \<Rightarrow> string \<times> u16 \<times> u16" where
  "keyFor r = (Normalize (rr_name r), rr_class r, RRToType r)"

definition groupRRsets :: "rr list \<Rightarrow> ((string \<times> u16 \<times> u16) \<times> rr list) list" where
  "groupRRsets records =
     map (\<lambda>k. (k, filter (\<lambda>r. keyFor r = k) records)) (remdups (map keyFor records))"

fun group_consistent :: "rr list \<Rightarrow> bool" where
  "group_consistent [] = True"
| "group_consistent (r # rs) = list_all (\<lambda>q. rr_ttl q = rr_ttl r) rs"

definition CheckConsistentTTLs :: "rr list \<Rightarrow> bool" where
  "CheckConsistentTTLs records \<longleftrightarrow> list_all (\<lambda>g. group_consistent (snd g)) (groupRRsets records)"

subsection \<open>Sending\<close>

record coordinator =
  hasCoordinator :: bool
  hasSigningKey :: bool
  ResolveAuthoritativeZone :: "string \<Rightarrow> string option"
  QueryRRs :: "string \<Rightarrow> string \<Rightarrow> u16 \<Rightarrow> rr list option"
  NewMsg :: "string \<Rightarrow> u16 \<Rightarrow> msg option"
  SignMessage :: "msg \<Rightarrow> msg option"
  SendUpdate :: "string \<Rightarrow> msg \<Rightarrow> msg option option"

datatype send_error =
    ZoneResolutionFailed
  | BuildFailed
  | TransportFailed
  | Rejected "msg option"

definition opt_rr :: "dnslib \<Rightarrow> rr" where
  "opt_rr lib = \<lparr>rr_name = ''.'', rr_class = DefaultMsgSize lib, rr_ttl = 0, rr_data = OPT_data []\<rparr>"

definition BuildAndSign :: "dnslib \<Rightarrow> coordinator \<Rightarrow> string \<Rightarrow> rr list \<Rightarrow> rr list \<Rightarrow> msg option" where
  "BuildAndSign lib co zone prereqs records =
     (if \<not> hasSigningKey co then None
      else case NewMsg co zone TypeSOA of
        None \<Rightarrow> None
      | Some m \<Rightarrow> SignMessage co (m\<lparr>msg_Opcode := OpcodeUpdate, msg_Answer := msg_Answer m @ prereqs,
          msg_Ns := msg_Ns m @ records, msg_Extra := msg_Extra m @ [opt_rr lib]\<rparr>))"

text \<open>
  \<open>send\<close> gives the message it handed to \<open>SendUpdate\<close>, if it got that far, and the answer or the
  error. An answer with an RCODE other than NOERROR, and no answer, are errors.
\<close>

definition upstream_send ::
  "dnslib \<Rightarrow> coordinator \<Rightarrow> string \<Rightarrow> rr list \<Rightarrow> rr list \<Rightarrow> (string \<times> msg) list \<times> (send_error + msg)"
where
  "upstream_send lib co configured prereqs records =
     (case ResolveAuthoritativeZone co configured of
        None \<Rightarrow> ([], Inl ZoneResolutionFailed)
      | Some zone \<Rightarrow>
          (case BuildAndSign lib co zone prereqs records of
             None \<Rightarrow> ([], Inl BuildFailed)
           | Some m \<Rightarrow>
               (case SendUpdate co zone m of
                  None \<Rightarrow> ([(zone, m)], Inl TransportFailed)
                | Some None \<Rightarrow> ([(zone, m)], Inl (Rejected None))
                | Some (Some resp) \<Rightarrow>
                    if msg_Rcode resp \<noteq> RcodeSuccess then ([(zone, m)], Inl (Rejected (Some resp)))
                    else ([(zone, m)], Inr resp))))"

definition requireUpstream :: "coordinator \<Rightarrow> bool" where
  "requireUpstream co \<longleftrightarrow> hasCoordinator co \<and> hasSigningKey co"

subsection \<open>Slots for updates in flight\<close>

text \<open>
  One limiter for all senders: \<open>inflight srv\<close> counts the slots taken at a server. Acquiring
  blocks while none is free; the step is possible only then.
\<close>

record inflightLimiter =
  max_inflight :: nat
  slots :: "nat gomap"

definition newInflightLimiter :: "nat \<Rightarrow> inflightLimiter" where
  "newInflightLimiter mx = \<lparr>max_inflight = mx, slots = []\<rparr>"

definition taken_slots :: "inflightLimiter \<Rightarrow> string \<Rightarrow> nat" where
  "taken_slots l server = (case mget (slots l) server of None \<Rightarrow> 0 | Some n \<Rightarrow> n)"

definition slot_acquire :: "string \<Rightarrow> inflightLimiter \<Rightarrow> inflightLimiter option" where
  "slot_acquire server l =
     (if max_inflight l = 0 then Some l
      else if taken_slots l server < max_inflight l
      then Some (l\<lparr>slots := mput server (Suc (taken_slots l server)) (slots l)\<rparr>)
      else None)"

definition slot_release :: "string \<Rightarrow> inflightLimiter \<Rightarrow> inflightLimiter" where
  "slot_release server l =
     (if max_inflight l = 0 then l else l\<lparr>slots := mput server (taken_slots l server - 1) (slots l)\<rparr>)"

inductive slot_reach :: "nat \<Rightarrow> inflightLimiter \<Rightarrow> (string \<Rightarrow> nat) \<Rightarrow> bool" for mx where
  slot_init: "slot_reach mx (newInflightLimiter mx) (\<lambda>_. 0)"
| slot_take: "slot_reach mx l n \<Longrightarrow> slot_acquire v l = Some l' \<Longrightarrow> slot_reach mx l' (n(v := Suc (n v)))"
| slot_give: "slot_reach mx l n \<Longrightarrow> 0 < n v \<Longrightarrow> slot_reach mx (slot_release v l) (n(v := n v - 1))"

subsection \<open>Lemmas\<close>

lemma updateResponse_no_sections [simp]:
  "msg_Question (updateResponse m c) = []" "msg_Answer (updateResponse m c) = []"
  "msg_Ns (updateResponse m c) = []" "msg_Extra (updateResponse m c) = []"
  "msg_Pseudo (updateResponse m c) = []" "msg_Rcode (updateResponse m c) = c"
  "msg_ID (updateResponse m c) = msg_ID m" "msg_Opcode (updateResponse m c) = msg_Opcode m"
  "msg_Response (updateResponse m c)"
  by (simp_all add: updateResponse_def)

lemma upstream_send_Inr:
  assumes "upstream_send lib co z ps rs = (out, Inr resp)"
  shows "\<exists>zone m0 m. ResolveAuthoritativeZone co z = Some zone \<and> NewMsg co zone TypeSOA = Some m0 \<and>
    SignMessage co (m0\<lparr>msg_Opcode := OpcodeUpdate, msg_Answer := msg_Answer m0 @ ps,
      msg_Ns := msg_Ns m0 @ rs, msg_Extra := msg_Extra m0 @ [opt_rr lib]\<rparr>) = Some m \<and>
    out = [(zone, m)] \<and> SendUpdate co zone m = Some (Some resp) \<and> msg_Rcode resp = RcodeSuccess"
  using assms by (auto simp: upstream_send_def BuildAndSign_def split: option.splits if_splits)

lemma leaseResponse_option:
  assumes "keyLease = 0 \<or> lease \<le> keyLease"
  defines "code \<equiv> EncodeToString (PutUint32 lease @ PutUint32 keyLease)"
  shows "scan (msg_Pseudo (leaseResponse lib req lease keyLease) @ rest) = Some code"
    "DecodeOption code = Inr (Encode8Byte lease keyLease)"
proof -
  have v: "Validate (Encode8Byte lease keyLease) = None"
    using assms by (auto simp: Validate_def Encode8Byte_def)
  then have "Encode (Encode8Byte lease keyLease) [] = Inr [ERFC3597 OPTION_CODE code]"
    by (simp add: Encode_Inr key_lease_or_0_def Encode8Byte_def code_def)
  then show "scan (msg_Pseudo (leaseResponse lib req lease keyLease) @ rest) = Some code"
    by (simp add: leaseResponse_def Let_def pseudo_rr_def is_lease_option_def)
  show "DecodeOption code = Inr (Encode8Byte lease keyLease)"
    using v by (simp add: DecodeOption_def decodeERFC_encoded Encode8Byte_def code_def)
qed

text \<open>
  \<open>leaseResponse\<close> is a reply that carries none of the request's sections and one Update Lease
  option with the granted durations, provided LEASE does not exceed a non-zero KEY-LEASE: a
  requester that looks the option up and decodes it reads exactly what was granted.
\<close>

theorem leaseResponse_readable:
  assumes "keyLease = 0 \<or> lease \<le> keyLease"
  shows "FindAndDecode (Some (leaseResponse lib req lease keyLease)) = Inr (Encode8Byte lease keyLease) \<and>
    msg_Rcode (leaseResponse lib req lease keyLease) = RcodeSuccess \<and>
    msg_ID (leaseResponse lib req lease keyLease) = msg_ID req \<and>
    msg_Ns (leaseResponse lib req lease keyLease) = [] \<and> msg_Answer (leaseResponse lib req lease keyLease) = []"
  using leaseResponse_option(1) [OF assms, of lib req "[]"] leaseResponse_option(2) [OF assms]
  by (simp add: FindAndDecode_def FindOption_def leaseResponse_def Let_def)

theorem leaseResponse_readable_witness:
  "FindAndDecode (Some (leaseResponse sample_lib empty_msg 60 3600)) = Inr (Encode8Byte 60 3600)"
  using leaseResponse_readable [of 3600 60 sample_lib empty_msg] by simp

text \<open>
  At most the configured number of updates are in flight to one server at any time, and the
  table counts exactly the slots taken and not yet given back, per server.
\<close>

theorem inflight_bounded:
  assumes "slot_reach mx l n" and "0 < mx"
  shows "taken_slots l v = n v \<and> n v \<le> mx"
proof -
  have "max_inflight l = mx \<and> (\<forall>v. taken_slots l v = n v) \<and> (\<forall>v. n v \<le> mx)"
    using assms(1)
  proof induction
    case slot_init
    show ?case by (simp add: newInflightLimiter_def taken_slots_def)
  next
    case (slot_take l n v l')
    then show ?case using assms(2) by (auto simp: slot_acquire_def taken_slots_def mget_mput split: if_splits)
  next
    case (slot_give l n v)
    then show ?case using assms(2)
      by (auto simp: slot_release_def taken_slots_def mget_mput intro: le_trans [OF diff_le_self])
  qed
  then show ?thesis by blast
qed

theorem inflight_bounded_witness:
  "\<exists>l. slot_acquire ''ns.example.:53'' (newInflightLimiter 1) = Some l \<and> taken_slots l ''ns.example.:53'' \<le> 1"
proof -
  let ?v = "''ns.example.:53''"
  obtain l where l: "slot_acquire ?v (newInflightLimiter 1) = Some l"
    by (simp add: slot_acquire_def newInflightLimiter_def taken_slots_def)
  have "slot_reach 1 l ((\<lambda>_. 0)(?v := Suc 0))" using slot_take [OF slot_init l] by simp
  from inflight_bounded [OF this, of ?v] l show ?thesis by (simp del: One_nat_def)
qed

text \<open>
  \<open>CheckConsistentTTLs\<close> accepts exactly the updates in which any two records of one RRset
  (same name up to case and final dot, same class and type) have the same TTL.
\<close>

theorem CheckConsistentTTLs_iff:
  "CheckConsistentTTLs rs \<longleftrightarrow>
     (\<forall>a \<in> set rs. \<forall>b \<in> set rs. keyFor a = keyFor b \<longrightarrow> rr_ttl a = rr_ttl b)"
proof -
  have one: "group_consistent g \<longleftrightarrow> (\<forall>a \<in> set g. \<forall>b \<in> set g. rr_ttl a = rr_ttl b)" for g
    by (cases g) (simp_all add: list_all_iff, metis)
  have "CheckConsistentTTLs rs \<longleftrightarrow> (\<forall>c \<in> set rs. \<forall>a \<in> set rs. \<forall>b \<in> set rs.
      keyFor a = keyFor c \<longrightarrow> keyFor b = keyFor c \<longrightarrow> rr_ttl a = rr_ttl b)"
    unfolding CheckConsistentTTLs_def groupRRsets_def list_all_iff one by (simp, blast)
  then show ?thesis by metis
qed

theorem CheckConsistentTTLs_witness:
  "\<not> CheckConsistentTTLs [\<lparr>rr_name = ''a.'', rr_class = 1, rr_ttl = 1, rr_data = A_data ''x''\<rparr>,
      \<lparr>rr_name = ''A'', rr_class = 1, rr_ttl = 2, rr_data = A_data ''y''\<rparr>]"
proof -
  have "keyFor \<lparr>rr_name = ''a.'', rr_class = 1, rr_ttl = 1, rr_data = A_data ''x''\<rparr> =
      keyFor \<lparr>rr_name = ''A'', rr_class = 1, rr_ttl = 2, rr_data = A_data ''y''\<rparr>" by code_simp
  then show ?thesis by (auto simp: CheckConsistentTTLs_iff)
qed

end
