(* ===== verification/Expiry.thy ===== *)
theory Expiry
  imports Store_Spec Node_Locks Upstream
begin

text \<open>
  The ending of leases (\<open>handlers/opcode5_lease.go\<close>): when a node's next lease event is due, the
  table of timers with its retry backoff, and \<open>leaseExpirer\<close>, which deletes upstream first and
  forgets locally only what the authoritative server confirmed.

  A timer is the time at which it fires. The clock is read more than once during an event; each
  reading is an argument of its own. A panic of the code is the left value of the result.
\<close>

subsection \<open>Timers\<close>

record expiryTimers =
  timers :: "time gomap"
  failures :: "nat gomap"

definition newExpiryTimers :: expiryTimers where
  "newExpiryTimers = \<lparr>timers = [], failures = []\<rparr>"

definition maxExpiryRetryDelay :: int where
  "maxExpiryRetryDelay = 16 * Second"

function retry_loop :: "nat \<Rightarrow> nat \<Rightarrow> int \<Rightarrow> int" where
  "retry_loop i failed delay =
     (if i < failed \<and> delay < maxExpiryRetryDelay then retry_loop (i + 1) failed (delay * 2) else delay)"
  by pat_completeness auto
termination by (relation "measure (\<lambda>(i, f, d). f - i)") auto

declare retry_loop.simps [simp del]

definition expiryRetryDelay :: "nat \<Rightarrow> int" where
  "expiryRetryDelay failed = min (retry_loop 1 failed Second) maxExpiryRetryDelay"

definition earlier :: "time option \<Rightarrow> time \<Rightarrow> time option" where
  "earlier nxt t = (case nxt of None \<Rightarrow> Some t | Some n \<Rightarrow> if t < n then Some t else Some n)"

definition nextLeaseEvent :: "time \<Rightarrow> store \<Rightarrow> string \<Rightarrow> int option" where
  "nextLeaseEvent now s nodeKey =
     (let n0 = map_option ExpiresAt (Get s nodeKey);
          n1 = (case GetNonKEYRecordSet s nodeKey of
                  None \<Rightarrow> n0
                | Some st \<Rightarrow> foldl (\<lambda>n e. earlier n (ExpiresAt (snd e))) n0 (Records st))
      in case n1 of
           None \<Rightarrow> None
         | Some t \<Rightarrow>
             let d0 = t - now;
                 d1 = (if d0 < 0 then 0 else d0);
                 d2 = (if d1 < 100000000 then 100000000 else d1)
             in Some d2)"

definition arm :: "time \<Rightarrow> string \<Rightarrow> int \<Rightarrow> expiryTimers \<Rightarrow> expiryTimers" where
  "arm now nodeKey delay t = t\<lparr>timers := mput nodeKey (now + delay) (timers t)\<rparr>"

definition disarm :: "string \<Rightarrow> expiryTimers \<Rightarrow> expiryTimers" where
  "disarm nodeKey t = t\<lparr>timers := mdel nodeKey (timers t), failures := mdel nodeKey (failures t)\<rparr>"

definition armed :: "expiryTimers \<Rightarrow> string \<Rightarrow> bool" where
  "armed t nodeKey \<longleftrightarrow> mget (timers t) nodeKey \<noteq> None"

definition schedule :: "time \<Rightarrow> store \<Rightarrow> string \<Rightarrow> expiryTimers \<Rightarrow> expiryTimers" where
  "schedule now s nodeKey t =
     (case nextLeaseEvent now s nodeKey of None \<Rightarrow> disarm nodeKey t | Some d \<Rightarrow> arm now nodeKey d t)"

definition failures_of :: "expiryTimers \<Rightarrow> string \<Rightarrow> nat" where
  "failures_of t nodeKey = (case mget (failures t) nodeKey of None \<Rightarrow> 0 | Some n \<Rightarrow> n)"

definition finish :: "time \<Rightarrow> store \<Rightarrow> string \<Rightarrow> bool \<Rightarrow> expiryTimers \<Rightarrow> expiryTimers \<times> int" where
  "finish now s nodeKey complete t =
     (if complete then (schedule now s nodeKey (t\<lparr>failures := mdel nodeKey (failures t)\<rparr>), 0)
      else
        let n = failures_of t nodeKey + 1;
            t1 = t\<lparr>failures := mput nodeKey n (failures t)\<rparr>;
            delay = expiryRetryDelay n
        in (arm now nodeKey delay t1, delay))"

definition reconcile :: "time \<Rightarrow> store \<Rightarrow> expiryTimers \<Rightarrow> expiryTimers" where
  "reconcile now s t =
     fold (\<lambda>nodeKey t. if armed t nodeKey then t else schedule now s nodeKey t) (ListOwners s) t"

subsection \<open>What a lease event ends\<close>

record dueRecord =
  due_owner :: string
  due_rrKey :: string
  due_rr :: rr

text \<open>\<open>due = None\<close> is the zero time, for all records.\<close>

definition ownRecords :: "store \<Rightarrow> string \<Rightarrow> time option \<Rightarrow> dueRecord list" where
  "ownRecords s nodeKey due =
     (case GetNonKEYRecordSet s nodeKey of
        None \<Rightarrow> []
      | Some st \<Rightarrow>
          sort_key due_rrKey
            (map (\<lambda>(k, r). \<lparr>due_owner = nodeKey, due_rrKey = k, due_rr = RR r\<rparr>)
              (filter (\<lambda>(k, r). case due of None \<Rightarrow> True | Some t \<Rightarrow> \<not> t < ExpiresAt r) (Records st))))"

definition subtreeLeases :: "store \<Rightarrow> string \<Rightarrow> key list \<times> dueRecord list" where
  "subtreeLeases s nodeKey =
     (let owners = nodeKey # ListSubtreeKeys s nodeKey
      in (List.map_filter (\<lambda>w. map_option KeyRR (Get s w)) owners,
          concat (map (\<lambda>w. ownRecords s w None) owners)))"

definition recordDeletes :: "dueRecord list \<Rightarrow> rr list" where
  "recordDeletes rs = map (\<lambda>r. AsDelete (due_rr r)) rs"

subsection \<open>The lease event\<close>

record proxy =
  lm :: store
  tms :: expiryTimers
  locks :: NodeLocks
  sent :: "(string \<times> msg) list"

datatype panic =
    RefreshedUnderLock string
  | StorePanic string store_error
  | ReleasePanic
  | MissingUpstream
  | UnknownName string

definition set_tms :: "proxy \<Rightarrow> expiryTimers \<Rightarrow> proxy" where
  "set_tms y t = y\<lparr>tms := t\<rparr>"

fun remove_all :: "dueRecord list \<Rightarrow> store \<Rightarrow> store_error + store" where
  "remove_all [] s = Inr s"
| "remove_all (r # rs) s =
     (case RemoveSingleNonKEYRecord (due_owner r) (due_rrKey r) s of
        (_, Some e) \<Rightarrow> Inl e
      | (s', None) \<Rightarrow> remove_all rs s')"

text \<open>What is due: whether the KEY has expired, and the keys and records the event ends.\<close>

definition lease_event :: "bool \<Rightarrow> time \<Rightarrow> store \<Rightarrow> string \<Rightarrow> bool \<times> key list \<times> dueRecord list" where
  "lease_event dataCascade now s nodeKey =
     (if (case Get s nodeKey of None \<Rightarrow> False | Some r \<Rightarrow> \<not> now < ExpiresAt r)
      then (True, subtreeLeases s nodeKey)
      else
        let own = ownRecords s nodeKey (Some now) in
        if own \<noteq> [] \<and> dataCascade
        then (False, [], own @ concat (map (\<lambda>c. if Get s c \<noteq> None then ownRecords s c None else [])
                (ListSubtreeKeys s nodeKey)))
        else (False, [], own))"

text \<open>
  \<open>now\<close> is read at the start, \<open>now1\<close> when the KEY is looked at again after the upstream delete,
  \<open>now2\<close> when the timer is armed again. The result says whether anything was removed.
\<close>

definition expire ::
  "dnslib \<Rightarrow> coordinator \<Rightarrow> string \<Rightarrow> bool \<Rightarrow> time \<Rightarrow> time \<Rightarrow> time \<Rightarrow> string \<Rightarrow> proxy \<Rightarrow> panic + (bool \<times> proxy)"
where
  "expire lib co zone dataCascade now now1 now2 nodeKey y =
     (case lease_event dataCascade now (lm y) nodeKey of
        (keyExpired, keys, records) \<Rightarrow>
          if keys = [] \<and> records = []
          then Inr (False, set_tms y (fst (finish now2 (lm y) nodeKey True (tms y))))
          else if \<not> requireUpstream co then Inl MissingUpstream
          else
            (case upstream_send lib co zone [] (asDeletes (map of_key keys) @ recordDeletes records) of
               (out, Inl _) \<Rightarrow>
                 let y1 = y\<lparr>sent := sent y @ out\<rparr>
                 in Inr (False, set_tms y1 (fst (finish now2 (lm y1) nodeKey False (tms y1))))
             | (out, Inr _) \<Rightarrow>
                 let y1 = y\<lparr>sent := sent y @ out\<rparr> in
                 if keyExpired then
                   (case Get (lm y1) nodeKey of
                      Some r \<Rightarrow> if \<not> IsExpired now1 r then Inl (RefreshedUnderLock nodeKey) else
                        (let t = fold disarm (ListSubtreeKeys (lm y1) nodeKey) (tms y1) in
                         case DeleteSubtree nodeKey (lm y1) of
                           (_, Some e) \<Rightarrow> Inl (StorePanic nodeKey e)
                         | (s', None) \<Rightarrow>
                             Inr (True, y1\<lparr>lm := s', tms := fst (finish now2 s' nodeKey True t)\<rparr>))
                    | None \<Rightarrow>
                        (let t = fold disarm (ListSubtreeKeys (lm y1) nodeKey) (tms y1) in
                         case DeleteSubtree nodeKey (lm y1) of
                           (_, Some e) \<Rightarrow> Inl (StorePanic nodeKey e)
                         | (s', None) \<Rightarrow>
                             Inr (True, y1\<lparr>lm := s', tms := fst (finish now2 s' nodeKey True t)\<rparr>)))
                 else
                   (case remove_all records (lm y1) of
                      Inl e \<Rightarrow> Inl (StorePanic nodeKey e)
                    | Inr s' \<Rightarrow> Inr (True, y1\<lparr>lm := s', tms := fst (finish now2 s' nodeKey True (tms y1))\<rparr>))))"

text \<open>\<open>run\<close> takes the locks of the node and its subtree, or backs off like a failed attempt.\<close>

definition run ::
  "dnslib \<Rightarrow> coordinator \<Rightarrow> string \<Rightarrow> bool \<Rightarrow> (store \<Rightarrow> string \<Rightarrow> string list) \<Rightarrow>
   time \<Rightarrow> time \<Rightarrow> time \<Rightarrow> string \<Rightarrow> proxy \<Rightarrow> panic + (bool \<times> proxy)"
where
  "run lib co zone dataCascade lockIDs now now1 now2 nodeKey y =
     (case TryAcquire (lockIDs (lm y) nodeKey) (locks y) of
        (_, Inl _) \<Rightarrow> Inr (False, set_tms y (fst (finish now2 (lm y) nodeKey False (tms y))))
      | (n, Inr st) \<Rightarrow>
          (case expire lib co zone dataCascade now now1 now2 nodeKey (y\<lparr>locks := n\<rparr>) of
             Inl p \<Rightarrow> Inl p
           | Inr (b, y') \<Rightarrow>
               (case Release st (locks y') of
                  Inl _ \<Rightarrow> Inl ReleasePanic
                | Inr (n', _) \<Rightarrow> Inr (b, y'\<lparr>locks := n'\<rparr>))))"

text \<open>The RFC 9664 handler's lock identities.\<close>

definition update_lockIDs :: "store \<Rightarrow> string \<Rightarrow> string list" where
  "update_lockIDs s nodeKey = nodeKey # ListSubtreeKeys s nodeKey"

end
