(* ===== verification/Expiry_Properties.thy ===== *)
theory Expiry_Properties
  imports Expiry Store_Properties
begin

text \<open>
  The properties of the expiry engine: the retry backoff, the time of the next event, that a
  lease event deletes upstream before it forgets anything locally and forgets exactly what it
  deleted, that it does not panic while the clock moves on, and that no node that still holds a
  lease is left without a timer.
\<close>

subsection \<open>Backoff\<close>

lemma retry_loop_pow:
  "k \<le> 4 \<Longrightarrow> retry_loop i f (2 ^ k * Second) = 2 ^ (min (k + (f - i)) 4) * Second"
proof (induction "f - i" arbitrary: i k)
  case 0
  then show ?case by (subst retry_loop.simps) (simp add: min_absorb1)
next
  case (Suc n)
  then have fi: "i < f" "n = f - (i + 1)" by auto
  show ?case
  proof (cases "k = 4")
    case True
    then show ?thesis by (subst retry_loop.simps) (simp add: maxExpiryRetryDelay_def)
  next
    case False
    then have k: "k < 4" using Suc.prems by simp
    have "(2 :: int) ^ k < 2 ^ 4" using k by (rule power_strict_increasing) simp
    then have "2 ^ k * Second < maxExpiryRetryDelay" by (simp add: maxExpiryRetryDelay_def Second_def)
    moreover have "2 ^ k * Second * 2 = 2 ^ (k + 1) * Second" by simp
    ultimately have "retry_loop i f (2 ^ k * Second) = retry_loop (i + 1) f (2 ^ (k + 1) * Second)"
      using fi by (subst retry_loop.simps) (simp add: mult.commute mult.left_commute)
    then show ?thesis using Suc.hyps(1) [OF fi(2), of "k + 1"] k fi(1) by (simp add: Suc_diff_Suc)
  qed
qed

text \<open>
  After the \<open>n\<close>-th failure in a row an expiry is retried after one second, doubled with each
  further failure and never more than sixteen seconds.
\<close>

theorem expiryRetryDelay_doubling:
  "expiryRetryDelay n = 2 ^ min (n - 1) 4 * Second \<and> Second \<le> expiryRetryDelay n \<and>
   expiryRetryDelay n \<le> 16 * Second"
proof -
  have "retry_loop 1 n Second = 2 ^ min (n - 1) 4 * Second" using retry_loop_pow [of 0 1 n] by simp
  moreover have "(2 :: int) ^ min (n - 1) 4 \<le> 2 ^ 4" by (rule power_increasing) auto
  moreover have "1 \<le> (2 :: int) ^ min (n - 1) 4" by simp
  ultimately show ?thesis by (simp add: expiryRetryDelay_def maxExpiryRetryDelay_def Second_def)
qed

subsection \<open>What the store holds for a node\<close>

lemma GetNonKEYRecordSet_elems:
  assumes "GetNonKEYRecordSet s n = Some st" and wf: "wf_store lib s"
  shows "(c, r) \<in> set (Records st) \<longleftrightarrow> abs_store s c = Some (DataNode r) \<and> ParentKeyName r = Normalize n"
proof -
  have "(c, r) \<in> set (Records st) \<longleftrightarrow>
      c \<in> set (sget (children s) (Normalize n)) \<and> mget (nonKeyRecords s) c = Some r"
    using assms(1) by (auto simp: GetNonKEYRecordSet_def Let_def set_map_filter
        split: if_splits option.splits intro!: bexI [of _ c])
  moreover have "c \<in> set (sget (children s) (Normalize n)) \<longleftrightarrow> c \<in> owned s (Normalize n)"
    if "mget (nonKeyRecords s) c = Some r" using wf_owned_iff [OF wf] that by simp
  ultimately show ?thesis by (auto simp: abs_store_Data [OF wf] owned_def)
qed

lemma ownRecords_iff:
  assumes wf: "wf_store lib s"
  shows "d \<in> set (ownRecords s n due) \<longleftrightarrow> due_owner d = n \<and>
    (\<exists>r. abs_store s (due_rrKey d) = Some (DataNode r) \<and> ParentKeyName r = Normalize n \<and> due_rr d = RR r \<and>
       (\<forall>t. due = Some t \<longrightarrow> ExpiresAt r \<le> t))"
proof (cases "GetNonKEYRecordSet s n")
  case None
  then have "data_of (abs_store s) (Normalize n) = {}" using GetNonKEYRecordSet_spec(1) [OF wf] by simp
  then show ?thesis using None by (auto simp: ownRecords_def data_of_def)
next
  case (Some st)
  note e = GetNonKEYRecordSet_elems [OF Some wf]
  have "d \<in> set (ownRecords s n due) \<longleftrightarrow> (\<exists>k r. (k, r) \<in> set (Records st) \<and>
      (\<forall>t. due = Some t \<longrightarrow> ExpiresAt r \<le> t) \<and> d = \<lparr>due_owner = n, due_rrKey = k, due_rr = RR r\<rparr>)"
    using Some by (auto simp: ownRecords_def not_less split: option.splits)
  then show ?thesis unfolding e by (cases d) auto
qed

definition lease_ends :: "store \<Rightarrow> string \<Rightarrow> time set" where
  "lease_ends s n =
     {ExpiresAt r | r. abs_store s (Normalize n) = Some (KeyNode r)} \<union>
     {ExpiresAt r | r c. abs_store s c = Some (DataNode r) \<and> ParentKeyName r = Normalize n}"

lemma foldl_earlier:
  "foldl (\<lambda>n e. earlier n (f e)) n0 xs =
     (if n0 = None \<and> xs = [] then None else Some (Min (set_option n0 \<union> f ` set xs)))"
proof (induction xs arbitrary: n0)
  case (Cons x xs)
  have "earlier n0 (f x) \<noteq> None" by (auto simp: earlier_def split: option.splits)
  then obtain m where m: "earlier n0 (f x) = Some m" by auto
  have "Min (insert m (f ` set xs)) = Min (set_option n0 \<union> f ` set (x # xs))"
  proof (cases n0)
    case (Some n)
    then have "m = min (f x) n" using m by (auto simp: earlier_def min_def split: if_splits)
    then show ?thesis using Some
      by (cases "f ` set xs = {}") (auto simp: Min_insert min.assoc min.commute min.left_commute)
  qed (use m in \<open>simp add: earlier_def\<close>)
  then show ?case using Cons [of "earlier n0 (f x)"] m by simp
qed (auto split: option.splits)

lemma lease_ends_sets:
  assumes wf: "wf_store lib s"
  shows "lease_ends s n = set_option (map_option ExpiresAt (Get s n)) \<union>
    (case GetNonKEYRecordSet s n of None \<Rightarrow> {} | Some st \<Rightarrow> (\<lambda>e. ExpiresAt (snd e)) ` set (Records st))"
proof -
  have "{ExpiresAt r | r. abs_store s (Normalize n) = Some (KeyNode r)} = set_option (map_option ExpiresAt (Get s n))"
    by (auto simp: abs_store_Key Get_def)
  moreover have "{ExpiresAt r | r c. abs_store s c = Some (DataNode r) \<and> ParentKeyName r = Normalize n} =
     (case GetNonKEYRecordSet s n of None \<Rightarrow> {} | Some st \<Rightarrow> (\<lambda>e. ExpiresAt (snd e)) ` set (Records st))"
  proof (cases "GetNonKEYRecordSet s n")
    case None
    then show ?thesis using GetNonKEYRecordSet_spec(1) [OF wf, of n] by (auto simp: data_of_def)
  next
    case (Some st)
    have "(\<lambda>e. ExpiresAt (snd e)) ` set (Records st) = {ExpiresAt r | r c. (c, r) \<in> set (Records st)}" by force
    then show ?thesis using Some by (simp add: GetNonKEYRecordSet_elems [OF Some wf])
  qed
  ultimately show ?thesis by (simp add: lease_ends_def)
qed

lemma nextLeaseEvent_ends:
  assumes wf: "wf_store lib s"
  shows "nextLeaseEvent now s n =
    (if lease_ends s n = {} then None else Some (max 100000000 (Min (lease_ends s n) - now)))"
proof -
  define n1 where "n1 = (case GetNonKEYRecordSet s n of
      None \<Rightarrow> map_option ExpiresAt (Get s n)
    | Some st \<Rightarrow> foldl (\<lambda>n e. earlier n (ExpiresAt (snd e))) (map_option ExpiresAt (Get s n)) (Records st))"
  have "n1 = (if lease_ends s n = {} then None else Some (Min (lease_ends s n)))"
    unfolding lease_ends_sets [OF wf] n1_def foldl_earlier
    by (cases "Get s n"; cases "GetNonKEYRecordSet s n") auto
  then show ?thesis by (auto simp: nextLeaseEvent_def n1_def [symmetric] Let_def)
qed

text \<open>
  \<open>nextLeaseEvent\<close> is the time left until the first of the node's leases ends, its KEY's or
  one of its records', but at least a tenth of a second; there is none exactly if the store
  holds neither.
\<close>

theorem nextLeaseEvent_earliest:
  assumes "wf_store lib s"
  shows "(nextLeaseEvent now s n = None \<longleftrightarrow> lease_ends s n = {}) \<and>
    (\<forall>d. nextLeaseEvent now s n = Some d \<longrightarrow>
       100000000 \<le> d \<and> (\<exists>t \<in> lease_ends s n. (\<forall>u \<in> lease_ends s n. t \<le> u) \<and> d = max 100000000 (t - now)))"
proof -
  have fin: "finite (lease_ends s n)"
    unfolding lease_ends_sets [OF assms] by (auto split: option.splits)
  then have "lease_ends s n \<noteq> {} \<Longrightarrow> Min (lease_ends s n) \<in> lease_ends s n" by (rule Min_in)
  then have m: "\<exists>t \<in> lease_ends s n. (\<forall>u \<in> lease_ends s n. t \<le> u) \<and> Min (lease_ends s n) = t" if "lease_ends s n \<noteq> {}"
    using that fin by (intro bexI [of _ "Min (lease_ends s n)"]) simp_all
  show ?thesis
  proof (cases "lease_ends s n = {}")
    case False
    with m obtain t where "t \<in> lease_ends s n" "\<forall>u \<in> lease_ends s n. t \<le> u" "Min (lease_ends s n) = t" by blast
    then show ?thesis using nextLeaseEvent_ends [OF assms, of now n] False by auto
  qed (use nextLeaseEvent_ends [OF assms, of now n] in simp)
qed

subsection \<open>Owners and parents are node keys\<close>

text \<open>
  Both handlers file everything under node keys, so a parent is its own normal form. The store
  itself accepts any string.
\<close>

definition stable_parents :: "store \<Rightarrow> bool" where
  "stable_parents s \<longleftrightarrow> (\<forall>i n. abs_store s i = Some n \<longrightarrow> Normalize (node_parent n) = node_parent n)"

fun node_rr :: "node \<Rightarrow> rr" where
  "node_rr (KeyNode r) = of_key (KeyRR r)"
| "node_rr (DataNode r) = RR r"

lemma abs_KeyNode_stable: "wf_store lib s \<Longrightarrow> abs_store s i = Some (KeyNode r) \<Longrightarrow> Normalize i = i"
  using wf_lease_Normalize wf_lease_at [of lib "{}" s i r] by (auto simp: wf_store_def abs_store_Key)

lemma wf_data_parent: "wf_store lib s \<Longrightarrow> abs_store s c = Some (DataNode r) \<Longrightarrow> ParentKeyName r \<noteq> []"
  using wf_record_at [of lib "{}" s c r] by (auto simp: wf_store_def abs_store_Data wf_record_def)

lemma subtree_owners:
  assumes "wf_store lib s" "Normalize n = n"
  shows "set (n # ListSubtreeKeys s n) = descendants (abs_store s) n"
  using ls.subtree_forest [OF assms(1), of n] assms(2) by (auto simp: descendants_def)

lemma subtreeLeases_keys:
  assumes "wf_store lib s" "Normalize n = n" "i \<in> descendants (abs_store s) n" "abs_store s i = Some (KeyNode r)"
  shows "KeyRR r \<in> set (fst (subtreeLeases s n))"
proof -
  have "Get s i = Some r" using assms abs_KeyNode_stable [OF assms(1,4)] by (simp add: Get_def abs_store_Key)
  moreover have "i \<in> set (n # ListSubtreeKeys s n)" using subtree_owners [OF assms(1,2)] assms(3) by simp
  ultimately show ?thesis unfolding subtreeLeases_def Let_def fst_conv set_map_filter by force
qed

lemma subtreeLeases_records:
  assumes wf: "wf_store lib s" and n: "Normalize n = n" and st: "stable_parents s"
    and c: "c \<in> descendants (abs_store s) n" "abs_store s c = Some (DataNode r)" "c \<noteq> n"
  shows "\<exists>d \<in> set (snd (subtreeLeases s n)). due_rr d = RR r \<and> due_rrKey d = c"
proof -
  from c(1,3) obtain p where p: "p \<in> descendants (abs_store s) n" "(p, c) \<in> forest_edges (abs_store s)"
    by (auto simp: descendants_def elim: rtranclE)
  then have par: "ParentKeyName r = p" using c(2) by (simp add: forest_edges_def)
  then have "Normalize p = p" using st c(2) unfolding stable_parents_def by (metis node_parent.simps(2))
  then have "\<lparr>due_owner = p, due_rrKey = c, due_rr = RR r\<rparr> \<in> set (ownRecords s p None)"
    using c(2) par by (simp add: ownRecords_iff [OF wf])
  moreover have "p \<in> set (n # ListSubtreeKeys s n)" using subtree_owners [OF wf n] p(1) by simp
  ultimately show ?thesis unfolding subtreeLeases_def Let_def snd_conv set_concat set_map
    by (intro bexI [of _ "\<lparr>due_owner = p, due_rrKey = c, due_rr = RR r\<rparr>"]) auto
qed

subsection \<open>Removing the records of an event\<close>

lemma remove_all_ok:
  assumes "wf_store lib s"
    and "\<And>d. d \<in> set ds \<Longrightarrow> \<exists>r. abs_store s (due_rrKey d) = Some (DataNode r) \<and> ParentKeyName r = Normalize (due_owner d)"
  shows "\<exists>s'. remove_all ds s = Inr s' \<and> wf_store lib s' \<and> abs_store s' = (abs_store s) |` (- (due_rrKey ` set ds))"
proof -
  have "\<exists>s'. remove_all ds s = Inr s' \<and> wf_store lib s' \<and> abs_store s' = (abs_store s) |` (- (due_rrKey ` set ds))"
    if "wf_store lib s" "\<And>d. d \<in> set ds \<Longrightarrow> abs_store s (due_rrKey d) = None \<or>
      (\<exists>r. abs_store s (due_rrKey d) = Some (DataNode r) \<and> ParentKeyName r = Normalize (due_owner d))" for s
    using that
  proof (induction ds arbitrary: s)
    case (Cons d ds)
    obtain t e where t: "RemoveSingleNonKEYRecord (due_owner d) (due_rrKey d) s = (t, e)" by fastforce
    note c = RemoveSingleNonKEYRecord_abs(1) [OF Cons.prems(1), of "due_owner d" "due_rrKey d"]
    have "e = None" using Cons.prems(2) [of d] t
      by (subst (asm) c) (auto simp: abs_store_Data [OF Cons.prems(1)] abs_store_None split: option.splits if_splits)
    then have a: "abs_store t = (abs_store s) |` (- (data_of (abs_store s) (Normalize (due_owner d)) \<inter> {due_rrKey d}))"
      and wt: "wf_store lib t"
      using t ls.remove_forest [OF Cons.prems(1)] ls.ok_remove [OF Cons.prems(1)] by auto
    then have at: "abs_store t = (abs_store s)(due_rrKey d := None)"
      using Cons.prems(2) [of d] by (auto simp: fun_eq_iff restrict_map_def data_of_def)
    have "\<exists>s'. remove_all ds t = Inr s' \<and> wf_store lib s' \<and> abs_store s' = (abs_store t) |` (- (due_rrKey ` set ds))"
      by (rule Cons.IH [OF wt]) (use Cons.prems(2) in \<open>auto simp: at\<close>)
    then show ?case using t \<open>e = None\<close> by (auto simp: at restrict_map_def fun_eq_iff)
  qed (simp add: restrict_map_def)
  from this [OF assms(1)] assms(2) show ?thesis by blast
qed

lemma ownRecords_keys:
  assumes "wf_store lib s"
  shows "due_rrKey ` set (ownRecords s m due) =
    {i. \<exists>q. abs_store s i = Some (DataNode q) \<and> ParentKeyName q = Normalize m \<and> (\<forall>t. due = Some t \<longrightarrow> ExpiresAt q \<le> t)}"
proof -
  have "\<exists>d \<in> set (ownRecords s m due). i = due_rrKey d"
    if "abs_store s i = Some (DataNode q)" "ParentKeyName q = Normalize m" "\<forall>t. due = Some t \<longrightarrow> ExpiresAt q \<le> t" for i q
    using that by (intro bexI [of _ "\<lparr>due_owner = m, due_rrKey = i, due_rr = RR q\<rparr>"]) (simp_all add: ownRecords_iff [OF assms])
  then show ?thesis by (auto simp: ownRecords_iff [OF assms])
qed

lemma lease_event_data:
  assumes "lease_event casc now s n = (False, ks, ds)" "ds \<noteq> []"
  shows "ds = ownRecords s n (Some now) @ (if casc then
    concat (map (\<lambda>c. if Get s c \<noteq> None then ownRecords s c None else []) (ListSubtreeKeys s n)) else [])"
  using assms by (auto simp: lease_event_def Let_def split: if_splits)

lemma lease_event_records:
  assumes wf: "wf_store lib s" and e: "lease_event casc now s n = (False, ks, ds)"
  shows "ks = []" "d \<in> set ds \<Longrightarrow>
    \<exists>r. abs_store s (due_rrKey d) = Some (DataNode r) \<and> ParentKeyName r = Normalize (due_owner d) \<and> due_rr d = RR r"
  using e by (auto simp: lease_event_def Let_def ownRecords_iff [OF wf] split: if_splits)

lemma lease_event_key:
  assumes "lease_event casc now s n = (True, ks, ds)"
  shows "(ks, ds) = subtreeLeases s n" "\<exists>r. Get s n = Some r \<and> ExpiresAt r \<le> now"
  using assms by (auto simp: lease_event_def Let_def split: if_splits option.splits)

subsection \<open>One lease event\<close>

definition accepted :: "dnslib \<Rightarrow> coordinator \<Rightarrow> string \<Rightarrow> rr list \<Rightarrow> (string \<times> msg) list \<Rightarrow> bool" where
  "accepted lib co zone deletes out \<longleftrightarrow>
     (\<exists>z m resp. ResolveAuthoritativeZone co zone = Some z \<and> BuildAndSign lib co z [] deletes = Some m \<and>
        out = [(z, m)] \<and> SendUpdate co z m = Some (Some resp) \<and> msg_Rcode resp = RcodeSuccess)"

lemma upstream_send_accepted: "upstream_send lib co zone [] ds = (out, Inr resp) \<Longrightarrow> accepted lib co zone ds out"
  by (auto simp: upstream_send_def accepted_def split: option.splits if_splits)

lemma expire_cases [consumes 2, case_names nothing failed key data]:
  assumes wf: "wf_store lib (lm y)" and r: "expire lib co zone casc now now1 now2 n y = Inr (b, y')"
  obtains (nothing) "\<not> b" "lm y' = lm y" "sent y' = sent y" "tms y' = fst (finish now2 (lm y) n True (tms y))"
  | (failed) out where "\<not> b" "lm y' = lm y" "sent y' = sent y @ out" "tms y' = fst (finish now2 (lm y) n False (tms y))"
  | (key) out ks ds t where b "lease_event casc now (lm y) n = (True, ks, ds)"
      "accepted lib co zone (asDeletes (map of_key ks) @ recordDeletes ds) out" "sent y' = sent y @ out"
      "DeleteSubtree n (lm y) = (lm y', None)" "tms y' = fst (finish now2 (lm y') n True t)"
  | (data) out ds where b "lease_event casc now (lm y) n = (False, [], ds)"
      "accepted lib co zone (recordDeletes ds) out" "sent y' = sent y @ out"
      "remove_all ds (lm y) = Inr (lm y')" "tms y' = fst (finish now2 (lm y') n True (tms y))" "ds \<noteq> []"
proof -
  obtain ke ks ds where ev: "lease_event casc now (lm y) n = (ke, ks, ds)" by (cases "lease_event casc now (lm y) n")
  show ?thesis
  proof (cases "ks = [] \<and> ds = []")
    case True
    then show ?thesis using r ev that(1) by (auto simp: expire_def set_tms_def)
  next
    case False
    obtain out res where snd: "upstream_send lib co zone [] (asDeletes (map of_key ks) @ recordDeletes ds) = (out, res)"
      by fastforce
    have req: "requireUpstream co" using r ev False by (auto simp: expire_def split: if_splits)
    show ?thesis
    proof (cases res)
      case (Inl e)
      then show ?thesis using r ev False snd req that(2) by (auto simp: expire_def set_tms_def Let_def)
    next
      case (Inr resp)
      then have acc: "accepted lib co zone (asDeletes (map of_key ks) @ recordDeletes ds) out"
        using snd upstream_send_accepted by simp
      show ?thesis
      proof (cases ke)
        case True
        obtain s' e where d: "DeleteSubtree n (lm y) = (s', e)" by fastforce
        let ?t = "fold disarm (ListSubtreeKeys (lm y) n) (tms y)"
        have "e = None" "b" "lm y' = s'" "sent y' = sent y @ out" "tms y' = fst (finish now2 s' n True ?t)"
          using r ev False snd req Inr True d
          by (auto simp: expire_def Let_def split: option.splits if_splits)
        then show ?thesis using that(3) [of ks ds out ?t] ev True acc d by simp
      next
        case ke: False
        then have ks: "ks = []" using lease_event_records(1) [OF wf] ev by simp
        have "b" "remove_all ds (lm y) = Inr (lm y')" "sent y' = sent y @ out"
          "tms y' = fst (finish now2 (lm y') n True (tms y))"
          using r ev False snd req Inr ke by (auto simp: expire_def Let_def split: sum.splits if_splits)
        then show ?thesis using that(4) [of ds out] ev ke acc ks False by (simp add: asDeletes_def)
      qed
    qed
  qed
qed

subsection \<open>Timers after an event\<close>

lemma armed_arm [simp]: "armed (arm now n d t) m \<longleftrightarrow> m = n \<or> armed t m"
  by (simp add: armed_def arm_def mget_mput)

lemma armed_schedule:
  "armed (schedule now s n t) m \<longleftrightarrow> (if m = n then nextLeaseEvent now s n \<noteq> None else armed t m)"
  by (auto simp: schedule_def disarm_def armed_def arm_def mget_mput mget_mdel split: option.split)

lemma armed_failures [simp]: "armed (t\<lparr>failures := f\<rparr>) m = armed t m"
  by (simp add: armed_def)

lemma armed_finish:
  "armed (fst (finish now s n c t)) n \<longleftrightarrow> \<not> c \<or> nextLeaseEvent now s n \<noteq> None"
  by (simp add: finish_def Let_def armed_schedule)

lemma wf_after_expire:
  assumes wf: "wf_store lib (lm y)" and r: "expire lib co zone casc now now1 now2 n y = Inr (b, y')"
  shows "wf_store lib (lm y')"
  using assms
proof (cases rule: expire_cases)
  case (data out ds)
  from remove_all_ok [OF wf, of ds] lease_event_records(2) [OF wf data(2)] data(5) show ?thesis by auto
qed (use wf ls.ok_delete [OF wf] in auto)

subsection \<open>A concrete proxy\<close>

definition sample_co :: coordinator where
  "sample_co = \<lparr>hasCoordinator = True, hasSigningKey = True, ResolveAuthoritativeZone = Some,
     QueryRRs = (\<lambda>z n t. Some []), NewMsg = (\<lambda>z t. Some empty_msg), SignMessage = Some,
     SendUpdate = (\<lambda>z m. Some (Some empty_msg))\<rparr>"

definition sample_proxy :: proxy where
  "sample_proxy = \<lparr>lm = sample_store, tms = newExpiryTimers, locks = NewNodeLocks, sent = []\<rparr>"

lemma stable_parents_lists:
  assumes "list_all (\<lambda>r. Normalize (ParentKeyName r) = ParentKeyName r) (mvals (leases s))"
    and "list_all (\<lambda>r. Normalize (ParentKeyName r) = ParentKeyName r) (mvals (nonKeyRecords s))"
  shows "stable_parents s"
  using assms by (force simp: stable_parents_def abs_store_def list_all_iff mvals_def
      split: option.splits dest: mget_Some_set)

lemma sample_stable: "stable_parents sample_store"
  by (rule stable_parents_lists; code_simp)

lemma sample_names:
  "Normalize ''example.+015+00516'' = ''example.+015+00516''"
  "map_option ExpiresAt (Get sample_store ''example.+015+00516'') = Some 60000000000"
  by code_simp+

subsection \<open>Properties\<close>

theorem nextLeaseEvent_earliest_witness:
  "nextLeaseEvent 0 sample_store ''example.+015+00516'' \<noteq> None \<and>
   lease_ends sample_store ''example.+015+00516'' \<noteq> {}"
proof -
  have "nextLeaseEvent 0 sample_store ''example.+015+00516'' \<noteq> None" by code_simp
  with nextLeaseEvent_earliest [OF wf_sample_store, of 0 "''example.+015+00516''"] show ?thesis by blast
qed

text \<open>
  C29. A lease event deletes upstream before it forgets: if it changes the store at all, one UPDATE
  was sent, the authoritative server answered it with NOERROR, and every node that is gone was
  deleted in it by its own record. If the UPDATE cannot be built, sent or is not accepted, the
  store stays as it was. Nothing but removal ever happens to a node.
\<close>

theorem expire_deletes_upstream_first:
  assumes wf: "wf_store lib (lm y)" and n: "Normalize n = n" and st: "stable_parents (lm y)"
    and r: "expire lib co zone casc now now1 now2 n y = Inr (b, y')"
  shows "(\<not> b \<longrightarrow> lm y' = lm y) \<and>
    (b \<longrightarrow> (\<exists>out deletes. sent y' = sent y @ out \<and> accepted lib co zone deletes out \<and>
       (\<forall>i v. abs_store (lm y) i = Some v \<and> abs_store (lm y') i = None \<longrightarrow> AsDelete (node_rr v) \<in> set deletes))) \<and>
    (\<forall>i v. abs_store (lm y') i = Some v \<longrightarrow> abs_store (lm y) i = Some v)"
  using wf r
proof (cases rule: expire_cases)
  case (key out ks ds t)
  note ev = lease_event_key [OF key(2)]
  let ?del = "asDeletes (map of_key ks) @ recordDeletes ds"
  have "AsDelete (node_rr v) \<in> set ?del" if v: "abs_store (lm y) i = Some v" "abs_store (lm y') i = None" for i v
  proof -
    have i: "i \<in> descendants (abs_store (lm y)) n"
      using v ls.delete_forest [OF wf key(5)] n by (auto simp: forest_delete_def restrict_map_def split: if_splits)
    show ?thesis
    proof (cases v)
      case (KeyNode k)
      then show ?thesis using subtreeLeases_keys [OF wf n i] v(1) ev(1) [symmetric] by (simp add: asDeletes_def)
    next
      case (DataNode q)
      have "i \<noteq> n"
        using v(1) DataNode ev(2) wf_disjoint [OF wf [unfolded wf_store_def], of n] n
        by (auto simp: Get_def abs_store_Data [OF wf])
      then show ?thesis using subtreeLeases_records [OF wf n st i _, of q] v(1) DataNode ev(1) [symmetric]
        by (force simp: recordDeletes_def)
    qed
  qed
  moreover have "abs_store (lm y) i = Some v" if "abs_store (lm y') i = Some v" for i v
    using that by (rule ls.delete_shrinks [OF wf key(5)])
  ultimately show ?thesis using key(1,3,4) by metis
next
  case (data out ds)
  note own = lease_event_records(2) [OF wf data(2)]
  obtain s' where s': "remove_all ds (lm y) = Inr s'" "abs_store s' = (abs_store (lm y)) |` (- (due_rrKey ` set ds))"
    using remove_all_ok [OF wf, of ds] own by blast
  then have abs': "abs_store (lm y') = (abs_store (lm y)) |` (- (due_rrKey ` set ds))" using data(5) by simp
  have "AsDelete (node_rr v) \<in> set (recordDeletes ds)" if v: "abs_store (lm y) i = Some v" "abs_store (lm y') i = None" for i v
  proof -
    from v obtain d where d: "d \<in> set ds" "due_rrKey d = i" by (auto simp: abs' restrict_map_def split: if_splits)
    with own [OF d(1)] v(1) show ?thesis by (auto simp: recordDeletes_def intro!: image_eqI)
  qed
  moreover have "abs_store (lm y) i = Some v" if "abs_store (lm y') i = Some v" for i v
    using that by (auto simp: abs' restrict_map_def split: if_splits)
  ultimately show ?thesis using data(1,3,4) by metis
qed simp_all

theorem expire_deletes_upstream_first_witness:
  "\<exists>y' out deletes. expire sample_lib sample_co ''example.'' False 60000000001 60000000002 60000000003 ''example.+015+00516'' sample_proxy
       = Inr (True, y') \<and> sent y' = out \<and> accepted sample_lib sample_co ''example.'' deletes out"
proof -
  let ?e = "expire sample_lib sample_co ''example.'' False 60000000001 60000000002 60000000003 ''example.+015+00516'' sample_proxy"
  have "(case ?e of Inl p \<Rightarrow> False | Inr (b, y') \<Rightarrow> b)" by code_simp
  then obtain y' where e: "?e = Inr (True, y')" by (auto split: sum.splits)
  have "wf_store sample_lib (lm sample_proxy)" "stable_parents (lm sample_proxy)"
    by (simp_all add: sample_proxy_def wf_sample_store sample_stable)
  from expire_deletes_upstream_first [OF this(1) sample_names(1) this(2) e] e show ?thesis
    by (auto simp: sample_proxy_def)
qed



text \<open>
  A lease event never panics while the clock moves on: with the upstream configured, and with
  the second reading of the clock later than the expiry of a KEY found expired, none of the
  conditions the code takes for impossible can arise.
\<close>

theorem expire_no_panic:
  assumes wf: "wf_store lib (lm y)" and n: "Normalize n = n" "n \<noteq> []" and up: "requireUpstream co"
    and clock: "\<forall>r. Get (lm y) n = Some r \<and> ExpiresAt r \<le> now \<longrightarrow> ExpiresAt r < now1"
  shows "\<exists>b y'. expire lib co zone casc now now1 now2 n y = Inr (b, y')"
proof -
  obtain ke ks ds where ev: "lease_event casc now (lm y) n = (ke, ks, ds)" by (cases "lease_event casc now (lm y) n")
  obtain out res where snd: "upstream_send lib co zone [] (asDeletes (map of_key ks) @ recordDeletes ds) = (out, res)"
    by fastforce
  show ?thesis
  proof (cases ke)
    case True
    obtain r where r: "Get (lm y) n = Some r" "ExpiresAt r \<le> now" using lease_event_key(2) [of casc now "lm y" n ks ds] ev True by auto
    then have "IsExpired now1 r" using clock by (simp add: IsExpired_def)
    moreover have "DeleteSubtree n (lm y) = (deleteSubtreeLocked n (lm y), None)" using n by (simp add: DeleteSubtree_def)
    ultimately show ?thesis using ev True snd up r
      by (cases res) (auto simp: expire_def Let_def)
  next
    case False
    then have ev': "lease_event casc now (lm y) n = (False, ks, ds)" using ev by simp
    have "\<exists>s'. remove_all ds (lm y) = Inr s' \<and> wf_store lib s' \<and> abs_store s' = (abs_store (lm y)) |` (- (due_rrKey ` set ds))"
      by (rule remove_all_ok [OF wf]) (use lease_event_records(2) [OF wf ev'] in blast)
    then show ?thesis using ev False snd up by (cases res) (auto simp: expire_def Let_def)
  qed
qed

theorem expire_no_panic_witness:
  "\<exists>b y'. expire sample_lib sample_co ''example.'' False 60000000000 60000000001 60000000002 ''example.+015+00516'' sample_proxy = Inr (b, y')"
proof (rule expire_no_panic)
  show "wf_store sample_lib (lm sample_proxy)" by (simp add: sample_proxy_def wf_sample_store)
  show "requireUpstream sample_co" by (simp add: requireUpstream_def sample_co_def)
  show "\<forall>r. Get (lm sample_proxy) ''example.+015+00516'' = Some r \<and> ExpiresAt r \<le> 60000000000 \<longrightarrow> ExpiresAt r < 60000000001"
    by simp
qed (use sample_names(1) in auto)

text \<open>
  The strict order of the two readings matters: an event that finds the KEY expired at the very
  instant of its expiry, by a clock that has not moved when it is read again, takes the KEY for
  refreshed and panics.
\<close>

lemma expire_panics_at_the_instant:
  "expire sample_lib sample_co ''example.'' False 60000000000 60000000000 60000000000 ''example.+015+00516'' sample_proxy =
     Inl (RefreshedUnderLock ''example.+015+00516'')"
  by code_simp

text \<open>
  No lease is left without a timer: after a lease event, run under its locks or put off because
  one of them is held, the node has a timer if the store holds a KEY or a record for it.
\<close>

theorem expire_keeps_timer:
  assumes wf: "wf_store lib (lm y)" and r: "expire lib co zone casc now now1 now2 n y = Inr (b, y')"
    and left: "lease_ends (lm y') n \<noteq> {}"
  shows "armed (tms y') n"
proof -
  have ev: "nextLeaseEvent now2 (lm y') n \<noteq> None"
    using nextLeaseEvent_ends [OF wf_after_expire [OF wf r]] left by simp
  from wf r show ?thesis
  proof (cases rule: expire_cases)
    case nothing
    then show ?thesis using ev by (simp add: armed_finish)
  next
    case failed
    then show ?thesis by (simp add: armed_finish)
  next
    case key
    then show ?thesis using ev by (simp add: armed_finish)
  next
    case data
    then show ?thesis using ev by (simp add: armed_finish)
  qed
qed

theorem expire_keeps_timer_witness:
  "\<exists>y'. expire sample_lib sample_co ''example.'' False 5 6 7 ''example.+015+00516'' sample_proxy = Inr (False, y') \<and>
     armed (tms y') ''example.+015+00516''"
proof -
  let ?e = "expire sample_lib sample_co ''example.'' False 5 6 7 ''example.+015+00516'' sample_proxy"
  have "(case ?e of Inl p \<Rightarrow> False | Inr (b, y') \<Rightarrow> \<not> b \<and> map_option ExpiresAt (Get (lm y') ''example.+015+00516'') = Some 60000000000)"
    by code_simp
  then obtain y' where e: "?e = Inr (False, y')" "map_option ExpiresAt (Get (lm y') ''example.+015+00516'') = Some 60000000000"
    by (auto split: sum.splits)
  have "lease_ends (lm y') ''example.+015+00516'' \<noteq> {}"
    using e(2) sample_names(1) by (auto simp: lease_ends_def abs_store_Key Get_def)
  moreover have "wf_store sample_lib (lm sample_proxy)" by (simp add: sample_proxy_def wf_sample_store)
  ultimately show ?thesis using expire_keeps_timer [OF _ e(1)] e(1) by blast
qed

text \<open>
  One pass of \<open>reconcile\<close> arms every owner the store knows: afterwards each KEY node and each
  owner of records has a timer, and no timer was taken away.
\<close>

theorem reconcile_arms_all:
  assumes wf: "wf_store lib s" and own: "\<forall>i \<in> set (ListOwners s). Normalize i = i"
  shows "(\<forall>i \<in> set (ListOwners s). armed (reconcile now s t) i) \<and> (\<forall>i. armed t i \<longrightarrow> armed (reconcile now s t) i)"
proof -
  have ev: "nextLeaseEvent now s i \<noteq> None" if "i \<in> set (ListOwners s)" for i
  proof -
    have "(\<exists>r. abs_store s i = Some (KeyNode r)) \<or> data_of (abs_store s) i \<noteq> {}"
      using that ListOwners_set(1) [OF wf] by blast
    moreover have "Normalize i = i" using that own by blast
    ultimately have "lease_ends s i \<noteq> {}" by (auto simp: lease_ends_def data_of_def)
    then show ?thesis using nextLeaseEvent_ends [OF wf, of now i] by simp
  qed
  let ?f = "\<lambda>nodeKey t. if armed t nodeKey then t else schedule now s nodeKey t"
  have "(\<forall>i \<in> set os. armed (fold ?f os t) i) \<and> (\<forall>i. armed t i \<longrightarrow> armed (fold ?f os t) i)"
    if "set os \<subseteq> set (ListOwners s)" for os
    using that
  proof (induction os arbitrary: t)
    case (Cons o1 os)
    let ?t = "?f o1 t"
    have one: "armed ?t o1" using ev Cons.prems by (simp add: armed_schedule)
    have keep: "armed t i \<Longrightarrow> armed ?t i" for i by (auto simp: armed_schedule)
    have "(\<forall>i \<in> set os. armed (fold ?f os ?t) i) \<and> (\<forall>i. armed ?t i \<longrightarrow> armed (fold ?f os ?t) i)"
      by (rule Cons.IH) (use Cons.prems in simp)
    moreover have "fold ?f (o1 # os) t = fold ?f os ?t" by simp
    ultimately show ?case using one keep by (simp only: list.set ball_simps) blast
  qed simp
  then show ?thesis by (simp add: reconcile_def)
qed

theorem reconcile_arms_all_witness:
  "armed (reconcile 0 sample_store newExpiryTimers) ''sub.example.+015+00517''"
proof -
  have "\<forall>i \<in> set (ListOwners sample_store). Normalize i = i" "''sub.example.+015+00517'' \<in> set (ListOwners sample_store)"
    by code_simp+
  with reconcile_arms_all [OF wf_sample_store] show ?thesis by blast
qed

end
