(* ===== verification/Update_Handler.thy ===== *)
theory Update_Handler
  imports Store_Properties Expiry "HOL-Library.AList"
begin

text \<open>
  The RFC 9664 handler (\<open>handlers/opcode5.go\<close>, \<open>opcode5_handle.go\<close>, \<open>opcode5_update_helpers.go\<close>
  and the first part of \<open>opcode5_lease.go\<close>).

  \<open>Handle\<close> has the three stages of the code. Up to the node locks it checks the request and finds
  the key that verifies its SIG(0) signature (\<open>checkRequest\<close>). Under the locks it decides what to
  send upstream and which changes of the lease store to make once that is confirmed: one of the
  cases A to D by which of LEASE and KEY-LEASE are zero. Then it sends, and applies the changes.
  A pending change, a closure in the code, is the list of the calls its body makes.

  The clock is read where the code reads it: \<open>verified\<close> during verification, \<open>checked\<close> at the
  lookups under the locks, \<open>measured\<close> for the time left of a lease, \<open>applied\<close> by the changes,
  \<open>rearmed\<close> by the timers. The argument \<open>verify\<close> is \<open>sig0.VerifySignature\<close>.
\<close>

subsection \<open>Data\<close>

record UpdateHandler =
  upstreamZone :: string
  leasePolicy :: LeasePolicy
  recordTTL :: u32
  prefer4ByteVariant :: bool
  AllowOnlineKeyRegistration :: bool
  blacklistedTypes :: "u16 list"

record clock =
  verified :: time
  checked :: time
  measured :: time
  applied :: time
  rearmed :: time

record keyID =
  kid_Name :: string
  kid_Algorithm :: u8
  kid_KeyTag :: u16

datatype signerKeySource =
    signerKeySourceUnknown
  | signerKeySourceRequest
  | signerKeySourceLeaseStore
  | signerKeySourceAuthoritative

datatype sig0_error =
    NoSig0
  | EmptyDownstreamZone
  | EmptySigner
  | SignerOutsideZone string string
  | VerificationFailed
  | SignerLookupFailed
  | NoMatchingKey string

datatype update_error =
    QuestionCount
  | BadLease parse_lease_error
  | IncompleteKEY
  | BlacklistedType u16
  | IncompleteAdditionalKEY
  | Sig0Failed sig0_error
  | EmptySignerName
  | EmptyKEYOwner
  | OutsideSigner string string
  | InvalidGrouping string
  | LocksBusy
  | RecordsMissing
  | NoRecordsForLease
  | UnexpectedKEY
  | SignerNotAuthorized string
  | SignerNotManaged
  | RefreshRejected string
  | KeyLookupFailed
  | DuplicateCheckFailed
  | DuplicateRegistration string
  | RegistrationRejected
  | UpstreamFailed send_error
  | StoreUpdateFailed string store_error

text \<open>The RCODE each error is answered with.\<close>

fun update_rcode :: "update_error \<Rightarrow> u16" where
  "update_rcode QuestionCount = RcodeFormatError"
| "update_rcode (BadLease _) = 16"
| "update_rcode IncompleteKEY = RcodeFormatError"
| "update_rcode (BlacklistedType _) = RcodeFormatError"
| "update_rcode IncompleteAdditionalKEY = RcodeFormatError"
| "update_rcode LocksBusy = RcodeServerFailure"
| "update_rcode RecordsMissing = RcodeFormatError"
| "update_rcode KeyLookupFailed = RcodeServerFailure"
| "update_rcode DuplicateCheckFailed = RcodeServerFailure"
| "update_rcode (UpstreamFailed _) = RcodeServerFailure"
| "update_rcode (StoreUpdateFailed _ _) = RcodeServerFailure"
| "update_rcode _ = RcodeRefused"

definition update_failure :: "msg \<Rightarrow> update_error \<Rightarrow> HandlerResult" where
  "update_failure r e = NewErrorResult (Some (makeErrorResponse r (update_rcode e)))"

subsection \<open>The records of a request\<close>

definition incomplete_key :: "key \<Rightarrow> bool" where
  "incomplete_key k \<longleftrightarrow> Algorithm k = 0 \<or> Protocol k = 0 \<or> TrimSpace (PublicKey k) = []"

fun extractUpdateRecords :: "u16 list \<Rightarrow> rr list \<Rightarrow> update_error + (key list \<times> rr list)" where
  "extractUpdateRecords bl [] = Inr ([], [])"
| "extractUpdateRecords bl (r # rs) =
     (case as_key r of
        Some v \<Rightarrow>
          if incomplete_key v then Inl IncompleteKEY
          else (case extractUpdateRecords bl rs of Inl e \<Rightarrow> Inl e | Inr (ks, rest) \<Rightarrow> Inr (v # ks, rest))
      | None \<Rightarrow>
          if RRToType r \<in> set bl then Inl (BlacklistedType (RRToType r))
          else (case extractUpdateRecords bl rs of Inl e \<Rightarrow> Inl e | Inr (ks, rest) \<Rightarrow> Inr (ks, r # rest)))"

fun extractAdditionalSigningKeys :: "rr list \<Rightarrow> update_error + key list" where
  "extractAdditionalSigningKeys [] = Inr []"
| "extractAdditionalSigningKeys (r # rs) =
     (case as_key r of
        None \<Rightarrow> extractAdditionalSigningKeys rs
      | Some k \<Rightarrow>
          if incomplete_key k then Inl IncompleteAdditionalKEY
          else (case extractAdditionalSigningKeys rs of Inl e \<Rightarrow> Inl e | Inr ks \<Rightarrow> Inr (k # ks)))"

fun first_sig :: "rr list \<Rightarrow> sig option" where
  "first_sig [] = None"
| "first_sig (r # rs) = (case as_sig r of Some s \<Rightarrow> Some s | None \<Rightarrow> first_sig rs)"

definition extractSig0 :: "msg \<Rightarrow> sig0_error + sig" where
  "extractSig0 m =
     (case first_sig (msg_Pseudo m) of
        Some s \<Rightarrow> Inr s
      | None \<Rightarrow> (case first_sig (msg_Extra m) of Some s \<Rightarrow> Inr s | None \<Rightarrow> Inl NoSig0))"

subsection \<open>Key identities and ownership\<close>

definition keyIDFromKEY :: "dnslib \<Rightarrow> key \<Rightarrow> keyID" where
  "keyIDFromKEY lib k =
     \<lparr>kid_Name = Normalize (key_name k), kid_Algorithm = Algorithm k, kid_KeyTag = KeyTag lib k\<rparr>"

definition keyIDFromSIG :: "sig \<Rightarrow> keyID" where
  "keyIDFromSIG s =
     \<lparr>kid_Name = Normalize (SignerName s), kid_Algorithm = sig_Algorithm s, kid_KeyTag = sig_KeyTag s\<rparr>"

definition signerAuthorizedForNewRegistration :: "UpdateHandler \<Rightarrow> bool \<Rightarrow> bool \<Rightarrow> signerKeySource \<Rightarrow> bool" where
  "signerAuthorizedForNewRegistration h signerManaged signerInUpdate source \<longleftrightarrow>
     (if signerManaged \<or> signerInUpdate then True
      else source = signerKeySourceAuthoritative \<and> AllowOnlineKeyRegistration h)"

fun check_key_owners :: "string \<Rightarrow> string \<Rightarrow> key list \<Rightarrow> update_error option" where
  "check_key_owners signer canon [] = None"
| "check_key_owners signer canon (k # ks) =
     (if key_name k = [] then Some EmptyKEYOwner
      else if Normalize (key_name k) = canon then check_key_owners signer canon ks
      else if \<not> IsAtOrBelow (Normalize (key_name k)) canon then Some (OutsideSigner (key_name k) signer)
      else check_key_owners signer canon ks)"

fun check_record_owners :: "string \<Rightarrow> string \<Rightarrow> rr list \<Rightarrow> update_error option" where
  "check_record_owners signer canon [] = None"
| "check_record_owners signer canon (r # rs) =
     (if \<not> IsAtOrBelow (Normalize (rr_name r)) canon then Some (OutsideSigner (rr_name r) signer)
      else check_record_owners signer canon rs)"

definition validateSignerHierarchyForUpdateRecords ::
  "string \<Rightarrow> key list \<Rightarrow> rr list \<Rightarrow> update_error option"
where
  "validateSignerHierarchyForUpdateRecords signer ks rs =
     (let canon = Normalize signer in
      if canon = [] then Some EmptySignerName
      else case check_key_owners signer canon ks of
        Some e \<Rightarrow> Some e
      | None \<Rightarrow> check_record_owners signer canon rs)"

type_synonym groups = "(keyID \<times> rr list) list"

definition group_get :: "groups \<Rightarrow> keyID \<Rightarrow> rr list" where
  "group_get g k = (case map_of g k of None \<Rightarrow> [] | Some rs \<Rightarrow> rs)"

definition group_add :: "keyID \<Rightarrow> rr list \<Rightarrow> groups \<Rightarrow> groups" where
  "group_add k rs g = AList.update k (group_get g k @ rs) g"

text \<open>The search for the longest ancestor among the KEYs: best so far, its length, ambiguity.\<close>

fun closest_key :: "keyID \<Rightarrow> string \<Rightarrow> keyID list \<Rightarrow> keyID option \<Rightarrow> bool \<Rightarrow> keyID option \<times> bool" where
  "closest_key signer owner [] best ambiguous = (best, ambiguous)"
| "closest_key signer owner (k # ks) best ambiguous =
     (if \<not> IsAtOrBelow owner (kid_Name k) then closest_key signer owner ks best ambiguous
      else case best of
        None \<Rightarrow> closest_key signer owner ks (Some k) False
      | Some b \<Rightarrow>
          if length (kid_Name k) > length (kid_Name b) then closest_key signer owner ks (Some k) False
          else if length (kid_Name k) = length (kid_Name b) then
            if k = signer then closest_key signer owner ks (Some k) False
            else if b \<noteq> signer then closest_key signer owner ks best True
            else closest_key signer owner ks best ambiguous
          else closest_key signer owner ks best ambiguous)"

fun group_by_closest :: "keyID \<Rightarrow> keyID list \<Rightarrow> rr list \<Rightarrow> groups \<Rightarrow> update_error + groups" where
  "group_by_closest signer ks [] g = Inr g"
| "group_by_closest signer ks (r # rs) g =
     (case closest_key signer (Normalize (rr_name r)) ks None False of
        (None, _) \<Rightarrow> Inl (InvalidGrouping (rr_name r))
      | (Some b, ambiguous) \<Rightarrow>
          if ambiguous then Inl (InvalidGrouping (rr_name r))
          else group_by_closest signer ks rs (group_add b [r] g))"

fun group_one_owner :: "keyID \<Rightarrow> string \<Rightarrow> rr list \<Rightarrow> groups \<Rightarrow> update_error + groups" where
  "group_one_owner signer owner [] g = Inr g"
| "group_one_owner signer owner (r # rs) g =
     (if Normalize (rr_name r) \<noteq> owner then Inl (InvalidGrouping (rr_name r))
      else group_one_owner signer owner rs (group_add signer [r] g))"

definition groupOtherRecordsByTargetKey ::
  "dnslib \<Rightarrow> keyID \<Rightarrow> key list \<Rightarrow> rr list \<Rightarrow> bool \<Rightarrow> update_error + groups"
where
  "groupOtherRecordsByTargetKey lib signer ks rs useHierarchy =
     (case rs of
        [] \<Rightarrow> Inr []
      | r # _ \<Rightarrow>
          if \<not> useHierarchy then Inr (group_add signer rs [])
          else (case ks of
                  [] \<Rightarrow> group_one_owner signer (Normalize (rr_name r)) rs []
                | [k] \<Rightarrow> Inr (group_add (keyIDFromKEY lib k) rs [])
                | _ \<Rightarrow>
                    if list_ex (\<lambda>k. key_name k = []) ks then Inl EmptyKEYOwner
                    else group_by_closest signer (map (keyIDFromKEY lib) ks) rs []))"

subsection \<open>What the zone already holds\<close>

definition rrEqual :: "dnslib \<Rightarrow> rr \<Rightarrow> rr \<Rightarrow> bool" where
  "rrEqual lib a b \<longleftrightarrow>
     (if \<not> EqualFold (rr_name a) (rr_name b) then False
      else if rr_class a \<noteq> rr_class b then False
      else if RRToType a \<noteq> RRToType b then False
      else
        let typ = RRToType a in
        if typ = TypeSOA then True
        else if typ = TypeCNAME then True
        else if typ = 4 then DataString lib (rr_data a) = DataString lib (rr_data b)
        else if DataLen lib (rr_data a) \<noteq> DataLen lib (rr_data b) then False
        else DataString lib (rr_data a) = DataString lib (rr_data b))"

definition authoritativeHasRR :: "dnslib \<Rightarrow> coordinator \<Rightarrow> string \<Rightarrow> rr \<Rightarrow> bool option" where
  "authoritativeHasRR lib co zoneHint r =
     map_option (list_ex (\<lambda>existing. rrEqual lib existing r)) (QueryRRs co zoneHint (rr_name r) (RRToType r))"

definition authoritativeHasKeyAtName :: "coordinator \<Rightarrow> string \<Rightarrow> string \<Rightarrow> bool option" where
  "authoritativeHasKeyAtName co zoneHint fqdn = map_option (\<lambda>rrs. rrs \<noteq> []) (QueryRRs co zoneHint fqdn TypeKEY)"

text \<open>The accepted records; every error of it is answered with REFUSED.\<close>

fun filterDuplicateRegistrations ::
  "dnslib \<Rightarrow> coordinator \<Rightarrow> store \<Rightarrow> string \<Rightarrow> string \<Rightarrow> rr list \<Rightarrow> update_error + rr list"
where
  "filterDuplicateRegistrations lib co s keyName zoneHint [] = Inr []"
| "filterDuplicateRegistrations lib co s keyName zoneHint (r # rs) =
     (case (case LookupNonKEYRecord lib s r of
              Some existing \<Rightarrow> if ParentKeyName existing \<noteq> keyName then Some RegistrationRejected else None
            | None \<Rightarrow> (case authoritativeHasRR lib co zoneHint r of
                None \<Rightarrow> Some RegistrationRejected
              | Some True \<Rightarrow> Some RegistrationRejected
              | Some False \<Rightarrow> None)) of
        Some e \<Rightarrow> Inl e
      | None \<Rightarrow>
          (case filterDuplicateRegistrations lib co s keyName zoneHint rs of
             Inl e \<Rightarrow> Inl e
           | Inr accepted \<Rightarrow> Inr (r # accepted)))"

subsection \<open>The signer\<close>

definition verifyFromCandidates :: "(msg \<Rightarrow> key \<Rightarrow> bool) \<Rightarrow> msg \<Rightarrow> key list \<Rightarrow> sig0_error + key option" where
  "verifyFromCandidates verify m candidates =
     (case find (verify m) candidates of
        Some k \<Rightarrow> Inr (Some k)
      | None \<Rightarrow> if candidates = [] then Inr None else Inl VerificationFailed)"

definition matches_sig :: "dnslib \<Rightarrow> sig \<Rightarrow> key \<Rightarrow> bool" where
  "matches_sig lib sg k \<longleftrightarrow> KeyTag lib k = sig_KeyTag sg \<and> Algorithm k = sig_Algorithm sg"

definition extractAndValidateSig0 ::
  "dnslib \<Rightarrow> (msg \<Rightarrow> key \<Rightarrow> bool) \<Rightarrow> coordinator \<Rightarrow> time \<Rightarrow> store \<Rightarrow> msg \<Rightarrow> string \<Rightarrow> key list \<Rightarrow> key list \<Rightarrow>
   sig0_error + (sig \<times> key \<times> signerKeySource)"
where
  "extractAndValidateSig0 lib verify co now s m zone additional updateKeys =
     (case extractSig0 m of
        Inl e \<Rightarrow> Inl e
      | Inr sg \<Rightarrow>
          let zoneCanon = Normalize zone; signerCanon = Normalize (SignerName sg);
              named = (\<lambda>k. Normalize (key_name k) = signerCanon \<and> matches_sig lib sg k)
          in
          if zoneCanon = [] then Inl EmptyDownstreamZone
          else if signerCanon = [] then Inl EmptySigner
          else if \<not> IsAtOrBelow zoneCanon signerCanon then Inl (SignerOutsideZone (SignerName sg) zone)
          else
            (case verifyFromCandidates verify m (filter named additional @ filter named updateKeys) of
               Inl e \<Rightarrow> Inl e
             | Inr (Some k) \<Rightarrow> Inr (sg, k, signerKeySourceRequest)
             | Inr None \<Rightarrow>
                 (case verifyFromCandidates verify m
                    (case LookupBySIG now s (SignerName sg) (sig_Algorithm sg) (sig_KeyTag sg) of
                       Some r \<Rightarrow> if named (KeyRR r) then [KeyRR r] else []
                     | None \<Rightarrow> []) of
                    Inl e \<Rightarrow> Inl e
                  | Inr (Some k) \<Rightarrow> Inr (sg, k, signerKeySourceLeaseStore)
                  | Inr None \<Rightarrow>
                      (case QueryRRs co zone (SignerName sg) TypeKEY of
                         None \<Rightarrow> Inl SignerLookupFailed
                       | Some rrs \<Rightarrow>
                           (case verifyFromCandidates verify m (filter (matches_sig lib sg) (List.map_filter as_key rrs)) of
                              Inl e \<Rightarrow> Inl e
                            | Inr (Some k) \<Rightarrow> Inr (sg, k, signerKeySourceAuthoritative)
                            | Inr None \<Rightarrow> Inl (NoMatchingKey (SignerName sg)))))))"

definition upstreamUpdateRecords :: "key list \<Rightarrow> rr list \<Rightarrow> rr list \<Rightarrow> rr list" where
  "upstreamUpdateRecords keyRRs otherRecords recordsToDelete =
     map of_key keyRRs @ otherRecords @ asDeletes recordsToDelete"

subsection \<open>Refreshing a key\<close>

definition keyRREqual :: "key \<Rightarrow> key \<Rightarrow> bool" where
  "keyRREqual a b \<longleftrightarrow>
     (if \<not> EqualFold (key_name a) (key_name b) then False
      else Flags a = Flags b \<and> Protocol a = Protocol b \<and> Algorithm a = Algorithm b \<and> PublicKey a = PublicKey b)"

definition kid_node :: "keyID \<Rightarrow> string" where
  "kid_node k = NodeKeyFromSIG (kid_Name k) (kid_Algorithm k) (kid_KeyTag k)"

definition authorizeKeyRefresh :: "dnslib \<Rightarrow> time \<Rightarrow> store \<Rightarrow> key \<Rightarrow> keyID \<Rightarrow> update_error option" where
  "authorizeKeyRefresh lib now s k signerID =
     (case LookupByKEY lib now s k of
        None \<Rightarrow> Some (RefreshRejected ''lease does not exist'')
      | Some existing \<Rightarrow>
          if \<not> keyRREqual (KeyRR existing) k then Some (RefreshRejected ''key mismatch'')
          else if keyIDFromKEY lib k \<noteq> signerID \<and> ParentKeyName existing \<noteq> kid_node signerID
          then Some (RefreshRejected (key_name k))
          else None)"

text \<open>\<open>uint32(TimeRemaining / time.Second)\<close>, at least one.\<close>

definition remaining_lease :: "time \<Rightarrow> Record \<Rightarrow> u32" where
  "remaining_lease now r =
     (let remaining = word_of_int (TimeRemaining now r div Second) in if remaining = 0 then 1 else remaining)"

definition effectiveRefreshKeyLease ::
  "coordinator \<Rightarrow> time \<Rightarrow> string \<Rightarrow> key \<Rightarrow> Record \<Rightarrow> u32 \<Rightarrow> (u32 \<times> bool) option"
where
  "effectiveRefreshKeyLease co now zone k existing requested =
     (case authoritativeHasKeyAtName co zone (key_name k) of
        None \<Rightarrow> None
      | Some True \<Rightarrow> Some (requested, True)
      | Some False \<Rightarrow> Some (remaining_lease now existing, False))"

definition registerKeyLease ::
  "dnslib \<Rightarrow> UpdateHandler \<Rightarrow> time \<Rightarrow> keyID \<Rightarrow> key \<Rightarrow> u32 \<Rightarrow> u32 \<Rightarrow> store \<Rightarrow> store \<times> store_error option"
where
  "registerKeyLease lib h now signerID k lease keyLease s =
     (let parent = (if kid_node signerID \<noteq> NodeKey lib k then kid_node signerID else [])
      in RegisterWithParent lib now parent (Some k) lease keyLease (upstreamZone h) s)"

subsection \<open>A checked request, and what it is to do\<close>

record request =
  req_zone :: string
  req_lease :: u32
  req_keyLease :: u32
  req_keys :: "key list"
  req_others :: "rr list"
  req_groups :: groups
  req_sig :: sig
  req_signerKey :: key
  req_source :: signerKeySource

definition signer_id :: "request \<Rightarrow> keyID" where
  "signer_id q = keyIDFromSIG (req_sig q)"

text \<open>One call made by a pending change.\<close>

datatype lease_step =
    Renew key u32
  | RegisterKey key u32
  | Upsert string "rr list"
  | RemoveRecords string "rr list"
  | Schedule string

record plan =
  upstreamKeys :: "key list"
  acceptedRecords :: "rr list"
  recordsToDelete :: "rr list"
  pendingMutations :: "(string \<times> lease_step list) list"
  allNotes :: "string list"

definition empty_plan :: plan where
  "empty_plan = \<lparr>upstreamKeys = [], acceptedRecords = [], recordsToDelete = [], pendingMutations = [], allNotes = []\<rparr>"

definition plan_add :: "plan \<Rightarrow> plan \<Rightarrow> plan" where
  "plan_add p q = \<lparr>upstreamKeys = upstreamKeys p @ upstreamKeys q,
     acceptedRecords = acceptedRecords p @ acceptedRecords q,
     recordsToDelete = recordsToDelete p @ recordsToDelete q,
     pendingMutations = pendingMutations p @ pendingMutations q,
     allNotes = allNotes p @ allNotes q\<rparr>"

fun plan_keys :: "(key \<Rightarrow> update_error + plan) \<Rightarrow> key list \<Rightarrow> update_error + plan" where
  "plan_keys f [] = Inr empty_plan"
| "plan_keys f (k # ks) =
     (case f k of
        Inl e \<Rightarrow> Inl e
      | Inr p \<Rightarrow> (case plan_keys f ks of Inl e \<Rightarrow> Inl e | Inr q \<Rightarrow> Inr (plan_add p q)))"

definition signer_managed :: "clock \<Rightarrow> store \<Rightarrow> request \<Rightarrow> bool" where
  "signer_managed t s q \<longleftrightarrow>
     LookupBySIG (checked t) s (SignerName (req_sig q)) (sig_Algorithm (req_sig q)) (sig_KeyTag (req_sig q)) \<noteq> None"

definition signer_in_update :: "dnslib \<Rightarrow> request \<Rightarrow> bool" where
  "signer_in_update lib q \<longleftrightarrow> list_ex (\<lambda>k. keyIDFromKEY lib k = signer_id q) (req_keys q)"

definition signer_node :: "request \<Rightarrow> string" where
  "signer_node q = NodeKeyFromSIG (SignerName (req_sig q)) (sig_Algorithm (req_sig q)) (sig_KeyTag (req_sig q))"

subsection \<open>Case A: registration or refresh of KEYs with data\<close>

definition planA_refresh ::
  "dnslib \<Rightarrow> coordinator \<Rightarrow> clock \<Rightarrow> store \<Rightarrow> request \<Rightarrow> rr list \<Rightarrow> Record \<Rightarrow> key \<Rightarrow> update_error + plan"
where
  "planA_refresh lib co t s q scoped existing k =
     (case authorizeKeyRefresh lib (checked t) s k (signer_id q) of
        Some e \<Rightarrow> Inl e
      | None \<Rightarrow>
          (case effectiveRefreshKeyLease co (measured t) (req_zone q) k existing (req_keyLease q) of
             None \<Rightarrow> Inl KeyLookupFailed
           | Some (lease, False) \<Rightarrow>
               Inr (empty_plan\<lparr>upstreamKeys := [k], acceptedRecords := scoped,
                 pendingMutations := [(key_name k,
                   [Renew k lease, Upsert (NodeKey lib k) scoped, Schedule (NodeKey lib k)])]\<rparr>)
           | Some (_, True) \<Rightarrow>
               Inr (empty_plan\<lparr>acceptedRecords := scoped,
                 pendingMutations := [(key_name k,
                   [Renew k (req_keyLease q)] @
                   (if scoped \<noteq> [] then [Upsert (NodeKey lib k) scoped] else []) @
                   [Schedule (NodeKey lib k)])]\<rparr>)))"

definition planA_new ::
  "dnslib \<Rightarrow> coordinator \<Rightarrow> store \<Rightarrow> request \<Rightarrow> rr list \<Rightarrow> key \<Rightarrow> update_error + plan"
where
  "planA_new lib co s q scoped k =
     (case authoritativeHasRR lib co (req_zone q) (of_key k) of
        None \<Rightarrow> Inl DuplicateCheckFailed
      | Some True \<Rightarrow> Inl (DuplicateRegistration (key_name k))
      | Some False \<Rightarrow>
          (case filterDuplicateRegistrations lib co s (NodeKey lib k) (req_zone q) scoped of
             Inl e \<Rightarrow> Inl e
           | Inr accepted \<Rightarrow>
               Inr (empty_plan\<lparr>upstreamKeys := [k], acceptedRecords := accepted,
                 pendingMutations := [(key_name k,
                   [RegisterKey k (req_keyLease q)] @
                   (if accepted \<noteq> [] then [Upsert (NodeKey lib k) accepted] else []) @
                   [Schedule (NodeKey lib k)])]\<rparr>)))"

definition planA_key ::
  "dnslib \<Rightarrow> coordinator \<Rightarrow> clock \<Rightarrow> store \<Rightarrow> request \<Rightarrow> key \<Rightarrow> update_error + plan"
where
  "planA_key lib co t s q k =
     (let scoped = group_get (req_groups q) (keyIDFromKEY lib k) in
      case LookupByKEY lib (checked t) s k of
        Some existing \<Rightarrow> planA_refresh lib co t s q scoped existing k
      | None \<Rightarrow> planA_new lib co s q scoped k)"

text \<open>The data of a signer that is not one of the KEYs in the request.\<close>

definition planA_signer :: "dnslib \<Rightarrow> coordinator \<Rightarrow> store \<Rightarrow> request \<Rightarrow> update_error + plan" where
  "planA_signer lib co s q =
     (if signer_in_update lib q then Inr empty_plan
      else
        let data = group_get (req_groups q) (signer_id q) in
        if data = [] then Inr empty_plan
        else (case filterDuplicateRegistrations lib co s (signer_node q) (req_zone q) data of
                Inl e \<Rightarrow> Inl e
              | Inr accepted \<Rightarrow>
                  Inr (empty_plan\<lparr>acceptedRecords := accepted,
                    pendingMutations := [(signer_node q, [Upsert (signer_node q) accepted, Schedule (signer_node q)])]\<rparr>)))"

definition planA ::
  "dnslib \<Rightarrow> UpdateHandler \<Rightarrow> coordinator \<Rightarrow> clock \<Rightarrow> store \<Rightarrow> request \<Rightarrow> update_error + plan"
where
  "planA lib h co t s q =
     (if req_keys q = [] \<or> req_others q = [] then Inl RecordsMissing
      else if \<not> signerAuthorizedForNewRegistration h (signer_managed t s q) (signer_in_update lib q) (req_source q)
      then Inl (SignerNotAuthorized (SignerName (req_sig q)))
      else case plan_keys (planA_key lib co t s q) (req_keys q) of
        Inl e \<Rightarrow> Inl e
      | Inr p \<Rightarrow> (case planA_signer lib co s q of Inl e \<Rightarrow> Inl e | Inr p' \<Rightarrow> Inr (plan_add p p')))"

subsection \<open>Case B: data only\<close>

definition planB_missing_key :: "UpdateHandler \<Rightarrow> clock \<Rightarrow> Record \<Rightarrow> plan" where
  "planB_missing_key h t signerLease =
     (let k = KeyRR signerLease; left = remaining_lease (measured t) signerLease in
      empty_plan\<lparr>upstreamKeys := [k\<lparr>key_ttl := min (recordTTL h) left\<rparr>],
        pendingMutations := [(key_name k, [Renew k left])],
        allNotes := [''KEY '' @ key_name k @
          '' was missing at the authoritative DNS and has been re-registered with remaining lease'']\<rparr>)"

definition planB ::
  "dnslib \<Rightarrow> UpdateHandler \<Rightarrow> coordinator \<Rightarrow> clock \<Rightarrow> store \<Rightarrow> request \<Rightarrow> update_error + plan"
where
  "planB lib h co t s q =
     (if req_others q = [] then Inl NoRecordsForLease
      else if req_keys q \<noteq> [] then Inl UnexpectedKEY
      else case LookupBySIG (checked t) s (SignerName (req_sig q)) (sig_Algorithm (req_sig q)) (sig_KeyTag (req_sig q)) of
        None \<Rightarrow> Inl SignerNotManaged
      | Some signerLease \<Rightarrow>
          let owner = NodeKey lib (req_signerKey q) in
          (case authoritativeHasKeyAtName co (req_zone q) (key_name (req_signerKey q)) of
             None \<Rightarrow> Inl KeyLookupFailed
           | Some present \<Rightarrow>
               let p = (if present then empty_plan else planB_missing_key h t signerLease) in
               (case filterDuplicateRegistrations lib co s owner (req_zone q) (req_others q) of
                  Inl e \<Rightarrow> Inl e
                | Inr accepted \<Rightarrow>
                    Inr (plan_add p (empty_plan\<lparr>acceptedRecords := accepted,
                      pendingMutations := (if accepted \<noteq> []
                        then [(owner, [Upsert owner accepted, Schedule owner])] else [])\<rparr>)))))"

subsection \<open>Case D: KEYs, and deletes of data\<close>

definition record_note :: "dnslib \<Rightarrow> rr \<Rightarrow> string" where
  "record_note lib r = ''record not found for delete: '' @ RRString lib r"

text \<open>The records of the list the store holds under the owner, which are the ones to delete.\<close>

definition held_by :: "dnslib \<Rightarrow> store \<Rightarrow> string \<Rightarrow> rr \<Rightarrow> bool" where
  "held_by lib s owner r \<longleftrightarrow>
     (case LookupNonKEYRecord lib s r of None \<Rightarrow> False | Some existing \<Rightarrow> ParentKeyName existing = owner)"

definition planD_key ::
  "dnslib \<Rightarrow> UpdateHandler \<Rightarrow> coordinator \<Rightarrow> clock \<Rightarrow> store \<Rightarrow> request \<Rightarrow> key \<Rightarrow> update_error + plan"
where
  "planD_key lib h co t s q k =
     (let scoped = group_get (req_groups q) (keyIDFromKEY lib k);
          nodeKey = NodeKey lib k;
          gone = filter (held_by lib s nodeKey) scoped;
          notes = map (record_note lib) (filter (\<lambda>r. \<not> held_by lib s nodeKey r) scoped);
          finishPlan = (\<lambda>first. empty_plan\<lparr>upstreamKeys := [k], recordsToDelete := gone,
            pendingMutations := [(key_name k, [first, RemoveRecords nodeKey gone, Schedule nodeKey])],
            allNotes := notes\<rparr>)
      in
      case LookupByKEY lib (checked t) s k of
        None \<Rightarrow>
          (case authoritativeHasRR lib co (req_zone q) (of_key k) of
             None \<Rightarrow> Inl DuplicateCheckFailed
           | Some True \<Rightarrow> Inl (DuplicateRegistration (key_name k))
           | Some False \<Rightarrow>
               if \<not> signerAuthorizedForNewRegistration h (signer_managed t s q) (signer_in_update lib q) (req_source q)
               then Inl (SignerNotAuthorized (SignerName (req_sig q)))
               else Inr (finishPlan (RegisterKey k (req_keyLease q))))
      | Some existing \<Rightarrow>
          (case authorizeKeyRefresh lib (checked t) s k (signer_id q) of
             Some e \<Rightarrow> Inl e
           | None \<Rightarrow>
               (case effectiveRefreshKeyLease co (measured t) (req_zone q) k existing (req_keyLease q) of
                  None \<Rightarrow> Inl KeyLookupFailed
                | Some (lease, _) \<Rightarrow> Inr (finishPlan (Renew k lease)))))"

definition planD ::
  "dnslib \<Rightarrow> UpdateHandler \<Rightarrow> coordinator \<Rightarrow> clock \<Rightarrow> store \<Rightarrow> request \<Rightarrow> update_error + plan"
where
  "planD lib h co t s q =
     (if req_keys q = [] then Inl RecordsMissing else plan_keys (planD_key lib h co t s q) (req_keys q))"

subsection \<open>Applying the pending changes\<close>

fun remove_each :: "dnslib \<Rightarrow> string \<Rightarrow> rr list \<Rightarrow> store \<Rightarrow> store_error + store" where
  "remove_each lib owner [] s = Inr s"
| "remove_each lib owner (r # rs) s =
     (case RemoveSingleNonKEYRecord owner (RecordKey lib r) s of
        (_, Some e) \<Rightarrow> Inl e
      | (s', None) \<Rightarrow> remove_each lib owner rs s')"

definition store_call :: "proxy \<Rightarrow> store \<times> store_error option \<Rightarrow> panic + (store_error option \<times> proxy)" where
  "store_call y res = Inr (snd res, y\<lparr>lm := fst res\<rparr>)"

fun apply_step ::
  "dnslib \<Rightarrow> UpdateHandler \<Rightarrow> clock \<Rightarrow> request \<Rightarrow> lease_step \<Rightarrow> proxy \<Rightarrow> panic + (store_error option \<times> proxy)"
where
  "apply_step lib h t q (Renew k l) y = store_call y (RenewLease lib (applied t) (Some k) l l (lm y))"
| "apply_step lib h t q (RegisterKey k l) y =
     store_call y (registerKeyLease lib h (applied t) (signer_id q) k l l (lm y))"
| "apply_step lib h t q (Upsert owner rs) y =
     store_call y (UpsertNonKEYRecords lib (applied t) owner rs (req_lease q) (upstreamZone h) (lm y))"
| "apply_step lib h t q (RemoveRecords owner rs) y =
     (case remove_each lib owner rs (lm y) of
        Inl e \<Rightarrow> Inl (StorePanic owner e)
      | Inr s' \<Rightarrow> Inr (None, y\<lparr>lm := s'\<rparr>))"
| "apply_step lib h t q (Schedule nodeKey) y =
     Inr (None, set_tms y (schedule (rearmed t) (lm y) nodeKey (tms y)))"

fun apply_steps ::
  "dnslib \<Rightarrow> UpdateHandler \<Rightarrow> clock \<Rightarrow> request \<Rightarrow> lease_step list \<Rightarrow> proxy \<Rightarrow> panic + (store_error option \<times> proxy)"
where
  "apply_steps lib h t q [] y = Inr (None, y)"
| "apply_steps lib h t q (x # xs) y =
     (case apply_step lib h t q x y of
        Inl p \<Rightarrow> Inl p
      | Inr (Some e, y') \<Rightarrow> Inr (Some e, y')
      | Inr (None, y') \<Rightarrow> apply_steps lib h t q xs y')"

fun apply_mutations ::
  "dnslib \<Rightarrow> UpdateHandler \<Rightarrow> clock \<Rightarrow> request \<Rightarrow> (string \<times> lease_step list) list \<Rightarrow> proxy \<Rightarrow>
   panic + (update_error option \<times> proxy)"
where
  "apply_mutations lib h t q [] y = Inr (None, y)"
| "apply_mutations lib h t q ((name, xs) # ms) y =
     (case apply_steps lib h t q xs y of
        Inl p \<Rightarrow> Inl p
      | Inr (Some e, y') \<Rightarrow> Inr (Some (StoreUpdateFailed name e), y')
      | Inr (None, y') \<Rightarrow> apply_mutations lib h t q ms y')"

subsection \<open>Responses\<close>

definition appendStatusNotes :: "msg \<Rightarrow> string list \<Rightarrow> msg" where
  "appendStatusNotes resp notes =
     resp\<lparr>msg_Pseudo := msg_Pseudo resp @ map (\<lambda>note. pseudo_rr (EDE 0 note)) notes\<rparr>"

definition buildSuccessResponse :: "dnslib \<Rightarrow> msg \<Rightarrow> string list \<Rightarrow> u32 \<Rightarrow> u32 \<Rightarrow> msg" where
  "buildSuccessResponse lib r notes lease keyLease = appendStatusNotes (leaseResponse lib r lease keyLease) notes"

subsection \<open>Cases A, B and D: forward, then apply\<close>

definition forwardAndApply ::
  "dnslib \<Rightarrow> UpdateHandler \<Rightarrow> coordinator \<Rightarrow> clock \<Rightarrow> msg \<Rightarrow> request \<Rightarrow> plan \<Rightarrow> proxy \<Rightarrow>
   panic + (HandlerResult \<times> proxy)"
where
  "forwardAndApply lib h co t r q p y =
     (case (if upstreamKeys p \<noteq> [] \<or> acceptedRecords p \<noteq> [] \<or> recordsToDelete p \<noteq> []
            then (case upstream_send lib co (upstreamZone h) []
                    (upstreamUpdateRecords (upstreamKeys p) (acceptedRecords p) (recordsToDelete p)) of
                    (out, Inl e) \<Rightarrow> (Some (UpstreamFailed e), y\<lparr>sent := sent y @ out\<rparr>)
                  | (out, Inr _) \<Rightarrow> (None, y\<lparr>sent := sent y @ out\<rparr>))
            else (None, y)) of
        (Some e, y') \<Rightarrow> Inr (update_failure r e, y')
      | (None, y') \<Rightarrow>
          (case apply_mutations lib h t q (pendingMutations p) y' of
             Inl x \<Rightarrow> Inl x
           | Inr (Some e, y'') \<Rightarrow> Inr (update_failure r e, y'')
           | Inr (None, y'') \<Rightarrow>
               Inr (NewProcessedResult (buildSuccessResponse lib r (allNotes p) (req_lease q) (req_keyLease q)), y'')))"

subsection \<open>Case C: deletes\<close>

definition may_delete_key :: "dnslib \<Rightarrow> clock \<Rightarrow> store \<Rightarrow> request \<Rightarrow> key \<Rightarrow> bool" where
  "may_delete_key lib t s q k \<longleftrightarrow>
     (case LookupByKEY lib (checked t) s k of
        None \<Rightarrow> False
      | Some existing \<Rightarrow>
          keyIDFromKEY lib k = signer_id q \<or> ParentKeyName existing = NodeKey lib (req_signerKey q))"

definition subtreeDeletes :: "dnslib \<Rightarrow> store \<Rightarrow> key \<Rightarrow> rr list" where
  "subtreeDeletes lib s k =
     (case subtreeLeases s (NodeKey lib k) of
        (keys, records) \<Rightarrow> asDeletes (map of_key keys) @ recordDeletes records)"

fun delete_keys :: "dnslib \<Rightarrow> key list \<Rightarrow> proxy \<Rightarrow> panic + proxy" where
  "delete_keys lib [] y = Inr y"
| "delete_keys lib (k # ks) y =
     (let nodeKey = NodeKey lib k;
          t = fold disarm (nodeKey # ListSubtreeKeys (lm y) nodeKey) (tms y)
      in case DeleteSubtree nodeKey (lm y) of
           (_, Some e) \<Rightarrow> Inl (StorePanic nodeKey e)
         | (s', None) \<Rightarrow> delete_keys lib ks (y\<lparr>lm := s', tms := t\<rparr>))"

definition handleC ::
  "dnslib \<Rightarrow> UpdateHandler \<Rightarrow> coordinator \<Rightarrow> clock \<Rightarrow> msg \<Rightarrow> request \<Rightarrow> proxy \<Rightarrow> panic + (HandlerResult \<times> proxy)"
where
  "handleC lib h co t r q y =
     (if req_keys q = [] \<and> req_others q = [] then Inr (update_failure r RecordsMissing, y)
      else
        let owner = NodeKey lib (req_signerKey q);
            keysToDelete = filter (may_delete_key lib t (lm y) q) (req_keys q);
            recordsToDelete = filter (held_by lib (lm y) owner) (req_others q);
            notes = map (\<lambda>k. ''KEY '' @ key_name k @ '' not found for delete'')
                      (filter (\<lambda>k. \<not> may_delete_key lib t (lm y) q k) (req_keys q)) @
                    map (record_note lib) (filter (\<lambda>x. \<not> held_by lib (lm y) owner x) (req_others q));
            success = NewProcessedResult (buildSuccessResponse lib r notes (req_lease q) (req_keyLease q))
        in
        if keysToDelete = [] \<and> recordsToDelete = [] then Inr (success, y)
        else
          (case upstream_send lib co (upstreamZone h) []
             (asDeletes recordsToDelete @ concat (map (subtreeDeletes lib (lm y)) keysToDelete)) of
             (out, Inl e) \<Rightarrow> Inr (update_failure r (UpstreamFailed e), y\<lparr>sent := sent y @ out\<rparr>)
           | (out, Inr _) \<Rightarrow>
               (case remove_each lib owner recordsToDelete (lm y) of
                  Inl e \<Rightarrow> Inl (StorePanic owner e)
                | Inr s' \<Rightarrow>
                    (case delete_keys lib keysToDelete (y\<lparr>lm := s', sent := sent y @ out\<rparr>) of
                       Inl x \<Rightarrow> Inl x
                     | Inr y' \<Rightarrow> Inr (success, y')))))"

subsection \<open>Handle\<close>

definition set_key_ttl :: "UpdateHandler \<Rightarrow> u32 \<Rightarrow> key \<Rightarrow> key" where
  "set_key_ttl h keyLease k = k\<lparr>key_ttl := min (recordTTL h) keyLease\<rparr>"

definition set_rr_ttl :: "UpdateHandler \<Rightarrow> u32 \<Rightarrow> rr \<Rightarrow> rr" where
  "set_rr_ttl h lease r = r\<lparr>rr_ttl := min (recordTTL h) lease\<rparr>"

text \<open>From the question to the grouping of the records, once the lease option is found.\<close>

definition checkRequest ::
  "dnslib \<Rightarrow> (msg \<Rightarrow> key \<Rightarrow> bool) \<Rightarrow> UpdateHandler \<Rightarrow> coordinator \<Rightarrow> clock \<Rightarrow> store \<Rightarrow> msg \<Rightarrow> update_error + request"
where
  "checkRequest lib verify h co t s r =
     (case msg_Question r of
        [question] \<Rightarrow>
          (case parseLease (leasePolicy h) (prefer4ByteVariant h) r of
             Inl e \<Rightarrow> Inl (BadLease e)
           | Inr (lease0, keyLease0) \<Rightarrow>
               (case clamp (leasePolicy h) lease0 keyLease0 of
                  (lease, keyLease) \<Rightarrow>
                    (case extractUpdateRecords (blacklistedTypes h) (msg_Ns r) of
                       Inl e \<Rightarrow> Inl e
                     | Inr (keys0, others0) \<Rightarrow>
                         (case extractAdditionalSigningKeys (msg_Extra r) of
                            Inl e \<Rightarrow> Inl e
                          | Inr additional \<Rightarrow>
                              (case extractAndValidateSig0 lib verify co (verified t) s r (rr_name question) additional keys0 of
                                 Inl e \<Rightarrow> Inl (Sig0Failed e)
                               | Inr (sg, k, source) \<Rightarrow>
                                   let keys = map (set_key_ttl h keyLease) keys0;
                                       others = map (set_rr_ttl h lease) others0
                                   in
                                   (case validateSignerHierarchyForUpdateRecords (SignerName sg) keys others of
                                      Some e \<Rightarrow> Inl e
                                    | None \<Rightarrow>
                                        (case groupOtherRecordsByTargetKey lib (keyIDFromSIG sg) keys others False of
                                           Inl e \<Rightarrow> Inl e
                                         | Inr groups \<Rightarrow>
                                             Inr \<lparr>req_zone = rr_name question, req_lease = lease,
                                               req_keyLease = keyLease, req_keys = keys, req_others = others,
                                               req_groups = groups, req_sig = sg, req_signerKey = k,
                                               req_source = source\<rparr>)))))))
      | _ \<Rightarrow> Inl QuestionCount)"

definition requestLockSet :: "dnslib \<Rightarrow> request \<Rightarrow> store \<Rightarrow> string list" where
  "requestLockSet lib q s =
     (let deleting = (req_lease q = 0 \<and> req_keyLease q = 0) in
      (if \<not> deleting then [kid_node (signer_id q)] else []) @
      concat (map (\<lambda>k. NodeKey lib k # (if deleting then ListSubtreeKeys s (NodeKey lib k) else [])) (req_keys q)) @
      map (RecordKey lib) (req_others q))"

text \<open>The case dispatch, under the locks.\<close>

definition handleLocked ::
  "dnslib \<Rightarrow> UpdateHandler \<Rightarrow> coordinator \<Rightarrow> clock \<Rightarrow> msg \<Rightarrow> request \<Rightarrow> proxy \<Rightarrow> panic + (HandlerResult \<times> proxy)"
where
  "handleLocked lib h co t r q y =
     (if req_keyLease q = 0 \<and> req_lease q = 0 then handleC lib h co t r q y
      else
        case (if req_keyLease q \<noteq> 0 \<and> req_lease q \<noteq> 0 then planA lib h co t (lm y) q
              else if req_keyLease q = 0 then planB lib h co t (lm y) q
              else planD lib h co t (lm y) q) of
          Inl e \<Rightarrow> Inr (update_failure r e, y)
        | Inr p \<Rightarrow> forwardAndApply lib h co t r q p y)"

text \<open>
  \<open>y0\<close> is the state when the request is checked, \<open>y\<close> the state at the attempt that ends the wait
  for the locks: other requests may have run in between. An attempt that still finds a lock busy
  is one the context's end cut short.
\<close>

definition Handle ::
  "dnslib \<Rightarrow> (msg \<Rightarrow> key \<Rightarrow> bool) \<Rightarrow> UpdateHandler \<Rightarrow> coordinator \<Rightarrow> clock \<Rightarrow> msg option \<Rightarrow> proxy \<Rightarrow> proxy \<Rightarrow>
   panic + (HandlerResult \<times> proxy)"
where
  "Handle lib verify h co t m y0 y =
     (case m of
        None \<Rightarrow> Inr (NewErrorResult None, y)
      | Some r \<Rightarrow>
          if \<not> hasUpdateLeaseOption r then Inr (NewNotRelevantResult, y)
          else if \<not> requireUpstream co then Inl MissingUpstream
          else (case refuseDottedLabels r of
            Some res \<Rightarrow> Inr (res, y)
          | None \<Rightarrow>
              (case checkRequest lib verify h co t (lm y0) r of
                 Inl e \<Rightarrow> Inr (update_failure r e, y)
               | Inr q \<Rightarrow>
                   (case TryAcquire (requestLockSet lib q (lm y)) (locks y) of
                      (_, Inl _) \<Rightarrow> Inr (update_failure r LocksBusy, y)
                    | (n, Inr st) \<Rightarrow>
                        (case handleLocked lib h co t r q (y\<lparr>locks := n\<rparr>) of
                           Inl x \<Rightarrow> Inl x
                         | Inr (res, y') \<Rightarrow>
                             (case Release st (locks y') of
                                Inl _ \<Rightarrow> Inl ReleasePanic
                              | Inr (n', _) \<Rightarrow> Inr (res, y'\<lparr>locks := n'\<rparr>)))))))"

end
