(* ===== verification/Update_Plan.thy ===== *)
theory Update_Plan
  imports Update_Handler Expiry_Properties
begin

text \<open>
  What the RFC 9664 handler's plans can do. A plan only ever contains steps that the request's
  signer is entitled to (\<open>allowed\<close>), and running allowed steps changes the forest only in the
  ways \<open>change_ok\<close> describes; a deletion takes only what the signer owns. The theorems about
  \<open>Handle\<close> rest on these facts.
\<close>

subsection \<open>What a plan may do\<close>

text \<open>
  The signer as a parent: \<open>keyIDFromSIG\<close> and \<open>NodeKeyFromSIG\<close> both normalise the name, so it is
  the signer's own node unless the name ends in two dots, which no name from the wire does.
\<close>

definition signer_parent :: "request \<Rightarrow> string" where
  "signer_parent q = kid_node (signer_id q)"

lemma signer_parent_node:
  "Normalize (Normalize (SignerName (req_sig q))) = Normalize (SignerName (req_sig q)) \<Longrightarrow> signer_parent q = signer_node q"
  unfolding signer_parent_def kid_node_def signer_node_def signer_id_def keyIDFromSIG_def keyID.simps
  by (rule NodeKeyFromSIG_cong)

definition data_owner :: "dnslib \<Rightarrow> request \<Rightarrow> string" where
  "data_owner lib q = (if req_keyLease q = 0 then NodeKey lib (req_signerKey q) else signer_node q)"

definition authorized :: "dnslib \<Rightarrow> UpdateHandler \<Rightarrow> clock \<Rightarrow> store \<Rightarrow> request \<Rightarrow> bool" where
  "authorized lib h t s q \<longleftrightarrow>
     signerAuthorizedForNewRegistration h (signer_managed t s q) (signer_in_update lib q) (req_source q)"

text \<open>
  \<open>U\<close>, \<open>A\<close> and \<open>D\<close> are the KEYs and records the plan adds upstream and the records it deletes
  there.
\<close>

fun allowed ::
  "dnslib \<Rightarrow> UpdateHandler \<Rightarrow> clock \<Rightarrow> store \<Rightarrow> request \<Rightarrow> key set \<Rightarrow> rr set \<Rightarrow> rr set \<Rightarrow> lease_step \<Rightarrow> bool"
where
  "allowed lib h t s q U A D (Renew k l) \<longleftrightarrow>
     (k \<in> set (req_keys q) \<or> NodeKey lib k = signer_node q) \<and>
     (\<exists>r. LookupByKEY lib (checked t) s k = Some r \<and>
        (NodeKey lib k = signer_node q \<or> ParentKeyName r = signer_parent q) \<and>
        (l = req_keyLease q \<or> l = remaining_lease (measured t) r))"
| "allowed lib h t s q U A D (RegisterKey k l) \<longleftrightarrow>
     k \<in> set (req_keys q) \<and> k \<in> U \<and> LookupByKEY lib (checked t) s k = None \<and>
     l = req_keyLease q \<and> authorized lib h t s q"
| "allowed lib h t s q U A D (Upsert owner rs) \<longleftrightarrow>
     rs = [] \<or> (owner = data_owner lib q \<and> set rs \<subseteq> set (req_others q) \<and> set rs \<subseteq> A)"
| "allowed lib h t s q U A D (RemoveRecords owner rs) \<longleftrightarrow>
     rs = [] \<or> (owner = data_owner lib q \<and> set rs \<subseteq> set (req_others q) \<and> set rs \<subseteq> D \<and>
       (\<forall>r \<in> set rs. held_by lib s owner r))"
| "allowed lib h t s q U A D (Schedule n) \<longleftrightarrow> True"

definition allowed_plan :: "dnslib \<Rightarrow> UpdateHandler \<Rightarrow> clock \<Rightarrow> store \<Rightarrow> request \<Rightarrow> plan \<Rightarrow> bool" where
  "allowed_plan lib h t s q p \<longleftrightarrow>
     (\<forall>m \<in> set (pendingMutations p). \<forall>x \<in> set (snd m).
        allowed lib h t s q (set (upstreamKeys p)) (set (acceptedRecords p)) (set (recordsToDelete p)) x)"

lemma allowed_mono:
  "allowed lib h t s q U A D x \<Longrightarrow> U \<subseteq> U' \<Longrightarrow> A \<subseteq> A' \<Longrightarrow> D \<subseteq> D' \<Longrightarrow> allowed lib h t s q U' A' D' x"
  by (cases x) auto

lemma plan_add_sel [simp]:
  "upstreamKeys (plan_add p q) = upstreamKeys p @ upstreamKeys q"
  "acceptedRecords (plan_add p q) = acceptedRecords p @ acceptedRecords q"
  "recordsToDelete (plan_add p q) = recordsToDelete p @ recordsToDelete q"
  "pendingMutations (plan_add p q) = pendingMutations p @ pendingMutations q"
  by (simp_all add: plan_add_def)

lemma empty_plan_sel [simp]:
  "upstreamKeys empty_plan = []" "acceptedRecords empty_plan = []" "recordsToDelete empty_plan = []"
  "pendingMutations empty_plan = []"
  by (simp_all add: empty_plan_def)

lemma allowed_plan_empty [simp]: "allowed_plan lib h t s q empty_plan"
  by (simp add: allowed_plan_def)

lemma allowed_plan_add:
  "allowed_plan lib h t s q a \<Longrightarrow> allowed_plan lib h t s q b \<Longrightarrow> allowed_plan lib h t s q (plan_add a b)"
  unfolding allowed_plan_def by (auto elim!: allowed_mono ballE)

lemma plan_keys_allowed:
  "plan_keys f ks = Inr p \<Longrightarrow> (\<And>k a. k \<in> set ks \<Longrightarrow> f k = Inr a \<Longrightarrow> allowed_plan lib h t s q a) \<Longrightarrow>
     allowed_plan lib h t s q p"
  by (induction ks arbitrary: p) (auto intro: allowed_plan_add split: sum.splits)

lemma plan_keys_parts:
  "plan_keys f ks = Inr p \<Longrightarrow> k \<in> set ks \<Longrightarrow>
     \<exists>a. f k = Inr a \<and> set (acceptedRecords a) \<subseteq> set (acceptedRecords p) \<and> set (upstreamKeys a) \<subseteq> set (upstreamKeys p)"
  by (induction ks arbitrary: p) (fastforce split: sum.splits)+

subsection \<open>Identities of the signer\<close>

lemma signer_node_KEY: "keyIDFromKEY lib k = signer_id q \<Longrightarrow> NodeKey lib k = signer_node q"
  unfolding signer_node_def signer_id_def keyIDFromSIG_def keyIDFromKEY_def NodeKey_eq_SIG keyID.simps
  by (auto intro: NodeKeyFromSIG_cong)

lemma Normalize_signer_node [simp]: "Normalize (signer_node q) = signer_node q"
  by (simp add: signer_node_def)

lemma Normalize_data_owner [simp]: "Normalize (data_owner lib q) = data_owner lib q"
  by (simp add: data_owner_def)

lemma data_owner_neq_Nil [simp]: "data_owner lib q \<noteq> []" "signer_node q \<noteq> []" "signer_parent q \<noteq> []"
  by (simp_all add: data_owner_def signer_node_def signer_parent_def kid_node_def)

lemma Normalize_signer_parent [simp]: "Normalize (signer_parent q) = signer_parent q"
  by (simp add: signer_parent_def kid_node_def)

text \<open>The handler groups without the hierarchy: all data belongs to the signer.\<close>

definition signer_groups :: "request \<Rightarrow> bool" where
  "signer_groups q \<longleftrightarrow>
     (\<forall>k. group_get (req_groups q) k = (if k = signer_id q then req_others q else []))"

lemma group_no_hierarchy:
  "groupOtherRecordsByTargetKey lib sid ks rs False = Inr g \<Longrightarrow> group_get g k = (if k = sid then rs else [])"
  by (auto simp: groupOtherRecordsByTargetKey_def group_add_def group_get_def update_conv' split: list.splits)

lemma filterDuplicates_same:
  "filterDuplicateRegistrations lib co s n z rs = Inr acc \<Longrightarrow>
     acc = rs \<and> (\<forall>r \<in> set rs. case LookupNonKEYRecord lib s r of
       Some e \<Rightarrow> ParentKeyName e = n | None \<Rightarrow> authoritativeHasRR lib co z r = Some False)"
proof (induction rs arbitrary: acc)
  case (Cons r rs)
  then show ?case by (auto split: option.splits sum.splits if_splits bool.splits)
qed simp

lemma remaining_or_requested:
  "effectiveRefreshKeyLease co now z k r req = Some (l, b) \<Longrightarrow>
     (b \<and> l = req) \<or> (\<not> b \<and> l = remaining_lease now r)"
  by (auto simp: effectiveRefreshKeyLease_def split: option.splits bool.splits)

lemma authorizeKeyRefresh_None:
  "authorizeKeyRefresh lib now s k sid = None \<Longrightarrow>
     \<exists>r. LookupByKEY lib now s k = Some r \<and> keyRREqual (KeyRR r) k \<and>
       (keyIDFromKEY lib k = sid \<or> ParentKeyName r = kid_node sid)"
  by (auto simp: authorizeKeyRefresh_def split: option.splits if_splits)

subsection \<open>Every plan is allowed\<close>

lemma planA_key_allowed:
  assumes g: "signer_groups q" and kl: "req_keyLease q \<noteq> 0" and k: "k \<in> set (req_keys q)"
    and auth: "authorized lib h t s q" and p: "planA_key lib co t s q k = Inr p"
  shows "allowed_plan lib h t s q p"
proof -
  let ?sc = "group_get (req_groups q) (keyIDFromKEY lib k)"
  have own: "?sc = [] \<or> (NodeKey lib k = data_owner lib q \<and> set ?sc \<subseteq> set (req_others q))"
    using g kl signer_node_KEY [of lib k q] by (auto simp: signer_groups_def data_owner_def)
  show ?thesis
  proof (cases "LookupByKEY lib (checked t) s k")
    case None
    then show ?thesis using p k auth own
      by (auto simp: planA_key_def planA_new_def Let_def allowed_plan_def dest!: filterDuplicates_same
          split: option.splits sum.splits bool.splits)
  next
    case (Some r)
    then obtain l b where lb: "effectiveRefreshKeyLease co (measured t) (req_zone q) k r (req_keyLease q) = Some (l, b)"
      and a: "authorizeKeyRefresh lib (checked t) s k (signer_id q) = None"
      using p by (auto simp: planA_key_def planA_refresh_def Let_def split: option.splits)
    have "NodeKey lib k = signer_node q \<or> ParentKeyName r = signer_parent q"
      using authorizeKeyRefresh_None [OF a] Some signer_node_KEY [of lib k q] by (auto simp: signer_parent_def)
    then show ?thesis using Some p k own lb a remaining_or_requested [OF lb]
      by (cases b) (auto simp: planA_key_def planA_refresh_def Let_def allowed_plan_def)
  qed
qed

lemma planA_allowed:
  assumes g: "signer_groups q" and kl: "req_keyLease q \<noteq> 0" and p: "planA lib h co t s q = Inr p"
  shows "allowed_plan lib h t s q p" "acceptedRecords p \<noteq> []"
proof -
  obtain a b where ab: "plan_keys (planA_key lib co t s q) (req_keys q) = Inr a" "planA_signer lib co s q = Inr b"
      "p = plan_add a b" and auth: "authorized lib h t s q" and ne: "req_others q \<noteq> []"
    using p by (auto simp: planA_def authorized_def split: if_splits sum.splits)
  have "allowed_plan lib h t s q a"
    by (rule plan_keys_allowed [OF ab(1)]) (use planA_key_allowed [OF g kl _ auth] in blast)
  moreover have "allowed_plan lib h t s q b"
    using ab(2) g kl
    by (auto simp: planA_signer_def Let_def allowed_plan_def signer_groups_def data_owner_def
        dest!: filterDuplicates_same split: if_splits sum.splits)
  ultimately show "allowed_plan lib h t s q p" unfolding ab(3) by (rule allowed_plan_add)
  have scoped: "acceptedRecords c = group_get (req_groups q) (keyIDFromKEY lib k)"
    if "planA_key lib co t s q k = Inr c" for c k
    using that by (auto simp: planA_key_def planA_new_def planA_refresh_def Let_def dest!: filterDuplicates_same
        split: option.splits sum.splits bool.splits)
  have "acceptedRecords a \<noteq> []" if inu: "signer_in_update lib q"
  proof -
    obtain k where k: "k \<in> set (req_keys q)" "keyIDFromKEY lib k = signer_id q"
      using inu by (auto simp: signer_in_update_def list_ex_iff)
    from plan_keys_parts [OF ab(1) k(1)] scoped k(2) g ne show ?thesis by (fastforce simp: signer_groups_def)
  qed
  moreover have "acceptedRecords b \<noteq> []" if "\<not> signer_in_update lib q"
    using that ab(2) g ne by (auto simp: planA_signer_def signer_groups_def dest!: filterDuplicates_same
        split: if_splits sum.splits)
  ultimately show "acceptedRecords p \<noteq> []" unfolding ab(3) by auto
qed

lemma planB_allowed:
  assumes wf: "wf_store lib s" and kl: "req_keyLease q = 0" and p: "planB lib h co t s q = Inr p"
  shows "allowed_plan lib h t s q p" "acceptedRecords p \<noteq> []"
proof -
  obtain r where r: "LookupBySIG (checked t) s (SignerName (req_sig q)) (sig_Algorithm (req_sig q)) (sig_KeyTag (req_sig q)) = Some r"
    using p by (auto simp: planB_def split: if_splits option.splits)
  then have live: "live (checked t) (mget (leases s) (signer_node q)) = Some r"
    by (simp add: LookupBySIG_def signer_node_def)
  then have "NodeKey lib (KeyRR r) = signer_node q"
    using wf_lease_at [OF wf [unfolded wf_store_def]] by (auto simp: live_Some wf_lease_def)
  moreover from this live have "LookupByKEY lib (checked t) s (KeyRR r) = Some r" by (simp add: LookupByKEY_def)
  ultimately have "allowed_plan lib h t s q (planB_missing_key h t r)"
    by (simp add: planB_missing_key_def allowed_plan_def Let_def)
  moreover obtain p0 where p0: "p0 = empty_plan \<or> p0 = planB_missing_key h t r"
    "p = plan_add p0 (empty_plan\<lparr>acceptedRecords := req_others q,
       pendingMutations := [(NodeKey lib (req_signerKey q), [Upsert (NodeKey lib (req_signerKey q)) (req_others q),
         Schedule (NodeKey lib (req_signerKey q))])]\<rparr>)" "req_others q \<noteq> []"
    using p r by (auto simp: planB_def Let_def dest!: filterDuplicates_same split: if_splits option.splits sum.splits)
  ultimately show "allowed_plan lib h t s q p"
    unfolding p0(2) using kl by (intro allowed_plan_add) (auto simp: allowed_plan_def data_owner_def)
  show "acceptedRecords p \<noteq> []" using p0 by simp
qed

lemma planD_key_allowed:
  assumes g: "signer_groups q" and kl: "req_keyLease q \<noteq> 0" and k: "k \<in> set (req_keys q)"
    and p: "planD_key lib h co t s q k = Inr p"
  shows "allowed_plan lib h t s q p" "upstreamKeys p = [k]"
proof -
  let ?sc = "group_get (req_groups q) (keyIDFromKEY lib k)"
  let ?gone = "filter (held_by lib s (NodeKey lib k)) ?sc"
  have own: "?gone = [] \<or> (NodeKey lib k = data_owner lib q \<and> set ?gone \<subseteq> set (req_others q))"
    using g kl signer_node_KEY [of lib k q] by (auto simp: signer_groups_def data_owner_def)
  obtain x n where x: "p = empty_plan\<lparr>upstreamKeys := [k], recordsToDelete := ?gone,
      pendingMutations := [(key_name k, [x, RemoveRecords (NodeKey lib k) ?gone, Schedule (NodeKey lib k)])], allNotes := n\<rparr>"
    "allowed lib h t s q {k} {} {} x"
  proof (cases "LookupByKEY lib (checked t) s k")
    case None
    with p k show ?thesis by (auto simp: planD_key_def Let_def authorized_def intro!: that split: option.splits bool.splits if_splits)
  next
    case (Some r)
    then obtain l b where lb: "effectiveRefreshKeyLease co (measured t) (req_zone q) k r (req_keyLease q) = Some (l, b)"
      and a: "authorizeKeyRefresh lib (checked t) s k (signer_id q) = None"
      using p by (auto simp: planD_key_def Let_def split: option.splits)
    have "NodeKey lib k = signer_node q \<or> ParentKeyName r = signer_parent q"
      using authorizeKeyRefresh_None [OF a] Some signer_node_KEY [of lib k q] by (auto simp: signer_parent_def)
    with Some lb a p k remaining_or_requested [OF lb] show ?thesis
      by (intro that [of _ "Renew k l"]) (auto simp: planD_key_def Let_def)
  qed
  show "upstreamKeys p = [k]" by (simp add: x(1))
  from x(2) have "allowed lib h t s q {k} {} (set ?gone) x" by (rule allowed_mono) auto
  with own show "allowed_plan lib h t s q p" by (auto simp: x(1) allowed_plan_def)
qed

lemma planD_allowed:
  assumes g: "signer_groups q" and kl: "req_keyLease q \<noteq> 0" and p: "planD lib h co t s q = Inr p"
  shows "allowed_plan lib h t s q p" "upstreamKeys p \<noteq> []"
proof -
  have pk: "plan_keys (planD_key lib h co t s q) (req_keys q) = Inr p" and ne: "req_keys q \<noteq> []"
    using p by (auto simp: planD_def split: if_splits)
  show "allowed_plan lib h t s q p"
    by (rule plan_keys_allowed [OF pk]) (use planD_key_allowed(1) [OF g kl] in blast)
  from ne obtain k where k: "k \<in> set (req_keys q)" by (cases "req_keys q") auto
  from plan_keys_parts [OF pk k] planD_key_allowed(2) [OF g kl k] show "upstreamKeys p \<noteq> []" by fastforce
qed

subsection \<open>How the forest may change\<close>

text \<open>
  A node of the request's store against the same node afterwards: unchanged; a record of the
  data's owner deleted; a record added or refreshed under that owner, which held it before if
  anybody did; a live KEY renewed under the parent it has; or a KEY registered under the signer,
  in the place of nothing or of an expired KEY.
\<close>

definition renewed_ok :: "dnslib \<Rightarrow> clock \<Rightarrow> request \<Rightarrow> string \<Rightarrow> Record \<Rightarrow> Record \<Rightarrow> bool" where
  "renewed_ok lib t q i r0 r \<longleftrightarrow>
     \<not> IsExpired (checked t) r0 \<and> ParentKeyName r = ParentKeyName r0 \<and>
     (i = signer_node q \<or> ParentKeyName r0 = signer_parent q) \<and>
     (i = signer_node q \<or> (\<exists>k \<in> set (req_keys q). NodeKey lib k = i)) \<and>
     (\<exists>l. ExpiresAt r = applied t + seconds l \<and> (l = req_keyLease q \<or> l = remaining_lease (measured t) r0))"

definition registered_ok :: "dnslib \<Rightarrow> UpdateHandler \<Rightarrow> clock \<Rightarrow> store \<Rightarrow> request \<Rightarrow> key set \<Rightarrow> string \<Rightarrow> Record \<Rightarrow> bool" where
  "registered_ok lib h t s q U i r \<longleftrightarrow>
     KeyRR r \<in> set (req_keys q) \<and> KeyRR r \<in> U \<and> NodeKey lib (KeyRR r) = i \<and> authorized lib h t s q \<and>
     ParentKeyName r = (if i = signer_parent q then [] else signer_parent q) \<and>
     ExpiresAt r = applied t + seconds (req_keyLease q)"

definition change_ok ::
  "dnslib \<Rightarrow> UpdateHandler \<Rightarrow> clock \<Rightarrow> store \<Rightarrow> request \<Rightarrow> key set \<Rightarrow> rr set \<Rightarrow> rr set \<Rightarrow>
   string \<Rightarrow> node option \<Rightarrow> node option \<Rightarrow> bool"
where
  "change_ok lib h t s q U A D i old new \<longleftrightarrow>
     old = new \<or>
     (case new of
        None \<Rightarrow> (\<exists>e. old = Some (DataNode e) \<and> ParentKeyName e = data_owner lib q) \<and>
          (\<exists>r \<in> D \<inter> set (req_others q). RecordKey lib r = i)
      | Some (DataNode e) \<Rightarrow>
          RR e \<in> A \<inter> set (req_others q) \<and> RecordKey lib (RR e) = i \<and> ParentKeyName e = data_owner lib q \<and>
          ExpiresAt e = applied t + seconds (req_lease q) \<and>
          (\<forall>v. old = Some v \<longrightarrow> (\<exists>e0. v = DataNode e0 \<and> ParentKeyName e0 = data_owner lib q))
      | Some (KeyNode r) \<Rightarrow>
          (case old of
             Some (KeyNode r0) \<Rightarrow> renewed_ok lib t q i r0 r \<or>
               (IsExpired (checked t) r0 \<and> registered_ok lib h t s q U i r)
           | Some (DataNode e) \<Rightarrow> False
           | None \<Rightarrow> registered_ok lib h t s q U i r))"

definition changes_ok ::
  "dnslib \<Rightarrow> UpdateHandler \<Rightarrow> clock \<Rightarrow> store \<Rightarrow> request \<Rightarrow> key set \<Rightarrow> rr set \<Rightarrow> rr set \<Rightarrow> store \<Rightarrow> bool"
where
  "changes_ok lib h t s q U A D s' \<longleftrightarrow>
     wf_store lib s' \<and> (\<forall>i. change_ok lib h t s q U A D i (abs_store s i) (abs_store s' i))"

lemma changes_ok_refl: "wf_store lib s \<Longrightarrow> changes_ok lib h t s q U A D s"
  by (simp add: changes_ok_def change_ok_def)

lemma changes_okI:
  assumes "changes_ok lib h t s q U A D s'" "store_step lib s' s''" "plain_text lib"
    and "\<And>i. abs_store s'' i = abs_store s' i \<or> change_ok lib h t s q U A D i (abs_store s i) (abs_store s'' i)"
  shows "changes_ok lib h t s q U A D s''"
  using assms store_step_wf [OF assms(3) _ assms(2)] unfolding changes_ok_def by metis

lemma LookupByKEY_abs:
  assumes wf: "wf_store lib s" and lib: "plain_text lib"
  shows "LookupByKEY lib now s k = Some r \<longleftrightarrow> abs_store s (NodeKey lib k) = Some (KeyNode r) \<and> \<not> IsExpired now r"
    and "LookupByKEY lib now s k = None \<Longrightarrow> abs_store s (NodeKey lib k) = Some v \<Longrightarrow>
      \<exists>r. v = KeyNode r \<and> IsExpired now r"
  using NodeKey_not_record [OF wf [unfolded wf_store_def] lib, of k]
  by (auto simp: LookupByKEY_def abs_store_Key abs_store_def live_def split: option.splits if_splits)

lemma renew_changes:
  assumes wf: "wf_store lib s" and lib: "plain_text lib" and ch: "changes_ok lib h t s q U A D s'"
    and al: "allowed lib h t s q U A D (Renew k l)"
    and r: "RenewLease lib (applied t) (Some k) l l s' = (s'', e)"
  shows "changes_ok lib h t s q U A D s''"
proof (cases e)
  case (Some x)
  then show ?thesis using RenewLease_error [of lib "applied t" "Some k" l l s' s'' x] r ch by simp
next
  case None
  let ?i = "NodeKey lib k"
  obtain r0 where r0: "abs_store s ?i = Some (KeyNode r0)" "\<not> IsExpired (checked t) r0"
    "?i = signer_node q \<or> ParentKeyName r0 = signer_parent q" "k \<in> set (req_keys q) \<or> ?i = signer_node q"
    "l = req_keyLease q \<or> l = remaining_lease (measured t) r0"
    using al LookupByKEY_abs(1) [OF wf lib] by auto
  obtain r1 where r1: "mget (leases s') ?i = Some r1"
    "abs_store s'' = (abs_store s')(?i \<mapsto> KeyNode (renewed (applied t) k l l r1))"
    using RenewLease_abs [OF r [unfolded None]] by blast
  have "ParentKeyName r1 = ParentKeyName r0"
    using ch r0(1,2) r1(1) abs_store_Key [of s' ?i r1]
    by (auto simp: changes_ok_def change_ok_def renewed_ok_def dest!: spec [of _ ?i])
  with r0 have "renewed_ok lib t q ?i r0 (renewed (applied t) k l l r1)"
    by (auto simp: renewed_ok_def renewed_def)
  then have "change_ok lib h t s q U A D ?i (abs_store s ?i) (abs_store s'' ?i)"
    by (simp add: change_ok_def r0(1) r1(2))
  then show ?thesis
    by (intro changes_okI [OF ch step_renew [OF r] lib]) (auto simp: r1(2))
qed

lemma Normalize_Nil: "Normalize [] = []"
  by code_simp

lemma reg_parent_signer: "reg_parent lib (if signer_parent q \<noteq> NodeKey lib k then signer_parent q else []) k =
    (if NodeKey lib k = signer_parent q then [] else signer_parent q)"
  by (auto simp: reg_parent_def Normalize_Nil)

lemma register_changes:
  assumes wf: "wf_store lib s" and lib: "plain_text lib" and ch: "changes_ok lib h t s q U A D s'"
    and al: "allowed lib h t s q U A D (RegisterKey k l)"
    and r: "registerKeyLease lib h (applied t) (signer_id q) k l l s' = (s'', e)"
  shows "changes_ok lib h t s q U A D s''"
proof -
  let ?i = "NodeKey lib k" and ?pa = "if signer_parent q \<noteq> NodeKey lib k then signer_parent q else []"
  have r': "RegisterWithParent lib (applied t) ?pa (Some k) l l (upstreamZone h) s' = (s'', e)"
    using r unfolding registerKeyLease_def signer_parent_def Let_def .
  show ?thesis
  proof (cases e)
    case (Some x)
    then show ?thesis using RegisterWithParent_error r' ch by metis
  next
    case None
    note abs = RegisterWithParent_abs [OF r' [unfolded None]]
    have "registered_ok lib h t s q U ?i (reg_record lib (applied t) ?pa k l l (upstreamZone h))"
      using al reg_parent_signer [of lib q k] by (simp add: registered_ok_def reg_record_def)
    moreover have "abs_store s ?i = None \<or> (\<exists>r0. abs_store s ?i = Some (KeyNode r0) \<and> IsExpired (checked t) r0)"
      using al LookupByKEY_abs(2) [OF wf lib, of "checked t" k] by (cases "abs_store s ?i") auto
    ultimately have "change_ok lib h t s q U A D ?i (abs_store s ?i) (abs_store s'' ?i)"
      by (auto simp: change_ok_def abs)
    then show ?thesis by (intro changes_okI [OF ch step_register [OF r'] lib]) (auto simp: abs)
  qed
qed

lemma forest_upsert_at:
  "forest_upsert lib now ow l z rs F i = F i \<or>
     (\<exists>r \<in> set rs. RecordKey lib r = i \<and>
        forest_upsert lib now ow l z rs F i = Some (DataNode (upsert_record now ow l z i r)))"
proof (induction rs arbitrary: F)
  case (Cons r rs)
  let ?F = "F(RecordKey lib r \<mapsto> DataNode (upsert_record now ow l z (RecordKey lib r) r))"
  have step: "forest_upsert lib now ow l z (r # rs) F = forest_upsert lib now ow l z rs ?F"
    by (simp add: forest_upsert_def)
  consider "forest_upsert lib now ow l z rs ?F i = ?F i"
    | x where "x \<in> set rs" "RecordKey lib x = i"
      "forest_upsert lib now ow l z rs ?F i = Some (DataNode (upsert_record now ow l z i x))"
    using Cons.IH [of ?F] by metis
  then show ?case
  proof cases
    case 1
    then show ?thesis unfolding step by (cases "i = RecordKey lib r") simp_all
  next
    case 2
    then show ?thesis unfolding step by (intro disjI2 bexI [of _ x]) simp_all
  qed
qed (simp add: forest_upsert_def)

text \<open>Where the owner's data goes now, nobody else's was before.\<close>

lemma changed_owner:
  assumes "changes_ok lib h t s q U A D s'" "abs_store s' i = None \<or> (\<exists>e. abs_store s' i = Some (DataNode e) \<and> ParentKeyName e = data_owner lib q)"
  shows "abs_store s i = Some v \<Longrightarrow> \<exists>e0. v = DataNode e0 \<and> ParentKeyName e0 = data_owner lib q"
  using assms by (auto simp: changes_ok_def change_ok_def dest!: spec [of _ i])

lemma upsert_changes:
  assumes lib: "plain_text lib" and ch: "changes_ok lib h t s q U A D s'"
    and al: "allowed lib h t s q U A D (Upsert ow rs)"
    and r: "UpsertNonKEYRecords lib (applied t) ow rs (req_lease q) z s' = (s'', e)"
  shows "changes_ok lib h t s q U A D s''"
proof (cases e)
  case (Some x)
  then show ?thesis using UpsertNonKEYRecords_error r ch by metis
next
  case None
  note ok = UpsertNonKEYRecords_ok [OF r [unfolded None]]
  have wf: "wf_store lib s'" using ch by (simp add: changes_ok_def)
  note abs = UpsertNonKEYRecords_abs [OF wf lib r [unfolded None]]
  show ?thesis
  proof (rule changes_okI [OF ch step_upsert [OF r] lib])
    fix i
    consider "abs_store s'' i = abs_store s' i"
      | x where "x \<in> set rs" "RecordKey lib x = i"
        "abs_store s'' i = Some (DataNode (upsert_record (applied t) (Normalize ow) (req_lease q) (Normalize z) i x))"
      unfolding abs using forest_upsert_at by metis
    then show "abs_store s'' i = abs_store s' i \<or> change_ok lib h t s q U A D i (abs_store s i) (abs_store s'' i)"
    proof cases
      case 2
      then have ow: "ow = data_owner lib q" and x: "x \<in> set (req_others q)" "x \<in> A" using al by auto
      have "abs_store s' i = None \<or> (\<exists>e. abs_store s' i = Some (DataNode e) \<and> ParentKeyName e = data_owner lib q)"
        using ok(2) 2(1,2) RecordKey_not_lease [OF wf [unfolded wf_store_def] lib, of x] ow
        by (auto simp: foreign_def abs_store_def split: option.splits)
      from changed_owner [OF ch this] 2 x ow show ?thesis
        by (auto simp: change_ok_def upsert_record_def)
    qed simp
  qed
qed

lemma remove_changes:
  assumes lib: "plain_text lib" and ch: "changes_ok lib h t s q U A D s'"
    and al: "allowed lib h t s q U A D (RemoveRecords ow rs)" and wf0: "wf_store lib s"
  shows "\<exists>s''. remove_each lib ow rs s' = Inr s'' \<and> changes_ok lib h t s q U A D s''"
  using ch al
proof (induction rs arbitrary: s')
  case (Cons r rs)
  let ?i = "RecordKey lib r"
  have wf: "wf_store lib s'" using Cons.prems(1) by (simp add: changes_ok_def)
  have ow: "ow = data_owner lib q" and r: "r \<in> set (req_others q)" "r \<in> D" and h: "held_by lib s ow r"
    using Cons.prems(2) by auto
  obtain e where e: "abs_store s ?i = Some (DataNode e)" "ParentKeyName e = ow"
    using h by (auto simp: held_by_def LookupNonKEYRecord_def abs_store_Data [OF wf0] split: option.splits)
  obtain s1 x where s1: "RemoveSingleNonKEYRecord ow ?i s' = (s1, x)" by fastforce
  have "x = None"
  proof (rule ccontr)
    assume "x \<noteq> None"
    then obtain e' where e': "mget (nonKeyRecords s') ?i = Some e'" "ParentKeyName e' \<noteq> ow"
      using s1 ow by (subst (asm) RemoveSingleNonKEYRecord_abs(1) [OF wf]) (auto split: option.splits if_splits)
    then have "abs_store s' ?i = Some (DataNode e')" by (simp add: abs_store_Data [OF wf])
    then show False using Cons.prems(1) e e'(2) ow by (auto simp: changes_ok_def change_ok_def dest!: spec [of _ ?i])
  qed
  then have abs: "abs_store s1 = (abs_store s') |` (- (data_of (abs_store s') ow \<inter> {?i}))"
    using ls.remove_forest [OF wf] s1 ow by simp
  have "changes_ok lib h t s q U A D s1"
  proof (rule changes_okI [OF Cons.prems(1) step_remove [OF s1] lib])
    fix i
    show "abs_store s1 i = abs_store s' i \<or> change_ok lib h t s q U A D i (abs_store s i) (abs_store s1 i)"
      using e ow r by (auto simp: abs restrict_map_def change_ok_def)
  qed
  from Cons.IH [OF this] Cons.prems(2) s1 \<open>x = None\<close> show ?case by auto
qed auto

subsection \<open>Running a plan\<close>

text \<open>What running part of a plan leaves alone, and that it does not panic.\<close>

definition runs_ok ::
  "dnslib \<Rightarrow> UpdateHandler \<Rightarrow> clock \<Rightarrow> store \<Rightarrow> request \<Rightarrow> key set \<Rightarrow> rr set \<Rightarrow> rr set \<Rightarrow> proxy \<Rightarrow>
   panic + ('e option \<times> proxy) \<Rightarrow> bool"
where
  "runs_ok lib h t s q U A D y res \<longleftrightarrow>
     (\<exists>e y'. res = Inr (e, y') \<and> changes_ok lib h t s q U A D (lm y') \<and> locks y' = locks y \<and> sent y' = sent y)"

lemma apply_step_runs:
  assumes wf: "wf_store lib s" and lib: "plain_text lib" and ch: "changes_ok lib h t s q U A D (lm y)"
    and al: "allowed lib h t s q U A D x"
  shows "runs_ok lib h t s q U A D y (apply_step lib h t q x y)"
proof (cases x)
  case (Renew k l)
  then show ?thesis using renew_changes [OF wf lib ch, of k l] al
    by (auto simp: runs_ok_def store_call_def prod_eq_iff)
next
  case (RegisterKey k l)
  then show ?thesis using register_changes [OF wf lib ch, of k l] al
    by (auto simp: runs_ok_def store_call_def prod_eq_iff)
next
  case (Upsert ow rs)
  then show ?thesis using upsert_changes [OF lib ch, of ow rs "upstreamZone h"] al
    by (auto simp: runs_ok_def store_call_def prod_eq_iff)
next
  case (RemoveRecords ow rs)
  then show ?thesis using remove_changes [OF lib ch, of ow rs] al wf by (auto simp: runs_ok_def)
next
  case (Schedule n)
  then show ?thesis using ch by (simp add: runs_ok_def set_tms_def)
qed

lemma apply_steps_runs:
  assumes wf: "wf_store lib s" and lib: "plain_text lib"
  shows "changes_ok lib h t s q U A D (lm y) \<Longrightarrow> (\<And>x. x \<in> set xs \<Longrightarrow> allowed lib h t s q U A D x) \<Longrightarrow>
    runs_ok lib h t s q U A D y (apply_steps lib h t q xs y)"
proof (induction xs arbitrary: y)
  case (Cons x xs)
  obtain e y' where 1: "apply_step lib h t q x y = Inr (e, y')" "changes_ok lib h t s q U A D (lm y')"
      "locks y' = locks y" "sent y' = sent y"
    using apply_step_runs [OF wf lib Cons.prems(1), of x] Cons.prems(2) by (auto simp: runs_ok_def)
  from Cons.IH [OF 1(2)] Cons.prems(2) 1 show ?case by (cases e) (auto simp: runs_ok_def)
qed (simp add: runs_ok_def)

lemma apply_mutations_runs:
  assumes wf: "wf_store lib s" and lib: "plain_text lib"
  shows "changes_ok lib h t s q U A D (lm y) \<Longrightarrow>
    (\<And>m x. m \<in> set ms \<Longrightarrow> x \<in> set (snd m) \<Longrightarrow> allowed lib h t s q U A D x) \<Longrightarrow>
    runs_ok lib h t s q U A D y (apply_mutations lib h t q ms y)"
proof (induction ms arbitrary: y)
  case (Cons m ms)
  obtain e y' where 1: "apply_steps lib h t q (snd m) y = Inr (e, y')" "changes_ok lib h t s q U A D (lm y')"
      "locks y' = locks y" "sent y' = sent y"
    using apply_steps_runs [OF wf lib Cons.prems(1), of "snd m"] Cons.prems(2) [of m] by (auto simp: runs_ok_def)
  have "runs_ok lib h t s q U A D y' (apply_mutations lib h t q ms y')"
    by (rule Cons.IH [OF 1(2)]) (use Cons.prems(2) in auto)
  with 1 show ?case by (cases m; cases e) (auto simp: runs_ok_def)
qed (simp add: runs_ok_def)

text \<open>Forwarding a plan: refused upstream with nothing changed, or confirmed and then applied.\<close>

lemma forwardAndApply_cases:
  assumes wf: "wf_store lib (lm y)" and lib: "plain_text lib" and al: "allowed_plan lib h t (lm y) q p"
    and ne: "upstreamKeys p \<noteq> [] \<or> acceptedRecords p \<noteq> []"
  obtains (failed) e out where "forwardAndApply lib h co t r q p y = Inr (update_failure r e, y\<lparr>sent := sent y @ out\<rparr>)"
  | (confirmed) res y' out where "forwardAndApply lib h co t r q p y = Inr (res, y')"
      "accepted lib co (upstreamZone h) (upstreamUpdateRecords (upstreamKeys p) (acceptedRecords p) (recordsToDelete p)) out"
      "sent y' = sent y @ out" "locks y' = locks y"
      "changes_ok lib h t (lm y) q (set (upstreamKeys p)) (set (acceptedRecords p)) (set (recordsToDelete p)) (lm y')"
      "Status res = StatusProcessed \<Longrightarrow> Message res =
         Some (buildSuccessResponse lib r (allNotes p) (req_lease q) (req_keyLease q))"
proof -
  let ?rs = "upstreamUpdateRecords (upstreamKeys p) (acceptedRecords p) (recordsToDelete p)"
  obtain out v where v: "upstream_send lib co (upstreamZone h) [] ?rs = (out, v)" by fastforce
  show thesis
  proof (cases v)
    case (Inl e)
    then show ?thesis using v ne by (intro failed [of "UpstreamFailed e" out]) (auto simp: forwardAndApply_def)
  next
    case (Inr resp)
    let ?y = "y\<lparr>sent := sent y @ out\<rparr>"
    have acc: "accepted lib co (upstreamZone h) ?rs out" using v Inr upstream_send_accepted by simp
    have "changes_ok lib h t (lm y) q (set (upstreamKeys p)) (set (acceptedRecords p)) (set (recordsToDelete p)) (lm ?y)"
      using wf by (simp add: changes_ok_refl)
    from apply_mutations_runs [OF wf lib this, of "pendingMutations p"] al
    obtain e y' where y': "apply_mutations lib h t q (pendingMutations p) ?y = Inr (e, y')"
      "changes_ok lib h t (lm y) q (set (upstreamKeys p)) (set (acceptedRecords p)) (set (recordsToDelete p)) (lm y')"
      "locks y' = locks y" "sent y' = sent y @ out"
      by (auto simp: runs_ok_def allowed_plan_def)
    show ?thesis
    proof (cases e)
      case None
      then have "forwardAndApply lib h co t r q p y =
          Inr (NewProcessedResult (buildSuccessResponse lib r (allNotes p) (req_lease q) (req_keyLease q)), y')"
        using y'(1) v Inr ne by (auto simp: forwardAndApply_def)
      from confirmed [OF this acc y'(4,3,2)] show ?thesis by (simp add: NewProcessedResult_def)
    next
      case (Some x)
      then have "forwardAndApply lib h co t r q p y = Inr (update_failure r x, y')"
        using y'(1) v Inr ne by (auto simp: forwardAndApply_def)
      from confirmed [OF this acc y'(4,3,2)] show ?thesis by (simp add: update_failure_def NewErrorResult_def)
    qed
  qed
qed

subsection \<open>Deleting\<close>

lemma remove_each_held:
  assumes "wf_store lib s" and "\<And>r. r \<in> set rs \<Longrightarrow>
      abs_store s (RecordKey lib r) = None \<or> (\<exists>e. abs_store s (RecordKey lib r) = Some (DataNode e) \<and> ParentKeyName e = Normalize ow)"
  shows "\<exists>s'. remove_each lib ow rs s = Inr s' \<and> wf_store lib s' \<and> abs_store s' = (abs_store s) |` (- (RecordKey lib ` set rs))"
  using assms
proof (induction rs arbitrary: s)
  case (Cons r rs)
  let ?i = "RecordKey lib r"
  obtain u e where u: "RemoveSingleNonKEYRecord ow ?i s = (u, e)" by fastforce
  have "e = None" using Cons.prems(2) [of r] u
    by (subst (asm) RemoveSingleNonKEYRecord_abs(1) [OF Cons.prems(1)])
      (auto simp: abs_store_Data [OF Cons.prems(1)] abs_store_None split: option.splits if_splits)
  then have wu: "wf_store lib u"
    and a: "abs_store u = (abs_store s) |` (- (data_of (abs_store s) (Normalize ow) \<inter> {?i}))"
    using u ls.remove_forest [OF Cons.prems(1)] ls.ok_remove [OF Cons.prems(1)] by auto
  then have au: "abs_store u = (abs_store s)(?i := None)"
    using Cons.prems(2) [of r] by (auto simp: fun_eq_iff restrict_map_def data_of_def)
  have "\<exists>s'. remove_each lib ow rs u = Inr s' \<and> wf_store lib s' \<and> abs_store s' = (abs_store u) |` (- (RecordKey lib ` set rs))"
    by (rule Cons.IH [OF wu]) (use Cons.prems(2) in \<open>auto simp: au\<close>)
  then show ?case using u \<open>e = None\<close> by (auto simp: au restrict_map_def fun_eq_iff)
qed (simp add: restrict_map_def)

lemma descendants_restrict: "descendants (F |` B) n \<subseteq> descendants F n"
  unfolding descendants_def
  by (intro Image_mono rtrancl_mono) (auto simp: forest_edges_def restrict_map_def split: if_splits)

lemma delete_keys_spec:
  assumes "wf_store lib (lm y)"
  shows "\<exists>y' G. delete_keys lib ks y = Inr y' \<and> wf_store lib (lm y') \<and> locks y' = locks y \<and> sent y' = sent y \<and>
    abs_store (lm y') = (abs_store (lm y)) |` (- G) \<and>
    G \<subseteq> (\<Union>k \<in> set ks. descendants (abs_store (lm y)) (NodeKey lib k)) \<and> (\<forall>k \<in> set ks. NodeKey lib k \<in> G)"
  using assms
proof (induction ks arbitrary: y)
  case (Cons k ks)
  let ?n = "NodeKey lib k"
  obtain u e where u: "DeleteSubtree ?n (lm y) = (u, e)" by fastforce
  then have e: "e = None" using ls.delete_error [of ?n "lm y" u] by (cases e) auto
  have wu: "wf_store lib u" using ls.ok_delete [OF Cons.prems u] .
  have au: "abs_store u = (abs_store (lm y)) |` (- descendants (abs_store (lm y)) ?n)"
    using ls.delete_forest [OF Cons.prems] u e by (simp add: forest_delete_def)
  let ?t = "fold disarm (?n # ListSubtreeKeys (lm y) ?n) (tms y)"
  obtain y' G where y': "delete_keys lib ks (y\<lparr>lm := u, tms := ?t\<rparr>) = Inr y'" "wf_store lib (lm y')"
      "locks y' = locks y" "sent y' = sent y" "abs_store (lm y') = (abs_store u) |` (- G)"
      "G \<subseteq> (\<Union>k \<in> set ks. descendants (abs_store u) (NodeKey lib k))" "\<forall>k \<in> set ks. NodeKey lib k \<in> G"
    using Cons.IH [of "y\<lparr>lm := u, tms := ?t\<rparr>"] wu by auto
  have "?n \<in> descendants (abs_store (lm y)) ?n" by (simp add: descendants_def)
  moreover have "G \<subseteq> (\<Union>k \<in> set ks. descendants (abs_store (lm y)) (NodeKey lib k))"
    using y'(6) descendants_restrict [of "abs_store (lm y)" "- descendants (abs_store (lm y)) ?n"] unfolding au by blast
  moreover have "abs_store (lm y') = (abs_store (lm y)) |` (- (descendants (abs_store (lm y)) ?n \<union> G))"
    unfolding y'(5) au by (auto simp: restrict_map_def fun_eq_iff)
  ultimately show ?case using u e y'(1-4,7)
    by (intro exI [of _ y'] exI [of _ "descendants (abs_store (lm y)) ?n \<union> G"]) auto
qed (auto simp: restrict_map_def)

lemma held_by_abs:
  "wf_store lib s \<Longrightarrow> held_by lib s ow r \<longleftrightarrow>
     (\<exists>e. abs_store s (RecordKey lib r) = Some (DataNode e) \<and> ParentKeyName e = ow)"
  by (auto simp: held_by_def LookupNonKEYRecord_def Let_def abs_store_Data split: option.splits)

text \<open>Case C: nothing, or the confirmed deletion of the signer's records and keys.\<close>

lemma handleC_cases:
  assumes wf: "wf_store lib (lm y)"
  obtains (idle) res out where "handleC lib h co t r q y = Inr (res, y\<lparr>sent := sent y @ out\<rparr>)"
      "Status res = StatusProcessed \<Longrightarrow> \<exists>notes. Message res = Some (buildSuccessResponse lib r notes (req_lease q) (req_keyLease q))"
  | (deleted) res y' out ks rs G where "handleC lib h co t r q y = Inr (res, y')"
      "ks = filter (may_delete_key lib t (lm y) q) (req_keys q)"
      "rs = filter (held_by lib (lm y) (NodeKey lib (req_signerKey q))) (req_others q)"
      "accepted lib co (upstreamZone h) (asDeletes rs @ concat (map (subtreeDeletes lib (lm y)) ks)) out"
      "sent y' = sent y @ out" "locks y' = locks y" "wf_store lib (lm y')"
      "abs_store (lm y') = (abs_store (lm y)) |` (- (RecordKey lib ` set rs \<union> G))"
      "G \<subseteq> (\<Union>k \<in> set ks. descendants (abs_store (lm y)) (NodeKey lib k))" "\<forall>k \<in> set ks. NodeKey lib k \<in> G"
      "\<exists>notes. res = NewProcessedResult (buildSuccessResponse lib r notes (req_lease q) (req_keyLease q))"
proof -
  let ?ow = "NodeKey lib (req_signerKey q)"
  let ?ks = "filter (may_delete_key lib t (lm y) q) (req_keys q)"
  let ?rs = "filter (held_by lib (lm y) ?ow) (req_others q)"
  let ?del = "asDeletes ?rs @ concat (map (subtreeDeletes lib (lm y)) ?ks)"
  show thesis
  proof (cases "?ks = [] \<and> ?rs = []")
    case True
    then have "\<exists>res. handleC lib h co t r q y = Inr (res, y\<lparr>sent := sent y @ []\<rparr>) \<and> (Status res = StatusProcessed \<longrightarrow>
        (\<exists>notes. Message res = Some (buildSuccessResponse lib r notes (req_lease q) (req_keyLease q))))"
      unfolding handleC_def Let_def update_failure_def NewErrorResult_def NewProcessedResult_def by auto
    then obtain res where "handleC lib h co t r q y = Inr (res, y\<lparr>sent := sent y @ []\<rparr>)"
      "Status res = StatusProcessed \<longrightarrow> (\<exists>notes. Message res = Some (buildSuccessResponse lib r notes (req_lease q) (req_keyLease q)))"
      by blast
    from idle [OF this(1)] this(2) show ?thesis by blast
  next
    case False
    then have ne: "\<not> (req_keys q = [] \<and> req_others q = [])" by auto
    obtain out v where v: "upstream_send lib co (upstreamZone h) [] ?del = (out, v)" by fastforce
    show ?thesis
    proof (cases v)
      case (Inl e)
      then show ?thesis using v False ne by (intro idle [of "update_failure r (UpstreamFailed e)" out])
        (auto simp: handleC_def Let_def update_failure_def NewErrorResult_def)
    next
      case (Inr resp)
      obtain u where u: "remove_each lib ?ow ?rs (lm y) = Inr u" "wf_store lib u"
          "abs_store u = (abs_store (lm y)) |` (- (RecordKey lib ` set ?rs))"
        using remove_each_held [OF wf, of ?rs ?ow] held_by_abs [OF wf] by auto
      obtain y' G where y': "delete_keys lib ?ks (y\<lparr>lm := u, sent := sent y @ out\<rparr>) = Inr y'" "wf_store lib (lm y')"
          "locks y' = locks y" "sent y' = sent y @ out" "abs_store (lm y') = (abs_store u) |` (- G)"
          "G \<subseteq> (\<Union>k \<in> set ?ks. descendants (abs_store u) (NodeKey lib k))" "\<forall>k \<in> set ?ks. NodeKey lib k \<in> G"
        using delete_keys_spec [of lib "y\<lparr>lm := u, sent := sent y @ out\<rparr>" ?ks] u(2) by auto
      have acc: "accepted lib co (upstreamZone h) ?del out" using v Inr upstream_send_accepted by simp
      have abs: "abs_store (lm y') = (abs_store (lm y)) |` (- (RecordKey lib ` set ?rs \<union> G))"
        unfolding y'(5) u(3) by (auto simp: restrict_map_def fun_eq_iff)
      have G: "G \<subseteq> (\<Union>k \<in> set ?ks. descendants (abs_store (lm y)) (NodeKey lib k))"
        using y'(6) descendants_restrict [of "abs_store (lm y)"] unfolding u(3) by blast
      have "\<exists>notes. handleC lib h co t r q y =
          Inr (NewProcessedResult (buildSuccessResponse lib r notes (req_lease q) (req_keyLease q)), y')"
        using v Inr False ne u(1) y'(1) by (auto simp: handleC_def Let_def)
      then obtain ns where "handleC lib h co t r q y =
          Inr (NewProcessedResult (buildSuccessResponse lib r ns (req_lease q) (req_keyLease q)), y')" by blast
      from deleted [OF this refl refl acc y'(4,3,2) abs G y'(7)] show ?thesis by blast
    qed
  qed
qed

subsection \<open>A request that passed the checks\<close>

definition authentic :: "dnslib \<Rightarrow> (msg \<Rightarrow> key \<Rightarrow> bool) \<Rightarrow> msg \<Rightarrow> request \<Rightarrow> bool" where
  "authentic lib verify r q \<longleftrightarrow>
     extractSig0 r = Inr (req_sig q) \<and> verify r (req_signerKey q) \<and> matches_sig lib (req_sig q) (req_signerKey q) \<and>
     IsAtOrBelow (Normalize (req_zone q)) (Normalize (SignerName (req_sig q))) \<and>
     (\<forall>k \<in> set (req_keys q). Normalize (key_name k) = Normalize (SignerName (req_sig q)) \<or>
        IsAtOrBelow (Normalize (key_name k)) (Normalize (SignerName (req_sig q)))) \<and>
     (\<forall>x \<in> set (req_others q). IsAtOrBelow (Normalize (rr_name x)) (Normalize (SignerName (req_sig q))))"

lemma verifyFromCandidates_Some:
  "verifyFromCandidates verify m ks = Inr (Some k) \<Longrightarrow> k \<in> set ks \<and> verify m k"
  by (auto simp: verifyFromCandidates_def find_Some_iff split: option.splits if_splits)

lemma extractAndValidateSig0_Inr:
  assumes "extractAndValidateSig0 lib verify co now s m zone add upd = Inr (sg, k, src)"
  shows "extractSig0 m = Inr sg" "verify m k" "matches_sig lib sg k"
    "IsAtOrBelow (Normalize zone) (Normalize (SignerName sg))" "Normalize (SignerName sg) \<noteq> []"
  using assms
  by (auto simp: extractAndValidateSig0_def Let_def split: sum.splits option.splits if_splits
      dest!: verifyFromCandidates_Some)

lemma check_key_owners_None:
  "check_key_owners signer canon ks = None \<Longrightarrow> k \<in> set ks \<Longrightarrow>
     Normalize (key_name k) = canon \<or> IsAtOrBelow (Normalize (key_name k)) canon"
  by (induction ks) (auto split: if_splits)

lemma check_record_owners_None:
  "check_record_owners signer canon rs = None \<Longrightarrow> r \<in> set rs \<Longrightarrow> IsAtOrBelow (Normalize (rr_name r)) canon"
  by (induction rs) (auto split: if_splits)

lemma checkRequest_Inr:
  assumes "checkRequest lib verify h co t s r = Inr q"
  shows "authentic lib verify r q" "signer_groups q" "\<exists>l kl. clamp (leasePolicy h) l kl = (req_lease q, req_keyLease q)"
    "\<forall>k \<in> set (req_keys q). key_ttl k \<le> recordTTL h \<and> key_ttl k \<le> req_keyLease q"
    "\<forall>x \<in> set (req_others q). rr_ttl x \<le> recordTTL h \<and> rr_ttl x \<le> req_lease q"
proof -
  obtain question l0 kl0 keys0 others0 add sg k src where
    c: "msg_Question r = [question]" "clamp (leasePolicy h) l0 kl0 = (req_lease q, req_keyLease q)"
      "extractAndValidateSig0 lib verify co (verified t) s r (rr_name question) add keys0 = Inr (sg, k, src)"
    and v: "validateSignerHierarchyForUpdateRecords (SignerName sg) (req_keys q) (req_others q) = None"
    and g: "groupOtherRecordsByTargetKey lib (keyIDFromSIG sg) (req_keys q) (req_others q) False = Inr (req_groups q)"
    and q: "req_zone q = rr_name question" "req_sig q = sg" "req_signerKey q = k"
      "req_keys q = map (set_key_ttl h (req_keyLease q)) keys0" "req_others q = map (set_rr_ttl h (req_lease q)) others0"
    using assms unfolding checkRequest_def Let_def
    by (auto split: list.splits sum.splits option.splits prod.splits)
  have own: "check_key_owners (SignerName sg) (Normalize (SignerName sg)) (req_keys q) = None"
    "check_record_owners (SignerName sg) (Normalize (SignerName sg)) (req_others q) = None"
    using v by (auto simp: validateSignerHierarchyForUpdateRecords_def Let_def split: if_splits option.splits)
  show "authentic lib verify r q"
    using extractAndValidateSig0_Inr [OF c(3)] check_key_owners_None [OF own(1)] check_record_owners_None [OF own(2)]
    by (auto simp: authentic_def q(1-3))
  show "signer_groups q" using group_no_hierarchy [OF g] by (simp add: signer_groups_def signer_id_def q(2))
  show "\<exists>l kl. clamp (leasePolicy h) l kl = (req_lease q, req_keyLease q)" using c(2) by blast
  show "\<forall>k \<in> set (req_keys q). key_ttl k \<le> recordTTL h \<and> key_ttl k \<le> req_keyLease q"
    by (subst q(4)) (simp add: set_key_ttl_def)
  show "\<forall>x \<in> set (req_others q). rr_ttl x \<le> recordTTL h \<and> rr_ttl x \<le> req_lease q"
    by (subst q(5)) (simp add: set_rr_ttl_def)
qed

end
