(* ===== verification/Update_Properties.thy ===== *)
theory Update_Properties
  imports Update_Plan
begin

text \<open>
  The properties of the RFC 9664 handler as a whole: whatever the request, the answers of the
  authoritative server and the state of the store.
\<close>

subsection \<open>The ways a request can end\<close>

lemma handleLocked_cases:
  assumes wf: "wf_store lib (lm y)" and lib: "plain_text lib" and g: "signer_groups q"
  obtains (kept) res out where "handleLocked lib h co t r q y = Inr (res, y\<lparr>sent := sent y @ out\<rparr>)"
      "Status res = StatusProcessed \<Longrightarrow> \<exists>ns. Message res = Some (buildSuccessResponse lib r ns (req_lease q) (req_keyLease q))"
  | (planned) res y' out and p :: plan where "handleLocked lib h co t r q y = Inr (res, y')"
      "req_lease q \<noteq> 0 \<or> req_keyLease q \<noteq> 0"
      "accepted lib co (upstreamZone h) (upstreamUpdateRecords (upstreamKeys p) (acceptedRecords p) (recordsToDelete p)) out"
      "sent y' = sent y @ out" "locks y' = locks y"
      "changes_ok lib h t (lm y) q (set (upstreamKeys p)) (set (acceptedRecords p)) (set (recordsToDelete p)) (lm y')"
      "Status res = StatusProcessed \<Longrightarrow> \<exists>ns. Message res = Some (buildSuccessResponse lib r ns (req_lease q) (req_keyLease q))"
  | (deleted) res y' out ks rs G where "handleLocked lib h co t r q y = Inr (res, y')"
      "req_lease q = 0" "req_keyLease q = 0"
      "ks = filter (may_delete_key lib t (lm y) q) (req_keys q)"
      "rs = filter (held_by lib (lm y) (NodeKey lib (req_signerKey q))) (req_others q)"
      "accepted lib co (upstreamZone h) (asDeletes rs @ concat (map (subtreeDeletes lib (lm y)) ks)) out"
      "sent y' = sent y @ out" "locks y' = locks y" "wf_store lib (lm y')"
      "abs_store (lm y') = (abs_store (lm y)) |` (- (RecordKey lib ` set rs \<union> G))"
      "G \<subseteq> (\<Union>k \<in> set ks. descendants (abs_store (lm y)) (NodeKey lib k))"
      "\<exists>ns. Message res = Some (buildSuccessResponse lib r ns (req_lease q) (req_keyLease q))"
proof (cases "req_keyLease q = 0 \<and> req_lease q = 0")
  case True
  then have hC: "handleLocked lib h co t r q y = handleC lib h co t r q y" by (simp add: handleLocked_def)
  from wf show thesis
  proof (cases rule: handleC_cases [where h = h and co = co and t = t and r = r and q = q])
    case (idle res out)
    then show ?thesis using kept hC by metis
  next
    case (deleted res y' out ks rs G)
    have "\<exists>ns. Message res = Some (buildSuccessResponse lib r ns (req_lease q) (req_keyLease q))"
      using deleted(11) by (auto simp: NewProcessedResult_def)
    from that(3) [OF deleted(1) [folded hC] _ _ deleted(2-9) this] True show ?thesis by blast
  qed
next
  case False
  let ?plan = "if req_keyLease q \<noteq> 0 \<and> req_lease q \<noteq> 0 then planA lib h co t (lm y) q
    else if req_keyLease q = 0 then planB lib h co t (lm y) q else planD lib h co t (lm y) q"
  have hP: "handleLocked lib h co t r q y =
      (case ?plan of Inl e \<Rightarrow> Inr (update_failure r e, y) | Inr p \<Rightarrow> forwardAndApply lib h co t r q p y)"
    unfolding handleLocked_def if_not_P [OF False] ..
  show thesis
  proof (cases ?plan)
    case (Inl e)
    then show ?thesis using hP kept [of "update_failure r e" "[]"] by (simp add: update_failure_def NewErrorResult_def)
  next
    case (Inr p)
    then have p: "allowed_plan lib h t (lm y) q p" "upstreamKeys p \<noteq> [] \<or> acceptedRecords p \<noteq> []"
      using planA_allowed [OF g, of lib h co t "lm y" p] planB_allowed [OF wf, of q h co t p]
        planD_allowed [OF g, of lib h co t "lm y" p] by (auto split: if_splits)
    from wf lib p show ?thesis
    proof (cases rule: forwardAndApply_cases [where co = co and r = r])
      case (failed e out)
      then show ?thesis using hP Inr kept [of "update_failure r e" out] by (simp add: update_failure_def NewErrorResult_def)
    next
      case (confirmed res y' out)
      then have "handleLocked lib h co t r q y = Inr (res, y')" using hP Inr by simp
      from planned [OF this _ confirmed(2-5)] confirmed(6) False show ?thesis by blast
    qed
  qed
qed

text \<open>
  The whole handler: an answer with nothing changed, or a checked request whose locks were free,
  which then ran under them. In every case the locks are as before.
\<close>

lemma Release_taken:
  assumes "TryAcquire want n = (n', Inr st)"
  shows "\<exists>n'' st'. Release st n' = Inr (n'', st') \<and> set (held n'') = set (held n)"
  using assms by (auto simp: TryAcquire_def Release_def fold_removeAll_set tryLocked_Some fold_set_insert
      split: prod.splits option.splits)

lemma Handle_cases:
  assumes wf: "wf_store lib (lm y)" and lib: "plain_text lib" and up: "requireUpstream co"
  obtains (answered) res where "Handle lib verify h co t m y0 y = Inr (res, y)" "Status res \<noteq> StatusProcessed"
  | (ran) r q n st res y' n' where "m = Some r" "checkRequest lib verify h co t (lm y0) r = Inr q"
      "TryAcquire (requestLockSet lib q (lm y)) (locks y) = (n, Inr st)"
      "handleLocked lib h co t r q (y\<lparr>locks := n\<rparr>) = Inr (res, y')"
      "Handle lib verify h co t m y0 y = Inr (res, y'\<lparr>locks := n'\<rparr>)" "set (held n') = set (held (locks y))"
proof (cases "\<exists>r q n st. m = Some r \<and> hasUpdateLeaseOption r \<and> refuseDottedLabels r = None \<and>
    checkRequest lib verify h co t (lm y0) r = Inr q \<and>
    TryAcquire (requestLockSet lib q (lm y)) (locks y) = (n, Inr st)")
  case False
  have "\<exists>res. Handle lib verify h co t m y0 y = Inr (res, y) \<and> Status res \<noteq> StatusProcessed"
  proof (cases "\<exists>r. m = Some r \<and> hasUpdateLeaseOption r")
    case False
    then show ?thesis using up
      by (cases m) (auto simp: Handle_def NewErrorResult_def NewNotRelevantResult_def)
  next
    case True
    then obtain r where r: "m = Some r" "hasUpdateLeaseOption r" by blast
    show ?thesis
    proof (cases "refuseDottedLabels r")
      case (Some res)
      then have "Status res \<noteq> StatusProcessed"
        by (auto simp: refuseDottedLabels_def NewErrorResult_def split: if_splits sum.splits option.splits)
      then show ?thesis using r up Some by (simp add: Handle_def)
    next
      case None
      then show ?thesis using r up False
        by (auto simp: Handle_def update_failure_def NewErrorResult_def split: sum.split prod.split)
    qed
  qed
  then show thesis using answered by blast
next
  case True
  then obtain r q n st where 1: "m = Some r" "hasUpdateLeaseOption r" "refuseDottedLabels r = None"
    "checkRequest lib verify h co t (lm y0) r = Inr q"
    "TryAcquire (requestLockSet lib q (lm y)) (locks y) = (n, Inr st)" by blast
  have "wf_store lib (lm (y\<lparr>locks := n\<rparr>))" using wf by simp
  from this lib checkRequest_Inr(2) [OF 1(4)]
  have "\<exists>res y'. handleLocked lib h co t r q (y\<lparr>locks := n\<rparr>) = Inr (res, y') \<and> locks y' = n"
    by (cases rule: handleLocked_cases [where h = h and co = co and t = t and r = r]) auto
  then obtain res y' where 2: "handleLocked lib h co t r q (y\<lparr>locks := n\<rparr>) = Inr (res, y')" "locks y' = n" by blast
  from Release_taken [OF 1(5)] obtain n' st' where 3: "Release st n = Inr (n', st')" "set (held n') = set (held (locks y))"
    by blast
  have "Handle lib verify h co t m y0 y = Inr (res, y'\<lparr>locks := n'\<rparr>)"
    using 1 2 3 up by (simp add: Handle_def)
  from ran [OF 1(1,4,5) 2(1) this 3(2)] show thesis .
qed

lemma Handle_result:
  assumes wf: "wf_store lib (lm y)" and lib: "plain_text lib" and H: "Handle lib verify h co t m y0 y = Inr (res, y')"
  obtains (answered) "y' = y" "Status res \<noteq> StatusProcessed"
  | (ran) r q n st y1 n' where "m = Some r" "checkRequest lib verify h co t (lm y0) r = Inr q"
      "TryAcquire (requestLockSet lib q (lm y)) (locks y) = (n, Inr st)"
      "handleLocked lib h co t r q (y\<lparr>locks := n\<rparr>) = Inr (res, y1)" "y' = y1\<lparr>locks := n'\<rparr>"
      "set (held n') = set (held (locks y))"
proof (cases "requireUpstream co")
  case True
  show ?thesis
  proof (rule Handle_cases [OF wf lib True, where verify = verify and h = h and t = t and m = m and ?y0.0 = y0])
    fix res'
    assume "Handle lib verify h co t m y0 y = Inr (res', y)" "Status res' \<noteq> StatusProcessed"
    then show thesis using H that(1) by simp
  next
    fix r q n st res' y1 n'
    assume 1: "m = Some r" "checkRequest lib verify h co t (lm y0) r = Inr q"
      "TryAcquire (requestLockSet lib q (lm y)) (locks y) = (n, Inr st)"
      "handleLocked lib h co t r q (y\<lparr>locks := n\<rparr>) = Inr (res', y1)"
      "Handle lib verify h co t m y0 y = Inr (res', y1\<lparr>locks := n'\<rparr>)" "set (held n') = set (held (locks y))"
    then have "res' = res" "y' = y1\<lparr>locks := n'\<rparr>" using H by simp_all
    with 1 show thesis using that(2) by blast
  qed
next
  case False
  then have "y' = y" "Status res \<noteq> StatusProcessed"
    using H by (auto simp: Handle_def NewErrorResult_def NewNotRelevantResult_def split: option.splits if_splits)
  then show ?thesis by (rule that(1))
qed

text \<open>The same with the effect of the locked part spelled out.\<close>

lemma Handle_effect:
  assumes wf: "wf_store lib (lm y)" and lib: "plain_text lib" and H: "Handle lib verify h co t m y0 y = Inr (res, y')"
  obtains (kept) "lm y' = lm y" "tms y' = tms y"
  | (planned) r q out and p :: plan where "m = Some r" "checkRequest lib verify h co t (lm y0) r = Inr q"
      "req_lease q \<noteq> 0 \<or> req_keyLease q \<noteq> 0" "sent y' = sent y @ out"
      "accepted lib co (upstreamZone h) (upstreamUpdateRecords (upstreamKeys p) (acceptedRecords p) (recordsToDelete p)) out"
      "changes_ok lib h t (lm y) q (set (upstreamKeys p)) (set (acceptedRecords p)) (set (recordsToDelete p)) (lm y')"
  | (deleted) r q out ks rs G where "m = Some r" "checkRequest lib verify h co t (lm y0) r = Inr q"
      "req_lease q = 0" "req_keyLease q = 0" "sent y' = sent y @ out"
      "ks = filter (may_delete_key lib t (lm y) q) (req_keys q)"
      "rs = filter (held_by lib (lm y) (NodeKey lib (req_signerKey q))) (req_others q)"
      "accepted lib co (upstreamZone h) (asDeletes rs @ concat (map (subtreeDeletes lib (lm y)) ks)) out"
      "abs_store (lm y') = (abs_store (lm y)) |` (- (RecordKey lib ` set rs \<union> G))"
      "G \<subseteq> (\<Union>k \<in> set ks. descendants (abs_store (lm y)) (NodeKey lib k))"
  using wf lib H
proof (cases rule: Handle_result)
  case (ran r q n st y1 n')
  have "wf_store lib (lm (y\<lparr>locks := n\<rparr>))" using wf by simp
  from this lib checkRequest_Inr(2) [OF ran(2)] show ?thesis
  proof (cases rule: handleLocked_cases [where h = h and co = co and t = t and r = r])
    case (kept res' out)
    then show ?thesis using that(1) ran(4,5) by simp
  next
    case (planned res' y2 out p)
    then show ?thesis using that(2) [of r q out p] ran by simp
  next
    case (deleted res' y2 out ks rs G)
    then show ?thesis using ran that(3) [OF ran(1,2), of out ks rs G] by simp
  qed
qed (use that(1) in simp)

definition names :: "dnslib \<Rightarrow> rr \<Rightarrow> string \<Rightarrow> bool" where
  "names lib r i \<longleftrightarrow> RecordKey lib r = i \<or> (\<exists>k. r = of_key k \<and> NodeKey lib k = i)"

lemma names_node: "wf_store lib s \<Longrightarrow> abs_store s i = Some v \<Longrightarrow> names lib (node_rr v) i"
  using wf_lease_at [of lib "{}" s i] wf_record_at [of lib "{}" s i]
  by (cases v) (auto simp: names_def wf_store_def abs_store_Key wf_lease_def wf_record_def abs_store_def split: option.splits)

lemma subtreeDeletes_cover:
  assumes wf: "wf_store lib s" and lib: "plain_text lib" and st: "stable_parents s"
    and i: "i \<in> descendants (abs_store s) (NodeKey lib k)" "abs_store s i = Some v"
  shows "AsDelete (node_rr v) \<in> set (subtreeDeletes lib s k)"
proof (cases v)
  case (KeyNode r)
  then show ?thesis using subtreeLeases_keys [OF wf _ i(1)] i(2)
    by (cases "subtreeLeases s (NodeKey lib k)") (auto simp: subtreeDeletes_def asDeletes_def)
next
  case (DataNode e)
  then have "i \<noteq> NodeKey lib k"
    using i(2) NodeKey_not_record [OF wf [unfolded wf_store_def] lib, of k] by (auto simp: abs_store_Data [OF wf])
  from subtreeLeases_records [OF wf _ st i(1) _ this, of e] i(2) DataNode show ?thesis
    by (cases "subtreeLeases s (NodeKey lib k)") (auto simp: subtreeDeletes_def recordDeletes_def intro!: rev_image_eqI)
qed

text \<open>
  C1. The RFC 9664 handler changes its lease store and its timers only after the authoritative
  server has accepted, with NOERROR, one UPDATE sent in the course of this request. Every node
  that is new was added in that UPDATE by the very record it holds, and every node that is gone
  was deleted in it by a record of the same identity. In every other case, that is on any refusal,
  any failure to build or send and any other answer, store and timers are as before.
\<close>

theorem Handle_upstream_first:
  assumes "wf_store lib (lm y)" and "plain_text lib" and "stable_parents (lm y)"
    and "Handle lib verify h co t m y0 y = Inr (res, y')"
  shows "(lm y' = lm y \<and> tms y' = tms y) \<or>
    (\<exists>out records. sent y' = sent y @ out \<and> accepted lib co (upstreamZone h) records out \<and>
      (\<forall>i v. abs_store (lm y) i = None \<and> abs_store (lm y') i = Some v \<longrightarrow> node_rr v \<in> set records) \<and>
      (\<forall>i v. abs_store (lm y) i = Some v \<and> abs_store (lm y') i = None \<longrightarrow>
         (\<exists>r. AsDelete r \<in> set records \<and> names lib r i)))"
  using assms(1,2,4)
proof (cases rule: Handle_effect)
  case (planned r q out p)
  let ?rs = "upstreamUpdateRecords (upstreamKeys p) (acceptedRecords p) (recordsToDelete p)"
  have ch: "change_ok lib h t (lm y) q (set (upstreamKeys p)) (set (acceptedRecords p)) (set (recordsToDelete p)) i
      (abs_store (lm y) i) (abs_store (lm y') i)" for i
    using planned(6) by (simp add: changes_ok_def)
  have "node_rr v \<in> set ?rs" if "abs_store (lm y) i = None" "abs_store (lm y') i = Some v" for i v
    using ch [of i] that
    by (cases v) (auto simp: change_ok_def registered_ok_def upstreamUpdateRecords_def)
  moreover have "\<exists>r. AsDelete r \<in> set ?rs \<and> names lib r i" if "abs_store (lm y) i = Some v" "abs_store (lm y') i = None" for i v
    using ch [of i] that by (auto simp: change_ok_def upstreamUpdateRecords_def asDeletes_def names_def)
  ultimately show ?thesis using planned(4,5) by blast
next
  case (deleted r q out ks rs G)
  let ?rs = "asDeletes rs @ concat (map (subtreeDeletes lib (lm y)) ks)"
  have "\<exists>r. AsDelete r \<in> set ?rs \<and> names lib r i" if v: "abs_store (lm y) i = Some v" "abs_store (lm y') i = None" for i v
  proof -
    consider x where "x \<in> set rs" "i = RecordKey lib x"
      | k where "k \<in> set ks" "i \<in> descendants (abs_store (lm y)) (NodeKey lib k)"
      using v deleted(9,10) by (auto simp: restrict_map_def split: if_splits)
    then show ?thesis
    proof cases
      case 1
      then show ?thesis by (intro exI [of _ x]) (auto simp: asDeletes_def names_def)
    next
      case 2
      from subtreeDeletes_cover [OF assms(1-3) 2(2) v(1)] names_node [OF assms(1) v(1)] 2(1) show ?thesis by auto
    qed
  qed
  moreover have "abs_store (lm y') i = Some v \<Longrightarrow> abs_store (lm y) i \<noteq> None" for i v
    using deleted(9) by (auto simp: restrict_map_def split: if_splits)
  ultimately show ?thesis using deleted(5,8) by blast
qed simp



lemma change_ok_named:
  assumes "change_ok lib h t s q U A D i old new" "new \<noteq> old"
  shows "(\<exists>x \<in> set (req_others q). RecordKey lib x = i) \<or> (\<exists>k \<in> set (req_keys q). NodeKey lib k = i) \<or> i = signer_node q"
proof (cases new)
  case None
  then show ?thesis using assms by (auto simp: change_ok_def)
next
  case (Some v)
  show ?thesis
  proof (cases v)
    case (DataNode e)
    then show ?thesis using assms Some by (auto simp: change_ok_def)
  next
    case (KeyNode r)
    then show ?thesis using assms Some
      by (cases "\<exists>r0. old = Some (KeyNode r0)")
        (auto simp: change_ok_def renewed_ok_def registered_ok_def split: option.splits node.splits)
  qed
qed

text \<open>
  C5. Whatever a request changes in the store, it has locked: the identity of every node that is
  added, removed or altered is in the request's lock set, none of which anybody else held.
\<close>

theorem Handle_locks_cover:
  assumes "wf_store lib (lm y)" and "plain_text lib" and "Handle lib verify h co t m y0 y = Inr (res, y')"
    and "\<forall>r sg. m = Some r \<and> extractSig0 r = Inr sg \<longrightarrow> Normalize (Normalize (SignerName sg)) = Normalize (SignerName sg)"
    and "abs_store (lm y') i \<noteq> abs_store (lm y) i"
  shows "\<exists>r q. m = Some r \<and> checkRequest lib verify h co t (lm y0) r = Inr q \<and>
    i \<in> set (requestLockSet lib q (lm y)) \<and> set (requestLockSet lib q (lm y)) \<inter> set (held (locks y)) = {}"
proof -
  from assms(1-3) obtain r q n st where ran: "m = Some r" "checkRequest lib verify h co t (lm y0) r = Inr q"
    "TryAcquire (requestLockSet lib q (lm y)) (locks y) = (n, Inr st)"
    using assms(5) by (cases rule: Handle_result) auto
  have free: "set (requestLockSet lib q (lm y)) \<inter> set (held (locks y)) = {}"
    using ran(3) by (auto simp: TryAcquire_def tryLocked_Some split: prod.splits option.splits)
  have sp: "signer_parent q = signer_node q"
    using assms(4) ran(1) checkRequest_Inr(1) [OF ran(2)] by (intro signer_parent_node) (simp add: authentic_def)
  from assms(1-3) have "i \<in> set (requestLockSet lib q (lm y))"
  proof (cases rule: Handle_effect)
    case kept
    then show ?thesis using assms(5) by simp
  next
    case (planned r' q' out p)
    then have "q' = q" using ran by simp
    with planned(6) have "change_ok lib h t (lm y) q (set (upstreamKeys p)) (set (acceptedRecords p)) (set (recordsToDelete p)) i
        (abs_store (lm y) i) (abs_store (lm y') i)"
      by (simp add: changes_ok_def)
    from change_ok_named [OF this] assms(5) show ?thesis using planned(3) \<open>q' = q\<close> sp
      by (auto simp: requestLockSet_def Let_def signer_parent_def)
  next
    case (deleted r' q' out ks rs G)
    then have "q' = q" using ran by simp
    have "i \<in> RecordKey lib ` set rs \<union> G"
      using assms(5) deleted(9) by (auto simp: restrict_map_def split: if_splits)
    with deleted(10) consider x where "x \<in> set rs" "i = RecordKey lib x"
      | k where "k \<in> set ks" "i \<in> descendants (abs_store (lm y)) (NodeKey lib k)"
      by auto
    then show ?thesis
      using deleted(3,4,6,7) \<open>q' = q\<close> subtree_owners [OF assms(1), of "NodeKey lib _"]
      by cases (auto simp: requestLockSet_def Let_def)
  qed
  with ran free show ?thesis by blast
qed

lemma Handle_runs:
  assumes "wf_store lib (lm y)" and "plain_text lib" and "requireUpstream co"
  shows "\<exists>res y'. Handle lib verify h co t m y0 y = Inr (res, y') \<and> wf_store lib (lm y') \<and>
    set (held (locks y')) = set (held (locks y))"
  using assms
proof (cases rule: Handle_cases [where ?y0.0 = y0 and m = m and t = t and h = h and verify = verify])
  case (answered res)
  then show ?thesis using assms(1) by simp
next
  case (ran r q n st res y1 n')
  have "wf_store lib (lm (y\<lparr>locks := n\<rparr>))" using assms(1) by simp
  from this assms(2) checkRequest_Inr(2) [OF ran(2)] have "wf_store lib (lm y1)"
    by (cases rule: handleLocked_cases [where h = h and co = co and t = t and r = r])
      (use ran(4) assms(1) in \<open>auto simp: changes_ok_def\<close>)
  then show ?thesis using ran(5,6) by simp
qed

text \<open>
  C6. The handler never panics while its upstream is configured, it leaves the store's invariant
  intact whatever happens, and when it returns it holds no lock: the lock table is as before.
\<close>

theorem Handle_total:
  assumes "wf_store lib (lm y)" and "plain_text lib" and "requireUpstream co"
  shows "\<exists>res y'. Handle lib verify h co t m y0 y = Inr (res, y') \<and> wf_store lib (lm y') \<and>
    set (held (locks y')) = set (held (locks y))"
  by (rule Handle_runs [OF assms])

lemma buildSuccess_readable:
  assumes "keyLease = 0 \<or> lease \<le> keyLease"
  shows "FindAndDecode (Some (buildSuccessResponse lib r ns lease keyLease)) = Inr (Encode8Byte lease keyLease)"
    "msg_ID (buildSuccessResponse lib r ns lease keyLease) = msg_ID r"
  using leaseResponse_option(1) [OF assms, of lib r "map (\<lambda>note. pseudo_rr (EDE 0 note)) ns"] leaseResponse_option(2) [OF assms]
  by (simp_all add: FindAndDecode_def FindOption_def buildSuccessResponse_def appendStatusNotes_def leaseResponse_def Let_def)

lemma clamp_ordered: "clamp p l kl = (l', kl') \<Longrightarrow> kl' = 0 \<or> l' \<le> kl'"
  by (auto simp: clamp_def Let_def split: if_splits)

lemma Handle_processed:
  assumes wf: "wf_store lib (lm y)" and lib: "plain_text lib" and H: "Handle lib verify h co t m y0 y = Inr (res, y')"
    and P: "Status res = StatusProcessed"
  obtains r q ns where "m = Some r" "checkRequest lib verify h co t (lm y0) r = Inr q"
    "Message res = Some (buildSuccessResponse lib r ns (req_lease q) (req_keyLease q))"
  using wf lib H
proof (cases rule: Handle_result)
  case (ran r q n st y1 n')
  have "wf_store lib (lm (y\<lparr>locks := n\<rparr>))" using wf by simp
  from this lib checkRequest_Inr(2) [OF ran(2)]
  have "\<exists>ns. Message res = Some (buildSuccessResponse lib r ns (req_lease q) (req_keyLease q))"
    by (cases rule: handleLocked_cases [where h = h and co = co and t = t and r = r]) (use ran(4) P in auto)
  then show ?thesis using that ran(1,2) by blast
qed (use P in simp)

text \<open>When the lease of a node that a request added or changed ends.\<close>

definition granted_end :: "clock \<Rightarrow> store \<Rightarrow> request \<Rightarrow> string \<Rightarrow> node \<Rightarrow> bool" where
  "granted_end t s q i v \<longleftrightarrow>
     (case v of
        DataNode e \<Rightarrow> ExpiresAt e = applied t + seconds (req_lease q)
      | KeyNode k \<Rightarrow> ExpiresAt k = applied t + seconds (req_keyLease q) \<or>
          (\<exists>r0. abs_store s i = Some (KeyNode r0) \<and>
             ExpiresAt k = applied t + seconds (remaining_lease (measured t) r0)))"

lemma Handle_granted:
  assumes "wf_store lib (lm y)" and "plain_text lib" and "Handle lib verify h co t m y0 y = Inr (res, y')"
    and "Status res = StatusProcessed"
  obtains r q ns where "m = Some r" "checkRequest lib verify h co t (lm y0) r = Inr q"
    "Message res = Some (buildSuccessResponse lib r ns (req_lease q) (req_keyLease q))"
    "req_keyLease q = 0 \<or> req_lease q \<le> req_keyLease q"
    "\<And>i v. abs_store (lm y') i = Some v \<Longrightarrow> abs_store (lm y) i \<noteq> Some v \<Longrightarrow> granted_end t (lm y) q i v"
proof -
  obtain r q ns where P: "m = Some r" "checkRequest lib verify h co t (lm y0) r = Inr q"
    "Message res = Some (buildSuccessResponse lib r ns (req_lease q) (req_keyLease q))"
    using Handle_processed [OF assms] by blast
  have ord: "req_keyLease q = 0 \<or> req_lease q \<le> req_keyLease q"
    using checkRequest_Inr(3) [OF P(2)] clamp_ordered by blast
  have e: "granted_end t (lm y) q i v" if v: "abs_store (lm y') i = Some v" "abs_store (lm y) i \<noteq> Some v" for i v
    using assms(1-3)
  proof (cases rule: Handle_effect)
    case kept
    then show ?thesis using v by simp
  next
    case (planned r' q' out p)
    then have "change_ok lib h t (lm y) q (set (upstreamKeys p)) (set (acceptedRecords p)) (set (recordsToDelete p)) i
        (abs_store (lm y) i) (Some v)"
      using v(1) P(1,2) by (auto simp: changes_ok_def dest!: spec [of _ i])
    with v(2) show ?thesis
      by (cases v) (auto simp: granted_end_def change_ok_def renewed_ok_def registered_ok_def split: option.splits node.splits)
  next
    case (deleted r' q' out ks rs G)
    then show ?thesis using v by (auto simp: restrict_map_def split: if_splits)
  qed
  show ?thesis by (rule that) (use P ord e in auto)
qed


text \<open>
  C4. Nothing is sent upstream and nothing changes unless the request carries a SIG(0) signature
  that verifies under a key of the signature's key tag and algorithm, the signer's name is at or
  above the zone of the request, and every record of the request is at or below the signer.
\<close>

theorem Handle_authenticated:
  assumes "wf_store lib (lm y)" and "plain_text lib" and "Handle lib verify h co t m y0 y = Inr (res, y')"
    and "sent y' \<noteq> sent y \<or> lm y' \<noteq> lm y \<or> tms y' \<noteq> tms y \<or> Status res = StatusProcessed"
  shows "\<exists>r q. m = Some r \<and> checkRequest lib verify h co t (lm y0) r = Inr q \<and> authentic lib verify r q"
  using assms(1-3)
proof (cases rule: Handle_result)
  case answered
  then show ?thesis using assms(4) by simp
next
  case (ran r q n st y1 n')
  then show ?thesis using checkRequest_Inr(1) [OF ran(2)] by blast
qed

subsection \<open>Witnesses\<close>

definition sample_handler :: UpdateHandler where
  "sample_handler = \<lparr>upstreamZone = ''example.'',
     leasePolicy = \<lparr>MinKeyLease = 0, MaxKeyLease = 0, MinRRLease = 0, MaxRRLease = 0\<rparr>,
     recordTTL = 300, prefer4ByteVariant = False, AllowOnlineKeyRegistration = False, blacklistedTypes = []\<rparr>"

definition sample_clock :: clock where
  "sample_clock = \<lparr>verified = 5, checked = 6, measured = 7, applied = 8, rearmed = 9\<rparr>"

definition sample_sig :: "key \<Rightarrow> rr" where
  "sample_sig k = \<lparr>rr_name = ''.'', rr_class = ClassANY, rr_ttl = 0, rr_data = SIG_data
     \<lparr>SignerName = key_name k, sig_Algorithm = Algorithm k, sig_KeyTag = KeyTag sample_lib k, sig_Labels = 0,
      OrigTTL = 0, Expiration = 0, Inception = 0, Signature = []\<rparr>\<rparr>"

definition sample_request :: "string \<Rightarrow> key \<Rightarrow> u32 \<Rightarrow> u32 \<Rightarrow> rr list \<Rightarrow> msg" where
  "sample_request zone k lease keyLease rrs = empty_msg\<lparr>msg_ID := 7, msg_Opcode := OpcodeUpdate,
     msg_Question := [\<lparr>rr_name = zone, rr_class = ClassINET, rr_ttl = 0, rr_data = SOA_data [] [] []\<rparr>],
     msg_Ns := rrs,
     msg_Pseudo := [pseudo_rr (ERFC3597 OPTION_CODE (EncodeToString (PutUint32 lease @ PutUint32 keyLease))), sample_sig k]\<rparr>"

text \<open>The child deletes its address record; the parent registers a second child with an address.\<close>

definition delete_request :: msg where
  "delete_request = sample_request ''sub.example.'' child_key 0 0 [host_address]"

definition new_key :: key where
  "new_key = \<lparr>key_name = ''new.example.'', key_class = 1, key_ttl = 0, Flags = 512, Protocol = 3,
     Algorithm = 15, PublicKey = ''CCCCCC''\<rparr>"

definition register_request :: msg where
  "register_request = sample_request ''example.'' parent_key 30 60
     [of_key new_key, \<lparr>rr_name = ''new.example.'', rr_class = 1, rr_ttl = 0, rr_data = A_data ''192.0.2.9''\<rparr>]"

definition sample_run :: "msg \<Rightarrow> panic + (HandlerResult \<times> proxy)" where
  "sample_run m = Handle sample_lib (\<lambda>m k. True) sample_handler sample_co sample_clock (Some m) sample_proxy sample_proxy"

lemma delete_run:
  obtains res y' v where "sample_run delete_request = Inr (res, y')" "Status res = StatusProcessed"
    "abs_store (lm y') ''sub.example. 1 1 11 a192.0.2.1.'' = None"
    "abs_store (lm sample_proxy) ''sub.example. 1 1 11 a192.0.2.1.'' = Some v"
proof -
  have "case sample_run delete_request of Inr (res, y') \<Rightarrow> Status res = StatusProcessed \<and>
      Option.is_none (abs_store (lm y') ''sub.example. 1 1 11 a192.0.2.1.'') | _ \<Rightarrow> False"
    by code_simp
  moreover have "\<not> Option.is_none (abs_store (lm sample_proxy) ''sub.example. 1 1 11 a192.0.2.1.'')" by code_simp
  ultimately show ?thesis using that by (auto simp: Option.is_none_def split: sum.splits prod.splits)
qed

lemma register_run:
  obtains res y' k where "sample_run register_request = Inr (res, y')" "Status res = StatusProcessed"
    "abs_store (lm y') ''new.example.+015+00518'' = Some (KeyNode k)" "ParentKeyName k = ''example.+015+00516''"
    "abs_store (lm sample_proxy) ''new.example.+015+00518'' = None"
proof -
  have "case sample_run register_request of Inr (res, y') \<Rightarrow> Status res = StatusProcessed \<and>
      (case mget (leases (lm y')) ''new.example.+015+00518'' of Some k \<Rightarrow> ParentKeyName k = ''example.+015+00516'' | None \<Rightarrow> False) | _ \<Rightarrow> False"
    by code_simp
  moreover have "Option.is_none (abs_store (lm sample_proxy) ''new.example.+015+00518'')" by code_simp
  ultimately show ?thesis using that
    by (auto simp: Option.is_none_def abs_store_Key split: sum.splits prod.splits option.splits)
qed

lemma sample_proxy_wf: "wf_store sample_lib (lm sample_proxy)" "stable_parents (lm sample_proxy)"
  by (simp_all add: sample_proxy_def wf_sample_store sample_stable)

lemma sample_proxy_sent: "sent sample_proxy = []"
  by (simp add: sample_proxy_def)

lemmas sample_hyps = sample_proxy_wf(1) plain_text_sample

theorem Handle_upstream_first_witness:
  "\<exists>res y' records. sample_run delete_request = Inr (res, y') \<and>
     accepted sample_lib sample_co (upstreamZone sample_handler) records (sent y') \<and>
     (\<exists>r. AsDelete r \<in> set records \<and> names sample_lib r ''sub.example. 1 1 11 a192.0.2.1.'')"
proof (rule delete_run)
  fix res y' v
  assume r: "sample_run delete_request = Inr (res, y')" "abs_store (lm y') ''sub.example. 1 1 11 a192.0.2.1.'' = None"
    "abs_store (lm sample_proxy) ''sub.example. 1 1 11 a192.0.2.1.'' = Some v"
  from Handle_upstream_first [OF sample_hyps sample_proxy_wf(2) r(1) [unfolded sample_run_def]] r(2,3)
  have "\<exists>records. accepted sample_lib sample_co (upstreamZone sample_handler) records (sent y') \<and>
     (\<exists>r. AsDelete r \<in> set records \<and> names sample_lib r ''sub.example. 1 1 11 a192.0.2.1.'')"
    by (force simp: sample_proxy_sent)
  with r(1) show ?thesis by blast
qed



lemma sample_signer_stable:
  "Some register_request = Some r \<and> extractSig0 r = Inr sg \<Longrightarrow> Normalize (Normalize (SignerName sg)) = Normalize (SignerName sg)"
proof -
  assume a: "Some register_request = Some r \<and> extractSig0 r = Inr sg"
  have "case extractSig0 register_request of Inr sg \<Rightarrow> Normalize (Normalize (SignerName sg)) = Normalize (SignerName sg) | Inl _ \<Rightarrow> False"
    by code_simp
  with a show ?thesis by auto
qed

theorem Handle_locks_cover_witness:
  "\<exists>q. checkRequest sample_lib (\<lambda>m k. True) sample_handler sample_co sample_clock (lm sample_proxy) register_request = Inr q \<and>
     ''new.example.+015+00518'' \<in> set (requestLockSet sample_lib q (lm sample_proxy))"
proof (rule register_run)
  fix res y' k
  assume r: "sample_run register_request = Inr (res, y')" "abs_store (lm y') ''new.example.+015+00518'' = Some (KeyNode k)"
    "abs_store (lm sample_proxy) ''new.example.+015+00518'' = None"
  from r(2,3) have "abs_store (lm y') ''new.example.+015+00518'' \<noteq> abs_store (lm sample_proxy) ''new.example.+015+00518''" by simp
  from Handle_locks_cover [OF sample_hyps r(1) [unfolded sample_run_def] _ this] sample_signer_stable
  show ?thesis by blast
qed

theorem Handle_total_witness:
  "\<exists>res y'. sample_run register_request = Inr (res, y') \<and> wf_store sample_lib (lm y')"
proof -
  have "requireUpstream sample_co" by (simp add: requireUpstream_def sample_co_def)
  from Handle_total [OF sample_hyps this] show ?thesis unfolding sample_run_def by blast
qed


theorem Handle_authenticated_witness:
  "\<exists>q. authentic sample_lib (\<lambda>m k. True) delete_request q"
proof (rule delete_run)
  fix res y'
  assume r: "sample_run delete_request = Inr (res, y')" "Status res = StatusProcessed"
  from Handle_authenticated [OF sample_hyps r(1) [unfolded sample_run_def]] r(2) show ?thesis by blast
qed

end
