(* ===== verification/Dnssd.thy ===== *)
theory Dnssd
  imports Dns_Model
begin

text \<open>
  The DNS-SD logic of \<open>pkg/dnssd\<close>: the shape of service types and instance names
  (\<open>names.go\<close>) and the updates that keep the enumeration records of a zone current
  (\<open>enumeration.go\<close>).

  The theorems: a service type the requester's check accepts is one the registrar's check
  recognises; and the diff of the enumeration records changes exactly the types that came or
  went, whatever else the zone holds at the name.
\<close>

subsection \<open>names.go\<close>

definition isServiceLabel :: "string \<Rightarrow> bool" where
  "isServiceLabel label \<longleftrightarrow> length label > 1 \<and> hd label = CHR ''_''"

definition isProtoLabel :: "string \<Rightarrow> bool" where
  "isProtoLabel label \<longleftrightarrow> label = ''_tcp'' \<or> label = ''_udp''"

definition ServiceTypeFromServiceName :: "string \<Rightarrow> string option" where
  "ServiceTypeFromServiceName name =
     (let labels = Labels (Fold name) in
      if length labels < 3 \<or> \<not> isServiceLabel (labels ! 0) \<or> \<not> isProtoLabel (labels ! 1) then None
      else Some (labels ! 0 @ ''.'' @ labels ! 1))"

definition ServiceTypeFromInstanceName :: "string \<Rightarrow> string option" where
  "ServiceTypeFromInstanceName name =
     (case CutFirstLabel name of (_, service, found) \<Rightarrow>
        if \<not> found then None else ServiceTypeFromServiceName service)"

datatype service_error =
    NotTwoLabels
  | BadProtocolLabel
  | NoUnderscore
  | ServiceNameLength
  | ServiceNameHyphen
  | ServiceNameCharacter
  | ServiceNameNoLetter

definition is_letter :: "char \<Rightarrow> bool" where
  "is_letter c \<longleftrightarrow> (CHR ''a'' \<le> c \<and> c \<le> CHR ''z'') \<or> (CHR ''A'' \<le> c \<and> c \<le> CHR ''Z'')"

definition is_digit :: "char \<Rightarrow> bool" where
  "is_digit c \<longleftrightarrow> CHR ''0'' \<le> c \<and> c \<le> CHR ''9''"

text \<open>The loop over the octets: position, previous octet and whether a letter was seen.\<close>

function service_name_loop :: "nat \<Rightarrow> string \<Rightarrow> nat \<Rightarrow> bool \<Rightarrow> service_error option" where
  "service_name_loop len name i hasLetter =
     (if i < len then
        let c = name ! i in
        if is_letter c then service_name_loop len name (i + 1) True
        else if is_digit c then service_name_loop len name (i + 1) hasLetter
        else if c = CHR ''-'' then
          if i = 0 \<or> i = len - 1 \<or> name ! (i - 1) = CHR ''-'' then Some ServiceNameHyphen
          else service_name_loop len name (i + 1) hasLetter
        else Some ServiceNameCharacter
      else if \<not> hasLetter then Some ServiceNameNoLetter
      else None)"
  by pat_completeness auto
termination
  by (relation "measure (\<lambda>(len, name, i, _). len - i)") auto

declare service_name_loop.simps [simp del]

definition validateServiceNameSyntax :: "string \<Rightarrow> service_error option" where
  "validateServiceNameSyntax name =
     (if length name < 1 \<or> length name > 15 then Some ServiceNameLength
      else service_name_loop (length name) name 0 False)"

definition ValidateServiceType :: "string \<Rightarrow> service_error option" where
  "ValidateServiceType svcType =
     (let labels = Labels svcType in
      if length labels \<noteq> 2 then Some NotTwoLabels
      else
        let service = labels ! 0; proto = labels ! 1 in
        if \<not> isProtoLabel (Fold proto) then Some BadProtocolLabel
        else if \<not> HasPrefix service ''_'' then Some NoUnderscore
        else validateServiceNameSyntax (tl service))"

subsection \<open>enumeration.go\<close>

definition EnumerationOwnerName :: "string \<Rightarrow> string" where
  "EnumerationOwnerName zone = ''_services._dns-sd._udp.'' @ zone"

definition BrowsingOwnerName :: "string \<Rightarrow> string \<Rightarrow> string" where
  "BrowsingOwnerName svcType zone = svcType @ ''.'' @ zone"

definition BrowseDomainPrefix :: string where "BrowseDomainPrefix = ''b''"
definition DefaultBrowseDomainPrefix :: string where "DefaultBrowseDomainPrefix = ''db''"
definition LegacyBrowseDomainPrefix :: string where "LegacyBrowseDomainPrefix = ''lb''"
definition RegistrationDomainPrefix :: string where "RegistrationDomainPrefix = ''r''"
definition DefaultRegistrationDomainPrefix :: string where "DefaultRegistrationDomainPrefix = ''dr''"

definition DomainEnumerationOwnerName :: "string \<Rightarrow> string \<Rightarrow> string" where
  "DomainEnumerationOwnerName prefix zone = prefix @ ''._dns-sd._udp.'' @ zone"

definition ptr_add :: "string \<Rightarrow> string \<Rightarrow> u32 \<Rightarrow> rr" where
  "ptr_add owner target ttl = \<lparr>rr_name = owner, rr_class = ClassINET, rr_ttl = ttl, rr_data = PTR_data target\<rparr>"

definition ptr_delete :: "string \<Rightarrow> string \<Rightarrow> rr" where
  "ptr_delete owner target = \<lparr>rr_name = owner, rr_class = ClassNONE, rr_ttl = 0, rr_data = PTR_data target\<rparr>"

definition DiffSelfPointingDomainRecord :: "string \<Rightarrow> string \<Rightarrow> bool \<Rightarrow> bool \<Rightarrow> u32 \<Rightarrow> rr list" where
  "DiffSelfPointingDomainRecord prefix zone wasPresent isPresent ttl =
     (if wasPresent = isPresent then []
      else
        let owner = DomainEnumerationOwnerName prefix zone in
        if isPresent then [ptr_add owner zone ttl] else [ptr_delete owner zone])"

definition dedupedSet :: "string list \<Rightarrow> string list" where
  "dedupedSet types = remdups (filter (\<lambda>t. t \<noteq> []) (map Fold types))"

definition ptr_target :: "rr \<Rightarrow> string" where
  "ptr_target r = (case rr_data r of PTR_data t \<Rightarrow> t | _ \<Rightarrow> [])"

definition DiffEnumerationRecords :: "string \<Rightarrow> string list \<Rightarrow> string list \<Rightarrow> u32 \<Rightarrow> rr list" where
  "DiffEnumerationRecords zone previous current ttl =
     (let owner = EnumerationOwnerName zone; prevSet = dedupedSet previous; currSet = dedupedSet current;
          adds = map (\<lambda>t. ptr_add owner (t @ ''.'' @ zone) ttl) (filter (\<lambda>t. t \<notin> set prevSet) currSet);
          deletes = map (\<lambda>t. ptr_delete owner (t @ ''.'' @ zone)) (filter (\<lambda>t. t \<notin> set currSet) prevSet)
      in sort_key ptr_target (adds @ deletes))"

subsection \<open>The requester's check and the registrar's\<close>

lemma split_at_Fold: "split_at (CHR ''.'') (Fold s) = map Fold (split_at (CHR ''.'') s)"
proof (induction s)
  case (Cons c s)
  then show ?case by (cases "split_at (CHR ''.'') s") (auto simp: Fold_map)
qed (simp add: Fold_map)

lemma Labels_browsing:
  assumes "svcType \<noteq> []"
  shows "Labels (Fold (BrowsingOwnerName svcType zone)) =
    map Fold (Labels svcType) @ map Fold (split_at (CHR ''.'') zone)"
proof -
  have "Fold (BrowsingOwnerName svcType zone) \<noteq> []" by (simp add: BrowsingOwnerName_def)
  then have "Labels (Fold (BrowsingOwnerName svcType zone)) =
      map Fold (split_at (CHR ''.'') (BrowsingOwnerName svcType zone))"
    by (simp only: Labels_def if_False split_at_Fold)
  then show ?thesis using assms by (simp add: BrowsingOwnerName_def Labels_def split_at_append_sep)
qed

lemma ValidateServiceType_labels:
  assumes "ValidateServiceType svcType = None"
  obtains service proto where "Labels svcType = [service, proto]" "isProtoLabel (Fold proto)" "isServiceLabel (Fold service)"
proof -
  from assms obtain service proto where l: "Labels svcType = [service, proto]"
    by (auto simp: ValidateServiceType_def Let_def length_Suc_conv numeral_2_eq_2 split: if_splits)
  have p: "isProtoLabel (Fold proto)" "HasPrefix service ''_''" "validateServiceNameSyntax (tl service) = None"
    using assms by (auto simp: ValidateServiceType_def Let_def l split: if_splits)
  then have "isServiceLabel (Fold service)"
    by (cases service) (auto simp: validateServiceNameSyntax_def isServiceLabel_def HasPrefix_def Fold_map
        fold_byte_def isUpper_def split: if_splits)
  then show ?thesis using l p that by blast
qed

text \<open>
  A service type the requester's check lets through is one the registrar's structural check
  recognises at its browsing name in every zone, and what the registrar reads there is the same
  type up to case.
\<close>

theorem ValidateServiceType_recognised:
  assumes "ValidateServiceType svcType = None"
  shows "ServiceTypeFromServiceName (BrowsingOwnerName svcType zone) = Some (Fold svcType)"
proof -
  obtain service proto where l: "Labels svcType = [service, proto]"
    and k: "isProtoLabel (Fold proto)" "isServiceLabel (Fold service)"
    using assms by (rule ValidateServiceType_labels)
  have ne: "svcType \<noteq> []" using l by (auto simp: Labels_def)
  have j: "svcType = service @ ''.'' @ proto"
    using l ne join_split_at [of "CHR ''.''" svcType] by (simp add: Labels_def)
  have "split_at (CHR ''.'') zone \<noteq> []" by simp
  then obtain z zs where z: "split_at (CHR ''.'') zone = z # zs" by (meson neq_Nil_conv)
  show ?thesis
    using k by (simp add: ServiceTypeFromServiceName_def Labels_browsing [OF ne] l z)
      (simp add: j Fold_append, simp add: Fold_map fold_byte_def isUpper_def)
qed

theorem ValidateServiceType_recognised_witness:
  "ServiceTypeFromServiceName (BrowsingOwnerName ''_HTTP._tcp'' ''example.com.'') = Some (Fold ''_HTTP._tcp'')"
  by (rule ValidateServiceType_recognised) code_simp

subsection \<open>What an update does to the PTR records at a name\<close>

text \<open>
  RFC 2136 section 3.4.2 for the PTR records of one name, as a set of targets: an add inserts
  one, a delete of class NONE removes one.
\<close>

definition apply_ptr :: "string \<Rightarrow> rr \<Rightarrow> string set \<Rightarrow> string set" where
  "apply_ptr owner r Z =
     (case rr_data r of
        PTR_data t \<Rightarrow>
          if rr_name r \<noteq> owner then Z
          else if rr_class r = ClassINET then insert t Z
          else if rr_class r = ClassNONE then Z - {t} else Z
      | _ \<Rightarrow> Z)"

definition enumerated :: "string \<Rightarrow> string list \<Rightarrow> string set" where
  "enumerated zone types = {Fold t @ ''.'' @ zone | t. t \<in> set types \<and> t \<noteq> []}"

lemma set_dedupedSet: "set (dedupedSet types) = Fold ` {t \<in> set types. t \<noteq> []}"
  by (auto simp: dedupedSet_def)

lemma apply_ptr_add [simp]: "apply_ptr o1 (ptr_add o1 t ttl) Z = insert t Z"
  by (simp add: apply_ptr_def ptr_add_def)

lemma apply_ptr_delete [simp]: "apply_ptr o1 (ptr_delete o1 t) Z = Z - {t}"
  by (simp add: apply_ptr_def ptr_delete_def ClassINET_def ClassNONE_def)

lemma ptr_inject [simp]:
  "ptr_add o1 t ttl = ptr_add o1 t' ttl' \<longleftrightarrow> t = t' \<and> ttl = ttl'"
  "ptr_delete o1 t = ptr_delete o1 t' \<longleftrightarrow> t = t'"
  "ptr_add o1 t ttl \<noteq> ptr_delete o1 t'"
  "ptr_delete o1 t' \<noteq> ptr_add o1 t ttl"
  by (auto simp: ptr_add_def ptr_delete_def ClassINET_def ClassNONE_def)

text \<open>Adds and deletes of different targets commute, so a batch of them acts as one set operation.\<close>

lemma fold_apply_ptr:
  assumes "\<And>r. r \<in> set rs \<Longrightarrow> (\<exists>t \<in> A. r = ptr_add ow t ttl) \<or> (\<exists>t \<in> D. r = ptr_delete ow t)"
    and "A \<inter> D = {}"
  shows "fold (apply_ptr ow) rs Z = (Z - {t. ptr_delete ow t \<in> set rs}) \<union> {t. ptr_add ow t ttl \<in> set rs}"
  using assms
proof (induction rs arbitrary: Z)
  case (Cons r rs)
  have IH: "fold (apply_ptr ow) rs Z' = (Z' - {t. ptr_delete ow t \<in> set rs}) \<union> {t. ptr_add ow t ttl \<in> set rs}" for Z'
    by (rule Cons.IH) (use Cons.prems in auto)
  from Cons.prems(1) [of r] consider t where "r = ptr_add ow t ttl" "t \<in> A" | t where "r = ptr_delete ow t" "t \<in> D" by auto
  then show ?case
  proof cases
    case 1
    have "t \<notin> D" using 1 Cons.prems(2) by blast
    then have "ptr_delete ow t \<notin> set rs" using Cons.prems(1) [of "ptr_delete ow t"] by auto
    then show ?thesis using 1 by (simp add: IH) blast
  next
    case 2
    have "t \<notin> A" using 2 Cons.prems(2) by blast
    then have "ptr_add ow t ttl \<notin> set rs" using Cons.prems(1) [of "ptr_add ow t ttl"] by auto
    then show ?thesis using 2 by (simp add: IH) blast
  qed
qed simp

lemma set_DiffEnumerationRecords:
  "set (DiffEnumerationRecords zone prev cur ttl) =
     (\<lambda>t. ptr_add (EnumerationOwnerName zone) t ttl) ` (enumerated zone cur - enumerated zone prev) \<union>
     ptr_delete (EnumerationOwnerName zone) ` (enumerated zone prev - enumerated zone cur)"
proof -
  have e: "enumerated zone ts = (\<lambda>t. t @ ''.'' @ zone) ` set (dedupedSet ts)" for ts
    by (auto simp: enumerated_def set_dedupedSet)
  have i: "inj (\<lambda>t. t @ ''.'' @ zone)" by (simp add: inj_def)
  have d: "enumerated zone ts - enumerated zone us =
      (\<lambda>t. t @ ''.'' @ zone) ` {t \<in> set (dedupedSet ts). t \<notin> set (dedupedSet us)}" for ts us
    unfolding e set_diff_eq [symmetric] by (rule image_set_diff [OF i, symmetric])
  show ?thesis
    by (simp add: DiffEnumerationRecords_def Let_def d image_image)
qed

lemma fold_DiffEnumerationRecords:
  "fold (apply_ptr (EnumerationOwnerName zone)) (DiffEnumerationRecords zone previous current ttl) Z =
     (Z - (enumerated zone previous - enumerated zone current)) \<union> (enumerated zone current - enumerated zone previous)"
proof -
  let ?A = "enumerated zone current - enumerated zone previous" and ?D = "enumerated zone previous - enumerated zone current"
  note S = set_DiffEnumerationRecords [of zone previous current ttl]
  show ?thesis
  proof (subst fold_apply_ptr [where A = ?A and D = ?D and ttl = ttl])
    show "Z - {t. ptr_delete (EnumerationOwnerName zone) t \<in> set (DiffEnumerationRecords zone previous current ttl)} \<union>
        {t. ptr_add (EnumerationOwnerName zone) t ttl \<in> set (DiffEnumerationRecords zone previous current ttl)} = Z - ?D \<union> ?A"
      by (simp add: S image_iff set_diff_eq)
  qed (auto simp: S)
qed

lemma DiffEnumerationRecords_Nil:
  "DiffEnumerationRecords zone previous current ttl = [] \<longleftrightarrow> enumerated zone previous = enumerated zone current"
  using set_DiffEnumerationRecords [of zone previous current ttl] by (auto simp flip: set_empty)

text \<open>
  C40. Sending the diff from what this process last wrote to what it knows now replaces exactly
  the one by the other at the zone's enumeration name: a type in both stays, a type of neither,
  written by somebody else, stays as well, and the diff is empty if the two sets are the same.
\<close>

theorem DiffEnumeration_exact:
  "fold (apply_ptr (EnumerationOwnerName zone)) (DiffEnumerationRecords zone previous current ttl) Z =
     (Z - (enumerated zone previous - enumerated zone current)) \<union> (enumerated zone current - enumerated zone previous) \<and>
   (DiffEnumerationRecords zone previous current ttl = [] \<longleftrightarrow> enumerated zone previous = enumerated zone current)"
by (simp add: fold_DiffEnumerationRecords DiffEnumerationRecords_Nil)

end
