(* ===== verification/Srp_Structure.thy ===== *)
theory Srp_Structure
  imports Srp_Classify
begin

text \<open>
  What \<open>Classify\<close> and \<open>srp_Validate\<close> promise of a message they accept (\<open>accepted_shape\<close>): one
  host with its key, distinct service instances, live instances that point at the host and are
  pointed at, and no record of the Update section outside these. The scan keeps an invariant
  (\<open>scan_ok\<close>), the reconciliation turns it into the shape.
\<close>

subsection \<open>The shape\<close>

definition is_delete_all :: "string \<Rightarrow> rr \<Rightarrow> bool" where
  "is_delete_all n r \<longleftrightarrow> Fold (rr_name r) = n \<and> rr_data r = ANY_data"

definition is_add_at :: "string \<Rightarrow> u16 set \<Rightarrow> rr \<Rightarrow> bool" where
  "is_add_at n types r \<longleftrightarrow> Fold (rr_name r) = n \<and> rr_class r = ClassINET \<and> RRToType r \<in> types"

definition host_ok :: "HostDescription \<Rightarrow> bool" where
  "host_ok h \<longleftrightarrow> is_delete_all (Host_Name h) (Host_Delete h) \<and>
     (\<forall>a \<in> set (Host_Addresses h). is_add_at (Host_Name h) {1, 28} a) \<and>
     (\<forall>k. Host_Key h = Some k \<longrightarrow> is_add_at (Host_Name h) {25} (of_key k))"

definition instance_ok :: "ServiceInstance \<Rightarrow> bool" where
  "instance_ok i \<longleftrightarrow> is_delete_all (Inst_Name i) (Inst_Delete i) \<and>
     (\<forall>r \<in> set (opt_list (Inst_SRV i)). is_add_at (Inst_Name i) {33} r) \<and>
     (\<forall>r \<in> set (Inst_TXT i). is_add_at (Inst_Name i) {16} r) \<and>
     (\<forall>k. Inst_Key i = Some k \<longrightarrow> is_add_at (Inst_Name i) {25} (of_key k))"

definition discovery_ok :: "ServiceDiscovery \<Rightarrow> bool" where
  "discovery_ok d \<longleftrightarrow> Disc_Name d = Fold (rr_name (Disc_RR d)) \<and> rr_data (Disc_RR d) = PTR_data (ptr_target (Disc_RR d)) \<and>
     Disc_Target d = Fold (ptr_target (Disc_RR d)) \<and>
     rr_class (Disc_RR d) = (if IsAdd d then ClassINET else ClassNONE) \<and>
     BaseType d = baseTypeOrEmpty (isSubtypePTROwner (Disc_Name d))"

definition host_records :: "HostDescription \<Rightarrow> rr set" where
  "host_records h = insert (Host_Delete h) (set (Host_Addresses h) \<union> of_key ` set (opt_list (Host_Key h)))"

definition instance_records :: "ServiceInstance \<Rightarrow> rr set" where
  "instance_records i = insert (Inst_Delete i)
     (set (opt_list (Inst_SRV i)) \<union> set (Inst_TXT i) \<union> of_key ` set (opt_list (Inst_Key i)))"

definition accepted_shape :: "rr list \<Rightarrow> ClassifiedUpdate \<Rightarrow> bool" where
  "accepted_shape ns cu \<longleftrightarrow>
     host_ok (Host cu) \<and> Host_Key (Host cu) \<noteq> None \<and>
     distinct (map Inst_Name (Instances cu)) \<and> (\<forall>i \<in> set (Instances cu). instance_ok i) \<and>
     (\<forall>i \<in> set (Instances cu). \<forall>srv. Inst_SRV i = Some srv \<longrightarrow>
        Inst_TXT i \<noteq> [] \<and> Fold (srv_target srv) = Host_Name (Host cu) \<and>
        (\<exists>d \<in> set (Discovery cu). IsAdd d \<and> Disc_Target d = Inst_Name i)) \<and>
     (\<forall>d \<in> set (Discovery cu). discovery_ok d) \<and>
     (\<forall>d \<in> set (Discovery cu). IsAdd d \<longrightarrow>
        (\<exists>i \<in> set (Instances cu). Inst_Name i = Disc_Target d \<and> Inst_SRV i \<noteq> None)) \<and>
     set ns = host_records (Host cu) \<union> (\<Union>i \<in> set (Instances cu). instance_records i) \<union> Disc_RR ` set (Discovery cu)"

subsection \<open>The scan\<close>

definition deletes_ok :: "rr list \<Rightarrow> rr gomap \<Rightarrow> bool" where
  "deletes_ok ns dels \<longleftrightarrow> mwf dels \<and> (\<forall>(n, d) \<in> set dels. is_delete_all n d) \<and>
     snd ` set dels = {d \<in> set ns. rr_data d = ANY_data}"

definition claimed :: "classifyState \<Rightarrow> string set" where
  "claimed st = Host_Name ` set (opt_list (st_host st)) \<union> Inst_Name ` set (st_order st)"

definition scan_records :: "classifyState \<Rightarrow> rr set" where
  "scan_records st = (\<Union>h \<in> set (opt_list (st_host st)). set (Host_Addresses h)) \<union>
     (\<Union>i \<in> set (st_order st). set (opt_list (Inst_SRV i)) \<union> set (Inst_TXT i)) \<union>
     Disc_RR ` set (discovery st) \<union> of_key ` set (keyAdds st)"

definition scan_ok :: "rr gomap \<Rightarrow> classifyState \<Rightarrow> bool" where
  "scan_ok dels st \<longleftrightarrow>
     deletes st = dels \<and> set (consumed st) = claimed st \<and>
     (\<forall>h \<in> set (opt_list (st_host st)). host_ok h \<and> Host_Key h = None \<and> mget dels (Host_Name h) = Some (Host_Delete h)) \<and>
     distinct (map Inst_Name (st_order st)) \<and>
     (\<forall>i \<in> set (st_order st). instance_ok i \<and> Inst_Key i = None \<and> mget dels (Inst_Name i) = Some (Inst_Delete i)) \<and>
     (\<forall>d \<in> set (discovery st). discovery_ok d) \<and>
     (\<forall>k \<in> set (keyAdds st). key_class k = ClassINET)"

text \<open>One step of the scan: the invariant holds again and the record \<open>r\<close> is kept.\<close>

definition takes :: "rr gomap \<Rightarrow> rr \<Rightarrow> classifyState \<Rightarrow> classifyState \<Rightarrow> bool" where
  "takes dels r st st' \<longleftrightarrow> scan_ok dels st' \<and> scan_records st' = insert r (scan_records st)"

lemma opt_list_simps [simp]: "opt_list None = []" "opt_list (Some a) = [a]"
  by (simp_all add: opt_list_def)

lemma find_instance_Some: "find_instance n is = Some i \<Longrightarrow> i \<in> set is \<and> Inst_Name i = n"
  by (auto simp: find_instance_def find_Some_iff)

lemma find_instance_None: "find_instance n is = None \<longleftrightarrow> n \<notin> Inst_Name ` set is"
  by (auto simp: find_instance_def find_None_iff)

lemma find_instance_distinct:
  "distinct (map Inst_Name is) \<Longrightarrow> i \<in> set is \<Longrightarrow> find_instance (Inst_Name i) is = Some i"
  by (induction "is") (auto simp: find_instance_def)

lemma collect_deletes_ok:
  assumes "collect_deletes rs dels = Inr dels'" and "deletes_ok ns dels"
  shows "deletes_ok (ns @ rs) dels'"
  using assms
proof (induction rs dels arbitrary: ns rule: collect_deletes.induct)
  case (2 r rs dels)
  show ?case
  proof (cases "rr_data r = ANY_data")
    case True
    have new: "mget dels (Fold (rr_name r)) = None"
      and rest: "collect_deletes rs (mput (Fold (rr_name r)) r dels) = Inr dels'"
      using "2.prems" True by (auto simp: Let_def split: if_splits)
    have "Fold (rr_name r) \<notin> fst ` set dels" using new by (simp add: mget_def map_of_eq_None_iff)
    then have "mput (Fold (rr_name r)) r dels = dels @ [(Fold (rr_name r), r)]"
      unfolding mput_def by (induction dels) auto
    then have "deletes_ok (ns @ [r]) (mput (Fold (rr_name r)) r dels)"
      using "2.prems"(2) True \<open>Fold (rr_name r) \<notin> fst ` set dels\<close>
      by (auto simp: deletes_ok_def mwf_def is_delete_all_def)
    then show ?thesis using "2.IH"(1) [OF True refl, of "ns @ [r]"] rest new by simp
  next
    case False
    have "deletes_ok (ns @ [r]) dels" using "2.prems"(2) False by (auto simp: deletes_ok_def)
    then show ?thesis using "2.IH"(2) [OF False, of "ns @ [r]"] "2.prems"(1) False by simp
  qed
qed simp

lemma deletes_ok_mget: "deletes_ok ns dels \<Longrightarrow> mget dels n = Some d \<Longrightarrow> is_delete_all n d"
  by (auto simp: deletes_ok_def dest: mget_Some_set)

lemma addHostAddress_ok:
  assumes "addHostAddress (Fold (rr_name r)) r st = Inr st'" "scan_ok dels st" "deletes_ok ns dels"
    and "is_add_at (Fold (rr_name r)) {1, 28} r"
  shows "takes dels r st st'"
proof -
  from assms(1,2) obtain del where del: "mget dels (Fold (rr_name r)) = Some del"
    by (auto simp: addHostAddress_def scan_ok_def split: option.splits)
  have d: "is_delete_all (Fold (rr_name r)) del" using deletes_ok_mget [OF assms(3) del] .
  show ?thesis
  proof (cases "st_host st")
    case None
    then show ?thesis
      using assms del d
      by (auto simp: takes_def addHostAddress_def scan_ok_def claimed_def scan_records_def host_ok_def)
  next
    case (Some h)
    then show ?thesis
      using assms del d
      by (auto simp: takes_def addHostAddress_def scan_ok_def claimed_def scan_records_def host_ok_def split: if_splits)
  qed
qed

lemma instanceFor_ok:
  assumes "instanceFor n st = Inr (i, st')" "scan_ok dels st" "deletes_ok ns dels"
  shows "scan_ok dels st'" "scan_records st' = scan_records st" "i \<in> set (st_order st')" "Inst_Name i = n"
proof -
  have "scan_ok dels st' \<and> scan_records st' = scan_records st \<and> i \<in> set (st_order st') \<and> Inst_Name i = n"
  proof (cases "find_instance n (st_order st)")
    case None
    then obtain del where del: "mget dels n = Some del"
      and r: "i = \<lparr>Inst_Name = n, Inst_Delete = del, Inst_Key = None, Inst_SRV = None, Inst_TXT = [], removalShaped = False\<rparr>"
        "st' = st\<lparr>st_order := st_order st @ [i], consumed := n # consumed st\<rparr>"
      using assms(1,2) by (auto simp: instanceFor_def Let_def scan_ok_def split: option.splits)
    have "is_delete_all n del" using deletes_ok_mget [OF assms(3) del] .
    moreover have "n \<notin> Inst_Name ` set (st_order st)" using None by (simp add: find_instance_None)
    ultimately show ?thesis
      using assms(2) del by (auto simp: r scan_ok_def claimed_def scan_records_def instance_ok_def)
  next
    case (Some j)
    then show ?thesis using assms find_instance_Some [OF Some] by (auto simp: instanceFor_def)
  qed
  then show "scan_ok dels st'" "scan_records st' = scan_records st" "i \<in> set (st_order st')" "Inst_Name i = n" by auto
qed

text \<open>An instance gets one more record.\<close>

lemma update_instance_map:
  assumes "distinct (map Inst_Name is)" "i \<in> set is"
  shows "map (\<lambda>j. if Inst_Name j = Inst_Name i then f j else j) is = map (\<lambda>j. if j = i then f i else j) is"
  using assms by (auto simp: distinct_map dest: inj_onD)

lemma update_instance_ok:
  assumes ok: "scan_ok dels st" and i: "i \<in> set (st_order st)"
    and f: "Inst_Name (f i) = Inst_Name i" "Inst_Delete (f i) = Inst_Delete i" "Inst_Key (f i) = Inst_Key i" "instance_ok (f i)"
    and rec: "set (opt_list (Inst_SRV (f i))) \<union> set (Inst_TXT (f i)) = insert r (set (opt_list (Inst_SRV i)) \<union> set (Inst_TXT i))"
  shows "takes dels r st (update_instance (Inst_Name i) f st)"
proof -
  define is' where "is' = map (\<lambda>j. if j = i then f i else j) (st_order st)"
  have d: "distinct (map Inst_Name (st_order st))" using ok by (simp add: scan_ok_def)
  have st': "update_instance (Inst_Name i) f st = st\<lparr>st_order := is'\<rparr>"
    by (simp add: update_instance_def update_instance_map [OF d i] is'_def)
  have names: "map Inst_Name is' = map Inst_Name (st_order st)"
    using f(1) by (simp add: is'_def)
  have nset: "Inst_Name ` set is' = Inst_Name ` set (st_order st)"
    using arg_cong [OF names, of set] by simp
  have "set is' = insert (f i) (set (st_order st) - {i})" using i by (auto simp: is'_def)
  then have recs: "(\<Union>j \<in> set is'. set (opt_list (Inst_SRV j)) \<union> set (Inst_TXT j)) =
      insert r (\<Union>j \<in> set (st_order st). set (opt_list (Inst_SRV j)) \<union> set (Inst_TXT j))"
    using i rec by auto
  have each: "\<forall>j \<in> set is'. instance_ok j \<and> Inst_Key j = None \<and> mget dels (Inst_Name j) = Some (Inst_Delete j)"
    using ok i f by (auto simp: scan_ok_def is'_def)
  have cl: "claimed (st\<lparr>st_order := is'\<rparr>) = claimed st" by (simp add: claimed_def nset)
  have sr: "scan_records (st\<lparr>st_order := is'\<rparr>) = insert r (scan_records st)"
    by (simp add: scan_records_def recs)
  show ?thesis
    using ok each names by (simp add: takes_def st' sr scan_ok_def cl)
qed

lemma addPTR_ok:
  assumes "addPTR (Fold (rr_name r)) r ptr st = Inr st'" "rr_data r = PTR_data ptr" "scan_ok dels st"
  shows "takes dels r st st'"
proof -
  obtain b where b: "b \<longleftrightarrow> rr_class r = ClassINET" "\<not> b \<longrightarrow> rr_class r = ClassNONE"
    and st': "st' = st\<lparr>discovery := discovery st @ [\<lparr>Disc_Name = Fold (rr_name r), Disc_Target = Fold ptr, IsAdd = b,
      Disc_RR = r, BaseType = baseTypeOrEmpty (isSubtypePTROwner (Fold (rr_name r)))\<rparr>]\<rparr>"
    using assms(1) by (auto simp: addPTR_def Let_def split: if_splits option.splits)
  then show ?thesis
    using assms(2,3)
    by (auto simp: takes_def scan_ok_def claimed_def scan_records_def discovery_ok_def ptr_target_def RRToType_def)
qed

lemma classify_rr_ok:
  assumes "classify_rr r st = Inr st'" "scan_ok dels st" "deletes_ok ns dels" "rr_data r \<noteq> ANY_data"
  shows "takes dels r st st'"
proof (cases "rr_data r")
  case (A_data a)
  then show ?thesis
    using assms addHostAddress_ok [of r st st' dels ns]
    by (auto simp: classify_rr_def Let_def is_add_at_def RRToType_def split: if_splits)
next
  case (AAAA_data a)
  then show ?thesis
    using assms addHostAddress_ok [of r st st' dels ns]
    by (auto simp: classify_rr_def Let_def is_add_at_def RRToType_def split: if_splits)
next
  case (PTR_data ptr)
  then show ?thesis using assms addPTR_ok by (auto simp: classify_rr_def)
next
  case (KEY_data f p a k)
  then show ?thesis
    using assms
    by (auto simp: classify_rr_def Let_def takes_def scan_ok_def claimed_def scan_records_def of_key_def split: if_splits)
next
  case (SRV_data p w q t)
  then obtain i st1 where i: "instanceFor (Fold (rr_name r)) st = Inr (i, st1)" and none: "Inst_SRV i = None"
    and c: "rr_class r = ClassINET" and st': "st' = update_instance (Fold (rr_name r)) (\<lambda>i. i\<lparr>Inst_SRV := Some r\<rparr>) st1"
    using assms(1) by (auto simp: classify_rr_def Let_def split: if_splits sum.splits)
  note ok = instanceFor_ok [OF i assms(2,3)]
  have "instance_ok i" using ok by (auto simp: scan_ok_def)
  then have "takes dels r st1 (update_instance (Inst_Name i) (\<lambda>i. i\<lparr>Inst_SRV := Some r\<rparr>) st1)"
    by (intro update_instance_ok [OF ok(1,3)])
       (use SRV_data c none ok(4) in \<open>auto simp: instance_ok_def is_add_at_def RRToType_def\<close>)
  then show ?thesis by (simp add: st' ok takes_def)
next
  case (TXT_data x)
  then obtain i st1 where i: "instanceFor (Fold (rr_name r)) st = Inr (i, st1)"
    and c: "rr_class r = ClassINET" and st': "st' = update_instance (Fold (rr_name r)) (\<lambda>i. i\<lparr>Inst_TXT := Inst_TXT i @ [r]\<rparr>) st1"
    using assms(1) by (auto simp: classify_rr_def Let_def split: if_splits sum.splits)
  note ok = instanceFor_ok [OF i assms(2,3)]
  have "instance_ok i" using ok by (auto simp: scan_ok_def)
  then have "takes dels r st1 (update_instance (Inst_Name i) (\<lambda>i. i\<lparr>Inst_TXT := Inst_TXT i @ [r]\<rparr>) st1)"
    by (intro update_instance_ok [OF ok(1,3)])
       (use TXT_data c ok(4) in \<open>auto simp: instance_ok_def is_add_at_def RRToType_def\<close>)
  then show ?thesis by (simp add: st' ok takes_def)
qed (use assms in \<open>auto simp: classify_rr_def Let_def\<close>)

lemma classify_all_ok:
  assumes "classify_all rs st = Inr st'" "scan_ok dels st" "deletes_ok ns dels"
  shows "scan_ok dels st' \<and> scan_records st' = scan_records st \<union> {r \<in> set rs. rr_data r \<noteq> ANY_data}"
  using assms(1,2)
proof (induction rs arbitrary: st)
  case (Cons r rs)
  then obtain st1 where r: "classify_rr r st = Inr st1" and rs: "classify_all rs st1 = Inr st'"
    by (auto split: sum.splits)
  show ?case
  proof (cases "rr_data r = ANY_data")
    case True
    then show ?thesis using Cons.IH Cons.prems(2) r rs by (auto simp: classify_rr_def Let_def)
  next
    case False
    then have "takes dels r st st1" using classify_rr_ok [OF r Cons.prems(2) assms(3)] by simp
    then show ?thesis using Cons.IH [OF rs] False by (auto simp: takes_def)
  qed
qed simp

subsection \<open>The reconciliation\<close>

lemma host_fallback_ok:
  assumes "host_fallback st = Some (h, st')" "scan_ok dels st" "deletes_ok ns dels"
  shows "scan_ok dels st'" "st_host st' = Some h" "scan_records st' = scan_records st"
proof -
  have "scan_ok dels st' \<and> st_host st' = Some h \<and> scan_records st' = scan_records st"
  proof (cases "st_host st")
    case None
    define P where "P = (\<lambda>k :: key. mget dels (Fold (key_name k)) \<noteq> None \<and> Fold (key_name k) \<notin> set (consumed st))"
    have dels: "deletes st = dels" using assms(2) by (simp add: scan_ok_def)
    from None assms(1) obtain k where f: "find P (keyAdds st) = Some k"
      and r: "h = \<lparr>Host_Name = Fold (key_name k), Host_Delete = the (mget dels (Fold (key_name k))), Host_Key = None, Host_Addresses = []\<rparr>"
        "st' = st\<lparr>st_host := Some h, consumed := Fold (key_name k) # consumed st\<rparr>"
      by (auto simp: host_fallback_def Let_def dels P_def split: option.splits)
    have "P k" using f by (auto simp: find_Some_iff)
    then obtain d where d: "mget dels (Fold (key_name k)) = Some d" by (auto simp: P_def)
    show ?thesis
      using assms(2) None d deletes_ok_mget [OF assms(3) d]
      by (auto simp: r scan_ok_def claimed_def scan_records_def host_ok_def)
  qed (use assms in \<open>simp add: host_fallback_def\<close>)
  then show "scan_ok dels st'" "st_host st' = Some h" "scan_records st' = scan_records st" by auto
qed

lemma check_targets_None:
  assumes "check_targets is ds = None" "d \<in> set ds" "IsAdd d"
  obtains i where "find_instance (Disc_Target d) is = Some i" "Inst_SRV i \<noteq> None"
  using assms by (induction ds) (auto split: if_splits option.splits)

lemma check_instances_None:
  "check_instances hn referenced is = None \<Longrightarrow> i \<in> set is \<Longrightarrow> Inst_SRV i = Some srv \<Longrightarrow>
   Inst_TXT i \<noteq> [] \<and> Fold (srv_target srv) = hn \<and> Inst_Name i \<in> set referenced"
  by (induction "is") (auto split: if_splits option.splits)

definition without_key :: "ServiceInstance \<Rightarrow> ServiceInstance" where
  "without_key i = i\<lparr>Inst_Key := None\<rparr>"

definition keys_of :: "HostDescription \<Rightarrow> ServiceInstance list \<Rightarrow> key set" where
  "keys_of h is = set (opt_list (Host_Key h)) \<union> (\<Union>i \<in> set is. set (opt_list (Inst_Key i)))"

lemma without_key_simps [simp]:
  "Inst_Name (without_key i) = Inst_Name i" "Inst_Delete (without_key i) = Inst_Delete i"
  "Inst_SRV (without_key i) = Inst_SRV i" "Inst_TXT (without_key i) = Inst_TXT i"
  by (simp_all add: without_key_def)

lemma same_names: "map without_key is' = map without_key is \<Longrightarrow> map Inst_Name is' = map Inst_Name is"
  by (drule arg_cong [where f = "map Inst_Name"]) (simp add: comp_def)

lemma same_instance: "map without_key is' = map without_key is \<Longrightarrow> i' \<in> set is' \<Longrightarrow> \<exists>i \<in> set is. without_key i' = without_key i"
  by (drule arg_cong [where f = set]) (auto simp: set_eq_iff image_iff)

text \<open>What does not depend on the keys is the same for both lists.\<close>

lemma same_image:
  assumes "map without_key is' = map without_key is" "\<And>i. g (without_key i) = g i"
  shows "g ` set is' = g ` set is"
proof -
  have "g ` set js = g ` without_key ` set js" for js by (simp add: image_image assms(2))
  then show ?thesis using arg_cong [OF assms(1), of set] by simp
qed

lemma own_keys_ok:
  assumes "own_keys ks h is = Inr (h', is')" "distinct (map Inst_Name is)" "\<forall>k \<in> set ks. key_class k = ClassINET"
    and "host_ok h" "\<forall>i \<in> set is. instance_ok i"
  shows "host_ok h' \<and> h'\<lparr>Host_Key := None\<rparr> = h\<lparr>Host_Key := None\<rparr> \<and> (\<forall>i \<in> set is'. instance_ok i) \<and>
    map without_key is' = map without_key is \<and> keys_of h' is' = keys_of h is \<union> set ks"
  using assms
proof (induction ks h "is" rule: own_keys.induct)
  case (2 k ks h "is")
  let ?n = "Fold (key_name k)"
  have add: "is_add_at ?n {25} (of_key k)" using "2.prems"(3) by (simp add: is_add_at_def of_key_def RRToType_def)
  show ?case
  proof (cases "?n = Host_Name h")
    case True
    then have r: "Host_Key h = None" "own_keys ks (h\<lparr>Host_Key := Some k\<rparr>) is = Inr (h', is')"
      using "2.prems"(1) by (auto simp: Let_def split: if_splits)
    have "host_ok (h\<lparr>Host_Key := Some k\<rparr>)" using "2.prems"(4) add True by (auto simp: host_ok_def)
    then have "host_ok h' \<and> h'\<lparr>Host_Key := None\<rparr> = h\<lparr>Host_Key := None\<rparr> \<and> (\<forall>i \<in> set is'. instance_ok i) \<and>
        map without_key is' = map without_key is \<and> keys_of h' is' = keys_of (h\<lparr>Host_Key := Some k\<rparr>) is \<union> set ks"
      using "2.IH"(1) [OF refl True r(1) r(2)] "2.prems" by simp
    then show ?thesis using r(1) by (auto simp: keys_of_def)
  next
    case False
    then obtain i where f: "find_instance ?n is = Some i" and i: "Inst_Key i = None"
      and r: "own_keys ks h (map (\<lambda>j. if Inst_Name j = ?n then j\<lparr>Inst_Key := Some k\<rparr> else j) is) = Inr (h', is')"
      using "2.prems"(1) by (auto simp: Let_def split: if_splits option.splits)
    define js where "js = map (\<lambda>j. if j = i then i\<lparr>Inst_Key := Some k\<rparr> else j) is"
    have im: "i \<in> set is" "Inst_Name i = ?n" using find_instance_Some [OF f] by auto
    have js: "map (\<lambda>j. if Inst_Name j = ?n then j\<lparr>Inst_Key := Some k\<rparr> else j) is = js"
      using update_instance_map [OF "2.prems"(2) im(1)] by (simp add: js_def im(2))
    have w: "map without_key js = map without_key is" by (simp add: js_def without_key_def)
    have "\<forall>j \<in> set js. instance_ok j" using "2.prems"(5) im add by (auto simp: js_def instance_ok_def)
    moreover have "distinct (map Inst_Name js)" using same_names [OF w] "2.prems"(2) by simp
    ultimately have "host_ok h' \<and> h'\<lparr>Host_Key := None\<rparr> = h\<lparr>Host_Key := None\<rparr> \<and> (\<forall>i \<in> set is'. instance_ok i) \<and>
        map without_key is' = map without_key js \<and> keys_of h' is' = keys_of h js \<union> set ks"
      using "2.IH"(2) [OF refl False f] i r "2.prems" by (simp add: js)
    moreover have "set js = insert (i\<lparr>Inst_Key := Some k\<rparr>) (set is - {i})" using im(1) by (auto simp: js_def)
    then have "keys_of h js = insert k (keys_of h is)" using im(1) i by (auto simp: keys_of_def)
    ultimately show ?thesis using w by auto
  qed
qed auto

lemma union_parts: "C \<union> H \<subseteq> S \<Longrightarrow> S = N \<union> K \<Longrightarrow> K \<subseteq> C \<union> H \<Longrightarrow> (C \<union> N) \<union> H = S"
  by blast

lemma removals_ok:
  assumes "scan_ok dels st" "deletes_ok ns dels"
  shows "distinct (map Inst_Name (st_order st @ removals st))"
    and "\<forall>i \<in> set (st_order st @ removals st). instance_ok i"
    and "\<forall>i \<in> set (removals st). Inst_SRV i = None \<and> Inst_TXT i = [] \<and> Inst_Key i = None"
    and "Inst_Delete ` set (st_order st @ removals st) \<union> Host_Delete ` set (opt_list (st_host st)) = {d \<in> set ns. rr_data d = ANY_data}"
proof -
  have dels: "deletes st = dels" and con: "set (consumed st) = claimed st" using assms(1) by (auto simp: scan_ok_def)
  have m: "mwf dels" "\<And>n d. (n, d) \<in> set dels \<Longrightarrow> is_delete_all n d" "snd ` set dels = {d \<in> set ns. rr_data d = ANY_data}"
    using assms(2) by (auto simp: deletes_ok_def)
  have names: "map Inst_Name (removals st) = map fst (filter (\<lambda>nd. fst nd \<notin> claimed st) dels)"
    by (simp add: removals_def removal_instance_def comp_def dels con)
  have "distinct (map Inst_Name (removals st))"
    unfolding names using m(1) by (simp add: mwf_def distinct_map_filter)
  moreover have "Inst_Name ` set (st_order st) \<inter> Inst_Name ` set (removals st) = {}"
    using arg_cong [OF names, of set] by (auto simp: claimed_def)
  ultimately show "distinct (map Inst_Name (st_order st @ removals st))"
    using assms(1) by (auto simp: scan_ok_def)
  show "\<forall>i \<in> set (st_order st @ removals st). instance_ok i"
    using assms(1) m(2) by (auto simp: scan_ok_def removals_def removal_instance_def instance_ok_def dels)
  show "\<forall>i \<in> set (removals st). Inst_SRV i = None \<and> Inst_TXT i = [] \<and> Inst_Key i = None"
    by (auto simp: removals_def removal_instance_def)
  have rem: "Inst_Delete ` set (removals st) = {d. \<exists>n. (n, d) \<in> set dels \<and> n \<notin> claimed st}"
    by (force simp: removals_def removal_instance_def dels con)
  have got: "mget dels (Host_Name h) = Some (Host_Delete h)" if "st_host st = Some h" for h
    using assms(1) that by (simp add: scan_ok_def)
  have goti: "mget dels (Inst_Name i) = Some (Inst_Delete i)" if "i \<in> set (st_order st)" for i
    using assms(1) that by (simp add: scan_ok_def)
  have cl: "n \<in> claimed st \<Longrightarrow> (n, d) \<in> set dels \<Longrightarrow>
      d \<in> Inst_Delete ` set (st_order st) \<union> Host_Delete ` set (opt_list (st_host st))" for n d
    using got goti m(1) by (cases "st_host st") (auto simp: claimed_def mget_iff_set [OF m(1), symmetric])
  have "Inst_Delete ` set (st_order st) \<union> Host_Delete ` set (opt_list (st_host st)) \<subseteq> snd ` set dels"
    using got [THEN mget_Some_set] goti [THEN mget_Some_set]
    by (cases "st_host st") (auto simp: image_iff Bex_def, blast+)
  moreover have "snd ` set dels = {d. \<exists>n. (n, d) \<in> set dels \<and> n \<notin> claimed st} \<union> {d. \<exists>n. (n, d) \<in> set dels \<and> n \<in> claimed st}"
    by force
  moreover have "{d. \<exists>n. (n, d) \<in> set dels \<and> n \<in> claimed st} \<subseteq> Inst_Delete ` set (st_order st) \<union> Host_Delete ` set (opt_list (st_host st))"
    using cl by blast
  ultimately show "Inst_Delete ` set (st_order st @ removals st) \<union> Host_Delete ` set (opt_list (st_host st)) =
      {d \<in> set ns. rr_data d = ANY_data}"
    unfolding m(3) [symmetric] set_append image_Un rem by (rule union_parts)
qed

lemma srp_reconcile_shape:
  assumes r: "srp_reconcile st0 = Inr cu" and ok: "scan_ok dels st0" and d: "deletes_ok ns dels"
    and seen: "scan_records st0 = {r \<in> set ns. rr_data r \<noteq> ANY_data}"
  shows "accepted_shape ns cu"
proof -
  from r obtain h st h' is' where h: "host_fallback st0 = Some (h, st)"
    and ct: "check_targets (st_order st) (discovery st) = None"
    and ci: "check_instances (Host_Name h) (map Disc_Target (filter IsAdd (discovery st))) (st_order st) = None"
    and ow: "own_keys (keyAdds st) h (st_order st @ removals st) = Inr (h', is')"
    and hk: "Host_Key h' \<noteq> None" and cu: "cu = \<lparr>Host = h', Instances = is', Discovery = discovery st\<rparr>"
    by (auto simp: srp_reconcile_def split: option.splits sum.splits if_splits)
  note f = host_fallback_ok [OF h ok d] and rem = removals_ok [OF host_fallback_ok(1) [OF h ok d] d]
  have ho: "host_ok h" "Host_Key h = None" "\<forall>k \<in> set (keyAdds st). key_class k = ClassINET"
    "\<forall>i \<in> set (st_order st). Inst_Key i = None" "\<forall>x \<in> set (discovery st). discovery_ok x"
    using f(1,2) by (auto simp: scan_ok_def)
  note o = own_keys_ok [OF ow rem(1) ho(3,1) rem(2)]
  have names: "map Inst_Name is' = map Inst_Name (st_order st @ removals st)" using o same_names by blast
  have sh: "Host_Name h' = Host_Name h" "Host_Delete h' = Host_Delete h" "Host_Addresses h' = Host_Addresses h"
    using o by (auto dest: arg_cong [where f = Host_Name] arg_cong [where f = Host_Delete] arg_cong [where f = Host_Addresses])
  have live: "\<exists>i0 \<in> set (st_order st). without_key i = without_key i0" if im: "i \<in> set is'" and srv: "Inst_SRV i \<noteq> None" for i
  proof -
    obtain i0 where "i0 \<in> set (st_order st @ removals st)" "without_key i = without_key i0"
      using same_instance [OF _ im] o by blast
    moreover have "Inst_SRV i0 \<noteq> None" using calculation(2) srv by (metis without_key_simps(3))
    ultimately show ?thesis using rem(3) by auto
  qed
  have A: "\<forall>i \<in> set is'. \<forall>srv. Inst_SRV i = Some srv \<longrightarrow> Inst_TXT i \<noteq> [] \<and> Fold (srv_target srv) = Host_Name h' \<and>
      (\<exists>d \<in> set (discovery st). IsAdd d \<and> Disc_Target d = Inst_Name i)"
  proof (intro ballI allI impI)
    fix i srv assume i: "i \<in> set is'" "Inst_SRV i = Some srv"
    then obtain i0 where i0: "i0 \<in> set (st_order st)" "without_key i = without_key i0" using live by blast
    then have "Inst_SRV i0 = Some srv" "Inst_TXT i = Inst_TXT i0" "Inst_Name i = Inst_Name i0"
      using i(2) by (metis without_key_simps)+
    then show "Inst_TXT i \<noteq> [] \<and> Fold (srv_target srv) = Host_Name h' \<and> (\<exists>d \<in> set (discovery st). IsAdd d \<and> Disc_Target d = Inst_Name i)"
      using check_instances_None [OF ci i0(1)] sh by auto
  qed
  have B: "\<forall>d \<in> set (discovery st). IsAdd d \<longrightarrow> (\<exists>i \<in> set is'. Inst_Name i = Disc_Target d \<and> Inst_SRV i \<noteq> None)"
  proof (intro ballI impI)
    fix x assume "x \<in> set (discovery st)" "IsAdd x"
    then obtain i where "find_instance (Disc_Target x) (st_order st) = Some i" "Inst_SRV i \<noteq> None"
      using check_targets_None [OF ct] by blast
    then have i: "i \<in> set (st_order st)" "Inst_Name i = Disc_Target x" "Inst_SRV i \<noteq> None" using find_instance_Some by auto
    have "map without_key (st_order st @ removals st) = map without_key is'" using o by simp
    then obtain i' where "i' \<in> set is'" "without_key i = without_key i'" using same_instance i(1) by (metis UnI1 set_append)
    then show "\<exists>i \<in> set is'. Inst_Name i = Disc_Target x \<and> Inst_SRV i \<noteq> None"
      using i by (metis without_key_simps(1,3))
  qed
  have "set ns = host_records h' \<union> (\<Union>i \<in> set is'. instance_records i) \<union> Disc_RR ` set (discovery st)"
  proof -
    have hr: "host_records h' = insert (Host_Delete h) (set (Host_Addresses h)) \<union> of_key ` set (opt_list (Host_Key h'))"
      by (simp add: host_records_def sh)
    have ir: "(\<Union>i \<in> set is'. instance_records i) = Inst_Delete ` set is' \<union>
        (\<Union>i \<in> set is'. set (opt_list (Inst_SRV i)) \<union> set (Inst_TXT i)) \<union> of_key ` (\<Union>i \<in> set is'. set (opt_list (Inst_Key i)))"
      by (auto simp: instance_records_def)
    have w: "map without_key is' = map without_key (st_order st @ removals st)" using o by blast
    have i1: "Inst_Delete ` set is' = Inst_Delete ` set (st_order st @ removals st)" by (rule same_image [OF w]) simp
    have "(\<lambda>i. set (opt_list (Inst_SRV i)) \<union> set (Inst_TXT i)) ` set is' =
        (\<lambda>i. set (opt_list (Inst_SRV i)) \<union> set (Inst_TXT i)) ` set (st_order st @ removals st)"
      by (rule same_image [OF w]) simp
    then have i2: "(\<Union>i \<in> set is'. set (opt_list (Inst_SRV i)) \<union> set (Inst_TXT i)) =
        (\<Union>i \<in> set (st_order st). set (opt_list (Inst_SRV i)) \<union> set (Inst_TXT i))"
      using rem(3) by simp
    have "keys_of h (st_order st @ removals st) = {}" using ho(2,4) rem(3) by (auto simp: keys_of_def)
    then have i3: "of_key ` set (opt_list (Host_Key h')) \<union> of_key ` (\<Union>i \<in> set is'. set (opt_list (Inst_Key i))) = of_key ` set (keyAdds st)"
      using o unfolding keys_of_def image_Un [symmetric] by simp
    have "set ns = {x \<in> set ns. rr_data x = ANY_data} \<union> scan_records st" using seen f(3) by auto
    also have "\<dots> = Inst_Delete ` set (st_order st @ removals st) \<union> {Host_Delete h} \<union> scan_records st"
      using rem(4) f(2) by simp
    finally have "set ns = Inst_Delete ` set (st_order st @ removals st) \<union> {Host_Delete h} \<union> scan_records st" .
    then show ?thesis
      unfolding hr ir i1 i2 scan_records_def f(2) i3 [symmetric] by auto
  qed
  then show ?thesis
    using o A B ho(5) hk names rem(1) by (simp add: accepted_shape_def cu)
qed

lemma Classify_shape:
  assumes "Classify (Some m) = Inr cu"
  shows "accepted_shape (msg_Ns m) cu"
proof -
  let ?st = "\<lambda>dels. \<lparr>deletes = dels, consumed = [], st_host = None, st_order = [], discovery = [], keyAdds = []\<rparr>"
  from assms obtain dels st where c: "collect_deletes (msg_Ns m) [] = Inr dels"
    and a: "classify_all (msg_Ns m) (?st dels) = Inr st" and r: "srp_reconcile st = Inr cu"
    by (auto simp: Classify_def split: sum.splits)
  have d: "deletes_ok (msg_Ns m) dels"
    using collect_deletes_ok [OF c, of "[]"] by (simp add: deletes_ok_def mwf_def)
  have "scan_ok dels (?st dels)" "scan_records (?st dels) = {}"
    by (simp_all add: scan_ok_def claimed_def scan_records_def)
  then have "scan_ok dels st" "scan_records st = {r \<in> set (msg_Ns m). rr_data r \<noteq> ANY_data}"
    using classify_all_ok [OF a _ d] by auto
  then show ?thesis using srp_reconcile_shape [OF r _ d] by blast
qed

lemma accepted_key: "accepted_shape ns cu \<Longrightarrow> \<exists>k. Host_Key (Host cu) = Some k"
  by (auto simp: accepted_shape_def)

subsection \<open>Validation\<close>

lemma check_keys_None: "check_keys k ks = None \<longleftrightarrow> (\<forall>k' \<in> set ks. keysIdentical k k')"
  by (induction ks) auto

lemma check_service_names_None:
  "check_service_names ds = None \<longleftrightarrow> (\<forall>d \<in> set ds. IsAdd d \<longrightarrow>
     ServiceTypeFromServiceName (disc_base d) \<noteq> None \<and> fst (snd (CutFirstLabel (Disc_Target d))) = disc_base d)"
  by (induction ds) auto

text \<open>The two entry points agree: the handler's reuse of step 1's classification changes nothing.\<close>

lemma srp_Validate_iff:
  "srp_Validate m = Inr cu \<longleftrightarrow> Classify m = Inr cu \<and> ValidateClassified m cu = None"
  by (cases m) (auto simp: srp_Validate_def ValidateClassified_def Classify_def split: sum.splits option.splits)

end
