(* ===== verification/Srp_Fcfs.thy ===== *)
theory Srp_Fcfs
  imports Srp_Structure
begin

text \<open>
  First come, first served naming (\<open>pkg/srp/fcfs.go\<close>) and the requester's reading of a response
  (\<open>pkg/srp/response.go\<close>).

  \<open>Evaluate\<close> takes the lease store's view and the authoritative query as functions; a nil argument
  is \<open>None\<close>, a failed query as well. The theorem looks at a zone at two moments: when the query
  is answered and when the UPDATE with its prerequisites is carried out.
\<close>

subsection \<open>Evaluate\<close>

datatype AuthoritativeKeyState = AuthNXDomain | AuthNoKey | AuthKeyPresent

datatype FCFSResult = FCFSProceed | FCFSConflict | FCFSForeignData

datatype fcfs_error = NilStoreView | NilUpdateKey | NoQuery string | QueryFailed string

definition nameNotInUsePrerequisite :: "string \<Rightarrow> rr" where
  "nameNotInUsePrerequisite name = \<lparr>rr_name = name, rr_class = ClassNONE, rr_ttl = 0, rr_data = ANY_data\<rparr>"

definition keyRRsetDoesNotExistPrerequisite :: "string \<Rightarrow> rr" where
  "keyRRsetDoesNotExistPrerequisite name =
     \<lparr>rr_name = name, rr_class = ClassNONE, rr_ttl = 0, rr_data = RFC3597_data TypeKEY []\<rparr>"

type_synonym key_view = "string \<Rightarrow> key option"
type_synonym key_query = "string \<Rightarrow> string \<Rightarrow> (AuthoritativeKeyState \<times> key list) option"

definition Evaluate ::
  "key_view option \<Rightarrow> key_query option \<Rightarrow> string \<Rightarrow> string \<Rightarrow> key option \<Rightarrow> bool \<Rightarrow>
   fcfs_error + (FCFSResult \<times> rr option)"
where
  "Evaluate view query zoneHint name updateKey refuseOnForeignData =
     (case view of None \<Rightarrow> Inl NilStoreView | Some v \<Rightarrow>
      (case updateKey of None \<Rightarrow> Inl NilUpdateKey | Some u \<Rightarrow>
       (case v name of
          Some k \<Rightarrow> Inr (if keysIdentical k u then FCFSProceed else FCFSConflict, None)
        | None \<Rightarrow>
            (case query of None \<Rightarrow> Inl (NoQuery name) | Some q \<Rightarrow>
             (case q zoneHint name of
                None \<Rightarrow> Inl (QueryFailed name)
              | Some (AuthNXDomain, _) \<Rightarrow>
                  Inr (FCFSProceed, Some (if refuseOnForeignData then nameNotInUsePrerequisite name
                                          else keyRRsetDoesNotExistPrerequisite name))
              | Some (AuthNoKey, _) \<Rightarrow>
                  if refuseOnForeignData then Inr (FCFSForeignData, None)
                  else Inr (FCFSProceed, Some (keyRRsetDoesNotExistPrerequisite name))
              | Some (AuthKeyPresent, keys) \<Rightarrow>
                  Inr (if list_ex (\<lambda>k. keysIdentical k u) keys then FCFSProceed else FCFSConflict, None))))))"

definition Names :: "ClassifiedUpdate \<Rightarrow> string list" where
  "Names cu = Host_Name (Host cu) # map Inst_Name (Instances cu)"

definition keyAtName :: "key \<Rightarrow> string \<Rightarrow> key" where
  "keyAtName k name = k\<lparr>key_name := name\<rparr>"

text \<open>\<open>None\<close> is the panic: a name of neither the host nor an instance, or a host without a key.\<close>

definition KeyFor :: "ClassifiedUpdate \<Rightarrow> string \<Rightarrow> key option" where
  "KeyFor cu name =
     (if name = Host_Name (Host cu) then Host_Key (Host cu)
      else case find_instance name (Instances cu) of
        None \<Rightarrow> None
      | Some i \<Rightarrow>
          (case Inst_Key i of
             Some k \<Rightarrow> Some k
           | None \<Rightarrow> map_option (\<lambda>k. keyAtName k (rr_name (Inst_Delete i))) (Host_Key (Host cu))))"

subsection \<open>Responses\<close>

datatype Outcome = OutcomeSuccess | OutcomeConflict | OutcomeRefused | OutcomeServerFailure | OutcomeOther

definition InterpretResponse :: "msg option \<Rightarrow> Outcome" where
  "InterpretResponse resp =
     (case resp of
        None \<Rightarrow> OutcomeServerFailure
      | Some m \<Rightarrow>
          if msg_Rcode m = RcodeSuccess then OutcomeSuccess
          else if msg_Rcode m = RcodeYXDomain then OutcomeConflict
          else if msg_Rcode m = RcodeRefused then OutcomeRefused
          else if msg_Rcode m = RcodeServerFailure then OutcomeServerFailure
          else OutcomeOther)"

definition GrantedLease :: "msg option \<Rightarrow> (u32 \<times> u32) option" where
  "GrantedLease resp =
     (case FindAndDecode resp of
        Inl _ \<Rightarrow> None
      | Inr lo \<Rightarrow> Some (Lease lo, case KeyLease lo of Some k \<Rightarrow> k | None \<Rightarrow> Lease lo))"

subsection \<open>A zone and its prerequisites\<close>

text \<open>
  The records of a zone as a list. RFC 2136 section 3.2: "name is not in use" asks for no record
  at the name, "RRset does not exist" for none of the type.
\<close>

definition at_zone :: "rr list \<Rightarrow> string \<Rightarrow> rr list" where
  "at_zone Z name = filter (\<lambda>r. Fold (rr_name r) = Fold name) Z"

definition keys_at :: "rr list \<Rightarrow> string \<Rightarrow> key list" where
  "keys_at Z name = List.map_filter as_key (at_zone Z name)"

definition prereq_holds :: "rr list \<Rightarrow> rr \<Rightarrow> bool" where
  "prereq_holds Z p \<longleftrightarrow>
     (if RRToType p = TypeANY then at_zone Z (rr_name p) = []
      else \<not> list_ex (\<lambda>r. RRToType r = RRToType p) (at_zone Z (rr_name p)))"

definition zone_answer :: "rr list \<Rightarrow> string \<Rightarrow> AuthoritativeKeyState \<times> key list" where
  "zone_answer Z name =
     (if at_zone Z name = [] then (AuthNXDomain, [])
      else if keys_at Z name = [] then (AuthNoKey, []) else (AuthKeyPresent, keys_at Z name))"

lemma KeyFor_host: "KeyFor cu (Host_Name (Host cu)) = Host_Key (Host cu)"
  by (simp add: KeyFor_def)

lemma keysIdentical_refl [simp]: "keysIdentical k k"
  by (simp add: keysIdentical_def)

lemma keysIdentical_trans: "keysIdentical a b \<Longrightarrow> keysIdentical b c \<Longrightarrow> keysIdentical a c"
  by (simp add: keysIdentical_def)

lemma keysIdentical_sym: "keysIdentical a b \<Longrightarrow> keysIdentical b a"
  by (simp add: keysIdentical_def)

lemma keysIdentical_keyAtName [simp]: "keysIdentical k (keyAtName k n)"
  by (simp add: keysIdentical_def keyAtName_def)

text \<open>After the checks, every name of the update has a key, and all of them are the host's.\<close>

lemma KeyFor_total:
  assumes "accepted_shape ns cu" "n \<in> set (Names cu)"
  obtains k where "KeyFor cu n = Some k"
proof -
  obtain hk where hk: "Host_Key (Host cu) = Some hk" using accepted_key [OF assms(1)] by blast
  show ?thesis
  proof (cases "n = Host_Name (Host cu)")
    case False
    then have "n \<in> Inst_Name ` set (Instances cu)" using assms(2) by (auto simp: Names_def)
    then obtain i where "find_instance n (Instances cu) = Some i"
      using find_instance_None [of n "Instances cu"] by (cases "find_instance n (Instances cu)") auto
    then show ?thesis using that False hk by (cases "Inst_Key i") (auto simp: KeyFor_def)
  qed (use hk that in \<open>auto simp: KeyFor_def\<close>)
qed

lemma KeyFor_identical:
  assumes "validateKeys cu = None" "KeyFor cu n = Some k" "Host_Key (Host cu) = Some hk"
  shows "keysIdentical hk k"
proof (cases "n = Host_Name (Host cu)")
  case False
  then obtain i where f: "find_instance n (Instances cu) = Some i"
    using assms(2) by (auto simp: KeyFor_def split: option.splits)
  have "i \<in> set (Instances cu)" using find_instance_Some [OF f] by simp
  then have "\<forall>k \<in> set (opt_list (Inst_Key i)). keysIdentical hk k"
    using assms(1,3) by (simp add: validateKeys_def check_keys_None)
  then show ?thesis using assms(2,3) False f by (auto simp: KeyFor_def split: option.splits)
qed (use assms in \<open>simp add: KeyFor_def\<close>)

text \<open>The key of an accepted update's name is at that name.\<close>

lemma KeyFor_name:
  assumes "accepted_shape ns cu" "KeyFor cu n = Some k"
  shows "Fold (key_name k) = n"
proof (cases "n = Host_Name (Host cu)")
  case True
  then show ?thesis using assms by (auto simp: KeyFor_def accepted_shape_def host_ok_def is_add_at_def of_key_def)
next
  case False
  then obtain i where f: "find_instance n (Instances cu) = Some i"
    using assms(2) by (auto simp: KeyFor_def split: option.splits)
  note i = find_instance_Some [OF f]
  then have "instance_ok i" using assms(1) by (simp add: accepted_shape_def)
  then show ?thesis
    using assms(2) False f i
    by (auto simp: KeyFor_def instance_ok_def is_add_at_def is_delete_all_def of_key_def keyAtName_def split: option.splits)
qed

lemma prereq_name:
  "prereq_holds Z (nameNotInUsePrerequisite name) \<Longrightarrow> keys_at Z name = [] \<and> at_zone Z name = []"
  by (simp add: prereq_holds_def nameNotInUsePrerequisite_def RRToType_def TypeANY_def keys_at_def map_filter_def)

lemma prereq_key: "prereq_holds Z (keyRRsetDoesNotExistPrerequisite name) \<Longrightarrow> keys_at Z name = []"
proof (rule ccontr)
  assume p: "prereq_holds Z (keyRRsetDoesNotExistPrerequisite name)" and "keys_at Z name \<noteq> []"
  then obtain k where "k \<in> set (keys_at Z name)" by (meson last_in_set)
  then have "of_key k \<in> set (at_zone Z name)" by (auto simp: keys_at_def map_filter_def as_key_Some)
  then show False
    using p by (auto simp: prereq_holds_def keyRRsetDoesNotExistPrerequisite_def RRToType_def TypeANY_def TypeKEY_def
        list_ex_iff of_key_def)
qed


end
