(* ===== verification/Srp_Handler.thy ===== *)
theory Srp_Handler
  imports Update_Handler Srp_Fcfs
begin

text \<open>
  The RFC 9665 handler (\<open>handlers/srp_handler.go\<close>): \<open>srp_Handle\<close> with its ten steps, the
  enumeration records it keeps in the zone, and its part of lease expiry.

  \<open>srp_request\<close> is everything up to the node locks, \<open>srp_locked\<close> steps 6 to 9 under them. The
  records of a classified update are the message's own in the code, so the TTLs \<open>applyRecordTTL\<close>
  writes reach the forwarded message: here \<open>record_ttl\<close> makes the same change to its copy, and
  \<open>applyRecordTTL_shape\<close> shows that both stay the same records. A panic in \<open>KeyFor\<close> would come
  where the lock names are computed; after that point the key of a name is \<open>the_key\<close>.

  The clock is read at the FCFS lookups (\<open>fcfs_time\<close>), by the store changes (\<open>apply_time\<close>), by
  the timers (\<open>arm_time\<close>) and when the store is listed (\<open>list_time\<close>).
\<close>

subsection \<open>Data\<close>

record SRPHandler =
  srp_zone :: string
  allowUDP :: bool
  refuseOnForeignData :: bool
  rewriteARPA :: bool
  srp_policy :: LeasePolicy
  srp_ttl :: u32
  advertiseRegistrationDomain :: bool

record srpCoordinator =
  base :: coordinator
  QueryKeyAtName :: key_query
  QueryPTRExists :: "string \<Rightarrow> string \<Rightarrow> bool option"

record srp_state =
  core :: proxy
  serviceTypes :: "string list"
  domainEnumPresent :: "bool gomap"

record srp_clock =
  fcfs_time :: time
  apply_time :: time
  arm_time :: time
  list_time :: time

definition leaseStoreView :: "time \<Rightarrow> store \<Rightarrow> key_view" where
  "leaseStoreView now s name = (case FindByName now s name of [] \<Rightarrow> None | r # _ \<Rightarrow> Some (KeyRR r))"

subsection \<open>The zone and its alias\<close>

definition defaultServiceARPA :: string where
  "defaultServiceARPA = ''default.service.arpa.''"

definition zoneEnabled :: "SRPHandler \<Rightarrow> string \<Rightarrow> bool" where
  "zoneEnabled h zone \<longleftrightarrow>
     (let z = Normalize zone in
      if z = Normalize (srp_zone h) then True else rewriteARPA h \<and> z = Normalize defaultServiceARPA)"

definition rewriteZoneSuffix :: "string \<Rightarrow> string \<Rightarrow> string" where
  "rewriteZoneSuffix name realZone =
     (if length name < length defaultServiceARPA then name
      else
        let cut = length name - length defaultServiceARPA; tail = drop cut name in
        if \<not> EqualFold tail defaultServiceARPA then name
        else if cut > 0 \<and> name ! (cut - 1) \<noteq> CHR ''.'' then name
        else take cut name @ realZone)"

definition rewrite_rr :: "string \<Rightarrow> rr \<Rightarrow> rr" where
  "rewrite_rr realZone r =
     r\<lparr>rr_name := rewriteZoneSuffix (rr_name r) realZone,
       rr_data := (case rr_data r of
          SRV_data p w q t \<Rightarrow> SRV_data p w q (rewriteZoneSuffix t realZone)
        | PTR_data t \<Rightarrow> PTR_data (rewriteZoneSuffix t realZone)
        | d \<Rightarrow> d)\<rparr>"

definition rewriteDefaultServiceARPA :: "msg \<Rightarrow> string \<Rightarrow> msg" where
  "rewriteDefaultServiceARPA m realZone = m\<lparr>msg_Ns := map (rewrite_rr realZone) (msg_Ns m)\<rparr>"

subsection \<open>Leases and TTLs\<close>

definition srp_parseLease :: "msg \<Rightarrow> (u32 \<times> u32) option" where
  "srp_parseLease m =
     (case FindOption (Some m) of
        None \<Rightarrow> None
      | Some code \<Rightarrow>
          (case DecodeOption code of
             Inl _ \<Rightarrow> None
           | Inr lo \<Rightarrow> (case KeyLease lo of None \<Rightarrow> None | Some kl \<Rightarrow> Some (Lease lo, kl))))"

definition applyRecordTTL :: "ClassifiedUpdate \<Rightarrow> u32 \<Rightarrow> u32 \<Rightarrow> u32 \<Rightarrow> ClassifiedUpdate" where
  "applyRecordTTL cu ttl lease keyLease =
     (let key_ttl_to = map_option (\<lambda>k. k\<lparr>key_ttl := min ttl keyLease\<rparr>); data_ttl_to = (\<lambda>r. r\<lparr>rr_ttl := min ttl lease\<rparr>) in
      cu\<lparr>Host := (Host cu)\<lparr>Host_Key := key_ttl_to (Host_Key (Host cu)),
             Host_Addresses := map data_ttl_to (Host_Addresses (Host cu))\<rparr>,
         Instances := map (\<lambda>i. i\<lparr>Inst_Key := key_ttl_to (Inst_Key i), Inst_SRV := map_option data_ttl_to (Inst_SRV i),
             Inst_TXT := map data_ttl_to (Inst_TXT i)\<rparr>) (Instances cu),
         Discovery := map (\<lambda>d. if IsAdd d then d\<lparr>Disc_RR := (Disc_RR d)\<lparr>rr_ttl := ttl\<rparr>\<rparr> else d) (Discovery cu)\<rparr>)"

definition record_ttl :: "u32 \<Rightarrow> u32 \<Rightarrow> u32 \<Rightarrow> rr \<Rightarrow> rr" where
  "record_ttl ttl lease keyLease r =
     (if rr_data r = ANY_data then r
      else if RRToType r = 25 then r\<lparr>rr_ttl := min ttl keyLease\<rparr>
      else if RRToType r = 12 then (if rr_class r = ClassINET then r\<lparr>rr_ttl := ttl\<rparr> else r)
      else r\<lparr>rr_ttl := min ttl lease\<rparr>)"

subsection \<open>What is forwarded\<close>

definition the_key :: "ClassifiedUpdate \<Rightarrow> string \<Rightarrow> key" where
  "the_key cu name = the (KeyFor cu name)"

definition synthesizeOmittedInstanceKeys :: "ClassifiedUpdate \<Rightarrow> rr list" where
  "synthesizeOmittedInstanceKeys cu =
     map (\<lambda>i. of_key (the_key cu (Inst_Name i)))
       (filter (\<lambda>i. \<not> (Inst_SRV i = None \<or> Inst_Key i \<noteq> None)) (Instances cu))"

definition is_ptr :: "rr \<Rightarrow> bool" where
  "is_ptr r = (case rr_data r of PTR_data _ \<Rightarrow> True | _ \<Rightarrow> False)"

definition adds_for :: "ClassifiedUpdate \<Rightarrow> string \<Rightarrow> rr list" where
  "adds_for cu name = map Disc_RR (filter (\<lambda>d. IsAdd d \<and> Disc_Target d = name) (Discovery cu))"

definition ptrDeleteDiff :: "dnslib \<Rightarrow> store \<Rightarrow> ClassifiedUpdate \<Rightarrow> rr list" where
  "ptrDeleteDiff lib s cu =
     concat (map (\<lambda>i.
       case GetNonKEYRecordSet s (NodeKey lib (the_key cu (Inst_Name i))) of
         None \<Rightarrow> []
       | Some st \<Rightarrow>
           let named = map (RecordKey lib) (adds_for cu (Inst_Name i)) in
           map (\<lambda>kr. AsDelete (RR (snd kr)))
             (filter (\<lambda>kr. is_ptr (RR (snd kr)) \<and> fst kr \<notin> set named) (Records st))) (Instances cu))"

definition prerequisiteFailed :: "u16 \<Rightarrow> rr list \<Rightarrow> bool" where
  "prerequisiteFailed rcode prereqs =
     (if rcode = RcodeYXDomain then list_ex (\<lambda>r. RRToType r = TypeANY) prereqs
      else if rcode = RcodeYXRrset then list_ex (\<lambda>r. RRToType r = TypeKEY) prereqs
      else False)"

subsection \<open>The lease store\<close>

definition registerOrRenew ::
  "dnslib \<Rightarrow> time \<Rightarrow> string \<Rightarrow> key \<Rightarrow> u32 \<Rightarrow> string \<Rightarrow> store \<Rightarrow> store \<times> store_error option"
where
  "registerOrRenew lib now parentNodeKey k keyLease zone s =
     (case Get s (NodeKey lib k) of
        Some existing \<Rightarrow>
          if \<not> IsExpired now existing then RenewLease lib now (Some k) keyLease keyLease s
          else RegisterWithParent lib now parentNodeKey (Some k) keyLease keyLease zone s
      | None \<Rightarrow> RegisterWithParent lib now parentNodeKey (Some k) keyLease keyLease zone s)"

definition first_err :: "store_error option \<Rightarrow> store_error option \<Rightarrow> store_error option" where
  "first_err a b = (case a of Some e \<Rightarrow> Some e | None \<Rightarrow> b)"

definition apply_host ::
  "dnslib \<Rightarrow> time \<Rightarrow> ClassifiedUpdate \<Rightarrow> u32 \<Rightarrow> u32 \<Rightarrow> string \<Rightarrow> store \<Rightarrow> store \<times> store_error option \<times> store_error option"
where
  "apply_host lib now cu lease keyLease zone s =
     (let hk = the_key cu (Host_Name (Host cu)); hostNodeKey = NodeKey lib hk in
      case registerOrRenew lib now [] hk keyLease zone s of
        (s1, hostErr) \<Rightarrow>
          let s2 = RemoveNonKEYRecords hostNodeKey s1 in
          if Host_Addresses (Host cu) \<noteq> [] then
            (case UpsertNonKEYRecords lib now hostNodeKey (Host_Addresses (Host cu)) lease zone s2 of
               (s3, e) \<Rightarrow> (s3, hostErr, first_err hostErr e))
          else (s2, hostErr, hostErr))"

definition apply_instance ::
  "dnslib \<Rightarrow> time \<Rightarrow> ClassifiedUpdate \<Rightarrow> u32 \<Rightarrow> u32 \<Rightarrow> string \<Rightarrow> string \<Rightarrow> ServiceInstance \<Rightarrow>
   store \<times> store_error option \<Rightarrow> store \<times> store_error option"
where
  "apply_instance lib now cu lease keyLease zone parent i se =
     (let k = the_key cu (Inst_Name i); instNodeKey = NodeKey lib k in
      case registerOrRenew lib now parent k keyLease zone (fst se) of
        (s1, e1) \<Rightarrow>
          let s2 = RemoveNonKEYRecords instNodeKey s1 in
          (case Inst_SRV i of
             None \<Rightarrow> (s2, first_err (snd se) e1)
           | Some srv \<Rightarrow>
               (case UpsertNonKEYRecords lib now instNodeKey (srv # Inst_TXT i @ adds_for cu (Inst_Name i)) lease zone s2 of
                  (s3, e2) \<Rightarrow> (s3, first_err (first_err (snd se) e1) e2))))"

definition applyLocalMutations ::
  "dnslib \<Rightarrow> time \<Rightarrow> ClassifiedUpdate \<Rightarrow> u32 \<Rightarrow> u32 \<Rightarrow> string \<Rightarrow> store \<Rightarrow> string list \<times> store \<times> store_error option"
where
  "applyLocalMutations lib now cu lease keyLease zone s =
     (case apply_host lib now cu lease keyLease zone s of
        (s1, hostErr, e1) \<Rightarrow>
          let hostNodeKey = NodeKey lib (the_key cu (Host_Name (Host cu)));
              parent = (if hostErr \<noteq> None then [] else hostNodeKey)
          in (map (\<lambda>n. NodeKey lib (the_key cu n)) (Names cu),
              fold (apply_instance lib now cu lease keyLease zone parent) (Instances cu) (s1, e1)))"

subsection \<open>Locks\<close>

definition lockNames :: "store \<Rightarrow> string list \<Rightarrow> string list" where
  "lockNames s nodeKeys =
     concat (map (\<lambda>nodeKey. NodeKeyName nodeKey #
       map NodeKeyName (filter (\<lambda>child. Get s child \<noteq> None) (ListSubtreeKeys s nodeKey))) nodeKeys)"

definition lockRoots :: "dnslib \<Rightarrow> ClassifiedUpdate \<Rightarrow> string list" where
  "lockRoots lib cu = map (\<lambda>n. NodeKey lib (the_key cu n)) (Names cu)"

subsection \<open>The enumeration records\<close>

definition is_srv :: "rr \<Rightarrow> bool" where
  "is_srv r = (case rr_data r of SRV_data _ _ _ _ \<Rightarrow> True | _ \<Rightarrow> False)"

definition live_type :: "dnslib \<Rightarrow> store \<Rightarrow> Record \<Rightarrow> string option" where
  "live_type lib s rec =
     (case GetNonKEYRecordSet s (NodeKey lib (KeyRR rec)) of
        None \<Rightarrow> None
      | Some st \<Rightarrow>
          (case find (\<lambda>kr. is_srv (RR (snd kr))) (Records st) of
             None \<Rightarrow> None
           | Some kr \<Rightarrow> ServiceTypeFromInstanceName (rr_name (RR (snd kr)))))"

definition collectLiveServiceTypes :: "dnslib \<Rightarrow> time \<Rightarrow> store \<Rightarrow> string list" where
  "collectLiveServiceTypes lib now s = List.map_filter (live_type lib s) (filter (\<lambda>r. \<not> IsExpired now r) (ListAll s))"

definition gone_everywhere :: "srpCoordinator \<Rightarrow> string \<Rightarrow> string \<Rightarrow> bool" where
  "gone_everywhere co zone t \<longleftrightarrow> QueryPTRExists co zone (BrowsingOwnerName t zone) = Some False"

definition domain_prefixes :: "bool \<Rightarrow> bool \<Rightarrow> (string \<times> bool) list" where
  "domain_prefixes anyLive registrationOptedIn =
     [(BrowseDomainPrefix, anyLive), (DefaultBrowseDomainPrefix, anyLive), (LegacyBrowseDomainPrefix, anyLive),
      (RegistrationDomainPrefix, registrationOptedIn), (DefaultRegistrationDomainPrefix, registrationOptedIn)]"

definition was_present :: "bool gomap \<Rightarrow> string \<Rightarrow> bool" where
  "was_present m prefix = (case mget m prefix of Some b \<Rightarrow> b | None \<Rightarrow> False)"

definition reconcileServiceEnumeration ::
  "dnslib \<Rightarrow> SRPHandler \<Rightarrow> srpCoordinator \<Rightarrow> time \<Rightarrow> srp_state \<Rightarrow> panic + srp_state"
where
  "reconcileServiceEnumeration lib h co now y =
     (let zone = srp_zone h;
          current = collectLiveServiceTypes lib now (lm (core y));
          currentSet = remdups (map Fold current);
          previous = serviceTypes y;
          candidates = filter (\<lambda>t. Fold t \<notin> set currentSet) previous;
          survivors = filter (\<lambda>t. \<not> gone_everywhere co zone t) candidates;
          previousForDiff = filter (\<lambda>t. Fold t \<in> set currentSet \<or> gone_everywhere co zone t) previous;
          anyLive = (currentSet \<noteq> [] \<or> survivors \<noteq> []);
          wanted = domain_prefixes anyLive (advertiseRegistrationDomain h);
          domainEnumRecords = concat (map (\<lambda>(prefix, present).
            DiffSelfPointingDomainRecord prefix zone (was_present (domainEnumPresent y) prefix) present (srp_ttl h)) wanted);
          records = DiffEnumerationRecords zone previousForDiff current (srp_ttl h) @ domainEnumRecords;
          y' = y\<lparr>serviceTypes := remdups (currentSet @ map Fold survivors), domainEnumPresent := wanted\<rparr>
      in
      if candidates \<noteq> [] \<and> \<not> hasCoordinator (base co) then Inl MissingUpstream
      else if records = [] then Inr y'
      else if \<not> requireUpstream (base co) then Inl MissingUpstream
      else case upstream_send lib (base co) zone [] records of
        (out, Inl _) \<Rightarrow> Inr (y\<lparr>core := (core y)\<lparr>sent := sent (core y) @ out\<rparr>\<rparr>)
      | (out, Inr _) \<Rightarrow> Inr (y'\<lparr>core := (core y)\<lparr>sent := sent (core y) @ out\<rparr>\<rparr>))"

subsection \<open>Handle\<close>

datatype srp_failure =
    NilRequest
  | NotSrp srp_error
  | ZoneNotEnabled
  | DottedLabels HandlerResult
  | Invalid srp_error
  | TCPRequired
  | MissingSig0
  | SignerNotHost
  | Sig0Invalid
  | RewriteInvalid srp_error
  | LocksContended
  | FCFSFailed fcfs_error
  | NameConflict string
  | ForeignData string
  | LeaseUnreadable
  | ForwardFailed send_error
  | PrerequisiteConflict

definition srp_error_reply :: "msg \<Rightarrow> srp_failure \<Rightarrow> HandlerResult" where
  "srp_error_reply r f =
     (let err = (\<lambda>rcode. NewErrorResult (Some (makeErrorResponse r rcode))) in
      case f of
        NilRequest \<Rightarrow> NewErrorResult None
      | NotSrp _ \<Rightarrow> NewNotRelevantResult
      | ZoneNotEnabled \<Rightarrow> NewNotRelevantResult
      | DottedLabels res \<Rightarrow> res
      | Invalid _ \<Rightarrow> err RcodeRefused
      | TCPRequired \<Rightarrow> err RcodeRefused
      | MissingSig0 \<Rightarrow> err RcodeRefused
      | SignerNotHost \<Rightarrow> err RcodeRefused
      | Sig0Invalid \<Rightarrow> err RcodeRefused
      | RewriteInvalid _ \<Rightarrow> err RcodeServerFailure
      | LocksContended \<Rightarrow> err RcodeServerFailure
      | FCFSFailed _ \<Rightarrow> err RcodeServerFailure
      | NameConflict _ \<Rightarrow> err RcodeYXDomain
      | ForeignData _ \<Rightarrow> err RcodeRefused
      | LeaseUnreadable \<Rightarrow> err RcodeServerFailure
      | ForwardFailed _ \<Rightarrow> err RcodeServerFailure
      | PrerequisiteConflict \<Rightarrow> err RcodeYXDomain)"

text \<open>Steps 1 to 5: the message to work on and its classification.\<close>

definition srp_request ::
  "(msg \<Rightarrow> key \<Rightarrow> bool) \<Rightarrow> SRPHandler \<Rightarrow> coordinator \<Rightarrow> bool \<Rightarrow> msg \<Rightarrow> panic + (srp_failure + (msg \<times> ClassifiedUpdate))"
where
  "srp_request verify h co isUDP r =
     (case Classify (Some r) of
        Inl e \<Rightarrow> Inr (Inl (NotSrp e))
      | Inr cu \<Rightarrow>
          (case msg_Question r of
             [question] \<Rightarrow>
               let zone = rr_name question in
               if \<not> zoneEnabled h zone then Inr (Inl ZoneNotEnabled)
               else if \<not> requireUpstream co then Inl MissingUpstream
               else Inr (case refuseDottedLabels r of
                 Some res \<Rightarrow> Inl (DottedLabels res)
               | None \<Rightarrow>
                   (case ValidateClassified (Some r) cu of
                      Some e \<Rightarrow> Inl (Invalid e)
                    | None \<Rightarrow>
                        if \<not> allowUDP h \<and> isUDP then Inl TCPRequired
                        else (case extractSig0 r of
                          Inl _ \<Rightarrow> Inl MissingSig0
                        | Inr sg \<Rightarrow>
                            if Normalize (SignerName sg) \<noteq> Normalize (Host_Name (Host cu)) then Inl SignerNotHost
                            else if \<not> verify r (the (Host_Key (Host cu))) then Inl Sig0Invalid
                            else if Normalize zone = Normalize defaultServiceARPA then
                              (let r' = rewriteDefaultServiceARPA r (srp_zone h) in
                               case srp_Validate (Some r') of
                                 Inl e \<Rightarrow> Inl (RewriteInvalid e)
                               | Inr cu' \<Rightarrow> Inr (r', cu'))
                            else Inr (r, cu))))
           | _ \<Rightarrow> Inr (Inl ZoneNotEnabled)))"

text \<open>Step 6, over all names of the update.\<close>

fun fcfs_names ::
  "key_view \<Rightarrow> key_query \<Rightarrow> string \<Rightarrow> bool \<Rightarrow> (string \<times> key) list \<Rightarrow> srp_failure + rr list"
where
  "fcfs_names view query zone refuse [] = Inr []"
| "fcfs_names view query zone refuse ((name, k) # rest) =
     (case Evaluate (Some view) (Some query) zone name (Some k) refuse of
        Inl e \<Rightarrow> Inl (FCFSFailed e)
      | Inr (FCFSConflict, _) \<Rightarrow> Inl (NameConflict name)
      | Inr (FCFSForeignData, _) \<Rightarrow> Inl (ForeignData name)
      | Inr (FCFSProceed, p) \<Rightarrow>
          (case fcfs_names view query zone refuse rest of
             Inl e \<Rightarrow> Inl e
           | Inr ps \<Rightarrow> Inr (opt_list p @ ps)))"

text \<open>Steps 6 to 9: the failure or the granted durations, and the state.\<close>

definition srp_locked ::
  "dnslib \<Rightarrow> SRPHandler \<Rightarrow> srpCoordinator \<Rightarrow> srp_clock \<Rightarrow> msg \<Rightarrow> ClassifiedUpdate \<Rightarrow> proxy \<Rightarrow>
   (srp_failure + (u32 \<times> u32)) \<times> proxy"
where
  "srp_locked lib h co t r cu0 y =
     (case fcfs_names (leaseStoreView (fcfs_time t) (lm y)) (QueryKeyAtName co) (srp_zone h) (refuseOnForeignData h)
        (map (\<lambda>n. (n, the_key cu0 n)) (Names cu0)) of
        Inl f \<Rightarrow> (Inl f, y)
      | Inr prereqs \<Rightarrow>
          (case srp_parseLease r of
             None \<Rightarrow> (Inl LeaseUnreadable, y)
           | Some (lease0, keyLease0) \<Rightarrow>
               (case clamp (srp_policy h) lease0 keyLease0 of
                  (lease, keyLease) \<Rightarrow>
                    let cu = applyRecordTTL cu0 (srp_ttl h) lease keyLease;
                        ns = map (record_ttl (srp_ttl h) lease keyLease) (msg_Ns r);
                        records = ns @ ptrDeleteDiff lib (lm y) cu @ synthesizeOmittedInstanceKeys cu
                    in case upstream_send lib (base co) (srp_zone h) prereqs records of
                      (out, Inl e) \<Rightarrow>
                        (Inl (case e of
                            Rejected (Some resp) \<Rightarrow>
                              if prerequisiteFailed (msg_Rcode resp) prereqs then PrerequisiteConflict else ForwardFailed e
                          | _ \<Rightarrow> ForwardFailed e), y\<lparr>sent := sent y @ out\<rparr>)
                    | (out, Inr _) \<Rightarrow>
                        (case applyLocalMutations lib (apply_time t) cu lease keyLease (srp_zone h) (lm y) of
                           (touched, s', _) \<Rightarrow>
                             (Inr (lease, keyLease),
                              y\<lparr>lm := s', sent := sent y @ out,
                                tms := fold (schedule (arm_time t) s') touched (tms y)\<rparr>)))))"

text \<open>As in the RFC 9664 handler, \<open>y\<close> is the state at the attempt that ends the wait for the locks.\<close>

definition srp_Handle ::
  "dnslib \<Rightarrow> (msg \<Rightarrow> key \<Rightarrow> bool) \<Rightarrow> SRPHandler \<Rightarrow> srpCoordinator \<Rightarrow> srp_clock \<Rightarrow> bool \<Rightarrow> msg option \<Rightarrow> srp_state \<Rightarrow>
   panic + (HandlerResult \<times> srp_state)"
where
  "srp_Handle lib verify h co t isUDP m y =
     (case m of
        None \<Rightarrow> Inr (NewErrorResult None, y)
      | Some r0 \<Rightarrow>
          (case srp_request verify h (base co) isUDP r0 of
             Inl p \<Rightarrow> Inl p
           | Inr (Inl f) \<Rightarrow> Inr (srp_error_reply r0 f, y)
           | Inr (Inr (r, cu)) \<Rightarrow>
               (case find (\<lambda>n. KeyFor cu n = None) (Names cu) of
                  Some n \<Rightarrow> Inl (UnknownName n)
                | None \<Rightarrow>
                    (case TryAcquire (lockNames (lm (core y)) (lockRoots lib cu)) (locks (core y)) of
                       (_, Inl _) \<Rightarrow> Inr (srp_error_reply r LocksContended, y)
                     | (n, Inr st) \<Rightarrow>
                         (case srp_locked lib h co t r cu ((core y)\<lparr>locks := n\<rparr>) of
                            (res, c) \<Rightarrow>
                              (case Release st (locks c) of
                                 Inl _ \<Rightarrow> Inl ReleasePanic
                               | Inr (n', _) \<Rightarrow>
                                   let y1 = y\<lparr>core := c\<lparr>locks := n'\<rparr>\<rparr> in
                                   (case res of
                                      Inl f \<Rightarrow> Inr (srp_error_reply r f, y1)
                                    | Inr (lease, keyLease) \<Rightarrow>
                                        (case reconcileServiceEnumeration lib h co (list_time t) y1 of
                                           Inl p \<Rightarrow> Inl p
                                         | Inr y2 \<Rightarrow> Inr (NewProcessedResult (leaseResponse lib r lease keyLease), y2))))))))) "

subsection \<open>Expiry and reconciliation\<close>

definition srp_lockIDs :: "store \<Rightarrow> string \<Rightarrow> string list" where
  "srp_lockIDs s nodeKey = lockNames s [nodeKey]"

definition processExpiredNode ::
  "dnslib \<Rightarrow> SRPHandler \<Rightarrow> srpCoordinator \<Rightarrow> time \<Rightarrow> time \<Rightarrow> time \<Rightarrow> time \<Rightarrow> string \<Rightarrow> srp_state \<Rightarrow> panic + srp_state"
where
  "processExpiredNode lib h co now now1 now2 now3 nodeKey y =
     (case run lib (base co) (srp_zone h) True srp_lockIDs now now1 now2 nodeKey (core y) of
        Inl p \<Rightarrow> Inl p
      | Inr (removed, c) \<Rightarrow>
          if removed then reconcileServiceEnumeration lib h co now3 (y\<lparr>core := c\<rparr>)
          else Inr (y\<lparr>core := c\<rparr>))"

definition srp_tick :: "dnslib \<Rightarrow> SRPHandler \<Rightarrow> srpCoordinator \<Rightarrow> time \<Rightarrow> time \<Rightarrow> srp_state \<Rightarrow> panic + srp_state" where
  "srp_tick lib h co now now1 y =
     reconcileServiceEnumeration lib h co now1
       (y\<lparr>core := set_tms (core y) (reconcile now (lm (core y)) (tms (core y)))\<rparr>)"

end
