(* ===== verification/Srp_Effects.thy ===== *)
theory Srp_Effects
  imports Srp_Handler Update_Plan
begin

text \<open>
  What the steps of the RFC 9665 handler do: the records of the update keep their shape under the
  new TTLs, and the changes of the lease store stay within the nodes of the update (\<open>within\<close>).
\<close>

subsection \<open>TTLs\<close>

lemma applyRecordTTL_sel [simp]:
  "Host_Name (Host (applyRecordTTL cu ttl l kl)) = Host_Name (Host cu)"
  "Host_Delete (Host (applyRecordTTL cu ttl l kl)) = Host_Delete (Host cu)"
  "map Inst_Name (Instances (applyRecordTTL cu ttl l kl)) = map Inst_Name (Instances cu)"
  "Names (applyRecordTTL cu ttl l kl) = Names cu"
  by (simp_all add: applyRecordTTL_def Let_def Names_def)

definition with_ttl :: "u32 \<Rightarrow> u32 \<Rightarrow> u32 \<Rightarrow> ServiceInstance \<Rightarrow> ServiceInstance" where
  "with_ttl ttl l kl i =
     i\<lparr>Inst_Key := map_option (\<lambda>k. k\<lparr>key_ttl := min ttl kl\<rparr>) (Inst_Key i),
       Inst_SRV := map_option (\<lambda>r. r\<lparr>rr_ttl := min ttl l\<rparr>) (Inst_SRV i),
       Inst_TXT := map (\<lambda>r. r\<lparr>rr_ttl := min ttl l\<rparr>) (Inst_TXT i)\<rparr>"

definition disc_ttl :: "u32 \<Rightarrow> ServiceDiscovery \<Rightarrow> ServiceDiscovery" where
  "disc_ttl ttl d = (if IsAdd d then d\<lparr>Disc_RR := (Disc_RR d)\<lparr>rr_ttl := ttl\<rparr>\<rparr> else d)"

lemma Instances_applyRecordTTL: "Instances (applyRecordTTL cu ttl l kl) = map (with_ttl ttl l kl) (Instances cu)"
  by (simp add: applyRecordTTL_def Let_def with_ttl_def)

lemma Discovery_applyRecordTTL: "Discovery (applyRecordTTL cu ttl l kl) = map (disc_ttl ttl) (Discovery cu)"
  by (simp add: applyRecordTTL_def Let_def disc_ttl_def [abs_def])

lemma opt_list_map [simp]: "opt_list (map_option f v) = map f (opt_list v)"
  by (cases v) simp_all

lemma is_add_at_ttl [simp]: "is_add_at n T (r\<lparr>rr_ttl := x\<rparr>) = is_add_at n T r"
  by (simp add: is_add_at_def RRToType_def)

lemma of_key_ttl: "of_key (k\<lparr>key_ttl := x\<rparr>) = (of_key k)\<lparr>rr_ttl := x\<rparr>"
  by (simp add: of_key_def)

lemma with_ttl_sel [simp]:
  "Inst_Name (with_ttl ttl l kl i) = Inst_Name i" "Inst_Delete (with_ttl ttl l kl i) = Inst_Delete i"
  "Inst_SRV (with_ttl ttl l kl i) = None \<longleftrightarrow> Inst_SRV i = None"
  "Inst_Key (with_ttl ttl l kl i) = None \<longleftrightarrow> Inst_Key i = None"
  "Inst_TXT (with_ttl ttl l kl i) = [] \<longleftrightarrow> Inst_TXT i = []"
  by (simp_all add: with_ttl_def)

lemma disc_ttl_sel [simp]:
  "Disc_Name (disc_ttl ttl d) = Disc_Name d" "Disc_Target (disc_ttl ttl d) = Disc_Target d"
  "IsAdd (disc_ttl ttl d) = IsAdd d" "BaseType (disc_ttl ttl d) = BaseType d"
  by (simp_all add: disc_ttl_def)

lemma record_ttl_delete: "is_delete_all n r \<Longrightarrow> record_ttl ttl l kl r = r"
  by (simp add: record_ttl_def is_delete_all_def)

lemma record_ttl_key: "record_ttl ttl l kl (of_key k) = of_key (k\<lparr>key_ttl := min ttl kl\<rparr>)"
  by (simp add: record_ttl_def of_key_ttl) (simp add: of_key_def)

lemma record_ttl_data: "is_add_at n {1, 28, 33, 16} r \<Longrightarrow> record_ttl ttl l kl r = r\<lparr>rr_ttl := min ttl l\<rparr>"
  by (auto simp: record_ttl_def is_add_at_def RRToType_def)

lemma record_ttl_disc: "discovery_ok d \<Longrightarrow> record_ttl ttl l kl (Disc_RR d) = Disc_RR (disc_ttl ttl d)"
  by (auto simp: record_ttl_def discovery_ok_def disc_ttl_def RRToType_def ClassINET_def ClassNONE_def)

lemma is_add_at_mono: "is_add_at n T r \<Longrightarrow> T \<subseteq> T' \<Longrightarrow> is_add_at n T' r"
  by (auto simp: is_add_at_def)

lemma host_records_ttl:
  assumes "host_ok h"
  shows "record_ttl ttl l kl ` host_records h = host_records (h\<lparr>Host_Key := map_option (\<lambda>k. k\<lparr>key_ttl := min ttl kl\<rparr>) (Host_Key h),
    Host_Addresses := map (\<lambda>r. r\<lparr>rr_ttl := min ttl l\<rparr>) (Host_Addresses h)\<rparr>)"
proof -
  have "record_ttl ttl l kl a = a\<lparr>rr_ttl := min ttl l\<rparr>" if "a \<in> set (Host_Addresses h)" for a
    using assms that by (intro record_ttl_data) (auto simp: host_ok_def is_add_at_def)
  then have "record_ttl ttl l kl ` set (Host_Addresses h) = (\<lambda>r. r\<lparr>rr_ttl := min ttl l\<rparr>) ` set (Host_Addresses h)"
    by (rule image_cong [OF refl])
  moreover have "record_ttl ttl l kl (Host_Delete h) = Host_Delete h"
    using assms by (intro record_ttl_delete) (auto simp: host_ok_def)
  ultimately show ?thesis
    by (cases "Host_Key h") (simp_all add: host_records_def image_Un record_ttl_key)
qed

lemma instance_records_ttl:
  assumes "instance_ok i"
  shows "record_ttl ttl l kl ` instance_records i = instance_records (with_ttl ttl l kl i)"
proof -
  have 1: "record_ttl ttl l kl a = a\<lparr>rr_ttl := min ttl l\<rparr>" if "a \<in> set (Inst_TXT i) \<union> set (opt_list (Inst_SRV i))" for a
    using assms that by (intro record_ttl_data) (auto simp: instance_ok_def is_add_at_def)
  then have "record_ttl ttl l kl ` set (Inst_TXT i) = (\<lambda>r. r\<lparr>rr_ttl := min ttl l\<rparr>) ` set (Inst_TXT i)"
    by (intro image_cong [OF refl]) simp
  moreover have "record_ttl ttl l kl (Inst_Delete i) = Inst_Delete i"
    using assms by (intro record_ttl_delete) (auto simp: instance_ok_def)
  ultimately show ?thesis
    using 1 by (cases "Inst_Key i"; cases "Inst_SRV i") (simp_all add: instance_records_def image_Un record_ttl_key with_ttl_def)
qed

lemma srv_target_ttl [simp]: "srv_target (r\<lparr>rr_ttl := x\<rparr>) = srv_target r"
  by (simp add: srv_target_def)

text \<open>The TTLs change, nothing else: the update forwarded is the one classified.\<close>

lemma applyRecordTTL_shape:
  assumes "accepted_shape ns cu"
  shows "accepted_shape (map (record_ttl ttl l kl) ns) (applyRecordTTL cu ttl l kl)"
proof -
  let ?cu = "applyRecordTTL cu ttl l kl"
  note a = assms [unfolded accepted_shape_def]
  have ho: "host_ok (Host ?cu)" "Host_Key (Host ?cu) \<noteq> None"
    using a by (auto simp: host_ok_def applyRecordTTL_def Let_def of_key_ttl)
  have io: "\<forall>i \<in> set (Instances ?cu). instance_ok i"
    using a by (auto simp: Instances_applyRecordTTL instance_ok_def with_ttl_def of_key_ttl)
  have "\<forall>d \<in> set (Discovery ?cu). discovery_ok d"
    using a by (auto simp: Discovery_applyRecordTTL discovery_ok_def disc_ttl_def RRToType_def ptr_target_def split: if_splits)
  moreover have "\<forall>i \<in> set (Instances ?cu). \<forall>srv. Inst_SRV i = Some srv \<longrightarrow> Inst_TXT i \<noteq> [] \<and>
      Fold (srv_target srv) = Host_Name (Host ?cu) \<and> (\<exists>d \<in> set (Discovery ?cu). IsAdd d \<and> Disc_Target d = Inst_Name i)"
    using a by (fastforce simp: Instances_applyRecordTTL Discovery_applyRecordTTL with_ttl_def)
  moreover have "\<forall>d \<in> set (Discovery ?cu). IsAdd d \<longrightarrow>
      (\<exists>i \<in> set (Instances ?cu). Inst_Name i = Disc_Target d \<and> Inst_SRV i \<noteq> None)"
    using a by (simp add: Instances_applyRecordTTL Discovery_applyRecordTTL del: not_None_eq)
  moreover have "set (map (record_ttl ttl l kl) ns) =
      host_records (Host ?cu) \<union> (\<Union>i \<in> set (Instances ?cu). instance_records i) \<union> Disc_RR ` set (Discovery ?cu)"
  proof -
    have "record_ttl ttl l kl ` host_records (Host cu) = host_records (Host ?cu)"
      using a host_records_ttl by (simp add: applyRecordTTL_def Let_def)
    moreover have "(\<Union>i \<in> set (Instances cu). record_ttl ttl l kl ` instance_records i) = (\<Union>i \<in> set (Instances ?cu). instance_records i)"
      using a instance_records_ttl by (simp add: Instances_applyRecordTTL)
    moreover have "record_ttl ttl l kl ` Disc_RR ` set (Discovery cu) = Disc_RR ` set (Discovery ?cu)"
      unfolding Discovery_applyRecordTTL set_map image_image
      using a record_ttl_disc by (intro image_cong [OF refl]) blast
    ultimately show ?thesis
      using a by (simp add: image_Un image_UN)
  qed
  ultimately show ?thesis
    using a ho io by (simp add: accepted_shape_def)
qed

subsection \<open>Changes of the store\<close>

text \<open>
  The changes an update with the keys \<open>K\<close> and the data \<open>A\<close> may make to the forest: the node of
  one of its keys is entered or renewed, and a node that was live keeps its place in the tree;
  data of the update is entered below one of these nodes, where there was none or data of such a
  node; other data of these nodes is dropped.
\<close>

definition own_data :: "string set \<Rightarrow> node option \<Rightarrow> bool" where
  "own_data M v \<longleftrightarrow> v = None \<or> (\<exists>d. v = Some (DataNode d) \<and> ParentKeyName d \<in> M)"

definition keyed :: "dnslib \<Rightarrow> time \<Rightarrow> u32 \<Rightarrow> key set \<Rightarrow> string \<Rightarrow> node option \<Rightarrow> node option \<Rightarrow> bool" where
  "keyed lib now kl K i v v' \<longleftrightarrow>
     (\<exists>k \<in> K. \<exists>r'. i = NodeKey lib k \<and> v' = Some (KeyNode r') \<and> KeyRR r' = k \<and> ExpiresAt r' = now + seconds kl \<and>
        (\<forall>r. v = Some (KeyNode r) \<and> \<not> IsExpired now r \<longrightarrow> ParentKeyName r' = ParentKeyName r))"

definition filed :: "dnslib \<Rightarrow> time \<Rightarrow> u32 \<Rightarrow> rr set \<Rightarrow> string set \<Rightarrow> string \<Rightarrow> node option \<Rightarrow> bool" where
  "filed lib now l A M i v' \<longleftrightarrow>
     (\<exists>r \<in> A. \<exists>d. i = RecordKey lib r \<and> v' = Some (DataNode d) \<and> RR d = r \<and> ParentKeyName d \<in> M \<and>
        ExpiresAt d = now + seconds l)"

definition within ::
  "dnslib \<Rightarrow> time \<Rightarrow> u32 \<Rightarrow> u32 \<Rightarrow> key set \<Rightarrow> rr set \<Rightarrow> forest \<Rightarrow> forest \<Rightarrow> bool"
where
  "within lib now l kl K A F F' \<longleftrightarrow>
     (\<forall>i. F' i = F i \<or> keyed lib now kl K i (F i) (F' i) \<or>
        (own_data (NodeKey lib ` K) (F i) \<and> (F' i = None \<or> filed lib now l A (NodeKey lib ` K) i (F' i))))"

lemma within_refl [simp]: "within lib now l kl K A F F"
  by (simp add: within_def)

lemma not_expired_new: "ExpiresAt r = now + seconds kl \<Longrightarrow> \<not> IsExpired now r"
  by (simp add: IsExpired_def seconds_def Second_def)

lemma within_trans:
  assumes "within lib now l kl K A F G" "within lib now l kl K A G H"
  shows "within lib now l kl K A F H"
  unfolding within_def
proof
  fix i
  let ?own = "own_data (NodeKey lib ` K)"
  have FG: "G i = F i \<or> keyed lib now kl K i (F i) (G i) \<or> (?own (F i) \<and> (G i = None \<or> filed lib now l A (NodeKey lib ` K) i (G i)))"
    and GH: "H i = G i \<or> keyed lib now kl K i (G i) (H i) \<or> (?own (G i) \<and> (H i = None \<or> filed lib now l A (NodeKey lib ` K) i (H i)))"
    using assms by (auto simp: within_def)
  from GH consider "H i = G i" | "keyed lib now kl K i (G i) (H i)"
    | "?own (G i)" "H i = None \<or> filed lib now l A (NodeKey lib ` K) i (H i)" by blast
  then show "H i = F i \<or> keyed lib now kl K i (F i) (H i) \<or> (?own (F i) \<and> (H i = None \<or> filed lib now l A (NodeKey lib ` K) i (H i)))"
  proof cases
    case 1
    then show ?thesis using FG by simp
  next
    case 2
    have "keyed lib now kl K i (F i) (H i)"
      using FG 2 by (auto simp: keyed_def own_data_def not_expired_new)
    then show ?thesis by blast
  next
    case 3
    have "?own (F i)" using FG 3(1) by (auto simp: keyed_def own_data_def)
    then show ?thesis using 3(2) by blast
  qed
qed

lemma registerOrRenew_within:
  assumes wf: "wf_store lib s" and lib: "plain_text lib" and k: "k \<in> K"
    and r: "registerOrRenew lib now pa k kl z s = (s', e)"
  shows "wf_store lib s' \<and> within lib now l kl K A (abs_store s) (abs_store s')"
proof (cases e)
  case (Some x)
  then have "s' = s"
    using r RenewLease_error RegisterWithParent_error
    by (fastforce simp: registerOrRenew_def split: option.splits if_splits)
  then show ?thesis using wf by simp
next
  case None
  show ?thesis
  proof (cases "\<exists>x. Get s (NodeKey lib k) = Some x \<and> \<not> IsExpired now x")
    case True
    then have re: "RenewLease lib now (Some k) kl kl s = (s', None)"
      using r None by (auto simp: registerOrRenew_def)
    then obtain r0 where r0: "mget (leases s) (NodeKey lib k) = Some r0"
      "abs_store s' = (abs_store s)(NodeKey lib k \<mapsto> KeyNode (renewed now k kl kl r0))"
      by (rule RenewLease_abs)
    then have "abs_store s (NodeKey lib k) = Some (KeyNode r0)" by (simp add: abs_store_Key)
    then show ?thesis
      using RenewLease_wf [OF wf [unfolded wf_store_def] re] k r0(2)
      by (auto simp: within_def keyed_def renewed_def wf_store_def)
  next
    case False
    then have re: "RegisterWithParent lib now pa (Some k) kl kl z s = (s', None)"
      using r None by (auto simp: registerOrRenew_def split: option.splits if_splits)
    have old: "\<not> (abs_store s (NodeKey lib k) = Some (KeyNode x) \<and> \<not> IsExpired now x)" for x
      using False by (auto simp: Get_def abs_store_Key)
    show ?thesis
      using RegisterWithParent_wf [OF wf lib re] RegisterWithParent_abs [OF re] k old
      by (auto simp: within_def keyed_def reg_record_def)
  qed
qed

lemma RemoveNonKEYRecords_within:
  assumes "wf_store lib s" "k \<in> K"
  shows "wf_store lib (RemoveNonKEYRecords (NodeKey lib k) s) \<and>
    within lib now l kl K A (abs_store s) (abs_store (RemoveNonKEYRecords (NodeKey lib k) s))"
  using assms
  by (auto simp: RemoveNonKEYRecords_wf RemoveNonKEYRecords_abs within_def data_of_def own_data_def restrict_map_def)

lemma UpsertNonKEYRecords_within:
  assumes wf: "wf_store lib s" and lib: "plain_text lib" and k: "k \<in> K" "set rs \<subseteq> A"
    and u: "UpsertNonKEYRecords lib now (NodeKey lib k) rs l z s = (s', e)"
  shows "wf_store lib s' \<and> within lib now l kl K A (abs_store s) (abs_store s')"
proof (cases e)
  case (Some x)
  then show ?thesis using UpsertNonKEYRecords_error u wf by (metis within_refl)
next
  case None
  note u = u [unfolded None]
  let ?F = "forest_upsert lib now (NodeKey lib k) l (Normalize z) rs (abs_store s)"
  have s': "abs_store s' = ?F" using UpsertNonKEYRecords_abs [OF wf lib u] by simp
  have "within lib now l kl K A (abs_store s) ?F"
    unfolding within_def
  proof
    fix i
    from forest_upsert_at [of lib now "NodeKey lib k" l "Normalize z" rs "abs_store s" i]
    consider "?F i = abs_store s i" | r where "r \<in> set rs" "RecordKey lib r = i"
      "?F i = Some (DataNode (upsert_record now (NodeKey lib k) l (Normalize z) i r))" by blast
    then show "?F i = abs_store s i \<or> keyed lib now kl K i (abs_store s i) (?F i) \<or>
        (own_data (NodeKey lib ` K) (abs_store s i) \<and> (?F i = None \<or> filed lib now l A (NodeKey lib ` K) i (?F i)))"
    proof cases
      case 2
      have "own_data (NodeKey lib ` K) (abs_store s i)"
        using UpsertNonKEYRecords_ok(2) [OF u] 2(1,2) RecordKey_not_lease [OF wf [unfolded wf_store_def] lib, of r] k(1)
        by (auto simp: own_data_def foreign_def abs_store_def split: option.splits)
      then show ?thesis using 2 k by (auto simp: filed_def upsert_record_def)
    qed blast
  qed
  then show ?thesis using UpsertNonKEYRecords_wf [OF wf lib u] s' by simp
qed

text \<open>The keys and the data of an update.\<close>

definition upd_keys :: "ClassifiedUpdate \<Rightarrow> key set" where
  "upd_keys cu = the_key cu ` set (Names cu)"

definition upd_data :: "ClassifiedUpdate \<Rightarrow> rr set" where
  "upd_data cu = set (Host_Addresses (Host cu)) \<union>
     (\<Union>i \<in> set (Instances cu). set (opt_list (Inst_SRV i)) \<union> set (Inst_TXT i)) \<union> Disc_RR ` {d \<in> set (Discovery cu). IsAdd d}"

lemma upd_keys_host: "the_key cu (Host_Name (Host cu)) \<in> upd_keys cu"
  by (simp add: upd_keys_def Names_def)

lemma upd_keys_instance: "i \<in> set (Instances cu) \<Longrightarrow> the_key cu (Inst_Name i) \<in> upd_keys cu"
  by (simp add: upd_keys_def Names_def)

lemma apply_host_within:
  assumes "wf_store lib s" "plain_text lib" "apply_host lib now cu l kl z s = (s', e, e')"
  shows "wf_store lib s' \<and> within lib now l kl (upd_keys cu) (upd_data cu) (abs_store s) (abs_store s')"
proof -
  let ?k = "the_key cu (Host_Name (Host cu))" and ?within = "within lib now l kl (upd_keys cu) (upd_data cu)"
  obtain s1 where s1: "registerOrRenew lib now [] ?k kl z s = (s1, e)"
    using assms(3) by (auto simp: apply_host_def Let_def split: prod.splits if_splits)
  define s2 where "s2 = RemoveNonKEYRecords (NodeKey lib ?k) s1"
  have 1: "wf_store lib s1 \<and> ?within (abs_store s) (abs_store s1)"
    by (rule registerOrRenew_within [OF assms(1,2) upd_keys_host s1])
  have 2: "wf_store lib s2 \<and> ?within (abs_store s1) (abs_store s2)"
    unfolding s2_def by (rule RemoveNonKEYRecords_within) (use 1 upd_keys_host in auto)
  have 3: "wf_store lib s' \<and> ?within (abs_store s2) (abs_store s')"
  proof (cases "Host_Addresses (Host cu) = []")
    case True
    then have "s' = s2" using assms(3) s1 by (auto simp: apply_host_def Let_def s2_def)
    then show ?thesis using 2 by simp
  next
    case False
    then obtain x where u: "UpsertNonKEYRecords lib now (NodeKey lib ?k) (Host_Addresses (Host cu)) l z s2 = (s', x)"
      using assms(3) s1 by (auto simp: apply_host_def Let_def s2_def split: prod.splits)
    show ?thesis
      by (rule UpsertNonKEYRecords_within [OF _ assms(2) upd_keys_host _ u]) (use 2 in \<open>auto simp: upd_data_def\<close>)
  qed
  show ?thesis using 1 2 3 within_trans by blast
qed

lemma adds_for_data: "set (adds_for cu n) \<subseteq> upd_data cu"
  by (auto simp: adds_for_def upd_data_def)

lemma apply_instance_within:
  assumes "wf_store lib s" "plain_text lib" "i \<in> set (Instances cu)" "apply_instance lib now cu l kl z pa i (s, e) = (s', e')"
  shows "wf_store lib s' \<and> within lib now l kl (upd_keys cu) (upd_data cu) (abs_store s) (abs_store s')"
proof -
  let ?k = "the_key cu (Inst_Name i)" and ?within = "within lib now l kl (upd_keys cu) (upd_data cu)"
  note k = upd_keys_instance [OF assms(3)]
  obtain s1 x where s1: "registerOrRenew lib now pa ?k kl z s = (s1, x)" by fastforce
  define s2 where "s2 = RemoveNonKEYRecords (NodeKey lib ?k) s1"
  have 1: "wf_store lib s1 \<and> ?within (abs_store s) (abs_store s1)"
    by (rule registerOrRenew_within [OF assms(1,2) k s1])
  have 2: "wf_store lib s2 \<and> ?within (abs_store s1) (abs_store s2)"
    unfolding s2_def by (rule RemoveNonKEYRecords_within) (use 1 k in auto)
  have 3: "wf_store lib s' \<and> ?within (abs_store s2) (abs_store s')"
  proof (cases "Inst_SRV i")
    case None
    then have "s' = s2" using assms(4) s1 by (auto simp: apply_instance_def Let_def s2_def)
    then show ?thesis using 2 by simp
  next
    case (Some srv)
    then obtain x where u: "UpsertNonKEYRecords lib now (NodeKey lib ?k) (srv # Inst_TXT i @ adds_for cu (Inst_Name i)) l z s2 = (s', x)"
      using assms(4) s1 by (auto simp: apply_instance_def Let_def s2_def split: prod.splits)
    have "srv \<in> upd_data cu" "set (Inst_TXT i) \<subseteq> upd_data cu" using assms(3) Some by (auto simp: upd_data_def intro!: bexI [of _ i])
    then show ?thesis
      by (intro UpsertNonKEYRecords_within [OF _ assms(2) k _ u]) (use 2 adds_for_data in auto)
  qed
  show ?thesis using 1 2 3 within_trans by blast
qed

lemma applyLocalMutations_within:
  assumes "wf_store lib s" "plain_text lib" "applyLocalMutations lib now cu l kl z s = (touched, s', e)"
  shows "wf_store lib s'" "within lib now l kl (upd_keys cu) (upd_data cu) (abs_store s) (abs_store s')"
proof -
  let ?within = "within lib now l kl (upd_keys cu) (upd_data cu)"
  obtain s1 he e1 where h: "apply_host lib now cu l kl z s = (s1, he, e1)" by (metis prod_cases3)
  then obtain pa where f: "fold (apply_instance lib now cu l kl z pa) (Instances cu) (s1, e1) = (s', e)"
    using assms(3) by (auto simp: applyLocalMutations_def Let_def)
  have "wf_store lib s' \<and> ?within (abs_store s1) (abs_store s')"
    if "set is \<subseteq> set (Instances cu)" "fold (apply_instance lib now cu l kl z pa) is (s1, e1) = (s', e)" "wf_store lib s1" for "is" s1 e1
    using that
  proof (induction "is" arbitrary: s1 e1)
    case (Cons i "is")
    obtain s2 e2 where i: "apply_instance lib now cu l kl z pa i (s1, e1) = (s2, e2)" by fastforce
    have "wf_store lib s2 \<and> ?within (abs_store s1) (abs_store s2)"
      by (rule apply_instance_within [OF _ assms(2) _ i]) (use Cons.prems in auto)
    then show ?case using Cons.IH [of s2 e2] Cons.prems i within_trans by fastforce
  qed simp
  then show "wf_store lib s'" "?within (abs_store s) (abs_store s')"
    using apply_host_within [OF assms(1,2) h] f within_trans by blast+
qed

subsection \<open>What is forwarded\<close>

definition forwarded_records :: "dnslib \<Rightarrow> store \<Rightarrow> rr list \<Rightarrow> ClassifiedUpdate \<Rightarrow> rr list" where
  "forwarded_records lib s ns cu = ns @ ptrDeleteDiff lib s cu @ synthesizeOmittedInstanceKeys cu"

lemma upd_data_forwarded: "accepted_shape ns cu \<Longrightarrow> upd_data cu \<subseteq> set ns"
  by (auto simp: accepted_shape_def upd_data_def host_records_def instance_records_def)

lemma the_key_SomeD: "KeyFor cu n = Some k \<Longrightarrow> the_key cu n = k"
  by (simp add: the_key_def)

text \<open>The key of every name is published, except below a removed instance, whose records all go.\<close>

lemma upd_keys_forwarded:
  assumes a: "accepted_shape ns cu" and n: "n \<in> set (Names cu)"
  shows "of_key (the_key cu n) \<in> set (forwarded_records lib s ns cu) \<or>
    (\<exists>i \<in> set (Instances cu). Inst_Name i = n \<and> Inst_SRV i = None \<and> Inst_Delete i \<in> set ns)"
proof (cases "n = Host_Name (Host cu)")
  case True
  then show ?thesis
    using a by (auto simp: the_key_def KeyFor_def forwarded_records_def accepted_shape_def host_records_def)
next
  case False
  then obtain i where i: "i \<in> set (Instances cu)" "Inst_Name i = n" using n by (auto simp: Names_def)
  have f: "find_instance n (Instances cu) = Some i"
    using a i find_instance_distinct by (auto simp: accepted_shape_def)
  have recs: "instance_records i \<subseteq> set ns" using a i by (auto simp: accepted_shape_def)
  consider k where "Inst_Key i = Some k" | "Inst_SRV i = None" | "Inst_Key i = None" "Inst_SRV i \<noteq> None" by blast
  then show ?thesis
  proof cases
    case 1
    then show ?thesis using False f recs by (auto simp: the_key_def KeyFor_def forwarded_records_def instance_records_def)
  next
    case 2
    then show ?thesis using i recs by (auto simp: instance_records_def)
  next
    case 3
    then show ?thesis using i by (auto simp: forwarded_records_def synthesizeOmittedInstanceKeys_def)
  qed
qed

text \<open>
  The data of a node is at the node's name, or a pointer to it. A pointer that the update drops
  is deleted by name; everything else is at a name whose records are all deleted.
\<close>

definition data_at_nodes :: "dnslib \<Rightarrow> store \<Rightarrow> bool" where
  "data_at_nodes lib s \<longleftrightarrow> (\<forall>i d. abs_store s i = Some (DataNode d) \<longrightarrow>
     is_ptr (RR d) \<or> (\<exists>k. ParentKeyName d = NodeKey lib k \<and> Normalize (key_name k) = Normalize (rr_name (RR d))))"

definition deleted_by :: "rr list \<Rightarrow> rr \<Rightarrow> bool" where
  "deleted_by rs r \<longleftrightarrow> AsDelete r \<in> set rs \<or>
     (\<exists>x \<in> set rs. rr_data x = ANY_data \<and> Normalize (rr_name x) = Normalize (rr_name r))"

lemma NodeKey_name: "NodeKey lib a = NodeKey lib b \<Longrightarrow> Normalize (key_name a) = Normalize (key_name b)"
  unfolding NodeKey_eq_SIG by (drule NodeKeyFromSIG_inj) simp

lemma Normalize_of_Fold: "Fold a = Fold b \<Longrightarrow> Normalize a = Normalize b"
  by (simp add: Normalize_def)

lemma the_key_name:
  assumes "accepted_shape ns cu" "n \<in> set (Names cu)"
  shows "Fold (key_name (the_key cu n)) = n"
proof -
  obtain k where "KeyFor cu n = Some k" using KeyFor_total [OF assms] by blast
  then show ?thesis using KeyFor_name [OF assms(1)] by (simp add: the_key_def)
qed

lemma delete_all_at:
  assumes a: "accepted_shape ns cu" and n: "n \<in> set (Names cu)"
  shows "\<exists>x \<in> set ns. is_delete_all n x"
proof (cases "n = Host_Name (Host cu)")
  case True
  then show ?thesis using a by (auto simp: accepted_shape_def host_ok_def host_records_def)
next
  case False
  then obtain i where i: "i \<in> set (Instances cu)" "Inst_Name i = n" using n by (auto simp: Names_def)
  then have "instance_ok i" "Inst_Delete i \<in> set ns" using a by (auto simp: accepted_shape_def instance_records_def)
  then show ?thesis using i by (auto simp: instance_ok_def)
qed

lemma dropped_data_deleted:
  assumes wf: "wf_store lib s" and a: "accepted_shape ns cu" and at: "data_at_nodes lib s"
    and d: "abs_store s i = Some (DataNode d)" and p: "ParentKeyName d \<in> NodeKey lib ` upd_keys cu"
    and h: "is_ptr (RR d) \<longrightarrow> ParentKeyName d \<noteq> NodeKey lib (the_key cu (Host_Name (Host cu)))"
  shows "deleted_by (forwarded_records lib s ns cu) (RR d) \<or> (\<exists>x \<in> upd_data cu. RecordKey lib x = i)"
proof -
  from p obtain n where n: "n \<in> set (Names cu)" "ParentKeyName d = NodeKey lib (the_key cu n)"
    by (auto simp: upd_keys_def)
  show ?thesis
  proof (cases "is_ptr (RR d)")
    case False
    obtain x where x: "x \<in> set ns" "is_delete_all n x" using delete_all_at [OF a n(1)] by blast
    obtain k where "ParentKeyName d = NodeKey lib k" "Normalize (key_name k) = Normalize (rr_name (RR d))"
      using at d False by (auto simp: data_at_nodes_def)
    then have "Normalize (rr_name (RR d)) = Normalize (key_name (the_key cu n))" using n(2) NodeKey_name by metis
    also have "\<dots> = Normalize (rr_name x)"
      using x(2) the_key_name [OF a n(1)] by (intro Normalize_of_Fold) (simp add: is_delete_all_def)
    finally show ?thesis using x by (auto simp: deleted_by_def forwarded_records_def is_delete_all_def)
  next
    case True
    then have "n \<noteq> Host_Name (Host cu)" using h n(2) by blast
    then obtain j where j: "j \<in> set (Instances cu)" "Inst_Name j = n" using n(1) by (auto simp: Names_def)
    let ?nk = "NodeKey lib (the_key cu (Inst_Name j))"
    have ne: "data_of (abs_store s) (Normalize ?nk) \<noteq> {}" using d n(2) j(2) by (auto simp: data_of_def)
    then obtain S where S: "GetNonKEYRecordSet s ?nk = Some S"
      using GetNonKEYRecordSet_spec(1) [OF wf, of ?nk] by (cases "GetNonKEYRecordSet s ?nk") auto
    have "(i, d) \<in> set (Records S)" using GetNonKEYRecordSet_elems [OF S wf] d n(2) j(2) by simp
    then have "i \<in> RecordKey lib ` set (adds_for cu (Inst_Name j)) \<or> AsDelete (RR d) \<in> set (ptrDeleteDiff lib s cu)"
      using j(1) S True by (force simp: ptrDeleteDiff_def Let_def)
    then show ?thesis using adds_for_data by (fastforce simp: deleted_by_def forwarded_records_def)
  qed
qed

end
