(* ===== verification/Srp_Properties.thy ===== *)
theory Srp_Properties
  imports Srp_Effects Update_Properties
begin

text \<open>
  The properties of the RFC 9665 handler as a whole: whatever the message, the answers of the
  authoritative server and the state of the store.
\<close>

subsection \<open>The ways a request can end\<close>

definition forwarded :: "dnslib \<Rightarrow> coordinator \<Rightarrow> string \<Rightarrow> rr list \<Rightarrow> rr list \<Rightarrow> (string \<times> msg) list \<Rightarrow> bool" where
  "forwarded lib co zone prereqs records out \<longleftrightarrow>
     (\<exists>z m resp. ResolveAuthoritativeZone co zone = Some z \<and> BuildAndSign lib co z prereqs records = Some m \<and>
        out = [(z, m)] \<and> SendUpdate co z m = Some (Some resp) \<and> msg_Rcode resp = RcodeSuccess)"

lemma upstream_send_forwarded: "upstream_send lib co zone ps rs = (out, Inr resp) \<Longrightarrow> forwarded lib co zone ps rs out"
  by (auto simp: upstream_send_def forwarded_def split: option.splits if_splits)

text \<open>The request's own key verified its signature, and the update has the accepted shape.\<close>

definition srp_authentic :: "(msg \<Rightarrow> key \<Rightarrow> bool) \<Rightarrow> SRPHandler \<Rightarrow> msg \<Rightarrow> msg \<Rightarrow> ClassifiedUpdate \<Rightarrow> bool" where
  "srp_authentic verify h r0 r cu \<longleftrightarrow>
     (\<exists>cu0 sg hk. srp_Validate (Some r0) = Inr cu0 \<and> extractSig0 r0 = Inr sg \<and>
        Normalize (SignerName sg) = Normalize (Host_Name (Host cu0)) \<and> Host_Key (Host cu0) = Some hk \<and> verify r0 hk \<and>
        srp_Validate (Some r) = Inr cu \<and> (r = r0 \<and> cu = cu0 \<or> r = rewriteDefaultServiceARPA r0 (srp_zone h)))"

lemma Classify_key: "Classify (Some r) = Inr cu \<Longrightarrow> \<exists>k. Host_Key (Host cu) = Some k"
  using Classify_shape accepted_key by blast

lemma srp_request_Inr:
  assumes "srp_request verify h co udp r0 = Inr (Inr (r, cu))"
  shows "srp_authentic verify h r0 r cu" "requireUpstream co" "\<exists>q. msg_Question r0 = [q] \<and> zoneEnabled h (rr_name q)"
proof -
  obtain cu0 where c: "Classify (Some r0) = Inr cu0"
    using assms by (auto simp: srp_request_def split: sum.splits)
  then obtain hk where hk: "Host_Key (Host cu0) = Some hk" using Classify_key by blast
  obtain q sg where rest: "msg_Question r0 = [q]" "zoneEnabled h (rr_name q)" "requireUpstream co"
    "ValidateClassified (Some r0) cu0 = None" "extractSig0 r0 = Inr sg"
    "Normalize (SignerName sg) = Normalize (Host_Name (Host cu0))" "verify r0 hk"
    and out: "(r = r0 \<and> cu = cu0) \<or> (r = rewriteDefaultServiceARPA r0 (srp_zone h) \<and> srp_Validate (Some r) = Inr cu)"
    using assms hk unfolding srp_request_def c Let_def
    by (auto split: list.splits if_splits option.splits sum.splits)
  have v: "srp_Validate (Some r0) = Inr cu0" using c rest(4) by (simp add: srp_Validate_iff)
  show "srp_authentic verify h r0 r cu"
    unfolding srp_authentic_def using v rest hk out by blast
  show "requireUpstream co" "\<exists>q. msg_Question r0 = [q] \<and> zoneEnabled h (rr_name q)" using rest by auto
qed

lemma srp_authentic_shape: "srp_authentic verify h r0 r cu \<Longrightarrow> accepted_shape (msg_Ns r) cu"
  using Classify_shape by (auto simp: srp_authentic_def srp_Validate_iff)

definition granted :: "SRPHandler \<Rightarrow> msg \<Rightarrow> u32 \<Rightarrow> u32 \<Rightarrow> bool" where
  "granted h r l kl \<longleftrightarrow> (\<exists>l0 kl0. srp_parseLease r = Some (l0, kl0) \<and> clamp (srp_policy h) l0 kl0 = (l, kl))"

definition out_records :: "dnslib \<Rightarrow> SRPHandler \<Rightarrow> store \<Rightarrow> msg \<Rightarrow> ClassifiedUpdate \<Rightarrow> u32 \<Rightarrow> u32 \<Rightarrow> rr list" where
  "out_records lib h s r cu l kl =
     forwarded_records lib s (map (record_ttl (srp_ttl h) l kl) (msg_Ns r)) (applyRecordTTL cu (srp_ttl h) l kl)"

definition fcfs_passed :: "SRPHandler \<Rightarrow> srpCoordinator \<Rightarrow> srp_clock \<Rightarrow> store \<Rightarrow> ClassifiedUpdate \<Rightarrow> rr list \<Rightarrow> bool" where
  "fcfs_passed h co t s cu prereqs \<longleftrightarrow>
     fcfs_names (leaseStoreView (fcfs_time t) s) (QueryKeyAtName co) (srp_zone h) (refuseOnForeignData h)
       (map (\<lambda>n. (n, the_key cu n)) (Names cu)) = Inr prereqs"

lemma fcfs_names_error: "fcfs_names v q z b ns = Inl f \<Longrightarrow> f \<noteq> DottedLabels x"
  by (induction v q z b ns rule: fcfs_names.induct) (auto split: sum.splits prod.splits FCFSResult.splits)

lemma error_reply_status:
  "\<forall>x. f = DottedLabels x \<longrightarrow> Status x \<noteq> StatusProcessed \<Longrightarrow> Status (srp_error_reply r f) \<noteq> StatusProcessed"
  by (cases f) (auto simp: srp_error_reply_def NewErrorResult_def NewNotRelevantResult_def)

lemma srp_locked_cases:
  assumes wf: "wf_store lib (lm y)" and lib: "plain_text lib"
  obtains (failed) f out prereqs records where "srp_locked lib h co t r cu y = (Inl f, y\<lparr>sent := sent y @ out\<rparr>)"
      "Status (srp_error_reply r f) \<noteq> StatusProcessed"
      "out = [] \<or> (fcfs_passed h co t (lm y) cu prereqs \<and> fst (upstream_send lib (base co) (srp_zone h) prereqs records) = out \<and>
        (\<exists>l kl. granted h r l kl \<and> records = out_records lib h (lm y) r cu l kl))"
  | (confirmed) l kl prereqs out c where "srp_locked lib h co t r cu y = (Inr (l, kl), c)"
      "fcfs_passed h co t (lm y) cu prereqs" "granted h r l kl"
      "forwarded lib (base co) (srp_zone h) prereqs (out_records lib h (lm y) r cu l kl) out"
      "sent c = sent y @ out" "locks c = locks y" "wf_store lib (lm c)"
      "within lib (apply_time t) l kl (upd_keys (applyRecordTTL cu (srp_ttl h) l kl)) (upd_data (applyRecordTTL cu (srp_ttl h) l kl))
         (abs_store (lm y)) (abs_store (lm c))"
proof -
  note defs = srp_locked_def fcfs_passed_def granted_def out_records_def forwarded_records_def
  show thesis
  proof (cases "fcfs_names (leaseStoreView (fcfs_time t) (lm y)) (QueryKeyAtName co) (srp_zone h) (refuseOnForeignData h)
      (map (\<lambda>n. (n, the_key cu n)) (Names cu))")
    case (Inl f)
    then show ?thesis using failed [of f "[]"] fcfs_names_error [OF Inl] error_reply_status by (simp add: defs)
  next
    case (Inr prereqs)
    show ?thesis
    proof (cases "srp_parseLease r")
      case None
      then show ?thesis using Inr failed [of LeaseUnreadable "[]"] error_reply_status by (simp add: defs)
    next
      case (Some lk)
      obtain l0 kl0 l kl where lk: "lk = (l0, kl0)" "clamp (srp_policy h) l0 kl0 = (l, kl)" by fastforce
      obtain out res where s: "upstream_send lib (base co) (srp_zone h) prereqs (out_records lib h (lm y) r cu l kl) = (out, res)"
        by fastforce
      note s' = s [unfolded out_records_def forwarded_records_def]
      have g: "granted h r l kl" using Some lk by (auto simp: granted_def)
      show ?thesis
      proof (cases res)
        case (Inl e)
        let ?f = "case e of Rejected (Some resp) \<Rightarrow>
            if prerequisiteFailed (msg_Rcode resp) prereqs then PrerequisiteConflict else ForwardFailed e | _ \<Rightarrow> ForwardFailed e"
        have "Status (srp_error_reply r ?f) \<noteq> StatusProcessed"
          by (rule error_reply_status) (auto split: send_error.splits option.splits)
        then show ?thesis
          using failed [of ?f out prereqs "out_records lib h (lm y) r cu l kl"] Inl Inr Some lk s s' g
          by (simp add: srp_locked_def fcfs_passed_def) blast
      next
        case (Inr resp)
        let ?cu = "applyRecordTTL cu (srp_ttl h) l kl"
        obtain touched s1 e where m: "applyLocalMutations lib (apply_time t) ?cu l kl (srp_zone h) (lm y) = (touched, s1, e)"
          by (metis prod_cases3)
        show ?thesis
          using confirmed [of l kl _ prereqs out] applyLocalMutations_within [OF wf lib m] Some lk s s' m g Inr
            upstream_send_forwarded [OF s [unfolded Inr]]
            \<open>fcfs_names _ _ _ _ _ = Inr prereqs\<close>
          by (simp add: srp_locked_def fcfs_passed_def)
      qed
    qed
  qed
qed

text \<open>The enumeration leaves the lease store alone.\<close>

lemma reconcileServiceEnumeration_frame:
  assumes "requireUpstream (base co)"
  obtains y' out where "reconcileServiceEnumeration lib h co now y = Inr y'" "core y' = (core y)\<lparr>sent := sent (core y) @ out\<rparr>"
proof -
  have hc: "hasCoordinator (base co)" using assms by (simp add: requireUpstream_def)
  have "\<exists>y' out. reconcileServiceEnumeration lib h co now y = Inr y' \<and> core y' = (core y)\<lparr>sent := sent (core y) @ out\<rparr>"
    unfolding reconcileServiceEnumeration_def Let_def
    using assms hc by (auto split: prod.split sum.split intro: exI [of _ "[]"])
  then show thesis using that by blast
qed

lemma KeyFor_names: "accepted_shape ns cu \<Longrightarrow> find (\<lambda>n. KeyFor cu n = None) (Names cu) = None"
  by (auto simp: find_None_iff elim: KeyFor_total)

definition srp_locks :: "dnslib \<Rightarrow> store \<Rightarrow> ClassifiedUpdate \<Rightarrow> string list" where
  "srp_locks lib s cu = lockNames s (lockRoots lib cu)"

text \<open>
  The handler answers without a change; or it fails after its locks were taken, possibly having
  tried to send; or the update was confirmed upstream and applied, and the enumeration followed.
\<close>

lemma srp_Handle_cases:
  assumes wf: "wf_store lib (lm (core y))" and lib: "plain_text lib" and up: "requireUpstream (base co)"
  obtains (answered) res where "srp_Handle lib verify h co t udp m y = Inr (res, y)" "Status res \<noteq> StatusProcessed"
  | (failed) r0 r cu f out n' prereqs where "m = Some r0" "srp_Handle lib verify h co t udp m y =
        Inr (srp_error_reply r f, y\<lparr>core := (core y)\<lparr>sent := sent (core y) @ out, locks := n'\<rparr>\<rparr>)"
      "srp_authentic verify h r0 r cu" "set (held n') = set (held (locks (core y)))"
      "Status (srp_error_reply r f) \<noteq> StatusProcessed"
      "out = [] \<or> (fcfs_passed h co t (lm (core y)) cu prereqs \<and>
        (\<exists>l kl. granted h r l kl \<and> fst (upstream_send lib (base co) (srp_zone h) prereqs (out_records lib h (lm (core y)) r cu l kl)) = out))"
  | (confirmed) r0 r cu l kl prereqs out rest y' n st where "m = Some r0"
      "srp_Handle lib verify h co t udp m y = Inr (NewProcessedResult (leaseResponse lib r l kl), y')"
      "srp_authentic verify h r0 r cu" "fcfs_passed h co t (lm (core y)) cu prereqs" "granted h r l kl"
      "TryAcquire (srp_locks lib (lm (core y)) cu) (locks (core y)) = (n, Inr st)"
      "forwarded lib (base co) (srp_zone h) prereqs (out_records lib h (lm (core y)) r cu l kl) out"
      "sent (core y') = sent (core y) @ out @ rest" "set (held (locks (core y'))) = set (held (locks (core y)))"
      "wf_store lib (lm (core y'))"
      "within lib (apply_time t) l kl (upd_keys (applyRecordTTL cu (srp_ttl h) l kl)) (upd_data (applyRecordTTL cu (srp_ttl h) l kl))
         (abs_store (lm (core y))) (abs_store (lm (core y')))"
proof (cases "\<exists>r0 r cu n st. m = Some r0 \<and> srp_request verify h (base co) udp r0 = Inr (Inr (r, cu)) \<and>
    TryAcquire (srp_locks lib (lm (core y)) cu) (locks (core y)) = (n, Inr st)")
  case False
  have np: "srp_request verify h (base co) udp r0 \<noteq> Inl p" for r0 p
    using up by (auto simp: srp_request_def Let_def split: sum.splits list.splits if_splits)
  have dl: "Status res \<noteq> StatusProcessed" if "srp_request verify h (base co) udp r0 = Inr (Inl (DottedLabels res))" for r0 res
  proof -
    have "refuseDottedLabels r0 = Some res"
      using that by (auto simp: srp_request_def Let_def split: sum.splits list.splits if_splits option.splits)
    then show ?thesis
      by (auto simp: refuseDottedLabels_def NewErrorResult_def split: if_splits sum.splits option.splits)
  qed
  have "\<exists>res. srp_Handle lib verify h co t udp m y = Inr (res, y) \<and> Status res \<noteq> StatusProcessed"
  proof (cases m)
    case None
    then show ?thesis by (simp add: srp_Handle_def NewErrorResult_def)
  next
    case (Some r0)
    show ?thesis
    proof (cases "srp_request verify h (base co) udp r0")
      case (Inr v)
      show ?thesis
      proof (cases v)
        case (Inl f)
        have "Status (srp_error_reply r0 f) \<noteq> StatusProcessed" by (rule error_reply_status) (use dl Inr Inl in auto)
        then show ?thesis using Some Inr Inl by (simp add: srp_Handle_def)
      next
        case rcu: (Inr rc)
        obtain r cu where rc: "rc = (r, cu)" by fastforce
        obtain n e where "TryAcquire (srp_locks lib (lm (core y)) cu) (locks (core y)) = (n, Inl e)"
          using False Some Inr rcu rc by (cases "TryAcquire (srp_locks lib (lm (core y)) cu) (locks (core y))") (metis old.sum.exhaust)
        then show ?thesis
          using Some Inr rcu rc srp_request_Inr(1) [of verify h "base co" udp r0 r cu] KeyFor_names [OF srp_authentic_shape] error_reply_status [of LocksContended r]
          by (auto simp: srp_Handle_def srp_locks_def)
      qed
    qed (use np in simp)
  qed
  then show thesis using answered by blast
next
  case True
  then obtain r0 r cu n st where 1: "m = Some r0" "srp_request verify h (base co) udp r0 = Inr (Inr (r, cu))"
    and 2: "TryAcquire (srp_locks lib (lm (core y)) cu) (locks (core y)) = (n, Inr st)" by blast
  note au = srp_request_Inr(1) [OF 1(2)] and kn = KeyFor_names [OF srp_authentic_shape [OF srp_request_Inr(1) [OF 1(2)]]]
  from Release_taken [OF 2] obtain n' st' where 3: "Release st n = Inr (n', st')" "set (held n') = set (held (locks (core y)))"
    by blast
  have "wf_store lib (lm ((core y)\<lparr>locks := n\<rparr>))" using wf by simp
  from this lib show thesis
  proof (cases rule: srp_locked_cases [where h = h and co = co and t = t and r = r and cu = cu])
    case (failed f out prereqs records)
    have "srp_Handle lib verify h co t udp m y =
        Inr (srp_error_reply r f, y\<lparr>core := (core y)\<lparr>sent := sent (core y) @ out, locks := n'\<rparr>\<rparr>)"
      using 1 2 3 kn failed(1) by (simp add: srp_Handle_def srp_locks_def Let_def)
    then show thesis using that(2) [OF 1(1) _ au 3(2) failed(2)] failed(3) by auto
  next
    case (confirmed l kl prereqs out c)
    define y1 where "y1 = y\<lparr>core := c\<lparr>locks := n'\<rparr>\<rparr>"
    obtain y2 rest where y2: "reconcileServiceEnumeration lib h co (list_time t) y1 = Inr y2"
      "core y2 = (core y1)\<lparr>sent := sent (core y1) @ rest\<rparr>" by (rule reconcileServiceEnumeration_frame [OF up])
    have "srp_Handle lib verify h co t udp m y = Inr (NewProcessedResult (leaseResponse lib r l kl), y2)"
      using 1 2 3 kn confirmed(1,6) y2(1) by (simp add: srp_Handle_def srp_locks_def Let_def y1_def)
    from that(3) [OF 1(1) this au _ confirmed(3) 2 confirmed(4) [simplified], where rest = rest] show thesis
      using confirmed y2(2) 3(2) by (simp add: y1_def)
  qed
qed

lemma srp_Handle_effect:
  assumes "srp_Handle lib verify h co t udp m y = Inr (res, y')" "wf_store lib (lm (core y))" "plain_text lib"
  obtains (kept) "lm (core y') = lm (core y)" "Status res \<noteq> StatusProcessed"
  | (confirmed) r0 r cu l kl prereqs out rest n st where "m = Some r0" "res = NewProcessedResult (leaseResponse lib r l kl)"
      "srp_authentic verify h r0 r cu" "fcfs_passed h co t (lm (core y)) cu prereqs" "granted h r l kl"
      "TryAcquire (srp_locks lib (lm (core y)) cu) (locks (core y)) = (n, Inr st)"
      "forwarded lib (base co) (srp_zone h) prereqs (out_records lib h (lm (core y)) r cu l kl) out"
      "sent (core y') = sent (core y) @ out @ rest"
      "within lib (apply_time t) l kl (upd_keys (applyRecordTTL cu (srp_ttl h) l kl)) (upd_data (applyRecordTTL cu (srp_ttl h) l kl))
         (abs_store (lm (core y))) (abs_store (lm (core y')))"
proof (cases "requireUpstream (base co)")
  case True
  from assms(2,3) this show thesis
  proof (cases rule: srp_Handle_cases [where verify = verify and h = h and t = t and udp = udp and m = m])
    case answered
    then show ?thesis using kept assms(1) by simp
  next
    case failed
    then show ?thesis using kept assms(1) by auto
  next
    case (confirmed r0 r cu l kl prereqs out rest y'' n st)
    then show ?thesis using that(2) [OF confirmed(1) _ confirmed(3-7)] assms(1) by auto
  qed
next
  case False
  show thesis
  proof (cases m)
    case None
    then show ?thesis using kept assms(1) by (auto simp: srp_Handle_def NewErrorResult_def)
  next
    case (Some r0)
    have "srp_request verify h (base co) udp r0 \<noteq> Inr (Inr (r, cu))" for r cu using srp_request_Inr(2) False by blast
    moreover have "srp_request verify h (base co) udp r0 \<noteq> Inr (Inl (DottedLabels x))" for x
      using False by (auto simp: srp_request_def Let_def split: sum.splits list.splits if_splits)
    ultimately show ?thesis
      using kept assms(1) Some error_reply_status by (auto simp: srp_Handle_def split: sum.splits)
  qed
qed

lemma srp_Handle_without_upstream:
  assumes "srp_Handle lib verify h co t udp m y = Inr (res, y')" "\<not> requireUpstream (base co)"
  shows "y' = y"
proof (cases m)
  case (Some r0)
  have "srp_request verify h (base co) udp r0 \<noteq> Inr (Inr (r, cu))" for r cu using srp_request_Inr(2) assms(2) by blast
  then show ?thesis using assms(1) Some by (auto simp: srp_Handle_def split: sum.splits)
qed (use assms in \<open>simp add: srp_Handle_def\<close>)

subsection \<open>Upstream first\<close>

definition withdrawn :: "rr list \<Rightarrow> string \<Rightarrow> bool" where
  "withdrawn rs name \<longleftrightarrow> (\<exists>x \<in> set rs. is_delete_all (Fold name) x) \<and>
     (\<forall>x \<in> set rs. RRToType x = 33 \<longrightarrow> Fold (rr_name x) \<noteq> Fold name)"

definition told :: "dnslib \<Rightarrow> rr list \<Rightarrow> string \<Rightarrow> forest \<Rightarrow> forest \<Rightarrow> bool" where
  "told lib records hostNode F F' \<longleftrightarrow>
     (\<forall>i. F' i \<noteq> F i \<longrightarrow>
        (\<exists>r. F' i = Some (KeyNode r) \<and> (of_key (KeyRR r) \<in> set records \<or> withdrawn records (key_name (KeyRR r)))) \<or>
        (\<exists>d. F' i = Some (DataNode d) \<and> RR d \<in> set records) \<or>
        (\<exists>d. F' i = None \<and> F i = Some (DataNode d) \<and>
           (deleted_by records (RR d) \<or> (\<exists>x \<in> set records. RecordKey lib x = i) \<or>
            (is_ptr (RR d) \<and> ParentKeyName d = hostNode))))"

lemma is_ptr_type: "is_ptr x \<Longrightarrow> RRToType x = 12"
  by (auto simp: is_ptr_def RRToType_def split: rdata.splits)

lemma ptrDeleteDiff_ptr: "x \<in> set (ptrDeleteDiff lib s cu) \<Longrightarrow> is_ptr x"
  by (auto simp: ptrDeleteDiff_def Let_def AsDelete_def is_ptr_def split: option.splits)

lemma synthesized: "x \<in> set (synthesizeOmittedInstanceKeys cu) \<Longrightarrow> \<exists>n \<in> set (Names cu). x = of_key (the_key cu n)"
  by (auto simp: synthesizeOmittedInstanceKeys_def Names_def)

lemma shape_srv:
  assumes a: "accepted_shape ns cu" and x: "x \<in> set ns" "RRToType x = 33"
  shows "\<exists>j \<in> set (Instances cu). Inst_SRV j = Some x \<and> Fold (rr_name x) = Inst_Name j"
proof -
  have "x \<notin> host_records (Host cu)"
    using a x(2) by (auto simp: accepted_shape_def host_ok_def host_records_def is_add_at_def is_delete_all_def RRToType_def)
  moreover have "x \<notin> Disc_RR ` set (Discovery cu)"
    using a x(2) by (fastforce simp: accepted_shape_def discovery_ok_def RRToType_def)
  ultimately obtain j where j: "j \<in> set (Instances cu)" "x \<in> instance_records j" using a x(1) by (auto simp: accepted_shape_def)
  then have "instance_ok j" using a by (auto simp: accepted_shape_def)
  then have "Inst_SRV j = Some x \<and> Fold (rr_name x) = Inst_Name j"
    using j(2) x(2)
    by (cases "Inst_SRV j"; cases "Inst_Key j")
       (auto simp: instance_ok_def instance_records_def is_add_at_def is_delete_all_def RRToType_def)
  then show ?thesis using j(1) by blast
qed

lemma removal_withdrawn:
  assumes a: "accepted_shape ns cu" and n: "n \<in> set (Names cu)" and f: "Fold (key_name k) = n"
    and r: "\<exists>i \<in> set (Instances cu). Inst_Name i = n \<and> Inst_SRV i = None \<and> Inst_Delete i \<in> set ns"
  shows "withdrawn (forwarded_records lib s ns cu) (key_name k)"
proof -
  obtain i where i: "i \<in> set (Instances cu)" "Inst_Name i = n" "Inst_SRV i = None" using r by blast
  have "\<exists>x \<in> set ns. is_delete_all n x" by (rule delete_all_at [OF a n])
  moreover have "Fold (rr_name x) \<noteq> n" if x: "x \<in> set (forwarded_records lib s ns cu)" "RRToType x = 33" for x
  proof
    assume xn: "Fold (rr_name x) = n"
    have "x \<notin> set (ptrDeleteDiff lib s cu)" "x \<notin> set (synthesizeOmittedInstanceKeys cu)"
      using ptrDeleteDiff_ptr [THEN is_ptr_type, of x lib s cu] synthesized [of x cu] x(2) by auto
    then have "x \<in> set ns" using x(1) by (simp add: forwarded_records_def)
    from shape_srv [OF a this x(2)] obtain j where j: "j \<in> set (Instances cu)" "Inst_SRV j = Some x" "Inst_Name j = n"
      unfolding xn by metis
    have "inj_on Inst_Name (set (Instances cu))" using a by (simp add: accepted_shape_def distinct_map)
    then have "j = i" by (rule inj_onD) (use i j in simp_all)
    then show False using i(3) j(2) by simp
  qed
  ultimately show ?thesis using f by (auto simp: withdrawn_def forwarded_records_def)
qed

lemma within_told:
  assumes wf: "wf_store lib s" and a: "accepted_shape ns cu" and at: "data_at_nodes lib s"
    and w: "within lib now l kl (upd_keys cu) (upd_data cu) (abs_store s) F'"
  shows "told lib (forwarded_records lib s ns cu) (NodeKey lib (the_key cu (Host_Name (Host cu)))) (abs_store s) F'"
  unfolding told_def
proof (intro allI impI)
  fix i assume ch: "F' i \<noteq> abs_store s i"
  let ?rs = "forwarded_records lib s ns cu" and ?hn = "NodeKey lib (the_key cu (Host_Name (Host cu)))"
  have data: "upd_data cu \<subseteq> set ?rs" using upd_data_forwarded [OF a] by (auto simp: forwarded_records_def)
  consider "keyed lib now kl (upd_keys cu) i (abs_store s i) (F' i)"
    | "filed lib now l (upd_data cu) (NodeKey lib ` upd_keys cu) i (F' i)"
    | "own_data (NodeKey lib ` upd_keys cu) (abs_store s i)" "F' i = None"
    using w ch by (auto simp: within_def)
  then show "(\<exists>r. F' i = Some (KeyNode r) \<and> (of_key (KeyRR r) \<in> set ?rs \<or> withdrawn ?rs (key_name (KeyRR r)))) \<or>
      (\<exists>d. F' i = Some (DataNode d) \<and> RR d \<in> set ?rs) \<or>
      (\<exists>d. F' i = None \<and> abs_store s i = Some (DataNode d) \<and>
         (deleted_by ?rs (RR d) \<or> (\<exists>x \<in> set ?rs. RecordKey lib x = i) \<or> (is_ptr (RR d) \<and> ParentKeyName d = ?hn)))"
  proof cases
    case 1
    then obtain n r where n: "n \<in> set (Names cu)" and r: "F' i = Some (KeyNode r)" "KeyRR r = the_key cu n"
      by (auto simp: keyed_def upd_keys_def)
    have "of_key (the_key cu n) \<in> set ?rs \<or> withdrawn ?rs (key_name (the_key cu n))"
      using upd_keys_forwarded [OF a n] removal_withdrawn [OF a n] the_key_name [OF a n] by blast
    then show ?thesis using r by auto
  next
    case 2
    then show ?thesis using data by (auto simp: filed_def)
  next
    case 3
    then obtain d where d: "abs_store s i = Some (DataNode d)" "ParentKeyName d \<in> NodeKey lib ` upd_keys cu"
      using ch by (auto simp: own_data_def)
    then show ?thesis
      using dropped_data_deleted [OF wf a at d] data 3(2) by blast
  qed
qed


subsection \<open>Authentication\<close>

text \<open>
  C10. Nothing is sent and nothing changes on behalf of a message unless it is a valid SRP update
  whose SIG(0) signature names its host and verifies with the KEY the update itself gives the
  host. All other keys of the update have the same algorithm, protocol and public key.
\<close>

theorem srp_authenticated:
  assumes "srp_Handle lib verify h co t udp m y = Inr (res, y')" "wf_store lib (lm (core y))" "plain_text lib"
    and "sent (core y') \<noteq> sent (core y) \<or> lm (core y') \<noteq> lm (core y) \<or> Status res = StatusProcessed"
  shows "\<exists>r cu sg hk. m = Some r \<and> srp_Validate (Some r) = Inr cu \<and> extractSig0 r = Inr sg \<and>
    Normalize (SignerName sg) = Normalize (Host_Name (Host cu)) \<and> Host_Key (Host cu) = Some hk \<and> verify r hk \<and>
    (\<forall>i \<in> set (Instances cu). \<forall>k. Inst_Key i = Some k \<longrightarrow> keysIdentical hk k)"
proof -
  have "\<exists>r0 r cu. m = Some r0 \<and> srp_authentic verify h r0 r cu"
  proof (cases "requireUpstream (base co)")
    case True
    from assms(2,3) True show ?thesis
    proof (cases rule: srp_Handle_cases [where verify = verify and h = h and t = t and udp = udp and m = m])
      case answered
      then show ?thesis using assms(1,4) by simp
    qed blast+
  next
    case False
    then have "y' = y" using srp_Handle_without_upstream assms(1) by blast
    from assms(1-3) show ?thesis
      by (cases rule: srp_Handle_effect) (use assms(4) \<open>y' = y\<close> in auto)
  qed
  then obtain r0 cu0 sg hk where 1: "m = Some r0" "srp_Validate (Some r0) = Inr cu0" "extractSig0 r0 = Inr sg"
    "Normalize (SignerName sg) = Normalize (Host_Name (Host cu0))" "Host_Key (Host cu0) = Some hk" "verify r0 hk"
    by (auto simp: srp_authentic_def)
  have "validateKeys cu0 = None"
    using 1(2) by (auto simp: srp_Validate_iff ValidateClassified_def validatePostClassify_def split: if_splits option.splits)
  then have "\<forall>i \<in> set (Instances cu0). \<forall>k. Inst_Key i = Some k \<longrightarrow> keysIdentical hk k"
    using 1(5) by (auto simp: validateKeys_def check_keys_None)
  then show ?thesis using 1 by blast
qed

subsection \<open>First come, first served\<close>

lemma fcfs_names_Inr:
  assumes "fcfs_names v q z b nks = Inr ps" "(n, k) \<in> set nks"
  shows "\<exists>p. Evaluate (Some v) (Some q) z n (Some k) b = Inr (FCFSProceed, p) \<and> set (opt_list p) \<subseteq> set ps"
  using assms
  by (induction v q z b nks arbitrary: ps rule: fcfs_names.induct) (fastforce split: sum.splits prod.splits FCFSResult.splits)+

lemma forwarded_names:
  assumes a: "accepted_shape ns cu" and x: "x \<in> set (forwarded_records lib s ns cu)" and p: "\<not> is_ptr x"
  shows "Fold (rr_name x) \<in> set (Names cu)"
proof -
  consider "x \<in> host_records (Host cu)" | i where "i \<in> set (Instances cu)" "x \<in> instance_records i"
    | "x \<in> Disc_RR ` set (Discovery cu)" | "x \<in> set (ptrDeleteDiff lib s cu)" | "x \<in> set (synthesizeOmittedInstanceKeys cu)"
    using a x by (auto simp: forwarded_records_def accepted_shape_def)
  then show ?thesis
  proof cases
    case 1
    then show ?thesis
      using a by (cases "Host_Key (Host cu)")
        (auto simp: accepted_shape_def host_ok_def host_records_def is_add_at_def is_delete_all_def Names_def)
  next
    case 2
    then have "instance_ok i" using a by (auto simp: accepted_shape_def)
    then have "Fold (rr_name x) = Inst_Name i"
      using 2(2) by (cases "Inst_Key i"; cases "Inst_SRV i")
        (auto simp: instance_ok_def instance_records_def is_add_at_def is_delete_all_def)
    then show ?thesis using 2(1) by (simp add: Names_def)
  next
    case 3
    then obtain d where "d \<in> set (Discovery cu)" "x = Disc_RR d" by blast
    then have "rr_data x = PTR_data (ptr_target x)" using a by (auto simp: accepted_shape_def discovery_ok_def)
    then show ?thesis using p by (simp add: is_ptr_def)
  next
    case 4
    then show ?thesis using p ptrDeleteDiff_ptr by blast
  next
    case 5
    then obtain n where "n \<in> set (Names cu)" "x = of_key (the_key cu n)" using synthesized by blast
    then show ?thesis using the_key_name [OF a] by (simp add: of_key_def)
  qed
qed

lemma forwarded_send: "forwarded lib co zone ps rs out \<Longrightarrow> fst (upstream_send lib co zone ps rs) = out"
  by (auto simp: forwarded_def upstream_send_def split: option.splits if_splits)

lemma srp_authentic_keys:
  assumes "srp_authentic verify h r0 r cu" "n \<in> set (Names cu)" "Host_Key (Host cu) = Some hk"
  shows "keysIdentical hk (the_key cu n)"
proof -
  have "validateKeys cu = None"
    using assms(1)
    by (auto simp: srp_authentic_def srp_Validate_iff ValidateClassified_def validatePostClassify_def split: if_splits option.splits)
  moreover obtain k where "KeyFor cu n = Some k" using KeyFor_total [OF srp_authentic_shape [OF assms(1)] assms(2)] by blast
  ultimately show ?thesis using KeyFor_identical assms(3) by (simp add: the_key_def)
qed


subsection \<open>Totality, locks, grants\<close>

lemma srp_runs:
  assumes "wf_store lib (lm (core y))" "plain_text lib" "requireUpstream (base co)"
  shows "\<exists>res y'. srp_Handle lib verify h co t udp m y = Inr (res, y') \<and> wf_store lib (lm (core y')) \<and>
    set (held (locks (core y'))) = set (held (locks (core y)))"
  using assms
proof (cases rule: srp_Handle_cases [where verify = verify and h = h and t = t and udp = udp and m = m])
  case (answered res)
  then show ?thesis using assms(1) by simp
next
  case (failed r0 r cu f out n' prereqs)
  then show ?thesis using assms(1) by simp
next
  case (confirmed r0 r cu l kl prereqs out rest y' n st)
  then show ?thesis by blast
qed

text \<open>
  C17. With its upstream configured the handler never panics, on any message: \<open>KeyFor\<close> is only
  asked for names it knows. It keeps the store's invariant and has released its locks when it
  returns.
\<close>

theorem srp_total:
  assumes "wf_store lib (lm (core y))" "plain_text lib" "requireUpstream (base co)"
  shows "\<exists>res y'. srp_Handle lib verify h co t udp m y = Inr (res, y') \<and> wf_store lib (lm (core y')) \<and>
    set (held (locks (core y'))) = set (held (locks (core y)))"
  by (rule srp_runs [OF assms])

text \<open>The key tag is computed from the RDATA (RFC 4034 appendix B), so the TTL does not enter.\<close>

definition tag_of_rdata :: "dnslib \<Rightarrow> bool" where
  "tag_of_rdata lib \<longleftrightarrow> (\<forall>k ttl. KeyTag lib (k\<lparr>key_ttl := ttl\<rparr>) = KeyTag lib k)"

lemma NodeKey_ttl: "tag_of_rdata lib \<Longrightarrow> NodeKey lib (k\<lparr>key_ttl := x\<rparr>) = NodeKey lib k"
  by (simp add: tag_of_rdata_def NodeKey_def)

lemma KeyFor_applyRecordTTL:
  "KeyFor (applyRecordTTL cu ttl l kl) n = map_option (\<lambda>k. k\<lparr>key_ttl := min ttl kl\<rparr>) (KeyFor cu n)"
proof -
  let ?g = "map_option (\<lambda>k. k\<lparr>key_ttl := min ttl kl\<rparr>)"
  have hk: "Host_Key (Host (applyRecordTTL cu ttl l kl)) = ?g (Host_Key (Host cu))"
    by (simp add: applyRecordTTL_def Let_def)
  have "find_instance n (map (with_ttl ttl l kl) is) = map_option (with_ttl ttl l kl) (find_instance n is)" for "is"
    by (induction "is") (simp_all add: find_instance_def)
  then show ?thesis
    by (cases "Host_Key (Host cu)")
       (auto simp: KeyFor_def hk Instances_applyRecordTTL with_ttl_def keyAtName_def split: option.split)
qed

lemma upd_nodes_ttl:
  assumes "tag_of_rdata lib" "accepted_shape ns cu"
  shows "NodeKey lib ` upd_keys (applyRecordTTL cu ttl l kl) = set (lockRoots lib cu)"
proof -
  have "NodeKey lib (the_key (applyRecordTTL cu ttl l kl) n) = NodeKey lib (the_key cu n)" if n: "n \<in> set (Names cu)" for n
  proof -
    obtain k where "KeyFor cu n = Some k" using KeyFor_total [OF assms(2) n] by blast
    then show ?thesis using NodeKey_ttl [OF assms(1)] by (simp add: the_key_def KeyFor_applyRecordTTL)
  qed
  then show ?thesis by (auto simp: upd_keys_def lockRoots_def image_iff)
qed

definition node_name :: "string \<Rightarrow> node \<Rightarrow> string" where
  "node_name i v = (case v of KeyNode r \<Rightarrow> NodeKeyName i | DataNode d \<Rightarrow> NodeKeyName (ParentKeyName d))"

text \<open>
  C18. Whatever a request changes it has locked: the name of every key node that is entered or
  renewed, and the name of the node whose data is entered, replaced or dropped, is in the set of
  names the request holds, none of which anybody else held.
\<close>

theorem srp_locks_cover:
  assumes "srp_Handle lib verify h co t udp m y = Inr (res, y')" "wf_store lib (lm (core y))" "plain_text lib" "tag_of_rdata lib"
    and "abs_store (lm (core y')) i \<noteq> abs_store (lm (core y)) i"
  shows "\<exists>r0 r cu. m = Some r0 \<and> srp_authentic verify h r0 r cu \<and>
    (\<forall>v. abs_store (lm (core y)) i = Some v \<or> abs_store (lm (core y')) i = Some v \<longrightarrow>
       node_name i v \<in> set (srp_locks lib (lm (core y)) cu)) \<and>
    set (srp_locks lib (lm (core y)) cu) \<inter> set (held (locks (core y))) = {}"
  using assms(1-3)
proof (cases rule: srp_Handle_effect)
  case (confirmed r0 r cu l kl prereqs out rest n st)
  have free: "set (srp_locks lib (lm (core y)) cu) \<inter> set (held (locks (core y))) = {}"
    using confirmed(6) by (auto simp: TryAcquire_def tryLocked_Some split: prod.splits option.splits)
  let ?K = "upd_keys (applyRecordTTL cu (srp_ttl h) l kl)"
  have K: "NodeKeyName ` NodeKey lib ` ?K \<subseteq> set (srp_locks lib (lm (core y)) cu)"
    unfolding upd_nodes_ttl [OF assms(4) srp_authentic_shape [OF confirmed(3)]]
    by (auto simp: srp_locks_def lockNames_def)
  have "node_name i v \<in> NodeKeyName ` NodeKey lib ` ?K"
    if v: "abs_store (lm (core y)) i = Some v \<or> abs_store (lm (core y')) i = Some v" for v
  proof -
    consider "keyed lib (apply_time t) kl ?K i (abs_store (lm (core y)) i) (abs_store (lm (core y')) i)"
      | "own_data (NodeKey lib ` ?K) (abs_store (lm (core y)) i)"
        "abs_store (lm (core y')) i = None \<or> filed lib (apply_time t) l (upd_data (applyRecordTTL cu (srp_ttl h) l kl)) (NodeKey lib ` ?K) i (abs_store (lm (core y')) i)"
      using confirmed(9) assms(5) by (auto simp: within_def dest!: spec [of _ i])
    then show ?thesis
    proof cases
      case 1
      then have "i \<in> NodeKey lib ` ?K" by (auto simp: keyed_def)
      moreover have "v \<noteq> DataNode d" for d
        using v 1 calculation NodeKey_not_record [OF assms(2) [unfolded wf_store_def] assms(3)] abs_store_Data [OF assms(2), of i d]
        by (auto simp: keyed_def)
      ultimately show ?thesis by (cases v) (auto simp: node_name_def)
    next
      case 2
      then show ?thesis using v by (auto simp: node_name_def own_data_def filed_def)
    qed
  qed
  then show ?thesis using K free confirmed(1,3) by blast
qed (use assms(5) in simp)


subsection \<open>The enumeration records\<close>

lemma set_wanted [simp]: "domain_prefixes a b \<noteq> []"
  by (simp add: domain_prefixes_def)

lemma enumerated_filter: "enumerated zone (filter P ts) = {Fold t @ ''.'' @ zone | t. t \<in> set ts \<and> P t \<and> t \<noteq> []}"
  by (auto simp: enumerated_def)

text \<open>
  What one pass sends for the service types is \<open>DiffEnumerationRecords\<close> of these two lists; the
  rest of the message has other owner names.
\<close>

definition listed_before :: "dnslib \<Rightarrow> SRPHandler \<Rightarrow> srpCoordinator \<Rightarrow> time \<Rightarrow> srp_state \<Rightarrow> string list" where
  "listed_before lib h co now y =
     filter (\<lambda>t. Fold t \<in> Fold ` set (collectLiveServiceTypes lib now (lm (core y))) \<or> gone_everywhere co (srp_zone h) t)
       (serviceTypes y)"

definition pass_records :: "dnslib \<Rightarrow> SRPHandler \<Rightarrow> srpCoordinator \<Rightarrow> time \<Rightarrow> srp_state \<Rightarrow> rr list" where
  "pass_records lib h co now y =
     (let current = collectLiveServiceTypes lib now (lm (core y));
          survivors = filter (\<lambda>t. Fold t \<notin> Fold ` set current \<and> \<not> gone_everywhere co (srp_zone h) t) (serviceTypes y)
      in DiffEnumerationRecords (srp_zone h) (listed_before lib h co now y) current (srp_ttl h) @
         concat (map (\<lambda>(prefix, present). DiffSelfPointingDomainRecord prefix (srp_zone h)
           (was_present (domainEnumPresent y) prefix) present (srp_ttl h))
           (domain_prefixes (current \<noteq> [] \<or> survivors \<noteq> []) (advertiseRegistrationDomain h))))"

definition listed_after :: "dnslib \<Rightarrow> SRPHandler \<Rightarrow> srpCoordinator \<Rightarrow> time \<Rightarrow> srp_state \<Rightarrow> string set" where
  "listed_after lib h co now y =
     (let current = set (collectLiveServiceTypes lib now (lm (core y)))
      in Fold ` current \<union> Fold ` {t \<in> set (serviceTypes y). Fold t \<notin> Fold ` current \<and> \<not> gone_everywhere co (srp_zone h) t})"

lemma reconcile_pass:
  assumes "requireUpstream (base co)"
  obtains (quiet) y' where "pass_records lib h co now y = []" "reconcileServiceEnumeration lib h co now y = Inr y'"
      "core y' = core y" "set (serviceTypes y') = listed_after lib h co now y"
      "domainEnumPresent y' = domain_prefixes (listed_after lib h co now y \<noteq> {}) (advertiseRegistrationDomain h)"
  | (failed) out e where "pass_records lib h co now y \<noteq> []"
      "upstream_send lib (base co) (srp_zone h) [] (pass_records lib h co now y) = (out, Inl e)"
      "reconcileServiceEnumeration lib h co now y = Inr (y\<lparr>core := (core y)\<lparr>sent := sent (core y) @ out\<rparr>\<rparr>)"
  | (written) out y' where "pass_records lib h co now y \<noteq> []"
      "forwarded lib (base co) (srp_zone h) [] (pass_records lib h co now y) out"
      "reconcileServiceEnumeration lib h co now y = Inr y'" "core y' = (core y)\<lparr>sent := sent (core y) @ out\<rparr>"
      "set (serviceTypes y') = listed_after lib h co now y"
      "domainEnumPresent y' = domain_prefixes (listed_after lib h co now y \<noteq> {}) (advertiseRegistrationDomain h)"
proof -
  have hc: "hasCoordinator (base co)" using assms by (simp add: requireUpstream_def)
  define current where "current = collectLiveServiceTypes lib now (lm (core y))"
  define survivors where "survivors = filter (\<lambda>t. Fold t \<notin> Fold ` set current \<and> \<not> gone_everywhere co (srp_zone h) t) (serviceTypes y)"
  define wanted where "wanted = domain_prefixes (current \<noteq> [] \<or> survivors \<noteq> []) (advertiseRegistrationDomain h)"
  define y' where "y' = y\<lparr>serviceTypes := remdups (remdups (map Fold current) @ map Fold survivors), domainEnumPresent := wanted\<rparr>"
  have types: "set (serviceTypes y') = listed_after lib h co now y"
    by (auto simp: y'_def listed_after_def Let_def current_def [symmetric] survivors_def)
  have "(current \<noteq> [] \<or> survivors \<noteq> []) = (listed_after lib h co now y \<noteq> {})"
    by (auto simp: listed_after_def Let_def current_def [symmetric] survivors_def filter_empty_conv)
  then have dom: "domainEnumPresent y' = domain_prefixes (listed_after lib h co now y \<noteq> {}) (advertiseRegistrationDomain h)"
    by (simp add: y'_def wanted_def)
  have step: "reconcileServiceEnumeration lib h co now y =
      (if pass_records lib h co now y = [] then Inr y'
       else case upstream_send lib (base co) (srp_zone h) [] (pass_records lib h co now y) of
         (out, Inl _) \<Rightarrow> Inr (y\<lparr>core := (core y)\<lparr>sent := sent (core y) @ out\<rparr>\<rparr>)
       | (out, Inr _) \<Rightarrow> Inr (y'\<lparr>core := (core y)\<lparr>sent := sent (core y) @ out\<rparr>\<rparr>))"
    using assms hc
    unfolding reconcileServiceEnumeration_def pass_records_def listed_before_def Let_def y'_def wanted_def survivors_def current_def
    by (simp add: filter_filter conj_commute cong: filter_cong)
  show thesis
  proof (cases "pass_records lib h co now y = []")
    case True
    then show ?thesis using quiet [of y'] step types dom by (simp add: y'_def)
  next
    case False
    obtain out res where s: "upstream_send lib (base co) (srp_zone h) [] (pass_records lib h co now y) = (out, res)" by fastforce
    show ?thesis
    proof (cases res)
      case (Inl e)
      then show ?thesis using failed False s step by simp
    next
      case (Inr resp)
      then show ?thesis
        using written [of out "y'\<lparr>core := (core y)\<lparr>sent := sent (core y) @ out\<rparr>\<rparr>"] False s step types dom
          upstream_send_forwarded [OF s [unfolded Inr]] by simp
    qed
  qed
qed

lemma apply_ptr_other: "rr_name r \<noteq> own \<Longrightarrow> apply_ptr own r Z = Z"
  by (simp add: apply_ptr_def split: rdata.split)

lemma fold_apply_ptr_other: "\<forall>r \<in> set rs. rr_name r \<noteq> own \<Longrightarrow> fold (apply_ptr own) rs Z = Z"
  by (induction rs) (simp_all add: apply_ptr_other)

lemma domain_records_other:
  assumes "(prefix, present) \<in> set (domain_prefixes a b)" "r \<in> set (DiffSelfPointingDomainRecord prefix zone was present ttl)"
  shows "rr_name r \<noteq> EnumerationOwnerName zone"
proof -
  have "rr_name r = prefix @ ''._dns-sd._udp.'' @ zone"
    using assms(2)
    by (auto simp: DiffSelfPointingDomainRecord_def Let_def DomainEnumerationOwnerName_def ptr_add_def ptr_delete_def split: if_splits)
  moreover have "prefix \<in> {''b'', ''db'', ''lb'', ''r'', ''dr''}"
    using assms(1)
    by (auto simp: domain_prefixes_def BrowseDomainPrefix_def DefaultBrowseDomainPrefix_def LegacyBrowseDomainPrefix_def
        RegistrationDomainPrefix_def DefaultRegistrationDomainPrefix_def)
  ultimately show ?thesis by (auto simp: EnumerationOwnerName_def)
qed

lemma pass_effect:
  "fold (apply_ptr (EnumerationOwnerName (srp_zone h))) (pass_records lib h co now y) Z =
     (Z - (enumerated (srp_zone h) (listed_before lib h co now y) - enumerated (srp_zone h) (collectLiveServiceTypes lib now (lm (core y))))) \<union>
     (enumerated (srp_zone h) (collectLiveServiceTypes lib now (lm (core y))) - enumerated (srp_zone h) (listed_before lib h co now y))"
  unfolding pass_records_def Let_def fold_append o_apply fold_DiffEnumerationRecords
  by (rule fold_apply_ptr_other) (auto dest!: domain_records_other)


subsection \<open>A concrete run\<close>

text \<open>A host registers one service in an empty proxy.\<close>

definition srp_key :: key where
  "srp_key = \<lparr>key_name = ''h.e.'', key_class = 1, key_ttl = 120, Flags = 0, Protocol = 3,
     Algorithm = 15, PublicKey = ''DDDD''\<rparr>"

definition add_rr :: "string \<Rightarrow> rdata \<Rightarrow> rr" where
  "add_rr n d = \<lparr>rr_name = n, rr_class = ClassINET, rr_ttl = 120, rr_data = d\<rparr>"

definition del_all :: "string \<Rightarrow> rr" where
  "del_all n = \<lparr>rr_name = n, rr_class = ClassANY, rr_ttl = 0, rr_data = ANY_data\<rparr>"

definition service_request :: msg where
  "service_request = sample_request ''e.'' srp_key 30 60
     [del_all ''h.e.'', add_rr ''h.e.'' (A_data ''7''), of_key srp_key,
      del_all ''P._i._tcp.e.'', add_rr ''P._i._tcp.e.'' (SRV_data 0 0 631 ''h.e.''),
      add_rr ''P._i._tcp.e.'' (TXT_data ['''']), add_rr ''_i._tcp.e.'' (PTR_data ''P._i._tcp.e.'')]"

definition sample_srp :: SRPHandler where
  "sample_srp = \<lparr>srp_zone = ''e.'', allowUDP = False, refuseOnForeignData = True, rewriteARPA = False,
     srp_policy = \<lparr>MinKeyLease = 0, MaxKeyLease = 0, MinRRLease = 0, MaxRRLease = 0\<rparr>, srp_ttl = 50,
     advertiseRegistrationDomain = False\<rparr>"

definition sample_srp_co :: srpCoordinator where
  "sample_srp_co = \<lparr>base = sample_co, QueryKeyAtName = (\<lambda>z n. Some (AuthNXDomain, [])), QueryPTRExists = (\<lambda>z n. Some False)\<rparr>"

definition sample_srp_clock :: srp_clock where
  "sample_srp_clock = \<lparr>fcfs_time = 1, apply_time = 2, arm_time = 3, list_time = 4\<rparr>"

definition sample_srp_state :: srp_state where
  "sample_srp_state = \<lparr>core = sample_proxy\<lparr>lm := NewInMemoryManager\<rparr>, serviceTypes = [], domainEnumPresent = []\<rparr>"

definition srp_run :: "panic + (HandlerResult \<times> srp_state)" where
  "srp_run = srp_Handle sample_lib (\<lambda>m k. True) sample_srp sample_srp_co sample_srp_clock False (Some service_request) sample_srp_state"

definition sample_cu :: ClassifiedUpdate where
  "sample_cu = \<lparr>Host = \<lparr>Host_Name = ''h.e.'', Host_Delete = del_all ''h.e.'', Host_Key = Some srp_key,
       Host_Addresses = [add_rr ''h.e.'' (A_data ''7'')]\<rparr>,
     Instances = [\<lparr>Inst_Name = ''p._i._tcp.e.'', Inst_Delete = del_all ''P._i._tcp.e.'', Inst_Key = None,
       Inst_SRV = Some (add_rr ''P._i._tcp.e.'' (SRV_data 0 0 631 ''h.e.'')),
       Inst_TXT = [add_rr ''P._i._tcp.e.'' (TXT_data [''''])], removalShaped = False\<rparr>],
     Discovery = [\<lparr>Disc_Name = ''_i._tcp.e.'', Disc_Target = ''p._i._tcp.e.'', IsAdd = True,
       Disc_RR = add_rr ''_i._tcp.e.'' (PTR_data ''P._i._tcp.e.''), BaseType = []\<rparr>]\<rparr>"

lemma service_accepted:
  "srp_request (\<lambda>m k. True) sample_srp (base sample_srp_co) False service_request = Inr (Inr (service_request, sample_cu))"
  by code_simp

lemma service_applied:
  "case srp_locked sample_lib sample_srp sample_srp_co sample_srp_clock service_request sample_cu ((core sample_srp_state)\<lparr>locks := n\<rparr>) of
     (Inr (l, kl), c) \<Rightarrow> l = 30 \<and> kl = 60 \<and> \<not> Option.is_none (mget (leases (lm c)) ''h.e.+015+00004'') \<and> sent c \<noteq> [] \<and> locks c = n
   | _ \<Rightarrow> False"
  by code_simp

lemma sample_srp_wf: "wf_store sample_lib (lm (core sample_srp_state))" "requireUpstream (base sample_srp_co)" "sent (core sample_srp_state) = []"
  by (simp_all add: sample_srp_state_def wf_NewInMemoryManager sample_srp_co_def requireUpstream_def sample_co_def sample_proxy_def)

lemma service_run:
  obtains res y' where "srp_run = Inr (res, y')" "Status res = StatusProcessed" "sent (core y') \<noteq> sent (core sample_srp_state)"
    "abs_store (lm (core y')) ''h.e.+015+00004'' \<noteq> abs_store (lm (core sample_srp_state)) ''h.e.+015+00004''"
proof -
  have kn: "find (\<lambda>n. KeyFor sample_cu n = None) (Names sample_cu) = None"
    using KeyFor_names srp_authentic_shape srp_request_Inr(1) [OF service_accepted] by blast
  obtain n st where l: "TryAcquire (lockNames (lm (core sample_srp_state)) (lockRoots sample_lib sample_cu)) (locks (core sample_srp_state)) = (n, Inr st)"
    by (auto simp: sample_srp_state_def sample_proxy_def NewNodeLocks_def TryAcquire_def tryLocked_def Let_def)
  obtain n' st' where r: "Release st n = Inr (n', st')" using Release_taken [OF l] by blast
  let ?locked = "srp_locked sample_lib sample_srp sample_srp_co sample_srp_clock service_request sample_cu ((core sample_srp_state)\<lparr>locks := n\<rparr>)"
  obtain v c where loc: "?locked = (v, c)" by (cases ?locked)
  note ap = service_applied [of n, unfolded loc]
  obtain l kl where lk: "v = Inr (l, kl)" using ap by (cases v) auto
  have c: "?locked = (Inr (30, 60), c)" "mget (leases (lm c)) ''h.e.+015+00004'' \<noteq> None" "sent c \<noteq> []" "locks c = n"
    using ap loc unfolding lk by (auto simp: Option.is_none_def)
  obtain y2 out where y2: "reconcileServiceEnumeration sample_lib sample_srp sample_srp_co (list_time sample_srp_clock)
      (sample_srp_state\<lparr>core := c\<lparr>locks := n'\<rparr>\<rparr>) = Inr y2" "core y2 = c\<lparr>locks := n', sent := sent c @ out\<rparr>"
    using reconcileServiceEnumeration_frame [OF sample_srp_wf(2), of sample_lib sample_srp "list_time sample_srp_clock"
        "sample_srp_state\<lparr>core := c\<lparr>locks := n'\<rparr>\<rparr>"] by auto
  have run: "srp_run = Inr (NewProcessedResult (leaseResponse sample_lib service_request 30 60), y2)"
    using service_accepted kn l r c y2(1) by (simp add: srp_run_def srp_Handle_def Let_def)
  have "abs_store (lm (core y2)) ''h.e.+015+00004'' \<noteq> abs_store (lm (core sample_srp_state)) ''h.e.+015+00004''"
    using c(2) y2(2) by (auto simp: abs_store_def sample_srp_state_def NewInMemoryManager_def)
  then show ?thesis using that [OF run] c(3) y2(2) sample_srp_wf(3) by (simp add: NewProcessedResult_def)
qed

lemmas service_hyps = sample_srp_wf(1) plain_text_sample

lemma sample_data_at_nodes: "data_at_nodes sample_lib (lm (core sample_srp_state))"
  by (simp add: data_at_nodes_def abs_store_def sample_srp_state_def NewInMemoryManager_def)

lemma sample_tag: "tag_of_rdata sample_lib"
  by (simp add: tag_of_rdata_def sample_lib_def)


theorem srp_authenticated_witness:
  "\<exists>r cu sg hk. Some service_request = Some r \<and> srp_Validate (Some r) = Inr cu \<and> extractSig0 r = Inr sg \<and>
    Normalize (SignerName sg) = Normalize (Host_Name (Host cu)) \<and> Host_Key (Host cu) = Some hk \<and>
    (\<forall>i \<in> set (Instances cu). \<forall>k. Inst_Key i = Some k \<longrightarrow> keysIdentical hk k)"
proof -
  obtain res y' where run: "srp_run = Inr (res, y')" "Status res = StatusProcessed" by (rule service_run)
  from srp_authenticated [OF run(1) [unfolded srp_run_def] service_hyps] run(2) show ?thesis by blast
qed


theorem srp_total_witness:
  "\<exists>res y'. srp_run = Inr (res, y') \<and> wf_store sample_lib (lm (core y')) \<and>
    set (held (locks (core y'))) = set (held (locks (core sample_srp_state)))"
  unfolding srp_run_def by (rule srp_total [OF service_hyps sample_srp_wf(2)])

theorem srp_locks_cover_witness:
  "\<exists>r0 r cu. Some service_request = Some r0 \<and> srp_authentic (\<lambda>m k. True) sample_srp r0 r cu \<and>
    set (srp_locks sample_lib (lm (core sample_srp_state)) cu) \<inter> set (held (locks (core sample_srp_state))) = {}"
proof -
  obtain res y' where run: "srp_run = Inr (res, y')"
    and ch: "abs_store (lm (core y')) ''h.e.+015+00004'' \<noteq> abs_store (lm (core sample_srp_state)) ''h.e.+015+00004''"
    by (rule service_run)
  from srp_locks_cover [OF run [unfolded srp_run_def] service_hyps sample_tag ch] show ?thesis by blast
qed



subsection \<open>What validation accepts\<close>

text \<open>
  C21. A message that passes validation has the shape of RFC 9665 section 3.3: one host with one
  key, service instances of different names, each with its Delete All RRsets; an instance with an
  SRV has a TXT, names the host and is pointed at; every pointer added points at such an instance,
  under its own service type; all keys carry the same key material; the Update Lease option is
  there and decodes. Nothing else is in the Update section.
\<close>

theorem srp_Validate_shape:
  assumes "srp_Validate (Some m) = Inr cu"
  shows "accepted_shape (msg_Ns m) cu \<and>
    (\<forall>n \<in> set (Names cu). \<exists>hk k. Host_Key (Host cu) = Some hk \<and> KeyFor cu n = Some k \<and> keysIdentical hk k) \<and>
    (\<forall>d \<in> set (Discovery cu). IsAdd d \<longrightarrow> ServiceTypeFromServiceName (disc_base d) \<noteq> None \<and>
       fst (snd (CutFirstLabel (Disc_Target d))) = disc_base d) \<and>
    (\<exists>code lo. FindOption (Some m) = Some code \<and> Decode \<lparr>Lease = 0, KeyLease = None\<rparr> [ERFC3597 OPTION_CODE code] = (lo, None))"
proof -
  have c: "Classify (Some m) = Inr cu" and v: "ValidateClassified (Some m) cu = None"
    using assms by (simp_all add: srp_Validate_iff)
  have p: "validateLeaseOption m = None" "validateKeys cu = None" "validateServiceNames cu = None"
    using v by (auto simp: ValidateClassified_def validatePostClassify_def split: if_splits option.splits)
  note sh = Classify_shape [OF c]
  obtain hk where hk: "Host_Key (Host cu) = Some hk" using accepted_key [OF sh] by blast
  have "\<exists>hk k. Host_Key (Host cu) = Some hk \<and> KeyFor cu n = Some k \<and> keysIdentical hk k" if "n \<in> set (Names cu)" for n
    using KeyFor_total [OF sh that] KeyFor_identical [OF p(2) _ hk] hk by metis
  moreover have "\<exists>code lo. FindOption (Some m) = Some code \<and> Decode \<lparr>Lease = 0, KeyLease = None\<rparr> [ERFC3597 OPTION_CODE code] = (lo, None)"
    using p(1) by (auto simp: validateLeaseOption_def split: option.splits prod.splits)
  ultimately show ?thesis
    using sh p(3) by (simp add: validateServiceNames_def check_service_names_None)
qed

lemma service_validated: "srp_Validate (Some service_request) = Inr sample_cu"
  using srp_request_Inr(1) [OF service_accepted] unfolding srp_authentic_def by blast

theorem srp_Validate_shape_witness: "accepted_shape (msg_Ns service_request) sample_cu"
  using srp_Validate_shape [OF service_validated] by blast

subsection \<open>Convergence of the enumeration\<close>

lemma domain_part_Nil:
  assumes "domainEnumPresent y = domain_prefixes a b"
  shows "concat (map (\<lambda>(prefix, present). DiffSelfPointingDomainRecord prefix zone (was_present (domainEnumPresent y) prefix) present ttl)
    (domain_prefixes a b)) = []"
  unfolding assms domain_prefixes_def BrowseDomainPrefix_def DefaultBrowseDomainPrefix_def LegacyBrowseDomainPrefix_def
    RegistrationDomainPrefix_def DefaultRegistrationDomainPrefix_def
  by (simp add: DiffSelfPointingDomainRecord_def was_present_def mget_Cons)

lemma enumerated_Fold: "enumerated zone ts = (\<lambda>t. t @ ''.'' @ zone) ` (Fold ` set ts - {[]})"
  by (auto simp: enumerated_def image_iff)

lemma pass_records_domain:
  "pass_records lib h co now y =
     DiffEnumerationRecords (srp_zone h) (listed_before lib h co now y) (collectLiveServiceTypes lib now (lm (core y))) (srp_ttl h) @
     concat (map (\<lambda>(prefix, present). DiffSelfPointingDomainRecord prefix (srp_zone h)
       (was_present (domainEnumPresent y) prefix) present (srp_ttl h))
       (domain_prefixes (listed_after lib h co now y \<noteq> {}) (advertiseRegistrationDomain h)))"
proof -
  let ?cur = "collectLiveServiceTypes lib now (lm (core y))"
  have "(?cur \<noteq> [] \<or> filter (\<lambda>t. Fold t \<notin> Fold ` set ?cur \<and> \<not> gone_everywhere co (srp_zone h) t) (serviceTypes y) \<noteq> []) =
      (listed_after lib h co now y \<noteq> {})"
    by (auto simp: listed_after_def Let_def filter_empty_conv)
  then show ?thesis by (simp add: pass_records_def Let_def)
qed

lemma settled_pass_Nil:
  assumes folded: "\<forall>t \<in> set (serviceTypes y). Fold t = t"
    and core: "lm (core y') = lm (core y)" and types: "set (serviceTypes y') = listed_after lib h co now y"
    and dom: "domainEnumPresent y' = domain_prefixes (listed_after lib h co now y \<noteq> {}) (advertiseRegistrationDomain h)"
  shows "pass_records lib h co now y' = []"
proof -
  define cur where "cur = collectLiveServiceTypes lib now (lm (core y))"
  define L where "L = listed_after lib h co now y"
  define F where "F = Fold ` set cur"
  define gone where "gone = gone_everywhere co (srp_zone h)"
  have "Fold ` {t \<in> set (serviceTypes y). Fold t \<notin> F \<and> \<not> gone t} = {t \<in> set (serviceTypes y). t \<notin> F \<and> \<not> gone t}"
    using folded by force
  then have L: "L = F \<union> {t \<in> set (serviceTypes y). t \<notin> F \<and> \<not> gone t}"
    by (simp add: L_def listed_after_def Let_def cur_def [symmetric] F_def gone_def)
  have Lf: "Fold t = t" if "t \<in> L" for t using that folded L F_def by auto
  have FL: "Fold ` {t \<in> L. P t} = {t \<in> L. P t}" for P using Lf by force
  have c1: "t \<in> L \<Longrightarrow> (Fold t \<notin> F \<and> \<not> gone t) = (t \<notin> F)" and c2: "t \<in> L \<Longrightarrow> (Fold t \<in> F \<or> gone t) = (t \<in> F)" for t
    using Lf [of t] L by auto
  have split: "{t \<in> L. Fold t \<notin> F \<and> \<not> gone t} = L - F" "{t \<in> L. Fold t \<in> F \<or> gone t} = F"
    using c1 c2 L by blast+
  have typesL: "set (serviceTypes y') = L" by (simp add: types L_def)
  have "listed_after lib h co now y' = F \<union> (L - F)"
    unfolding listed_after_def Let_def core cur_def [symmetric] typesL F_def [symmetric] gone_def [symmetric] FL split
    by (rule refl)
  then have after: "listed_after lib h co now y' = L" using L by blast
  have before: "Fold ` set (listed_before lib h co now y') = Fold ` set cur"
    unfolding listed_before_def core cur_def [symmetric] set_filter typesL F_def [symmetric] gone_def [symmetric] split
    by (simp add: F_def image_image)
  have "enumerated (srp_zone h) (listed_before lib h co now y') = enumerated (srp_zone h) cur"
    by (simp add: enumerated_Fold before)
  then have "DiffEnumerationRecords (srp_zone h) (listed_before lib h co now y') cur (srp_ttl h) = []"
    by (simp add: DiffEnumerationRecords_Nil)
  then show ?thesis
    using domain_part_Nil [OF dom [folded L_def]] unfolding pass_records_domain after by (simp add: core cur_def)
qed

text \<open>
  C27. The enumeration settles: when a pass had nothing to send, or its UPDATE was accepted, the
  next pass over the same leases and with the same answers to its queries sends nothing.
\<close>

theorem enumeration_settles:
  assumes "requireUpstream (base co)" and "\<forall>t \<in> set (serviceTypes y). Fold t = t"
    and "pass_records lib h co now y = [] \<or>
      (\<exists>out resp. upstream_send lib (base co) (srp_zone h) [] (pass_records lib h co now y) = (out, Inr resp))"
  shows "\<exists>y' y''. reconcileServiceEnumeration lib h co now y = Inr y' \<and> (\<forall>t \<in> set (serviceTypes y'). Fold t = t) \<and>
    reconcileServiceEnumeration lib h co now y' = Inr y'' \<and> core y'' = core y'"
proof -
  obtain y' where y': "reconcileServiceEnumeration lib h co now y = Inr y'" "lm (core y') = lm (core y)"
    "set (serviceTypes y') = listed_after lib h co now y"
    "domainEnumPresent y' = domain_prefixes (listed_after lib h co now y \<noteq> {}) (advertiseRegistrationDomain h)"
    by (rule reconcile_pass [OF assms(1), of lib h now y]) (use assms(3) in auto)
  note Nil = settled_pass_Nil [OF assms(2) y'(2-4)]
  obtain y'' where "reconcileServiceEnumeration lib h co now y' = Inr y''" "core y'' = core y'"
    by (rule reconcile_pass [OF assms(1), of lib h now y']) (use Nil in auto)
  moreover have "\<forall>t \<in> set (serviceTypes y'). Fold t = t" by (auto simp: y'(3) listed_after_def Let_def)
  ultimately show ?thesis using y'(1) by blast
qed

theorem enumeration_settles_witness:
  "\<exists>y' y''. reconcileServiceEnumeration sample_lib sample_srp sample_srp_co 4 (sample_srp_state\<lparr>serviceTypes := [''_i._tcp'']\<rparr>) = Inr y' \<and>
    reconcileServiceEnumeration sample_lib sample_srp sample_srp_co 4 y' = Inr y'' \<and> core y'' = core y'"
proof -
  let ?y = "sample_srp_state\<lparr>serviceTypes := [''_i._tcp'']\<rparr>"
  have f: "Fold ''_i._tcp'' = ''_i._tcp''" by code_simp
  have "\<exists>out resp. upstream_send sample_lib (base sample_srp_co) (srp_zone sample_srp) [] rs = (out, Inr resp)" for rs
    by (simp add: upstream_send_def BuildAndSign_def sample_srp_co_def sample_co_def empty_msg_def RcodeSuccess_def)
  then show ?thesis using enumeration_settles [OF sample_srp_wf(2), of ?y sample_lib sample_srp 4] f by auto
qed

subsection \<open>Corner cases\<close>

text \<open>
  A pointer delete need not belong to the update: a host may delete the pointer to an instance
  that is not its own and that the update does not mention.
\<close>

definition foreign_delete_request :: msg where
  "foreign_delete_request = sample_request ''e.'' srp_key 30 60
     [del_all ''h.e.'', of_key srp_key, ptr_delete ''_i._tcp.e.'' ''victim._i._tcp.e.'']"

lemma foreign_pointer_delete_accepted:
  "case srp_request (\<lambda>m k. True) sample_srp (base sample_srp_co) False foreign_delete_request of
     Inr (Inr (r, cu)) \<Rightarrow> msg_Ns r = msg_Ns foreign_delete_request \<and> Names cu = [''h.e.''] \<and> Instances cu = []
   | _ \<Rightarrow> False"
  by code_simp

text \<open>A TXT without an SRV passes as well; it is forwarded, but the lease store gets no record of it.\<close>

lemma lone_TXT_accepted:
  "case Classify (Some (sample_request ''e.'' srp_key 30 60 [del_all ''h.e.'', of_key srp_key,
       del_all ''p._i._tcp.e.'', add_rr ''p._i._tcp.e.'' (TXT_data [''x''])])) of
     Inr cu \<Rightarrow> list_ex (\<lambda>i. Inst_SRV i = None \<and> Inst_TXT i \<noteq> []) (Instances cu)
   | _ \<Rightarrow> False"
  by code_simp

text \<open>The host's name may also be the name of an instance.\<close>

lemma host_as_instance_accepted:
  "case srp_Validate (Some (sample_request ''e.'' (srp_key\<lparr>key_name := ''p._i._tcp.e.''\<rparr>) 30 60
      [del_all ''p._i._tcp.e.'', of_key (srp_key\<lparr>key_name := ''p._i._tcp.e.''\<rparr>), add_rr ''p._i._tcp.e.'' (A_data ''7''),
       add_rr ''p._i._tcp.e.'' (SRV_data 0 0 1 ''p._i._tcp.e.''), add_rr ''p._i._tcp.e.'' (TXT_data [''x'']),
       add_rr ''_i._tcp.e.'' (PTR_data ''p._i._tcp.e.'')])) of
     Inr cu \<Rightarrow> Names cu = [''p._i._tcp.e.'', ''p._i._tcp.e.'']
   | _ \<Rightarrow> False"
  by code_simp

text \<open>The four byte option passes validation and cannot be read afterwards.\<close>

lemma four_byte_option_unreadable:
  "let m = empty_msg\<lparr>msg_Pseudo := [pseudo_rr (ERFC3597 OPTION_CODE (EncodeToString (PutUint32 30)))]\<rparr>
   in validateLeaseOption m = None \<and> srp_parseLease m = None"
  by code_simp

text \<open>A LEASE longer than a zero KEY-LEASE passes.\<close>

lemma zero_key_lease_accepted:
  "validateLeaseOption (empty_msg\<lparr>msg_Pseudo := [pseudo_rr (ERFC3597 OPTION_CODE (EncodeToString (PutUint32 30 @ PutUint32 0)))]\<rparr>) = None"
  by code_simp

text \<open>Identical keys with different flags have different nodes.\<close>

lemma identical_keys_different_nodes:
  "keysIdentical srp_key (srp_key\<lparr>Flags := 1\<rparr>)" "NodeKey sample_lib srp_key \<noteq> NodeKey sample_lib (srp_key\<lparr>Flags := 1\<rparr>)"
  by code_simp+


end
