(* ===== verification/Srp_Update.thy ===== *)
theory Srp_Update
  imports Srp_Structure
begin

text \<open>
  The requester's side of an SRP update (\<open>pkg/srp/update.go\<close>): \<open>BuildUpdate\<close> turns a declarative
  description into an unsigned message. \<open>dns.NewMsg\<close> of the dns library is the argument \<open>new\<close>.

  The theorem is the round trip with the registrar's side: what \<open>BuildUpdate\<close> makes of a
  description whose names fit together is accepted by \<open>srp_Validate\<close> and read back as exactly that
  description (\<open>described\<close>).
\<close>

subsection \<open>The builder\<close>

datatype Addr = Addr4 string | Addr6 string

fun Is4 :: "Addr \<Rightarrow> bool" where
  "Is4 (Addr4 _) = True"
| "Is4 (Addr6 _) = False"

fun addr_text :: "Addr \<Rightarrow> string" where
  "addr_text (Addr4 a) = a"
| "addr_text (Addr6 a) = a"

record InstanceSpec =
  Spec_Name :: string
  ServiceType :: string
  Subtypes :: "string list"
  Port :: u16
  Spec_TXT :: "string list"
  Spec_Key :: "key option"
  Remove :: bool

record UpdateSpec =
  Spec_Zone :: string
  Spec_Host :: string
  Addresses :: "Addr list"
  Spec_HostKey :: "key option"
  Spec_Instances :: "InstanceSpec list"
  Spec_Lease :: u32
  Spec_KeyLease :: u32
  Spec_TTL :: u32

datatype build_error =
    ZoneRequired
  | HostRequired
  | KeyRequired
  | TTLRequired
  | LeaseExceedsKeyLease u32 u32
  | NewMsgFailed string
  | InstanceNameRequired
  | ServiceTypeRequired string
  | EncodeLeaseFailed lease_error

definition hostKeyRR :: "key \<Rightarrow> string \<Rightarrow> u32 \<Rightarrow> key" where
  "hostKeyRR k name ttl = k\<lparr>key_name := name, key_class := ClassINET, key_ttl := ttl, Flags := 0\<rparr>"

definition ptrAdd :: "string \<Rightarrow> string \<Rightarrow> u32 \<Rightarrow> rr" where
  "ptrAdd owner target ttl = \<lparr>rr_name = owner, rr_class = ClassINET, rr_ttl = ttl, rr_data = PTR_data target\<rparr>"

definition deleteAllRR :: "string \<Rightarrow> rr" where
  "deleteAllRR name = \<lparr>rr_name = name, rr_class = ClassANY, rr_ttl = 0, rr_data = ANY_data\<rparr>"

definition address_rr :: "string \<Rightarrow> u32 \<Rightarrow> Addr \<Rightarrow> rr" where
  "address_rr host ttl addr = \<lparr>rr_name = host, rr_class = ClassINET, rr_ttl = ttl,
     rr_data = (if Is4 addr then A_data (addr_text addr) else AAAA_data (addr_text addr))\<rparr>"

definition srv_rr :: "string \<Rightarrow> u32 \<Rightarrow> InstanceSpec \<Rightarrow> rr" where
  "srv_rr host ttl inst = \<lparr>rr_name = Spec_Name inst, rr_class = ClassINET, rr_ttl = ttl,
     rr_data = SRV_data 0 0 (Port inst) host\<rparr>"

definition txt_rr :: "u32 \<Rightarrow> InstanceSpec \<Rightarrow> rr" where
  "txt_rr ttl inst = \<lparr>rr_name = Spec_Name inst, rr_class = ClassINET, rr_ttl = ttl,
     rr_data = TXT_data (if Spec_TXT inst = [] then [''''] else Spec_TXT inst)\<rparr>"

definition instance_keys :: "u32 \<Rightarrow> InstanceSpec \<Rightarrow> key list" where
  "instance_keys ttl inst =
     (case Spec_Key inst of Some k \<Rightarrow> [hostKeyRR k (Spec_Name inst) ttl] | None \<Rightarrow> [])"

definition build_instance :: "string \<Rightarrow> u32 \<Rightarrow> InstanceSpec \<Rightarrow> build_error + rr list" where
  "build_instance host ttl inst =
     (if Spec_Name inst = [] then Inl InstanceNameRequired
      else if Remove inst then Inr [deleteAllRR (Spec_Name inst)]
      else if ServiceType inst = [] then Inl (ServiceTypeRequired (Spec_Name inst))
      else Inr ([deleteAllRR (Spec_Name inst), srv_rr host ttl inst, txt_rr ttl inst] @
        map of_key (instance_keys ttl inst) @
        ptrAdd (ServiceType inst) (Spec_Name inst) ttl #
        map (\<lambda>subtype. ptrAdd subtype (Spec_Name inst) ttl) (Subtypes inst)))"

fun build_instances :: "string \<Rightarrow> u32 \<Rightarrow> InstanceSpec list \<Rightarrow> build_error + rr list" where
  "build_instances host ttl [] = Inr []"
| "build_instances host ttl (inst # insts) =
     (case build_instance host ttl inst of
        Inl e \<Rightarrow> Inl e
      | Inr rs \<Rightarrow>
          (case build_instances host ttl insts of
             Inl e \<Rightarrow> Inl e
           | Inr rest \<Rightarrow> Inr (rs @ rest)))"

definition BuildUpdate ::
  "dnslib \<Rightarrow> (string \<Rightarrow> u16 \<Rightarrow> msg option) \<Rightarrow> UpdateSpec \<Rightarrow> build_error + msg"
where
  "BuildUpdate lib new spec =
     (if Spec_Zone spec = [] then Inl ZoneRequired
      else if Spec_Host spec = [] then Inl HostRequired
      else case Spec_HostKey spec of None \<Rightarrow> Inl KeyRequired | Some k \<Rightarrow>
      if Spec_TTL spec = 0 then Inl TTLRequired
      else if Spec_KeyLease spec < Spec_Lease spec then Inl (LeaseExceedsKeyLease (Spec_Lease spec) (Spec_KeyLease spec))
      else case new (Spec_Zone spec) TypeSOA of None \<Rightarrow> Inl (NewMsgFailed (Spec_Zone spec)) | Some m \<Rightarrow>
      case build_instances (Spec_Host spec) (Spec_TTL spec) (Spec_Instances spec) of Inl e \<Rightarrow> Inl e | Inr rs \<Rightarrow>
      case Encode (Encode8Byte (Spec_Lease spec) (Spec_KeyLease spec)) [] of Inl e \<Rightarrow> Inl (EncodeLeaseFailed e) | Inr opts \<Rightarrow>
      Inr (m\<lparr>msg_Opcode := OpcodeUpdate,
        msg_Ns := msg_Ns m @ deleteAllRR (Spec_Host spec) #
          map (address_rr (Spec_Host spec) (Spec_TTL spec)) (Addresses spec) @
          of_key (hostKeyRR k (Spec_Host spec) (Spec_TTL spec)) # rs,
        msg_Extra := msg_Extra m @ [(opt_rr lib)\<lparr>rr_data := OPT_data opts\<rparr>]\<rparr>))"

subsection \<open>What the registrar reads\<close>

definition described_host :: "UpdateSpec \<Rightarrow> HostDescription" where
  "described_host spec = \<lparr>Host_Name = Fold (Spec_Host spec), Host_Delete = deleteAllRR (Spec_Host spec),
     Host_Key = Some (hostKeyRR (the (Spec_HostKey spec)) (Spec_Host spec) (Spec_TTL spec)),
     Host_Addresses = map (address_rr (Spec_Host spec) (Spec_TTL spec)) (Addresses spec)\<rparr>"

definition live_instance :: "string \<Rightarrow> u32 \<Rightarrow> InstanceSpec \<Rightarrow> ServiceInstance" where
  "live_instance host ttl inst = \<lparr>Inst_Name = Fold (Spec_Name inst), Inst_Delete = deleteAllRR (Spec_Name inst),
     Inst_Key = map_option (\<lambda>k. hostKeyRR k (Spec_Name inst) ttl) (Spec_Key inst),
     Inst_SRV = Some (srv_rr host ttl inst), Inst_TXT = [txt_rr ttl inst], removalShaped = False\<rparr>"

definition removed_instance :: "InstanceSpec \<Rightarrow> ServiceInstance" where
  "removed_instance inst = removal_instance (Fold (Spec_Name inst), deleteAllRR (Spec_Name inst))"

definition pointers :: "u32 \<Rightarrow> InstanceSpec \<Rightarrow> ServiceDiscovery list" where
  "pointers ttl inst =
     \<lparr>Disc_Name = Fold (ServiceType inst), Disc_Target = Fold (Spec_Name inst), IsAdd = True,
       Disc_RR = ptrAdd (ServiceType inst) (Spec_Name inst) ttl, BaseType = []\<rparr> #
     map (\<lambda>subtype. \<lparr>Disc_Name = Fold subtype, Disc_Target = Fold (Spec_Name inst), IsAdd = True,
       Disc_RR = ptrAdd subtype (Spec_Name inst) ttl, BaseType = Fold (ServiceType inst)\<rparr>) (Subtypes inst)"

abbreviation lives :: "UpdateSpec \<Rightarrow> InstanceSpec list" where
  "lives spec \<equiv> filter (\<lambda>i. \<not> Remove i) (Spec_Instances spec)"

definition described :: "UpdateSpec \<Rightarrow> ClassifiedUpdate" where
  "described spec = \<lparr>Host = described_host spec,
     Instances = map (live_instance (Spec_Host spec) (Spec_TTL spec)) (lives spec) @
       map removed_instance (filter Remove (Spec_Instances spec)),
     Discovery = concat (map (pointers (Spec_TTL spec)) (lives spec))\<rparr>"

text \<open>The names of a description fit together, and so do explicit keys of instances.\<close>

definition fitting_instance :: "key \<Rightarrow> InstanceSpec \<Rightarrow> bool" where
  "fitting_instance k inst \<longleftrightarrow>
     ServiceTypeFromServiceName (ServiceType inst) \<noteq> None \<and>
     fst (snd (CutFirstLabel (Fold (Spec_Name inst)))) = Fold (ServiceType inst) \<and>
     (\<forall>subtype \<in> set (Subtypes inst). isSubtypePTROwner subtype = Some (Fold (ServiceType inst))) \<and>
     (\<forall>k' \<in> set (opt_list (Spec_Key inst)). keysIdentical k k')"

definition fitting :: "UpdateSpec \<Rightarrow> bool" where
  "fitting spec \<longleftrightarrow>
     distinct (map Fold (Spec_Host spec # map Spec_Name (Spec_Instances spec))) \<and>
     (\<forall>inst \<in> set (lives spec). fitting_instance (the (Spec_HostKey spec)) inst)"

subsection \<open>When the builder succeeds\<close>

definition block :: "string \<Rightarrow> u32 \<Rightarrow> InstanceSpec \<Rightarrow> rr list" where
  "block host ttl inst = (case build_instance host ttl inst of Inr rs \<Rightarrow> rs | Inl _ \<Rightarrow> [])"

definition named :: "InstanceSpec \<Rightarrow> bool" where
  "named i \<longleftrightarrow> Spec_Name i \<noteq> [] \<and> (Remove i \<or> ServiceType i \<noteq> [])"

lemma build_instance_Inr: "build_instance host ttl i = Inr rs \<longleftrightarrow> named i \<and> rs = block host ttl i"
  by (auto simp: block_def build_instance_def named_def split: if_splits)

lemma build_instances_Inr:
  "build_instances host ttl insts = Inr rs \<longleftrightarrow> list_all named insts \<and> rs = concat (map (block host ttl) insts)"
proof (induction insts arbitrary: rs)
  case (Cons i insts)
  show ?case
  proof (cases "build_instance host ttl i")
    case (Inl e)
    then have "\<not> named i" using build_instance_Inr [of host ttl i "block host ttl i"] by simp
    then show ?thesis using Inl by simp
  next
    case (Inr b)
    then have b: "named i" "b = block host ttl i" by (simp_all add: build_instance_Inr)
    show ?thesis
    proof (cases "build_instances host ttl insts")
      case (Inl e)
      then have "\<not> list_all named insts" using Cons.IH by auto
      then show ?thesis using Inl Inr by simp
    next
      case (Inr rest)
      then have "list_all named insts" "rest = concat (map (block host ttl) insts)" by (simp_all add: Cons.IH)
      then show ?thesis using Inr \<open>build_instance host ttl i = Inr b\<close> b by auto
    qed
  qed
qed auto

lemma BuildUpdate_Inr:
  "BuildUpdate lib new spec = Inr m \<longleftrightarrow>
     Spec_Zone spec \<noteq> [] \<and> Spec_Host spec \<noteq> [] \<and> Spec_TTL spec \<noteq> 0 \<and> Spec_Lease spec \<le> Spec_KeyLease spec \<and>
     list_all named (Spec_Instances spec) \<and>
     (\<exists>k m0. Spec_HostKey spec = Some k \<and> new (Spec_Zone spec) TypeSOA = Some m0 \<and>
       m = m0\<lparr>msg_Opcode := OpcodeUpdate,
        msg_Ns := msg_Ns m0 @ deleteAllRR (Spec_Host spec) #
          map (address_rr (Spec_Host spec) (Spec_TTL spec)) (Addresses spec) @
          of_key (hostKeyRR k (Spec_Host spec) (Spec_TTL spec)) #
          concat (map (block (Spec_Host spec) (Spec_TTL spec)) (Spec_Instances spec)),
        msg_Extra := msg_Extra m0 @ [(opt_rr lib)\<lparr>rr_data := OPT_data [ERFC3597 OPTION_CODE
          (EncodeToString (PutUint32 (Spec_Lease spec) @ PutUint32 (Spec_KeyLease spec)))]\<rparr>]\<rparr>)"
proof -
  have "Encode (Encode8Byte (Spec_Lease spec) (Spec_KeyLease spec)) [] =
      Inr [ERFC3597 OPTION_CODE (EncodeToString (PutUint32 (Spec_Lease spec) @ PutUint32 (Spec_KeyLease spec)))]"
    if "Spec_Lease spec \<le> Spec_KeyLease spec"
  proof -
    have "Validate (Encode8Byte (Spec_Lease spec) (Spec_KeyLease spec)) = None"
      using that by (auto simp: Validate_def Encode8Byte_def)
    then show ?thesis by (simp add: Encode_Inr key_lease_or_0_def Encode8Byte_def)
  qed
  moreover have "build_instances (Spec_Host spec) (Spec_TTL spec) (Spec_Instances spec) = Inl e \<Longrightarrow>
      \<not> list_all named (Spec_Instances spec)" for e
    using build_instances_Inr [of "Spec_Host spec" "Spec_TTL spec" "Spec_Instances spec"] by auto
  ultimately show ?thesis
    by (auto simp: BuildUpdate_def build_instances_Inr not_less split: option.splits sum.splits if_splits)
qed

subsection \<open>Classification of what was built\<close>

definition delete_entry :: "string \<Rightarrow> string \<times> rr" where
  "delete_entry name = (Fold name, deleteAllRR name)"

definition is_any :: "rr \<Rightarrow> bool" where
  "is_any r \<longleftrightarrow> rr_data r = ANY_data"

lemma mput_new: "k \<notin> fst ` set m \<Longrightarrow> mput k v m = m @ [(k, v)]"
  by (induction m) (auto simp: mput_def)

lemma collect_deletes_distinct:
  "distinct (map fst dels @ map (\<lambda>r. Fold (rr_name r)) (filter is_any rs)) \<Longrightarrow>
   collect_deletes rs dels = Inr (dels @ map (\<lambda>r. (Fold (rr_name r), r)) (filter is_any rs))"
proof (induction rs arbitrary: dels)
  case (Cons r rs)
  show ?case
  proof (cases "rr_data r = ANY_data")
    case True
    then have new: "Fold (rr_name r) \<notin> fst ` set dels" using Cons.prems by (simp add: is_any_def)
    then have "mget dels (Fold (rr_name r)) = None" by (simp add: mget_def map_of_eq_None_iff)
    then show ?thesis using True Cons.prems by (simp add: is_any_def mput_new [OF new] Cons.IH)
  next
    case False
    then show ?thesis using Cons by (simp add: is_any_def)
  qed
qed simp

lemma classify_all_append:
  "classify_all (xs @ ys) st = (case classify_all xs st of Inl e \<Rightarrow> Inl e | Inr st' \<Rightarrow> classify_all ys st')"
  by (induction xs arbitrary: st) (auto split: sum.splits)

lemma classify_delete [simp]: "classify_rr (deleteAllRR n) st = Inr st"
  by (simp add: classify_rr_def deleteAllRR_def)

lemma classify_key [simp]:
  "key_class k = ClassINET \<Longrightarrow> classify_rr (of_key k) st = Inr (st\<lparr>keyAdds := keyAdds st @ [k]\<rparr>)"
  by (simp add: classify_rr_def of_key_def)

lemma hostKeyRR_simps [simp]:
  "key_class (hostKeyRR k n ttl) = ClassINET" "key_name (hostKeyRR k n ttl) = n"
  "keysIdentical (hostKeyRR k n ttl) (hostKeyRR k' n' ttl') = keysIdentical k k'"
  by (simp_all add: hostKeyRR_def keysIdentical_def)

lemma address_rr_simps [simp]: "rr_name (address_rr h ttl a) = h" "rr_class (address_rr h ttl a) = ClassINET"
  by (simp_all add: address_rr_def)

lemma classify_address: "classify_rr (address_rr host ttl a) st = addHostAddress (Fold host) (address_rr host ttl a) st"
  by (simp add: classify_rr_def) (simp add: address_rr_def)

lemma classify_more_addresses:
  assumes "mget (deletes st) (Fold host) = Some d" "st_host st = Some h" "Host_Name h = Fold host"
  shows "classify_all (map (address_rr host ttl) as) st =
    Inr (st\<lparr>st_host := Some (h\<lparr>Host_Addresses := Host_Addresses h @ map (address_rr host ttl) as\<rparr>)\<rparr>)"
  using assms
proof (induction as arbitrary: st h)
  case (Cons a as)
  show ?case using Cons.prems by (simp add: classify_address addHostAddress_def Cons.IH)
qed simp

lemma classify_addresses:
  assumes "mget (deletes st) (Fold host) = Some d" "st_host st = None"
  shows "classify_all (map (address_rr host ttl) as) st = Inr (if as = [] then st else
    st\<lparr>st_host := Some \<lparr>Host_Name = Fold host, Host_Delete = d, Host_Key = None,
      Host_Addresses = map (address_rr host ttl) as\<rparr>, consumed := Fold host # consumed st\<rparr>)"
proof (cases as)
  case (Cons a bs)
  then show ?thesis using assms
    by (simp add: classify_address addHostAddress_def) (simp add: classify_more_addresses)
qed simp

lemma ptrAdd_simps [simp]: "rr_name (ptrAdd ow t ttl) = ow" "rr_class (ptrAdd ow t ttl) = ClassINET"
  "rr_ttl (ptrAdd ow t ttl) = ttl" "rr_data (ptrAdd ow t ttl) = PTR_data t"
  by (simp_all add: ptrAdd_def)

lemma classify_pointer:
  "classify_rr (ptrAdd ow target ttl) st = addPTR (Fold ow) (ptrAdd ow target ttl) target st"
  by (simp add: classify_rr_def)

lemma isSubtypePTROwner_Fold [simp]: "isSubtypePTROwner (Fold n) = isSubtypePTROwner n"
  by (simp add: isSubtypePTROwner_def)

lemma service_type_not_subtype: "ServiceTypeFromServiceName n \<noteq> None \<Longrightarrow> isSubtypePTROwner n = None"
  by (auto simp: ServiceTypeFromServiceName_def isSubtypePTROwner_def isProtoLabel_def Let_def split: if_splits)

lemma classify_subtypes:
  assumes "\<forall>s \<in> set subs. isSubtypePTROwner s = Some base"
    and "\<exists>d \<in> set (discovery st). IsAdd d \<and> BaseType d = [] \<and> Disc_Name d = base \<and> Disc_Target d = Fold target"
  shows "classify_all (map (\<lambda>s. ptrAdd s target ttl) subs) st =
    Inr (st\<lparr>discovery := discovery st @ map (\<lambda>s. \<lparr>Disc_Name = Fold s, Disc_Target = Fold target, IsAdd = True,
      Disc_RR = ptrAdd s target ttl, BaseType = base\<rparr>) subs\<rparr>)"
  using assms
proof (induction subs arbitrary: st)
  case (Cons s subs)
  have "classify_rr (ptrAdd s target ttl) st = Inr (st\<lparr>discovery := discovery st @ [\<lparr>Disc_Name = Fold s,
      Disc_Target = Fold target, IsAdd = True, Disc_RR = ptrAdd s target ttl, BaseType = base\<rparr>]\<rparr>)"
    using Cons.prems by (auto simp: classify_pointer addPTR_def Let_def baseTypeOrEmpty_def list_ex_iff)
  then show ?case using Cons by (auto simp: Cons.IH)
qed simp

lemma classify_pointers:
  assumes "ServiceTypeFromServiceName (ServiceType i) \<noteq> None"
    and "\<forall>s \<in> set (Subtypes i). isSubtypePTROwner s = Some (Fold (ServiceType i))"
  shows "classify_all (ptrAdd (ServiceType i) (Spec_Name i) ttl # map (\<lambda>s. ptrAdd s (Spec_Name i) ttl) (Subtypes i)) st =
    Inr (st\<lparr>discovery := discovery st @ pointers ttl i\<rparr>)"
proof -
  have "isSubtypePTROwner (ServiceType i) = None" using assms(1) by (rule service_type_not_subtype)
  then have "classify_rr (ptrAdd (ServiceType i) (Spec_Name i) ttl) st = Inr (st\<lparr>discovery := discovery st @
      [\<lparr>Disc_Name = Fold (ServiceType i), Disc_Target = Fold (Spec_Name i), IsAdd = True,
       Disc_RR = ptrAdd (ServiceType i) (Spec_Name i) ttl, BaseType = []\<rparr>]\<rparr>)"
    by (simp add: classify_pointer addPTR_def Let_def baseTypeOrEmpty_def)
  then show ?thesis
    by (simp add: classify_subtypes [OF assms(2)] pointers_def)
qed

text \<open>The state after the records of one live instance, and of all.\<close>

definition bare_instance :: "string \<Rightarrow> u32 \<Rightarrow> InstanceSpec \<Rightarrow> ServiceInstance" where
  "bare_instance host ttl inst = (live_instance host ttl inst)\<lparr>Inst_Key := None\<rparr>"

lemma srv_txt_simps [simp]:
  "rr_name (srv_rr h ttl i) = Spec_Name i" "rr_class (srv_rr h ttl i) = ClassINET" "rr_ttl (srv_rr h ttl i) = ttl"
  "rr_data (srv_rr h ttl i) = SRV_data 0 0 (Port i) h"
  "rr_name (txt_rr ttl i) = Spec_Name i" "rr_class (txt_rr ttl i) = ClassINET" "rr_ttl (txt_rr ttl i) = ttl"
  "rr_data (txt_rr ttl i) = TXT_data (if Spec_TXT i = [] then [''''] else Spec_TXT i)"
  by (simp_all add: srv_rr_def txt_rr_def)

lemma live_instance_simps [simp]:
  "Inst_Name (live_instance h ttl i) = Fold (Spec_Name i)" "Inst_Name (bare_instance h ttl i) = Fold (Spec_Name i)"
  "Inst_SRV (live_instance h ttl i) = Some (srv_rr h ttl i)" "Inst_SRV (bare_instance h ttl i) = Some (srv_rr h ttl i)"
  "Inst_TXT (live_instance h ttl i) = [txt_rr ttl i]" "Inst_TXT (bare_instance h ttl i) = [txt_rr ttl i]"
  "Inst_Key (bare_instance h ttl i) = None"
  by (simp_all add: live_instance_def bare_instance_def)

lemma map_other_instances:
  "n \<notin> Inst_Name ` set is \<Longrightarrow> map (\<lambda>i. if Inst_Name i = n then f i else i) is = is"
  by (rule map_idI) auto

lemma find_instance_append:
  "find_instance n (is @ js) = (case find_instance n is of None \<Rightarrow> find_instance n js | Some i \<Rightarrow> Some i)"
  by (induction "is") (auto simp: find_instance_def)

lemma classify_keys:
  assumes "\<forall>k \<in> set ks. key_class k = ClassINET"
  shows "classify_all (map of_key ks) st = Inr (st\<lparr>keyAdds := keyAdds st @ ks\<rparr>)"
  using assms by (induction ks arbitrary: st) simp_all

lemma instance_keys_class: "\<forall>k \<in> set (instance_keys ttl i). key_class k = ClassINET"
  by (auto simp: instance_keys_def split: option.splits)

lemma classify_block:
  assumes "named i" "\<not> Remove i" "fitting_instance k i"
    and "mget (deletes st) (Fold (Spec_Name i)) = Some (deleteAllRR (Spec_Name i))"
    and "Fold (Spec_Name i) \<notin> Inst_Name ` set (st_order st)"
  shows "classify_all (block host ttl i) st = Inr (st\<lparr>st_order := st_order st @ [bare_instance host ttl i],
    consumed := Fold (Spec_Name i) # consumed st, keyAdds := keyAdds st @ instance_keys ttl i,
    discovery := discovery st @ pointers ttl i\<rparr>)"
proof -
  let ?n = "Fold (Spec_Name i)"
  let ?i0 = "\<lparr>Inst_Name = ?n, Inst_Delete = deleteAllRR (Spec_Name i), Inst_Key = None, Inst_SRV = None,
    Inst_TXT = [], removalShaped = False\<rparr>"
  let ?st1 = "st\<lparr>st_order := st_order st @ [?i0\<lparr>Inst_SRV := Some (srv_rr host ttl i)\<rparr>], consumed := ?n # consumed st\<rparr>"
  let ?st2 = "st\<lparr>st_order := st_order st @ [bare_instance host ttl i], consumed := ?n # consumed st\<rparr>"
  have none: "find_instance ?n (st_order st) = None" using assms(5) by (simp add: find_instance_None)
  have srv: "classify_rr (srv_rr host ttl i) st = Inr ?st1"
    using assms(4,5) by (simp add: classify_rr_def instanceFor_def none update_instance_def map_other_instances Let_def)
  have "find_instance ?n (st_order ?st1) = Some (?i0\<lparr>Inst_SRV := Some (srv_rr host ttl i)\<rparr>)"
    using none by (simp add: find_instance_append) (simp add: find_instance_def)
  then have stxt: "classify_rr (txt_rr ttl i) ?st1 = Inr ?st2"
    using assms(5) by (simp add: classify_rr_def instanceFor_def update_instance_def map_other_instances Let_def
        bare_instance_def live_instance_def)
  have three: "classify_all [deleteAllRR (Spec_Name i), srv_rr host ttl i, txt_rr ttl i] st = Inr ?st2"
    by (simp only: classify_all.simps classify_delete srv stxt sum.case)
  have "block host ttl i = [deleteAllRR (Spec_Name i), srv_rr host ttl i, txt_rr ttl i] @ map of_key (instance_keys ttl i) @
      (ptrAdd (ServiceType i) (Spec_Name i) ttl # map (\<lambda>s. ptrAdd s (Spec_Name i) ttl) (Subtypes i))"
    using assms(1,2) by (simp add: block_def build_instance_def named_def)
  then show ?thesis
    using assms(3) by (simp only: classify_all_append three sum.case classify_keys [OF instance_keys_class])
      (simp add: classify_pointers fitting_instance_def del: classify_all.simps(2))
qed

abbreviation names_of :: "InstanceSpec list \<Rightarrow> string list" where
  "names_of insts \<equiv> map (\<lambda>i. Fold (Spec_Name i)) insts"

lemma classify_blocks:
  assumes "list_all named insts"
    and "\<forall>i \<in> set insts. \<not> Remove i \<longrightarrow> fitting_instance k i \<and>
      mget (deletes st) (Fold (Spec_Name i)) = Some (deleteAllRR (Spec_Name i))"
    and "distinct (map Inst_Name (st_order st) @ names_of (filter (\<lambda>i. \<not> Remove i) insts))"
  shows "classify_all (concat (map (block host ttl) insts)) st = (let lv = filter (\<lambda>i. \<not> Remove i) insts in
    Inr (st\<lparr>st_order := st_order st @ map (bare_instance host ttl) lv,
      consumed := rev (names_of lv) @ consumed st, keyAdds := keyAdds st @ concat (map (instance_keys ttl) lv),
      discovery := discovery st @ concat (map (pointers ttl) lv)\<rparr>))"
  using assms
proof (induction insts arbitrary: st)
  case (Cons i insts)
  show ?case
  proof (cases "Remove i")
    case True
    then have "block host ttl i = [deleteAllRR (Spec_Name i)]"
      using Cons.prems(1) by (simp add: block_def build_instance_def named_def)
    then show ?thesis using Cons.prems True by (simp add: Cons.IH)
  next
    case False
    have "classify_all (block host ttl i) st = Inr (st\<lparr>st_order := st_order st @ [bare_instance host ttl i],
      consumed := Fold (Spec_Name i) # consumed st, keyAdds := keyAdds st @ instance_keys ttl i,
      discovery := discovery st @ pointers ttl i\<rparr>)"
      by (rule classify_block [where k = k]) (use Cons.prems False in auto)
    then show ?thesis using Cons.prems False by (simp add: classify_all_append Cons.IH Let_def)
  qed
qed (simp add: Let_def)

lemma own_keys_instances:
  assumes "distinct (map Inst_Name (ds @ map (bare_instance host ttl) lv @ rest))" "Host_Name h \<notin> set (names_of lv)"
  shows "own_keys (concat (map (instance_keys ttl) lv)) h (ds @ map (bare_instance host ttl) lv @ rest) =
    Inr (h, ds @ map (live_instance host ttl) lv @ rest)"
  using assms
proof (induction lv arbitrary: ds)
  case (Cons i lv)
  let ?is = "ds @ map (bare_instance host ttl) (i # lv) @ rest"
  have IH: "own_keys (concat (map (instance_keys ttl) lv)) h ((ds @ [live_instance host ttl i]) @ map (bare_instance host ttl) lv @ rest) =
      Inr (h, (ds @ [live_instance host ttl i]) @ map (live_instance host ttl) lv @ rest)"
    by (rule Cons.IH) (use Cons.prems in auto)
  show ?case
  proof (cases "Spec_Key i")
    case None
    then have "live_instance host ttl i = bare_instance host ttl i"
      by (simp add: bare_instance_def live_instance_def)
    moreover have "instance_keys ttl i = []" using None by (simp add: instance_keys_def)
    ultimately show ?thesis using IH by simp
  next
    case (Some k)
    let ?k = "hostKeyRR k (Spec_Name i) ttl"
    have f: "find_instance (Fold (Spec_Name i)) ?is = Some (bare_instance host ttl i)"
      using find_instance_distinct [OF Cons.prems(1), of "bare_instance host ttl i"] by simp
    have l: "live_instance host ttl i = (bare_instance host ttl i)\<lparr>Inst_Key := Some ?k\<rparr>"
      using Some by (simp add: bare_instance_def live_instance_def)
    have o: "map (\<lambda>j. if Inst_Name j = Fold (Spec_Name i) then f j else j) xs = xs"
      if "Fold (Spec_Name i) \<notin> Inst_Name ` set xs" for xs f
      using that by (rule map_other_instances)
    have m: "map (\<lambda>j. if Inst_Name j = Fold (Spec_Name i) then j\<lparr>Inst_Key := Some ?k\<rparr> else j) ?is =
        (ds @ [live_instance host ttl i]) @ map (bare_instance host ttl) lv @ rest"
      using Cons.prems(1) by (simp add: l) (auto simp: o image_iff)
    have "Fold (Spec_Name i) \<noteq> Host_Name h" using Cons.prems(2) by auto
    then have step: "own_keys (?k # ks) h is =
        own_keys ks h (map (\<lambda>j. if Inst_Name j = Fold (Spec_Name i) then j\<lparr>Inst_Key := Some ?k\<rparr> else j) is)"
      if "find_instance (Fold (Spec_Name i)) is = Some (bare_instance host ttl i)" for ks "is"
      using that by (simp add: Let_def)
    have "instance_keys ttl i = [?k]" using Some by (simp add: instance_keys_def)
    then have "own_keys (concat (map (instance_keys ttl) (i # lv))) h ?is = own_keys (concat (map (instance_keys ttl) lv)) h
        ((ds @ [live_instance host ttl i]) @ map (bare_instance host ttl) lv @ rest)"
      using step [OF f, unfolded m] by (simp only: list.map concat.simps append_Cons append_Nil)
    then show ?thesis using IH by simp
  qed
qed simp

lemma pointers_targets:
  "d \<in> set (pointers ttl i) \<Longrightarrow> IsAdd d \<and> Disc_Target d = Fold (Spec_Name i)"
  by (auto simp: pointers_def)

lemma check_targets_None_if:
  "\<forall>d \<in> set ds. IsAdd d \<longrightarrow> (\<exists>i. find_instance (Disc_Target d) is = Some i \<and> Inst_SRV i \<noteq> None) \<Longrightarrow> check_targets is ds = None"
  by (induction ds) auto

lemma check_instances_None_if:
  "\<forall>i \<in> set is. \<forall>srv. Inst_SRV i = Some srv \<longrightarrow> Inst_TXT i \<noteq> [] \<and> Fold (srv_target srv) = h \<and> Inst_Name i \<in> set refs \<Longrightarrow>
   check_instances h refs is = None"
  by (induction "is") (auto split: option.splits)

lemma removals_built:
  assumes "deletes st = map delete_entry (host # map Spec_Name insts)"
    and "set (consumed st) = insert (Fold host) (set (names_of (filter (\<lambda>i. \<not> Remove i) insts)))"
    and "distinct (map Fold (host # map Spec_Name insts))"
  shows "removals st = map removed_instance (filter Remove insts)"
proof -
  have "Fold (Spec_Name i) \<notin> set (consumed st) \<longleftrightarrow> Remove i" if "i \<in> set insts" for i
    using assms(2,3) that by (auto simp: distinct_map inj_on_def image_iff)
  then have "filter (\<lambda>nd. fst nd \<notin> set (consumed st)) (map delete_entry (map Spec_Name insts)) =
      map delete_entry (map Spec_Name (filter Remove insts))"
    unfolding filter_map comp_def by (simp add: delete_entry_def cong: filter_cong)
  then show ?thesis
    using assms(1,2) by (simp add: removals_def removed_instance_def comp_def delete_entry_def)
qed

lemma reconcile_built:
  assumes f: "host_fallback st0 = Some (h, st)" and h: "Host_Name h = Fold host" "Host_Key h = None"
    and st: "st_order st = map (bare_instance host ttl) (filter (\<lambda>i. \<not> Remove i) insts)"
      "discovery st = concat (map (pointers ttl) (filter (\<lambda>i. \<not> Remove i) insts))"
      "keyAdds st = hostKeyRR k host ttl # concat (map (instance_keys ttl) (filter (\<lambda>i. \<not> Remove i) insts))"
      "deletes st = map delete_entry (host # map Spec_Name insts)"
      "set (consumed st) = insert (Fold host) (set (names_of (filter (\<lambda>i. \<not> Remove i) insts)))"
    and d: "distinct (map Fold (host # map Spec_Name insts))"
  shows "srp_reconcile st0 = Inr \<lparr>Host = h\<lparr>Host_Key := Some (hostKeyRR k host ttl)\<rparr>,
    Instances = map (live_instance host ttl) (filter (\<lambda>i. \<not> Remove i) insts) @ map removed_instance (filter Remove insts),
    Discovery = discovery st\<rparr>"
proof -
  let ?lv = "filter (\<lambda>i. \<not> Remove i) insts"
  have rem: "removals st = map removed_instance (filter Remove insts)" using st(4,5) d by (rule removals_built)
  have names: "distinct (names_of ?lv)" "Fold host \<notin> set (names_of ?lv)"
    using d by (auto simp: distinct_map comp_def inj_on_def)
  have ct: "check_targets (st_order st) (discovery st) = None"
  proof (rule check_targets_None_if, intro ballI impI)
    fix x assume "x \<in> set (discovery st)"
    then obtain i where i: "i \<in> set ?lv" "Disc_Target x = Fold (Spec_Name i)"
      using pointers_targets by (auto simp: st(2))
    have "find_instance (Inst_Name (bare_instance host ttl i)) (st_order st) = Some (bare_instance host ttl i)"
      by (rule find_instance_distinct) (use i(1) names(1) in \<open>simp_all add: st(1) comp_def\<close>)
    then show "\<exists>i. find_instance (Disc_Target x) (st_order st) = Some i \<and> Inst_SRV i \<noteq> None" using i by simp
  qed
  have ci: "check_instances (Host_Name h) (map Disc_Target (filter IsAdd (discovery st))) (st_order st) = None"
  proof (rule check_instances_None_if, intro ballI allI impI)
    fix j srv assume "j \<in> set (st_order st)" "Inst_SRV j = Some srv"
    then obtain i where i: "i \<in> set ?lv" "j = bare_instance host ttl i" "srv = srv_rr host ttl i" by (auto simp: st(1))
    have p: "hd (pointers ttl i) \<in> set (pointers ttl i)" by (simp add: pointers_def)
    then have "hd (pointers ttl i) \<in> set (filter IsAdd (discovery st))" "Disc_Target (hd (pointers ttl i)) = Inst_Name j"
      using i pointers_targets [OF p] by (auto simp: st(2))
    then have "Inst_Name j \<in> set (map Disc_Target (filter IsAdd (discovery st)))" by (metis image_eqI set_map)
    then show "Inst_TXT j \<noteq> [] \<and> Fold (srv_target srv) = Host_Name h \<and>
        Inst_Name j \<in> set (map Disc_Target (filter IsAdd (discovery st)))"
      using i h by (simp add: srv_target_def)
  qed
  have "own_keys (concat (map (instance_keys ttl) ?lv)) (h\<lparr>Host_Key := Some (hostKeyRR k host ttl)\<rparr>)
      ([] @ map (bare_instance host ttl) ?lv @ map removed_instance (filter Remove insts)) =
    Inr (h\<lparr>Host_Key := Some (hostKeyRR k host ttl)\<rparr>, [] @ map (live_instance host ttl) ?lv @ map removed_instance (filter Remove insts))"
  proof (rule own_keys_instances)
    show "distinct (map Inst_Name ([] @ map (bare_instance host ttl) ?lv @ map removed_instance (filter Remove insts)))"
      using d by (auto simp: comp_def removed_instance_def removal_instance_def distinct_map_filter distinct_map inj_on_def)
  qed (use names(2) h in simp)
  then have "own_keys (keyAdds st) h (st_order st @ removals st) =
      Inr (h\<lparr>Host_Key := Some (hostKeyRR k host ttl)\<rparr>, map (live_instance host ttl) ?lv @ map removed_instance (filter Remove insts))"
    using h by (simp add: st(1,3) rem Let_def)
  then show ?thesis by (simp add: srp_reconcile_def f ct ci)
qed

lemma block_deletes: "named i \<Longrightarrow> filter is_any (block host ttl i) = [deleteAllRR (Spec_Name i)]"
  by (auto simp: block_def build_instance_def named_def is_any_def deleteAllRR_def filter_empty_conv of_key_def)

lemma blocks_deletes:
  "list_all named insts \<Longrightarrow> filter is_any (concat (map (block host ttl) insts)) = map (\<lambda>i. deleteAllRR (Spec_Name i)) insts"
  by (induction insts) (simp_all add: block_deletes)

lemma mget_delete_entry:
  "distinct (map Fold ns) \<Longrightarrow> n \<in> set ns \<Longrightarrow> mget (map delete_entry ns) (Fold n) = Some (deleteAllRR n)"
  by (induction ns) (auto simp: mget_Cons delete_entry_def image_iff)

lemma Classify_built:
  assumes ns: "msg_Ns m = deleteAllRR host # map (address_rr host ttl) as @ of_key (hostKeyRR k host ttl) #
      concat (map (block host ttl) insts)"
    and n: "list_all named insts" and d: "distinct (map Fold (host # map Spec_Name insts))"
    and fit: "\<forall>i \<in> set insts. \<not> Remove i \<longrightarrow> fitting_instance k i"
  shows "Classify (Some m) = Inr \<lparr>Host = \<lparr>Host_Name = Fold host, Host_Delete = deleteAllRR host,
        Host_Key = Some (hostKeyRR k host ttl), Host_Addresses = map (address_rr host ttl) as\<rparr>,
    Instances = map (live_instance host ttl) (filter (\<lambda>i. \<not> Remove i) insts) @ map removed_instance (filter Remove insts),
    Discovery = concat (map (pointers ttl) (filter (\<lambda>i. \<not> Remove i) insts))\<rparr>"
proof -
  let ?lv = "filter (\<lambda>i. \<not> Remove i) insts" and ?dels = "map delete_entry (host # map Spec_Name insts)"
  let ?h = "\<lparr>Host_Name = Fold host, Host_Delete = deleteAllRR host, Host_Key = None, Host_Addresses = map (address_rr host ttl) as\<rparr>"
  let ?init = "\<lparr>deletes = ?dels, consumed = [], st_host = None, st_order = [], discovery = [], keyAdds = []\<rparr>"
  let ?st1 = "(if as = [] then ?init else ?init\<lparr>st_host := Some ?h, consumed := [Fold host]\<rparr>)\<lparr>keyAdds := [hostKeyRR k host ttl]\<rparr>"
  let ?st = "?st1\<lparr>st_order := map (bare_instance host ttl) ?lv, consumed := rev (names_of ?lv) @ consumed ?st1,
    keyAdds := hostKeyRR k host ttl # concat (map (instance_keys ttl) ?lv), discovery := concat (map (pointers ttl) ?lv)\<rparr>"
  have any: "filter is_any (msg_Ns m) = map deleteAllRR (host # map Spec_Name insts)"
    by (simp add: ns blocks_deletes [OF n])
      (auto simp: is_any_def deleteAllRR_def filter_empty_conv of_key_def address_rr_def)
  have "collect_deletes (msg_Ns m) [] = Inr ([] @ map (\<lambda>r. (Fold (rr_name r), r)) (filter is_any (msg_Ns m)))"
    by (rule collect_deletes_distinct) (use d in \<open>simp add: any deleteAllRR_def comp_def\<close>)
  then have c: "collect_deletes (msg_Ns m) [] = Inr ?dels"
    by (simp add: any delete_entry_def comp_def deleteAllRR_def)
  have got: "mget ?dels (Fold x) = Some (deleteAllRR x)" if "x \<in> set (host # map Spec_Name insts)" for x
    using d that by (rule mget_delete_entry)
  have "classify_all (map (address_rr host ttl) as @ [of_key (hostKeyRR k host ttl)]) ?init = Inr ?st1"
    using got [of host] by (simp add: classify_all_append classify_addresses)
  moreover have "classify_all (concat (map (block host ttl) insts)) ?st1 = Inr ?st"
  proof (subst classify_blocks [OF n, where k = k])
    show "\<forall>i \<in> set insts. \<not> Remove i \<longrightarrow> fitting_instance k i \<and>
        mget (deletes ?st1) (Fold (Spec_Name i)) = Some (deleteAllRR (Spec_Name i))"
      using fit got by simp
    show "distinct (map Inst_Name (st_order ?st1) @ names_of ?lv)"
      using d by (auto simp: distinct_map inj_on_def)
  qed (simp add: Let_def)
  moreover have "msg_Ns m = deleteAllRR host # (map (address_rr host ttl) as @ [of_key (hostKeyRR k host ttl)]) @ concat (map (block host ttl) insts)"
    by (simp add: ns)
  ultimately have a: "classify_all (msg_Ns m) ?init = Inr ?st"
    by (simp only: classify_all.simps classify_delete sum.case classify_all_append)
  have "host_fallback ?st = Some (?h, ?st\<lparr>st_host := Some ?h, consumed := (if as = [] then Fold host # consumed ?st else consumed ?st)\<rparr>)"
  proof (cases "as = []")
    case True
    have "Fold host \<notin> set (names_of ?lv)" using d by auto
    then show ?thesis using True got [of host] by (simp add: host_fallback_def Let_def)
  qed (simp add: host_fallback_def)
  then have "srp_reconcile ?st = Inr \<lparr>Host = ?h\<lparr>Host_Key := Some (hostKeyRR k host ttl)\<rparr>,
      Instances = map (live_instance host ttl) ?lv @ map removed_instance (filter Remove insts),
      Discovery = concat (map (pointers ttl) ?lv)\<rparr>"
    by (subst reconcile_built [OF _ _ _ _ _ _ _ _ d]) (auto split: if_splits)
  then show ?thesis by (simp only: Classify_def option.case c sum.case a) simp
qed

subsection \<open>Validation of what was built\<close>

lemma described_ttls: "r \<in> set (add_records (described spec)) \<Longrightarrow> rr_ttl r = Spec_TTL spec"
  by (auto simp: add_records_def described_def described_host_def removed_instance_def removal_instance_def
      live_instance_def pointers_def address_rr_def of_key_def hostKeyRR_def opt_list_def split: option.splits)

lemma set_opt_list: "set (opt_list v) = set_option v"
  by (cases v) simp_all

lemma described_keys:
  assumes "fitting spec" "Spec_HostKey spec = Some k"
  shows "validateKeys (described spec) = None"
  using assms
  by (auto simp: validateKeys_def check_keys_None described_def described_host_def removed_instance_def
      removal_instance_def live_instance_def fitting_def fitting_instance_def set_opt_list)

lemma ServiceTypeFromServiceName_Fold [simp]: "ServiceTypeFromServiceName (Fold n) = ServiceTypeFromServiceName n"
  by (simp add: ServiceTypeFromServiceName_def)

lemma described_service_names:
  assumes "fitting spec" "list_all named (Spec_Instances spec)"
  shows "validateServiceNames (described spec) = None"
  unfolding validateServiceNames_def check_service_names_None
proof (intro ballI impI)
  fix d assume "d \<in> set (Discovery (described spec))"
  then obtain i where i: "i \<in> set (lives spec)" "d \<in> set (pointers (Spec_TTL spec) i)" by (auto simp: described_def)
  then have f: "fitting_instance (the (Spec_HostKey spec)) i" using assms(1) by (simp add: fitting_def)
  have ne: "ServiceType i \<noteq> []" using assms(2) i(1) by (auto simp: list_all_iff named_def)
  have "disc_base d = Fold (ServiceType i)" "Disc_Target d = Fold (Spec_Name i)"
    using i(2) ne by (auto simp: pointers_def disc_base_def)
  then show "ServiceTypeFromServiceName (disc_base d) \<noteq> None \<and> fst (snd (CutFirstLabel (Disc_Target d))) = disc_base d"
    using f by (simp add: fitting_instance_def)
qed

lemma built_lease_option:
  assumes "lease \<le> keyLease" "scan (msg_Pseudo m @ es) = None"
    and "msg_Extra m = es @ [r\<lparr>rr_data := OPT_data [ERFC3597 OPTION_CODE (EncodeToString (PutUint32 lease @ PutUint32 keyLease))]\<rparr>]"
  shows "FindOption (Some m) = Some (EncodeToString (PutUint32 lease @ PutUint32 keyLease))" "validateLeaseOption m = None"
proof -
  have "scan (msg_Pseudo m) = None" "scan es = None" using assms(2) by (auto simp: scan_options find_in_options_append split: option.splits)
  then show f: "FindOption (Some m) = Some (EncodeToString (PutUint32 lease @ PutUint32 keyLease))"
    by (simp add: FindOption_def assms(3) scan_options find_in_options_append record_options_def is_lease_option_def)
  have "Validate (Encode8Byte lease keyLease) = None" using assms(1) by (auto simp: Validate_def Encode8Byte_def)
  then show "validateLeaseOption m = None"
    by (simp add: validateLeaseOption_def f Decode_def is_lease_option_def decodeERFC_encoded Encode8Byte_def)
qed

lemma BuildUpdate_validated:
  assumes b: "BuildUpdate lib new spec = Inr m" and fit: "fitting spec"
    and new: "new (Spec_Zone spec) TypeSOA = Some m0" "length (msg_Question m0) = 1" "msg_Answer m0 = []"
      "msg_Ns m0 = []" "scan (msg_Pseudo m0 @ msg_Extra m0) = None"
  shows "srp_Validate (Some m) = Inr (described spec)"
    "FindOption (Some m) = Some (EncodeToString (PutUint32 (Spec_Lease spec) @ PutUint32 (Spec_KeyLease spec)))"
proof -
  from b new obtain k where k: "Spec_HostKey spec = Some k" and n: "list_all named (Spec_Instances spec)"
    and le: "Spec_Lease spec \<le> Spec_KeyLease spec"
    and m: "m = m0\<lparr>msg_Opcode := OpcodeUpdate,
        msg_Ns := deleteAllRR (Spec_Host spec) #
          map (address_rr (Spec_Host spec) (Spec_TTL spec)) (Addresses spec) @
          of_key (hostKeyRR k (Spec_Host spec) (Spec_TTL spec)) #
          concat (map (block (Spec_Host spec) (Spec_TTL spec)) (Spec_Instances spec)),
        msg_Extra := msg_Extra m0 @ [(opt_rr lib)\<lparr>rr_data := OPT_data [ERFC3597 OPTION_CODE
          (EncodeToString (PutUint32 (Spec_Lease spec) @ PutUint32 (Spec_KeyLease spec)))]\<rparr>]\<rparr>"
    by (auto simp: BuildUpdate_Inr)
  have o: "FindOption (Some m) = Some (EncodeToString (PutUint32 (Spec_Lease spec) @ PutUint32 (Spec_KeyLease spec)))"
    "validateLeaseOption m = None"
    by (rule built_lease_option [OF le, where es = "msg_Extra m0" and r = "opt_rr lib"];
        use new(5) in \<open>simp add: m\<close>)+
  show "FindOption (Some m) = Some (EncodeToString (PutUint32 (Spec_Lease spec) @ PutUint32 (Spec_KeyLease spec)))" by (rule o(1))
  have c: "Classify (Some m) = Inr (described spec)"
    using fit k by (subst Classify_built [OF _ n, where k = k])
      (auto simp: m fitting_def described_def described_host_def)
  have "CheckConsistentTTLs (add_records (described spec))"
    unfolding CheckConsistentTTLs_iff using described_ttls by metis
  then have "validatePostClassify m (described spec) = None"
    using described_keys [OF fit k] described_service_names [OF fit n]
    by (simp add: validatePostClassify_def o(2) validateTTLConsistency_def)
  then show "srp_Validate (Some m) = Inr (described spec)" using new(2,3) c by (simp add: srp_Validate_def m)
qed

text \<open>
  C22. The requester and the registrar agree: a message \<open>BuildUpdate\<close> makes of a description whose
  names fit together is accepted by the registrar's \<open>srp_Validate\<close>, which reads exactly the
  description back, its live instances before the removed ones, and its lease option carries the
  requested durations. The dns library's \<open>NewMsg\<close> gives an empty message with one question.
\<close>

theorem BuildUpdate_accepted:
  assumes "BuildUpdate lib new spec = Inr m" and "fitting spec"
    and "new (Spec_Zone spec) TypeSOA = Some m0" and "length (msg_Question m0) = 1" and "msg_Answer m0 = []"
    and "msg_Ns m0 = []" and "scan (msg_Pseudo m0 @ msg_Extra m0) = None"
  shows "srp_Validate (Some m) = Inr (described spec) \<and>
    FindAndDecode (Some m) = Inr (Encode8Byte (Spec_Lease spec) (Spec_KeyLease spec))"
proof -
  have "Validate (Encode8Byte (Spec_Lease spec) (Spec_KeyLease spec)) = None"
    using assms(1) by (auto simp: BuildUpdate_Inr Validate_def Encode8Byte_def)
  then show ?thesis using BuildUpdate_validated [OF assms]
    by (simp add: FindAndDecode_def DecodeOption_def decodeERFC_encoded Encode8Byte_def)
qed

definition sample_new :: "string \<Rightarrow> u16 \<Rightarrow> msg option" where
  "sample_new zone t = Some (empty_msg\<lparr>msg_Question := [\<lparr>rr_name = zone, rr_class = ClassINET, rr_ttl = 0,
     rr_data = Other_data t []\<rparr>]\<rparr>)"

definition sample_spec :: UpdateSpec where
  "sample_spec = \<lparr>Spec_Zone = ''example.com.'', Spec_Host = ''Printer.example.com.'', Addresses = [Addr4 ''192.0.2.1''],
     Spec_HostKey = Some \<lparr>key_name = ''x.'', key_class = 1, key_ttl = 0, Flags = 512, Protocol = 3, Algorithm = 13, PublicKey = ''AAAA''\<rparr>,
     Spec_Instances =
       [\<lparr>Spec_Name = ''Old._ipp._tcp.example.com.'', ServiceType = [], Subtypes = [], Port = 0, Spec_TXT = [],
          Spec_Key = None, Remove = True\<rparr>,
        \<lparr>Spec_Name = ''My Printer._ipps._tcp.example.com.'', ServiceType = ''_ipps._tcp.example.com.'',
          Subtypes = [''_universal._sub._ipps._tcp.example.com.''], Port = 631, Spec_TXT = [], Spec_Key = None, Remove = False\<rparr>],
     Spec_Lease = 3600, Spec_KeyLease = 1209600, Spec_TTL = 300\<rparr>"

theorem BuildUpdate_accepted_witness:
  "\<exists>m. BuildUpdate sample_lib sample_new sample_spec = Inr m \<and> srp_Validate (Some m) = Inr (described sample_spec) \<and>
    FindAndDecode (Some m) = Inr (Encode8Byte 3600 1209600)"
proof -
  have "BuildUpdate sample_lib sample_new sample_spec \<noteq> Inl e" for e
  proof -
    have "\<not> (case BuildUpdate sample_lib sample_new sample_spec of Inl _ \<Rightarrow> True | Inr _ \<Rightarrow> False)" by code_simp
    then show ?thesis by auto
  qed
  then obtain m where m: "BuildUpdate sample_lib sample_new sample_spec = Inr m"
    by (cases "BuildUpdate sample_lib sample_new sample_spec") auto
  have "fitting sample_spec" by code_simp
  with m have "srp_Validate (Some m) = Inr (described sample_spec) \<and>
      FindAndDecode (Some m) = Inr (Encode8Byte (Spec_Lease sample_spec) (Spec_KeyLease sample_spec))"
    by (rule BuildUpdate_accepted [where ?m0.0 = "the (sample_new (Spec_Zone sample_spec) TypeSOA)"])
      (simp_all add: sample_new_def empty_msg_def)
  with m show ?thesis by (simp add: sample_spec_def)
qed

end
