(* ===== verification/Srp_Client.thy ===== *)
theory Srp_Client
  imports Complex_Main Srp_Update Srp_Discovery Srp_Fcfs Lease_Store
begin

text \<open>
  The SRP requester (\<open>client/srp/client.go\<close>, \<open>client/srp/timing.go\<close>): its configuration, the
  updates it builds, renaming on a conflict, and the registration loop with its timers.

  What the client asks of its surroundings is the record \<open>client_env\<close>: key generation and SIG(0)
  signing, the exchange with a resolver, and the transport, which may change a world of arbitrary
  type and may answer anything, no message included. The messages handed to the transport are
  returned with the result of an operation. Random numbers are arguments between zero and one;
  floating-point arithmetic is taken as exact, durations are 64-bit integers of nanoseconds that
  wrap around.

  The theorems: whatever a client made by \<open>NewClient\<close> sends, under its first names or after any
  number of renames, is an update the registrar's \<open>srp_Validate\<close> accepts as what was configured;
  and the loop of \<open>Run\<close> keeps its waiting times within bounds.
\<close>

subsection \<open>Configuration\<close>

record InstanceConfig =
  ic_Label :: string
  ic_ServiceType :: string
  ic_Subtypes :: "string list"
  ic_Port :: u16
  ic_TXT :: "string list"
  ic_Remove :: bool

record Config =
  Domain :: string
  HostLabel :: string
  cfg_Addresses :: "Addr list"
  cfg_Instances :: "InstanceConfig list"
  cfg_Key :: "key option"
  RequestedLease :: u32
  RequestedKeyLease :: u32
  TTL :: u32
  RegistrarAddr :: string
  cfg_Discovery :: DiscoveryMode
  Resolvers :: "string list"
  cfg_Query :: "dns_query option"
  cfg_Network :: Network
  Timeout :: int
  MaxRenames :: int

record Client =
  cfg :: Config
  hostLabel :: string
  instanceLabels :: "string list"
  renameSuffix :: nat

record 'w client_env =
  env_lib :: dnslib
  env_NewMsg :: "string \<Rightarrow> u16 \<Rightarrow> msg option"
  env_Exchange :: "string \<Rightarrow> string \<Rightarrow> msg \<Rightarrow> msg option"
  env_GenerateKey :: "string \<Rightarrow> key option"
  env_SignMessage :: "msg \<Rightarrow> key \<Rightarrow> msg option"
  env_Send :: "string \<Rightarrow> Network \<Rightarrow> msg \<Rightarrow> 'w \<Rightarrow> msg option option \<times> 'w"

datatype client_error =
    DomainRequired
  | HostLabelRequired
  | BadHostLabel label_error
  | BadInstanceLabel label_error
  | BadServiceType string service_error
  | BadSubtype string label_error
  | BadDiscovery
  | BadNetwork
  | LeaseOverKeyLease u32 u32
  | KeyGenerationFailed
  | RegistrarNotFound discovery_error
  | UpdateNotBuilt build_error
  | SigningFailed
  | SendFailed string
  | RegistrationFailed Outcome u16
  | GaveUp int
  | NilResponse

fun check_subtypes :: "string \<Rightarrow> string list \<Rightarrow> client_error option" where
  "check_subtypes label [] = None"
| "check_subtypes label (st # sts) =
     (case CheckLabel st of Some e \<Rightarrow> Some (BadSubtype label e) | None \<Rightarrow> check_subtypes label sts)"

fun check_configs :: "InstanceConfig list \<Rightarrow> client_error option" where
  "check_configs [] = None"
| "check_configs (inst # insts) =
     (case CheckLabel (ic_Label inst) of Some e \<Rightarrow> Some (BadInstanceLabel e) | None \<Rightarrow>
      case ValidateServiceType (ic_ServiceType inst) of Some e \<Rightarrow> Some (BadServiceType (ic_Label inst) e) | None \<Rightarrow>
      case check_subtypes (ic_Label inst) (ic_Subtypes inst) of Some e \<Rightarrow> Some e | None \<Rightarrow>
      check_configs insts)"

text \<open>The defaults, in the order the code applies them; the transport, the sleep and the source of
  random numbers are part of the surroundings.\<close>

definition lease_defaults :: "Config \<Rightarrow> Config" where
  "lease_defaults c = c\<lparr>RequestedLease := (if RequestedLease c = 0 then 3600 else RequestedLease c),
     RequestedKeyLease := (if RequestedKeyLease c = 0 then 1209600 else RequestedKeyLease c),
     TTL := (if TTL c = 0 then 300 else TTL c)\<rparr>"

definition NewClient :: "'w client_env \<Rightarrow> Config \<Rightarrow> client_error + Client" where
  "NewClient env cf =
     (if Domain cf = [] then Inl DomainRequired
      else if HostLabel cf = [] then Inl HostLabelRequired
      else case CheckLabel (HostLabel cf) of Some e \<Rightarrow> Inl (BadHostLabel e) | None \<Rightarrow>
      case check_configs (cfg_Instances cf) of Some e \<Rightarrow> Inl e | None \<Rightarrow>
      if \<not> mode_valid (cfg_Discovery cf) then Inl BadDiscovery
      else if \<not> network_valid (cfg_Network cf) then Inl BadNetwork
      else
        let c1 = lease_defaults cf in
        if RequestedKeyLease c1 < RequestedLease c1 then Inl (LeaseOverKeyLease (RequestedLease c1) (RequestedKeyLease c1))
        else
          let c2 = c1\<lparr>Timeout := (if Timeout c1 \<le> 0 then 20 * Second else Timeout c1),
                 MaxRenames := (if MaxRenames c1 \<le> 0 then 5 else MaxRenames c1),
                 cfg_Query := (case cfg_Query c1 of
                     Some q \<Rightarrow> Some q
                   | None \<Rightarrow> Some (LiveDNSQuery (env_Exchange env) (env_NewMsg env) (Resolvers c1)))\<rparr> in
          case (case cfg_Key c2 of
                  Some k \<Rightarrow> Some k
                | None \<Rightarrow> env_GenerateKey env (ensureFQDN (HostLabel c2 @ ''.'' @ Domain c2))) of
            None \<Rightarrow> Inl KeyGenerationFailed
          | Some k \<Rightarrow>
              Inr \<lparr>cfg = c2\<lparr>cfg_Key := Some k\<rparr>, hostLabel = HostLabel c2,
                instanceLabels = map ic_Label (cfg_Instances c2), renameSuffix = 0\<rparr>)"

subsection \<open>Names and updates\<close>

definition hostFQDN :: "Client \<Rightarrow> string" where
  "hostFQDN c = ensureFQDN (hostLabel c @ ''.'' @ Domain (cfg c))"

definition instance_spec :: "Config \<Rightarrow> bool \<Rightarrow> InstanceConfig \<Rightarrow> string \<Rightarrow> InstanceSpec" where
  "instance_spec cf remove inst label =
     \<lparr>Spec_Name = ensureFQDN (label @ ''.'' @ ic_ServiceType inst @ ''.'' @ Domain cf),
      ServiceType = ensureFQDN (ic_ServiceType inst @ ''.'' @ Domain cf),
      Subtypes = map (\<lambda>st. ensureFQDN (st @ ''._sub.'' @ ic_ServiceType inst @ ''.'' @ Domain cf)) (ic_Subtypes inst),
      Port = ic_Port inst, Spec_TXT = ic_TXT inst, Spec_Key = None, Remove = (remove \<or> ic_Remove inst)\<rparr>"

definition specs :: "Client \<Rightarrow> bool \<Rightarrow> InstanceSpec list" where
  "specs c remove = map2 (instance_spec (cfg c) remove) (cfg_Instances (cfg c)) (instanceLabels c)"

definition keyRR :: "Client \<Rightarrow> key" where
  "keyRR c = (the (cfg_Key (cfg c)))\<lparr>key_name := hostFQDN c\<rparr>"

definition rename :: "Client \<Rightarrow> Client" where
  "rename c =
     (let n = Suc (renameSuffix c); suffix = ''-'' @ dec (n + 1)
      in c\<lparr>renameSuffix := n, hostLabel := HostLabel (cfg c) @ suffix,
           instanceLabels := map (\<lambda>inst. ic_Label inst @ suffix) (cfg_Instances (cfg c))\<rparr>)"

definition registrarAddr :: "Client \<Rightarrow> discovery_error + string" where
  "registrarAddr c =
     (if RegistrarAddr (cfg c) \<noteq> [] then Inr (RegistrarAddr (cfg c))
      else Discover (cfg_Query (cfg c)) (Domain (cfg c)) (cfg_Discovery (cfg c)) (cfg_Network (cfg c)))"

definition update_spec :: "Client \<Rightarrow> Addr list \<Rightarrow> InstanceSpec list \<Rightarrow> u32 \<Rightarrow> u32 \<Rightarrow> UpdateSpec" where
  "update_spec c addresses instances lease keyLease =
     \<lparr>Spec_Zone = ensureFQDN (Domain (cfg c)), Spec_Host = hostFQDN c, Addresses = addresses,
      Spec_HostKey = Some (keyRR c), Spec_Instances = instances, Spec_Lease = lease, Spec_KeyLease = keyLease,
      Spec_TTL = TTL (cfg c)\<rparr>"

text \<open>The messages sent, the result and the world after it.\<close>

type_synonym 'w sending = "(string \<times> msg) list \<times> (client_error + msg option \<times> Outcome) \<times> 'w"

definition buildSignSend ::
  "'w client_env \<Rightarrow> Client \<Rightarrow> Addr list \<Rightarrow> InstanceSpec list \<Rightarrow> u32 \<Rightarrow> u32 \<Rightarrow> 'w \<Rightarrow> 'w sending"
where
  "buildSignSend env c addresses instances lease keyLease w =
     (case registrarAddr c of Inl e \<Rightarrow> ([], Inl (RegistrarNotFound e), w) | Inr addr \<Rightarrow>
      case BuildUpdate (env_lib env) (env_NewMsg env) (update_spec c addresses instances lease keyLease) of
        Inl e \<Rightarrow> ([], Inl (UpdateNotBuilt e), w)
      | Inr m \<Rightarrow>
      case env_SignMessage env m (keyRR c) of None \<Rightarrow> ([], Inl SigningFailed, w) | Some sm \<Rightarrow>
      case env_Send env addr (cfg_Network (cfg c)) sm w of
        (None, w') \<Rightarrow> ([(addr, sm)], Inl (SendFailed addr), w')
      | (Some resp, w') \<Rightarrow> ([(addr, sm)], Inr (resp, InterpretResponse resp), w'))"

definition srp_Register :: "'w client_env \<Rightarrow> Client \<Rightarrow> 'w \<Rightarrow> 'w sending" where
  "srp_Register env c w =
     buildSignSend env c (cfg_Addresses (cfg c)) (specs c False) (RequestedLease (cfg c)) (RequestedKeyLease (cfg c)) w"

definition srp_Deregister :: "'w client_env \<Rightarrow> Client \<Rightarrow> 'w \<Rightarrow> 'w sending" where
  "srp_Deregister env c w = buildSignSend env c [] (specs c True) 0 0 w"

text \<open>\<open>left\<close> counts the attempts that remain. Without a response the code reads its RCODE for the
  error text, a nil dereference.\<close>

fun retry_register ::
  "'w client_env \<Rightarrow> nat \<Rightarrow> Client \<Rightarrow> 'w \<Rightarrow> (string \<times> msg) list \<times> (client_error + msg option) \<times> Client \<times> 'w"
where
  "retry_register env 0 c w = ([], Inl (GaveUp (MaxRenames (cfg c))), c, w)"
| "retry_register env (Suc left) c w =
     (case srp_Register env c w of
        (out, Inl e, w') \<Rightarrow> (out, Inl e, c, w')
      | (out, Inr (resp, outcome), w') \<Rightarrow>
          if outcome \<noteq> OutcomeConflict then
            (if outcome \<noteq> OutcomeSuccess then
               (out, Inl (case resp of None \<Rightarrow> NilResponse | Some m \<Rightarrow> RegistrationFailed outcome (msg_Rcode m)), c, w')
             else (out, Inr resp, c, w'))
          else (case retry_register env left (rename c) w' of (out', res) \<Rightarrow> (out @ out', res)))"

definition registerWithRenameRetry ::
  "'w client_env \<Rightarrow> Client \<Rightarrow> 'w \<Rightarrow> (string \<times> msg) list \<times> (client_error + msg option) \<times> Client \<times> 'w"
where
  "registerWithRenameRetry env c w = retry_register env (nat (MaxRenames (cfg c) + 1)) c w"

subsection \<open>Timing\<close>

text \<open>A 64-bit signed integer, and Go's division, which truncates towards zero.\<close>

definition wrap64 :: "int \<Rightarrow> int" where
  "wrap64 x = (x + 2 ^ 63) mod 2 ^ 64 - 2 ^ 63"

definition go_div :: "int \<Rightarrow> int \<Rightarrow> int" where
  "go_div x y = (if x < 0 then - ((- x) div y) else x div y)"

definition minRefreshDelay :: int where
  "minRefreshDelay = Second"

definition refreshDelay :: "rat \<Rightarrow> u32 \<Rightarrow> int" where
  "refreshDelay r leaseSeconds =
     (let lease = wrap64 (uint leaseSeconds * Second);
          base = go_div (wrap64 (lease * 80)) 100;
          jitter = \<lfloor>r * 5 / 100 * of_int lease\<rfloor>;
          d = wrap64 (base + jitter)
      in if d < minRefreshDelay then minRefreshDelay else d)"

definition initialDelay :: "rat \<Rightarrow> int" where
  "initialDelay r = \<lfloor>r * of_int (3 * Second)\<rfloor>"

definition minRegisterRetryBackoff :: int where
  "minRegisterRetryBackoff = 5 * Second"

definition maxRegisterRetryBackoff :: int where
  "maxRegisterRetryBackoff = 300 * Second"

subsection \<open>The loop\<close>

record 'w run_state =
  rs_client :: Client
  rs_backoff :: int
  rs_world :: 'w

text \<open>One turn of the loop of \<open>Run\<close>, up to the sleep at its end: the messages, whether the
  registration succeeded, the time to sleep and the state. The loop ends when a sleep is interrupted.\<close>

definition run_cycle ::
  "'w client_env \<Rightarrow> rat \<Rightarrow> 'w run_state \<Rightarrow> (string \<times> msg) list \<times> msg option option \<times> int \<times> 'w run_state"
where
  "run_cycle env r rs =
     (case registerWithRenameRetry env (rs_client rs) (rs_world rs) of
        (out, Inl e, c, w) \<Rightarrow>
          (out, None, rs_backoff rs,
           \<lparr>rs_client = c,
            rs_backoff = (if rs_backoff rs * 2 > maxRegisterRetryBackoff then maxRegisterRetryBackoff else rs_backoff rs * 2),
            rs_world = w\<rparr>)
      | (out, Inr resp, c, w) \<Rightarrow>
          (out, Some resp,
           refreshDelay r (case GrantedLease resp of Some (lease, _) \<Rightarrow> lease | None \<Rightarrow> RequestedLease (cfg c)),
           \<lparr>rs_client = c, rs_backoff = minRegisterRetryBackoff, rs_world = w\<rparr>))"

definition run_init :: "Client \<Rightarrow> 'w \<Rightarrow> 'w run_state" where
  "run_init c w = \<lparr>rs_client = c, rs_backoff = minRegisterRetryBackoff, rs_world = w\<rparr>"

inductive run_reach :: "'w client_env \<Rightarrow> 'w run_state \<Rightarrow> 'w run_state \<Rightarrow> bool" for env rs0 where
  run_start: "run_reach env rs0 rs0"
| run_turn: "run_reach env rs0 rs \<Longrightarrow> run_cycle env r rs = (out, res, d, rs') \<Longrightarrow> run_reach env rs0 rs'"

subsection \<open>The names a client builds\<close>

abbreviation (input) sep :: char where "sep \<equiv> CHR ''.''"

lemma ensureFQDN_append: "d \<noteq> [] \<Longrightarrow> ensureFQDN (a @ d) = a @ ensureFQDN d"
  by (cases d rule: rev_cases) (auto simp: ensureFQDN_def HasSuffix_iff)

lemma ensureFQDN_nonempty [simp]: "ensureFQDN d \<noteq> []"
  by (auto simp: ensureFQDN_def HasSuffix_iff)

lemma Fold_dot [simp]: "Fold (sep # s) = sep # Fold s"
  by (simp add: isUpper_nat)

lemma split_at_no: "c \<notin> set l \<Longrightarrow> split_at c l = [l]"
  by (induction l) auto

lemma Fold_no_dot: "sep \<in> set (Fold l) \<longleftrightarrow> sep \<in> set l"
  by (auto simp: Fold_map image_iff eq_commute [of sep])

lemma CheckLabel_None: "CheckLabel l = None \<Longrightarrow> l \<noteq> [] \<and> sep \<notin> set l"
  by (auto simp: CheckLabel_def split: if_splits)

lemma dotted_inj:
  assumes "sep \<notin> set a" "sep \<notin> set a'"
  shows "a @ sep # b = a' @ sep # b' \<longleftrightarrow> a = a' \<and> b = b'"
proof
  assume "a @ sep # b = a' @ sep # b'"
  then have "cut_at sep (a @ sep # b) = cut_at sep (a' @ sep # b')" by simp
  then show "a = a' \<and> b = b'" by (simp add: cut_at_append assms)
qed simp

definition labels_ok :: "InstanceConfig \<Rightarrow> string \<Rightarrow> bool" where
  "labels_ok inst label \<longleftrightarrow> label \<noteq> [] \<and> sep \<notin> set label \<and> ValidateServiceType (ic_ServiceType inst) = None \<and>
     (\<forall>st \<in> set (ic_Subtypes inst). sep \<notin> set st)"

definition client_ok :: "Client \<Rightarrow> bool" where
  "client_ok c \<longleftrightarrow>
     Domain (cfg c) \<noteq> [] \<and> hostLabel c \<noteq> [] \<and> sep \<notin> set (hostLabel c) \<and> TTL (cfg c) \<noteq> 0 \<and>
     RequestedLease (cfg c) \<le> RequestedKeyLease (cfg c) \<and> cfg_Key (cfg c) \<noteq> None \<and>
     HostLabel (cfg c) \<noteq> [] \<and> sep \<notin> set (HostLabel (cfg c)) \<and>
     (\<forall>inst \<in> set (cfg_Instances (cfg c)). labels_ok inst (ic_Label inst)) \<and>
     list_all2 labels_ok (cfg_Instances (cfg c)) (instanceLabels c) \<and>
     (\<exists>suffix. instanceLabels c = map (\<lambda>inst. ic_Label inst @ suffix) (cfg_Instances (cfg c)))"

lemma check_subtypes_None: "check_subtypes l sts = None \<longleftrightarrow> (\<forall>st \<in> set sts. CheckLabel st = None)"
  by (induction sts) (auto split: option.splits)

lemma check_configs_None:
  "check_configs insts = None \<Longrightarrow> i \<in> set insts \<Longrightarrow> labels_ok i (ic_Label i)"
proof (induction insts)
  case (Cons j insts)
  then show ?case
    by (auto simp: labels_ok_def check_subtypes_None split: option.splits dest!: CheckLabel_None)
qed simp

lemma NewClient_Inr:
  assumes "NewClient env cf = Inr c"
  shows "Domain cf \<noteq> []" "HostLabel cf \<noteq> []" "CheckLabel (HostLabel cf) = None" "check_configs (cfg_Instances cf) = None"
    and "RequestedLease (lease_defaults cf) \<le> RequestedKeyLease (lease_defaults cf)"
    and "\<exists>t n q k. c = \<lparr>cfg = (lease_defaults cf)\<lparr>Timeout := t, MaxRenames := n, cfg_Query := q, cfg_Key := Some k\<rparr>,
      hostLabel = HostLabel cf, instanceLabels = map ic_Label (cfg_Instances cf), renameSuffix = 0\<rparr>"
proof -
  note u = assms [unfolded NewClient_def]
  show 1: "Domain cf \<noteq> []" using u by (cases "Domain cf") simp_all
  show 2: "HostLabel cf \<noteq> []" using u 1 by (cases "HostLabel cf") simp_all
  show 3: "CheckLabel (HostLabel cf) = None" using u 1 2 by (cases "CheckLabel (HostLabel cf)") simp_all
  show 4: "check_configs (cfg_Instances cf) = None" using u 1 2 3 by (cases "check_configs (cfg_Instances cf)") simp_all
  have 5: "mode_valid (cfg_Discovery cf)" using u 1 2 3 4 by (cases "mode_valid (cfg_Discovery cf)") simp_all
  have 6: "network_valid (cfg_Network cf)" using u 1 2 3 4 5 by (cases "network_valid (cfg_Network cf)") simp_all
  note v = u [simplified 1 2 3 4 5 6 Let_def if_False if_True not_True_eq_False option.case]
  show 7: "RequestedLease (lease_defaults cf) \<le> RequestedKeyLease (lease_defaults cf)"
    using v by (cases "RequestedKeyLease (lease_defaults cf) < RequestedLease (lease_defaults cf)") simp_all
  then have 8: "\<not> RequestedKeyLease (lease_defaults cf) < RequestedLease (lease_defaults cf)" by simp
  have 9: "HostLabel (lease_defaults cf) = HostLabel cf" "cfg_Instances (lease_defaults cf) = cfg_Instances cf"
    by (simp_all add: lease_defaults_def)
  show "\<exists>t n q k. c = \<lparr>cfg = (lease_defaults cf)\<lparr>Timeout := t, MaxRenames := n, cfg_Query := q, cfg_Key := Some k\<rparr>,
      hostLabel = HostLabel cf, instanceLabels = map ic_Label (cfg_Instances cf), renameSuffix = 0\<rparr>"
  proof (cases "cfg_Key (lease_defaults cf)")
    case None
    then show ?thesis using v [simplified 8 if_False] 9
      by (cases "env_GenerateKey env (ensureFQDN (HostLabel cf @ ''.'' @ Domain (lease_defaults cf)))") (simp_all, blast)
  next
    case (Some k)
    then show ?thesis using v [simplified 8 if_False] 9 by simp blast
  qed
qed

lemma NewClient_ok:
  assumes "NewClient env cf = Inr c"
  shows "client_ok c \<and> cfg_Instances (cfg c) = cfg_Instances cf"
proof -
  note f = NewClient_Inr [OF assms]
  have i: "\<forall>inst \<in> set (cfg_Instances cf). labels_ok inst (ic_Label inst)" "sep \<notin> set (HostLabel cf)"
    using check_configs_None [OF f(4)] CheckLabel_None [OF f(3)] by auto
  then have l: "list_all2 labels_ok (cfg_Instances cf) (map ic_Label (cfg_Instances cf))"
    by (simp add: list.rel_map list.rel_refl_strong)
  have s: "\<exists>suffix. map ic_Label (cfg_Instances cf) = map (\<lambda>inst. ic_Label inst @ suffix) (cfg_Instances cf)"
    by (rule exI [of _ "[]"]) simp
  have "cfg_Instances (lease_defaults cf) = cfg_Instances cf" "Domain (lease_defaults cf) = Domain cf"
    "HostLabel (lease_defaults cf) = HostLabel cf" "TTL (lease_defaults cf) \<noteq> 0"
    by (simp_all add: lease_defaults_def)
  then show ?thesis using f(6) f(1,2,5) i l s by (elim exE) (simp add: client_ok_def)
qed

lemma rename_ok:
  assumes "client_ok c"
  shows "client_ok (rename c) \<and> cfg (rename c) = cfg c"
proof -
  let ?s = "''-'' @ dec (renameSuffix c + 2)"
  have s: "sep \<notin> set ?s" using dec_no_sep [of "renameSuffix c + 2"] by auto
  have r: "hostLabel (rename c) = HostLabel (cfg c) @ ?s" "cfg (rename c) = cfg c"
    "instanceLabels (rename c) = map (\<lambda>inst. ic_Label inst @ ?s) (cfg_Instances (cfg c))"
    by (simp_all add: rename_def Let_def)
  have "\<forall>inst \<in> set (cfg_Instances (cfg c)). labels_ok inst (ic_Label inst @ ?s)"
    using assms s by (auto simp: client_ok_def labels_ok_def)
  then have "list_all2 labels_ok (cfg_Instances (cfg c)) (map (\<lambda>inst. ic_Label inst @ ?s) (cfg_Instances (cfg c)))"
    by (simp only: list.rel_map list.rel_refl_strong)
  then show ?thesis using assms s unfolding client_ok_def r by auto
qed

lemma renames_ok: "client_ok c \<Longrightarrow> client_ok ((rename ^^ n) c) \<and> cfg ((rename ^^ n) c) = cfg c"
  by (induction n) (auto simp: rename_ok)

subsection \<open>What a client sends is a valid update\<close>

definition distinct_services :: "InstanceConfig list \<Rightarrow> bool" where
  "distinct_services insts \<longleftrightarrow> distinct (map (\<lambda>i. (Fold (ic_Label i), Fold (ic_ServiceType i))) insts)"

lemma instance_spec_names:
  assumes "Domain cf \<noteq> []"
  shows "Spec_Name (instance_spec cf rm i l) = l @ ''.'' @ ic_ServiceType i @ ''.'' @ ensureFQDN (Domain cf)"
    "ServiceType (instance_spec cf rm i l) = ic_ServiceType i @ ''.'' @ ensureFQDN (Domain cf)"
    "Subtypes (instance_spec cf rm i l) =
      map (\<lambda>st. st @ ''._sub.'' @ ic_ServiceType i @ ''.'' @ ensureFQDN (Domain cf)) (ic_Subtypes i)"
  using ensureFQDN_append [OF assms, of "l @ ''.'' @ ic_ServiceType i @ ''.''"]
    ensureFQDN_append [OF assms, of "ic_ServiceType i @ ''.''"]
    ensureFQDN_append [OF assms, of "st @ ''._sub.'' @ ic_ServiceType i @ ''.''" for st]
  by (simp_all add: instance_spec_def)

lemma ServiceType_nonempty: "ValidateServiceType t = None \<Longrightarrow> t \<noteq> []"
  by (auto simp: ValidateServiceType_def Labels_def)

lemma subtype_owner:
  assumes "sep \<notin> set st" "ValidateServiceType t = None"
  shows "isSubtypePTROwner (st @ ''._sub.'' @ t @ ''.'' @ d) = Some (Fold (t @ ''.'' @ d))"
proof -
  obtain s p where l: "Labels t = [s, p]" using assms(2) by (rule ValidateServiceType_labels)
  have t: "split_at sep (Fold t) = [Fold s, Fold p]" using l ServiceType_nonempty [OF assms(2)]
    by (simp add: split_at_Fold Labels_def)
  let ?rest = "Fold t @ sep # Fold d"
  have f: "Fold (st @ ''._sub.'' @ t @ ''.'' @ d) = Fold st @ sep # ''_sub'' @ sep # ?rest"
    by (simp add: Fold_append) (simp add: Fold_map fold_byte_def isUpper_nat)
  have sub: "split_at sep (''_sub'' @ sep # ?rest) = ''_sub'' # split_at sep ?rest"
    by (simp only: split_at_append_sep) simp
  have "Labels (Fold (st @ ''._sub.'' @ t @ ''.'' @ d)) = Fold st # ''_sub'' # split_at sep ?rest"
    unfolding f using assms(1) by (simp add: Labels_def split_at_append_sep [of sep "Fold st"] split_at_no Fold_no_dot sub del: append.simps)
  moreover have "length (split_at sep ?rest) \<ge> 2" by (simp add: split_at_append_sep t)
  moreover have "join_with ''.'' (split_at sep ?rest) = Fold (t @ ''.'' @ d)"
    by (simp only: join_split_at) (simp add: Fold_append del: Fold.simps)
  ultimately show ?thesis by (simp add: isSubtypePTROwner_def)
qed

lemma instance_spec_fitting:
  assumes "labels_ok i l" "Domain cf \<noteq> []"
  shows "fitting_instance k (instance_spec cf rm i l)" "named (instance_spec cf rm i l)"
proof -
  let ?d = "ensureFQDN (Domain cf)"
  have v: "ValidateServiceType (ic_ServiceType i) = None" "sep \<notin> set l" "l \<noteq> []" "\<forall>st \<in> set (ic_Subtypes i). sep \<notin> set st"
    using assms(1) by (auto simp: labels_ok_def)
  have "ServiceTypeFromServiceName (ic_ServiceType i @ ''.'' @ ?d) \<noteq> None"
    using ValidateServiceType_recognised [OF v(1), of ?d] by (simp add: BrowsingOwnerName_def)
  moreover have "fst (snd (CutFirstLabel (Fold (l @ ''.'' @ ic_ServiceType i @ ''.'' @ ?d)))) = Fold (ic_ServiceType i @ ''.'' @ ?d)"
    using v(2) by (simp add: CutFirstLabel_def Fold_append cut_at_append Fold_no_dot del: Fold.simps)
  ultimately show "fitting_instance k (instance_spec cf rm i l)"
    using v by (auto simp: fitting_instance_def instance_spec_names [OF assms(2)] subtype_owner simp del: append.simps)
      (simp add: instance_spec_def)
  show "named (instance_spec cf rm i l)"
    using v by (simp add: named_def instance_spec_names [OF assms(2)])
qed

lemma map2_map: "map2 f xs (map g xs) = map (\<lambda>x. f x (g x)) xs"
  by (induction xs) auto

lemma update_spec_fitting:
  assumes ok: "client_ok c" and d: "distinct_services (cfg_Instances (cfg c))"
  shows "fitting (update_spec c addrs (specs c rm) lease keyLease)" "list_all named (specs c rm)"
proof -
  let ?d = "ensureFQDN (Domain (cfg c))" and ?is = "cfg_Instances (cfg c)"
  have dom: "Domain (cfg c) \<noteq> []" using ok by (simp add: client_ok_def)
  obtain sf where sf: "instanceLabels c = map (\<lambda>i. ic_Label i @ sf) ?is" using ok by (auto simp: client_ok_def)
  have lo: "labels_ok i (ic_Label i @ sf)" if "i \<in> set ?is" for i
    using ok that by (auto simp: client_ok_def sf list.rel_map list_all2_same)
  have sp: "specs c rm = map (\<lambda>i. instance_spec (cfg c) rm i (ic_Label i @ sf)) ?is"
    by (simp add: specs_def sf map2_map)
  define nm where "nm i = Fold (ic_Label i @ sf) @ sep # Fold (ic_ServiceType i) @ sep # Fold ?d" for i :: InstanceConfig
  have nm: "Fold (Spec_Name (instance_spec (cfg c) rm i (ic_Label i @ sf))) = nm i" for i
    by (simp add: instance_spec_names [OF dom] nm_def Fold_append del: Fold.simps)
  have host: "Fold (hostFQDN c) = Fold (hostLabel c) @ sep # Fold ?d"
    using ensureFQDN_append [OF dom, of "hostLabel c @ ''.''"] by (simp add: hostFQDN_def Fold_append del: Fold.simps)
  have nodot: "sep \<notin> set (Fold (ic_Label i @ sf))" if "i \<in> set ?is" for i
    using lo [OF that] by (simp only: Fold_no_dot labels_ok_def simp_thms)
  have "nm i = nm j \<longleftrightarrow> Fold (ic_Label i) = Fold (ic_Label j) \<and> Fold (ic_ServiceType i) = Fold (ic_ServiceType j)"
    if "i \<in> set ?is" "j \<in> set ?is" for i j
    unfolding nm_def dotted_inj [OF nodot [OF that(1)] nodot [OF that(2)]] by (simp add: Fold_append)
  then have "distinct (map nm ?is)" using d by (auto simp: distinct_services_def distinct_map inj_on_def)
  moreover have "Fold (hostFQDN c) \<noteq> nm i" if "i \<in> set ?is" for i
  proof -
    have "sep \<notin> set (Fold (hostLabel c))" using ok by (simp only: Fold_no_dot client_ok_def simp_thms)
    then show ?thesis unfolding host nm_def dotted_inj [OF _ nodot [OF that]] by (auto dest: arg_cong [where f = length])
  qed
  ultimately have "distinct (map Fold (hostFQDN c # map Spec_Name (specs c rm)))"
    by (auto simp: sp comp_def nm)
  moreover have "\<forall>i \<in> set (specs c rm). fitting_instance k i \<and> named i" for k
    using lo instance_spec_fitting dom by (auto simp: sp)
  ultimately show "fitting (update_spec c addrs (specs c rm) lease keyLease)" "list_all named (specs c rm)"
    by (auto simp: fitting_def update_spec_def list_all_iff)
qed

lemma update_spec_built:
  assumes ok: "client_ok c" and d: "distinct_services (cfg_Instances (cfg c))" and le: "lease \<le> keyLease"
    and new: "new (ensureFQDN (Domain (cfg c))) TypeSOA = Some m0" "length (msg_Question m0) = 1" "msg_Answer m0 = []"
      "msg_Ns m0 = []" "scan (msg_Pseudo m0 @ msg_Extra m0) = None"
  shows "\<exists>m. BuildUpdate lib new (update_spec c addrs (specs c rm) lease keyLease) = Inr m \<and>
    srp_Validate (Some m) = Inr (described (update_spec c addrs (specs c rm) lease keyLease))"
proof -
  note f = update_spec_fitting [OF ok d]
  have "Spec_Zone (update_spec c addrs (specs c rm) lease keyLease) = ensureFQDN (Domain (cfg c))"
    by (simp add: update_spec_def)
  then have new': "new (Spec_Zone (update_spec c addrs (specs c rm) lease keyLease)) TypeSOA = Some m0" using new(1) by simp
  have "hostFQDN c \<noteq> []" by (simp add: hostFQDN_def)
  then obtain m where m: "BuildUpdate lib new (update_spec c addrs (specs c rm) lease keyLease) = Inr m"
    using ok le new(1) f(2) [of rm] by (simp add: BuildUpdate_Inr update_spec_def client_ok_def)
  show ?thesis using m BuildUpdate_validated(1) [OF m f(1) new' new(2-5)] by blast
qed


subsection \<open>The timers of the loop\<close>

lemma wrap64_id: "0 \<le> x \<Longrightarrow> x < 2 ^ 63 \<Longrightarrow> wrap64 x = x"
  by (simp add: wrap64_def)

text \<open>The longest LEASE, in seconds, whose eightyfold fits into 64 bits.\<close>

definition longest_lease :: int where
  "longest_lease = 115292150"

lemma refreshDelay_bounds:
  assumes "uint l \<le> longest_lease" and "0 \<le> r" and "r \<le> 1"
  shows "minRefreshDelay \<le> refreshDelay r l"
    and "uint l * Second * 80 div 100 \<le> refreshDelay r l"
    and "refreshDelay r l \<le> max minRefreshDelay (uint l * Second * 85 div 100)"
proof -
  define L where "L = uint l * Second"
  let ?l = L
  let ?j = "\<lfloor>r * 5 / 100 * of_int ?l\<rfloor>"
  have l: "0 \<le> ?l" "?l \<le> 115292150000000000" using assms(1) by (simp_all add: L_def longest_lease_def Second_def)
  have j0: "0 \<le> ?j" using l(1) assms(2) by simp
  have "r * 5 / 100 * of_int ?l \<le> 5 / 100 * of_int ?l"
    using l(1) assms(3) by (intro mult_right_mono) (simp_all add: field_simps)
  then have "?j \<le> \<lfloor>5 / 100 * (of_int ?l :: rat)\<rfloor>" by (rule floor_mono)
  also have "5 / 100 * (of_int ?l :: rat) = of_int (?l * 5) / of_int 100" by simp
  also have "\<lfloor>of_int (?l * 5) / (of_int 100 :: rat)\<rfloor> = ?l * 5 div 100" by (rule floor_divide_of_int_eq)
  finally have j: "?j \<le> ?l * 5 div 100" .
  have w: "wrap64 ?l = ?l" "wrap64 (?l * 80) = ?l * 80" using l by (simp_all add: wrap64_id)
  have b: "go_div (?l * 80) 100 = ?l * 80 div 100" using l(1) by (simp add: go_div_def)
  have s: "?l * 80 div 100 + ?j \<le> ?l * 85 div 100"
  proof -
    have "a div 100 + b div 100 \<le> (a + b) div 100" for a b :: int
      using zdiv_mono1 [of "(a div 100 + b div 100) * 100" "a + b" 100] pos_mod_sign [of 100 a] pos_mod_sign [of 100 b]
        div_mult_mod_eq [of a 100] div_mult_mod_eq [of b 100] by (simp add: algebra_simps)
    from this [of "?l * 80" "?l * 5"] show ?thesis using j by simp
  qed
  then have "wrap64 (?l * 80 div 100 + ?j) = ?l * 80 div 100 + ?j"
    using l j0 by (intro wrap64_id) auto
  then have r: "refreshDelay r l = max minRefreshDelay (?l * 80 div 100 + ?j)"
    by (simp add: refreshDelay_def Let_def w b max_def flip: L_def)
  show "minRefreshDelay \<le> refreshDelay r l" by (simp add: r)
  show "uint l * Second * 80 div 100 \<le> refreshDelay r l"
    unfolding r L_def [symmetric] using j0 by (intro max.coboundedI2) linarith
  show "refreshDelay r l \<le> max minRefreshDelay (uint l * Second * 85 div 100)"
    using s by (simp add: r flip: L_def)
qed

lemma cfg_rename [simp]: "cfg (rename c) = cfg c"
  by (simp add: rename_def Let_def)

lemma srp_Register_outcome:
  "srp_Register env c w = (out, Inr (resp, outcome), w') \<Longrightarrow> outcome = InterpretResponse resp"
  "srp_Register env c w = (out, res, w') \<Longrightarrow> length out \<le> 1"
  by (auto simp: srp_Register_def buildSignSend_def split: sum.splits option.splits prod.splits)

text \<open>A result means that the last answer was NOERROR; every attempt sends at most one message.\<close>

lemma retry_register_result:
  assumes "retry_register env left c w = (out, res, c', w')"
  shows "cfg c' = cfg c \<and> length out \<le> left \<and> (\<forall>resp. res = Inr resp \<longrightarrow> InterpretResponse resp = OutcomeSuccess)"
  using assms
proof (induction left arbitrary: c w out res c' w')
  case (Suc left)
  obtain o1 r1 w1 where R: "srp_Register env c w = (o1, r1, w1)" by (cases "srp_Register env c w") auto
  have len: "length o1 \<le> 1" using srp_Register_outcome(2) [OF R] .
  show ?case
  proof (cases r1)
    case (Inl e)
    then show ?thesis using Suc.prems R len by auto
  next
    case (Inr p)
    obtain resp outcome where p: "p = (resp, outcome)" by (cases p)
    have o: "outcome = InterpretResponse resp" using srp_Register_outcome(1) [OF R [unfolded Inr p]] .
    obtain o2 r2 c2 w2 where T: "retry_register env left (rename c) w1 = (o2, r2, c2, w2)"
      by (cases "retry_register env left (rename c) w1") auto
    show ?thesis using Suc.prems R Inr p o len Suc.IH [OF T] T by (auto split: if_splits)
  qed
qed auto

lemma run_reach_inv:
  assumes "run_reach env (run_init c w) rs"
  shows "cfg (rs_client rs) = cfg c \<and> minRegisterRetryBackoff \<le> rs_backoff rs \<and> rs_backoff rs \<le> maxRegisterRetryBackoff"
  using assms
proof induction
  case run_start
  show ?case by (simp add: run_init_def minRegisterRetryBackoff_def maxRegisterRetryBackoff_def Second_def)
next
  case (run_turn rs r out res d rs')
  obtain o1 r1 c1 w1 where R: "registerWithRenameRetry env (rs_client rs) (rs_world rs) = (o1, r1, c1, w1)"
    by (cases "registerWithRenameRetry env (rs_client rs) (rs_world rs)") auto
  have c1: "cfg c1 = cfg (rs_client rs)"
    using R retry_register_result [of env _ "rs_client rs" "rs_world rs"] by (simp add: registerWithRenameRetry_def)
  have b: "0 \<le> minRegisterRetryBackoff" "minRegisterRetryBackoff \<le> maxRegisterRetryBackoff"
    by (simp_all add: minRegisterRetryBackoff_def maxRegisterRetryBackoff_def Second_def)
  show ?case
    using run_turn.hyps(2) run_turn.IH R c1 b by (cases r1) (auto simp: run_cycle_def)
qed

definition lease_used :: "Client \<Rightarrow> msg option \<Rightarrow> u32" where
  "lease_used c resp = (case GrantedLease resp of Some (lease, _) \<Rightarrow> lease | None \<Rightarrow> RequestedLease (cfg c))"

text \<open>
  C32. The loop of \<open>Run\<close> keeps its pace in every state it reaches, whatever the network does: a turn
  sends at most one message more than the configured number of renames; after a failure it waits
  between five seconds and five minutes; after a success, which means a NOERROR answer, it waits at
  least a second and, for a lease the 64-bit arithmetic can hold, between 80 and 85 percent of the
  lease granted, so that it refreshes before the lease ends.
\<close>

theorem run_pace:
  assumes "run_reach env (run_init c w) rs" and "run_cycle env r rs = (out, res, d, rs')" and "0 \<le> r" and "r < 1"
  shows "length out \<le> nat (MaxRenames (cfg c) + 1) \<and>
    (res = None \<longrightarrow> 5 * Second \<le> d \<and> d \<le> 300 * Second) \<and>
    (\<forall>resp. res = Some resp \<longrightarrow> InterpretResponse resp = OutcomeSuccess \<and>
      (uint (lease_used c resp) \<le> longest_lease \<longrightarrow>
        Second \<le> d \<and> uint (lease_used c resp) * Second * 80 div 100 \<le> d \<and>
        d \<le> max Second (uint (lease_used c resp) * Second * 85 div 100)))"
proof -
  obtain o1 r1 c1 w1 where R: "registerWithRenameRetry env (rs_client rs) (rs_world rs) = (o1, r1, c1, w1)"
    by (cases "registerWithRenameRetry env (rs_client rs) (rs_world rs)") auto
  note inv = run_reach_inv [OF assms(1)]
  note rr = retry_register_result [OF R [unfolded registerWithRenameRetry_def]]
  have b: "minRegisterRetryBackoff = 5 * Second" "maxRegisterRetryBackoff = 300 * Second" "minRefreshDelay = Second"
    by (simp_all add: minRegisterRetryBackoff_def maxRegisterRetryBackoff_def minRefreshDelay_def)
  show ?thesis
  proof (cases r1)
    case (Inl e)
    then show ?thesis using assms(2) R rr inv b by (auto simp: run_cycle_def)
  next
    case (Inr resp)
    then have "out = o1" "res = Some resp" "d = refreshDelay r (lease_used c resp)"
      using assms(2) R rr inv by (auto simp: run_cycle_def lease_used_def split: option.splits)
    then show ?thesis
      using Inr rr inv b assms(3,4) refreshDelay_bounds [of "lease_used c resp" r] by simp
  qed
qed

text \<open>
  Beyond that the eightyfold of the lease does not fit into 64 bits: for the longest LEASE a
  response can carry the client does not wait for years but, with the smallest random offset, a
  second.
\<close>

lemma refreshDelay_overflow: "refreshDelay 0 4294967295 = Second"
  by code_simp

definition sample_env :: "nat client_env" where
  "sample_env = \<lparr>env_lib = sample_lib, env_NewMsg = sample_new, env_Exchange = (\<lambda>_ _ _. None), env_GenerateKey = (\<lambda>_. None),
     env_SignMessage = (\<lambda>m _. Some m),
     env_Send = (\<lambda>_ _ m n. (Some (Some (empty_msg\<lparr>msg_Rcode := (if n = 0 then RcodeYXDomain else RcodeSuccess)\<rparr>)), Suc n))\<rparr>"

definition sample_config :: Config where
  "sample_config = \<lparr>Domain = ''a.'', HostLabel = ''H'', cfg_Addresses = [Addr4 ''192.0.2.1''],
     cfg_Instances = [\<lparr>ic_Label = ''I'', ic_ServiceType = ''_s._tcp'', ic_Subtypes = [''_x''], ic_Port = 9, ic_TXT = [], ic_Remove = False\<rparr>],
     cfg_Key = Some \<lparr>key_name = ''x.'', key_class = 1, key_ttl = 0, Flags = 0, Protocol = 3, Algorithm = 13, PublicKey = ''AAAA''\<rparr>,
     RequestedLease = 0, RequestedKeyLease = 0, TTL = 0, RegistrarAddr = ''r:53'', cfg_Discovery = DiscoveryClosest,
     Resolvers = [], cfg_Query = None, cfg_Network = NetworkTCP, Timeout = 0, MaxRenames = 0\<rparr>"

definition sample_client :: Client where
  "sample_client = (case NewClient sample_env sample_config of Inr c \<Rightarrow> c | Inl _ \<Rightarrow> undefined)"

lemma sample_client: "NewClient sample_env sample_config = Inr sample_client"
proof -
  have "\<not> (case NewClient sample_env sample_config of Inl _ \<Rightarrow> True | Inr _ \<Rightarrow> False)" by code_simp
  then show ?thesis by (cases "NewClient sample_env sample_config") (simp_all add: sample_client_def)
qed


theorem run_pace_witness:
  "\<exists>out res d rs'. run_cycle sample_env (1 / 2) (run_init sample_client 0) = (out, res, d, rs') \<and>
    length out = 2 \<and> length out \<le> nat (MaxRenames (cfg sample_client) + 1) \<and> (\<exists>resp. res = Some resp) \<and> d \<le> 3060 * Second"
proof -
  obtain out res d rs' where r: "run_cycle sample_env (1 / 2) (run_init sample_client 0) = (out, res, d, rs')"
    by (cases "run_cycle sample_env (1 / 2) (run_init sample_client (0 :: nat))") auto
  have "(case run_cycle sample_env (1 / 2) (run_init sample_client 0) of (out, res, d, rs') \<Rightarrow>
    length out = 2 \<and> (case res of Some resp \<Rightarrow> lease_used sample_client resp = 3600 | None \<Rightarrow> False))" by code_simp
  then obtain resp where "length out = 2" "res = Some resp" "lease_used sample_client resp = 3600"
    using r by (auto split: option.splits)
  with run_pace [OF run_start r] r show ?thesis by (simp add: longest_lease_def Second_def max_def)
qed

end
