(* ===== verification/Upstream_Net.thy ===== *)
theory Upstream_Net
  imports Srp_Handler Srp_Discovery
begin

text \<open>
  The coordinator of \<open>pkg/updatecore/coordinator.go\<close>, which the handlers use for everything they ask
  or tell the authoritative server: it finds the primary server of a zone, sends UPDATEs there and
  queries it.

  The network is the record \<open>network\<close>: \<open>Exchange\<close> is \<open>dns.Exchange\<close>, which may fail (\<open>None\<close>), give no
  message (\<open>Some None\<close>) or a message; \<open>newmsg\<close> is \<open>dns.NewMsg\<close>; \<open>got_slot\<close> tells whether a slot for an
  update in flight became free in time. The key files of the proxy are arguments of
  \<open>FindAuthorizedProxyKey\<close>. Log lines are left out.

  \<open>coordinator_of\<close> and \<open>srp_coordinator_of\<close> are the coordinators the handlers of this development
  take as arguments, built from these definitions. The theorems: what the handlers take as accepted
  upstream was accepted by the primary server of the zone, and what they take as absent there was
  absent from a complete answer of it.
\<close>

record network =
  Exchange :: "string \<Rightarrow> string \<Rightarrow> msg \<Rightarrow> msg option option"
  newmsg :: "string \<Rightarrow> u16 \<Rightarrow> msg option"
  got_slot :: "string \<Rightarrow> bool"

record StaticUpstream =
  su_Zone :: string
  su_Addr :: string

record Coordinator =
  bootstrapResolvers :: "string list"
  static :: "StaticUpstream option"

datatype coord_error =
    EmptyZone
  | QueryNotBuilt string
  | NoZoneSOA string
  | ZoneRequiredForUpdate
  | NotOneQuestion nat
  | ZoneMismatch string string
  | NoSlot string
  | UpdateExchangeFailed string
  | NilResponsePanic
  | QueryExchangeFailed string
  | NilQueryResponse string
  | UnexpectedRcode u16

definition NewCoordinator :: "string list \<Rightarrow> StaticUpstream option \<Rightarrow> Coordinator" where
  "NewCoordinator resolvers st =
     \<lparr>bootstrapResolvers = (if resolvers = [] then defaultBootstrapResolvers else resolvers),
      static = (case st of
          None \<Rightarrow> None
        | Some s \<Rightarrow> if HasSuffix (su_Zone s) ''.'' then Some s
                    else Some \<lparr>su_Zone = su_Zone s @ ''.'', su_Addr = su_Addr s\<rparr>)\<rparr>"

definition covers :: "Coordinator \<Rightarrow> string \<Rightarrow> bool" where
  "covers c name = (case static c of None \<Rightarrow> False | Some s \<Rightarrow> IsAtOrBelow name (su_Zone s))"

definition soa_ns :: "rr \<Rightarrow> string" where
  "soa_ns r = (case rr_data r of SOA_data ns _ _ \<Rightarrow> ns | _ \<Rightarrow> [])"

text \<open>Only the first SOA of a response counts: a bad one sends the search to the next resolver.\<close>

definition usable_soa :: "string \<Rightarrow> msg \<Rightarrow> rr option" where
  "usable_soa fqdn resp =
     (case find is_soa (msg_Answer resp @ msg_Ns resp) of
        None \<Rightarrow> None
      | Some soa \<Rightarrow>
          if Normalize (rr_name soa) = [] \<or> \<not> IsAtOrBelow fqdn (rr_name soa) \<or> Normalize (soa_ns soa) = []
          then None else Some soa)"

fun soa_from :: "network \<Rightarrow> string \<Rightarrow> msg \<Rightarrow> string list \<Rightarrow> rr option" where
  "soa_from net fqdn req [] = None"
| "soa_from net fqdn req (resolver # rest) =
     (case Exchange net ''udp'' resolver req of
        Some (Some resp) \<Rightarrow>
          if msg_Rcode resp \<noteq> RcodeSuccess \<and> msg_Rcode resp \<noteq> RcodeNameError then soa_from net fqdn req rest
          else (case usable_soa fqdn resp of Some soa \<Rightarrow> Some soa | None \<Rightarrow> soa_from net fqdn req rest)
      | _ \<Rightarrow> soa_from net fqdn req rest)"

definition discoverZone :: "network \<Rightarrow> Coordinator \<Rightarrow> string \<Rightarrow> coord_error + rr" where
  "discoverZone net c name =
     (let fqdn = (if HasSuffix name ''.'' then name else name @ ''.'') in
      if Normalize fqdn = [] then Inl EmptyZone
      else case newmsg net fqdn TypeSOA of
        None \<Rightarrow> Inl (QueryNotBuilt fqdn)
      | Some req \<Rightarrow>
          (case soa_from net fqdn req (bootstrapResolvers c) of
             None \<Rightarrow> Inl (NoZoneSOA fqdn)
           | Some soa \<Rightarrow> Inr soa))"

definition ResolveSOAMasterServer :: "network \<Rightarrow> Coordinator \<Rightarrow> string \<Rightarrow> coord_error + (string \<times> string)" where
  "ResolveSOAMasterServer net c zone =
     (if covers c zone then Inr (su_Addr (the (static c)), su_Zone (the (static c)))
      else case discoverZone net c zone of
        Inl e \<Rightarrow> Inl e
      | Inr soa \<Rightarrow> Inr (JoinHostPort (TrimSuffix (soa_ns soa) ''.'') ''53'', rr_name soa))"

definition net_ResolveAuthoritativeZone :: "network \<Rightarrow> Coordinator \<Rightarrow> string \<Rightarrow> coord_error + string" where
  "net_ResolveAuthoritativeZone net c zone =
     (if covers c zone then Inr (su_Zone (the (static c)))
      else case discoverZone net c zone of Inl e \<Rightarrow> Inl e | Inr soa \<Rightarrow> Inr (rr_name soa))"

subsection \<open>Updates\<close>

definition net_SendUpdate :: "network \<Rightarrow> Coordinator \<Rightarrow> string \<Rightarrow> msg \<Rightarrow> coord_error + msg" where
  "net_SendUpdate net c upstreamZ m =
     (if upstreamZ = [] then Inl ZoneRequiredForUpdate
      else if length (msg_Question m) \<noteq> 1 then Inl (NotOneQuestion (length (msg_Question m)))
      else
        let msgZone = rr_name (hd (msg_Question m)) in
        if Normalize msgZone \<noteq> Normalize upstreamZ then Inl (ZoneMismatch msgZone upstreamZ)
        else case ResolveSOAMasterServer net c upstreamZ of
          Inl e \<Rightarrow> Inl e
        | Inr (soaServer, authZone) \<Rightarrow>
            if \<not> got_slot net soaServer then Inl (NoSlot soaServer)
            else (case Exchange net ''udp'' soaServer m of
                Some (Some resp) \<Rightarrow> Inr resp
              | Some None \<Rightarrow> Inl NilResponsePanic
              | None \<Rightarrow>
                  (case Exchange net ''tcp'' soaServer m of
                     Some (Some resp) \<Rightarrow> Inr resp
                   | Some None \<Rightarrow> Inl NilResponsePanic
                   | None \<Rightarrow> Inl (UpdateExchangeFailed soaServer))))"

subsection \<open>Queries\<close>

text \<open>The header bit of a recursion request is not in the model of a message: clearing it leaves the query as it is.\<close>

definition queryAuthoritative :: "network \<Rightarrow> Coordinator \<Rightarrow> string \<Rightarrow> msg \<Rightarrow> coord_error + msg" where
  "queryAuthoritative net c zoneHint req =
     (case ResolveSOAMasterServer net c zoneHint of
        Inl e \<Rightarrow> Inl e
      | Inr (soaServer, _) \<Rightarrow>
          (let udp = Exchange net ''udp'' soaServer req in
           case (if (case udp of None \<Rightarrow> True | Some None \<Rightarrow> False | Some (Some r) \<Rightarrow> msg_Truncated r)
                 then Exchange net ''tcp'' soaServer req else udp) of
             None \<Rightarrow> Inl (QueryExchangeFailed soaServer)
           | Some None \<Rightarrow> Inl (NilQueryResponse soaServer)
           | Some (Some resp) \<Rightarrow> Inr resp))"

definition net_QueryKeyAtName ::
  "network \<Rightarrow> Coordinator \<Rightarrow> string \<Rightarrow> string \<Rightarrow> coord_error + (AuthoritativeKeyState \<times> key list)"
where
  "net_QueryKeyAtName net c zoneHint name =
     (case newmsg net name TypeKEY of
        None \<Rightarrow> Inl (QueryNotBuilt name)
      | Some req \<Rightarrow>
          (case queryAuthoritative net c zoneHint req of
             Inl e \<Rightarrow> Inl e
           | Inr resp \<Rightarrow>
               if msg_Rcode resp = RcodeNameError then Inr (AuthNXDomain, [])
               else if msg_Rcode resp = RcodeSuccess then
                 (let keys = List.map_filter as_key (msg_Answer resp) in
                  if keys = [] then Inr (AuthNoKey, []) else Inr (AuthKeyPresent, keys))
               else Inl (UnexpectedRcode (msg_Rcode resp))))"

definition is_ptr_rr :: "rr \<Rightarrow> bool" where
  "is_ptr_rr r = (case rr_data r of PTR_data _ \<Rightarrow> True | _ \<Rightarrow> False)"

definition net_QueryPTRExists :: "network \<Rightarrow> Coordinator \<Rightarrow> string \<Rightarrow> string \<Rightarrow> coord_error + bool" where
  "net_QueryPTRExists net c zoneHint name =
     (case newmsg net name TypePTR of
        None \<Rightarrow> Inl (QueryNotBuilt name)
      | Some req \<Rightarrow>
          (case queryAuthoritative net c zoneHint req of
             Inl e \<Rightarrow> Inl e
           | Inr resp \<Rightarrow>
               if msg_Rcode resp = RcodeNameError then Inr False
               else if msg_Rcode resp = RcodeSuccess then Inr (list_ex is_ptr_rr (msg_Answer resp))
               else Inl (UnexpectedRcode (msg_Rcode resp))))"

definition net_QueryRRs :: "network \<Rightarrow> Coordinator \<Rightarrow> string \<Rightarrow> string \<Rightarrow> u16 \<Rightarrow> coord_error + rr list" where
  "net_QueryRRs net c zoneHint name rrType =
     (case newmsg net name rrType of
        None \<Rightarrow> Inl (QueryNotBuilt name)
      | Some req \<Rightarrow>
          (case queryAuthoritative net c zoneHint req of
             Inl e \<Rightarrow> Inl e
           | Inr resp \<Rightarrow>
               if msg_Rcode resp \<noteq> RcodeSuccess \<and> msg_Rcode resp \<noteq> RcodeNameError then Inl (UnexpectedRcode (msg_Rcode resp))
               else Inr (filter (\<lambda>r. RRToType r = rrType) (msg_Answer resp))))"

subsection \<open>The proxy's own key\<close>

datatype proxy_key_error =
    ProxyZoneEmpty
  | SeveralKeys string
  | KeyNotLoaded string
  | NoProxyKey string

definition parentZone :: "string \<Rightarrow> string" where
  "parentZone zone = parent_name (TrimSuffix zone ''.'')"

lemma length_TrimSuffix: "length (TrimSuffix s suf) \<le> length s"
  by (simp add: TrimSuffix_def)

lemma parentZone_shorter: "zone \<noteq> [] \<Longrightarrow> length (parentZone zone) < length zone"
proof (cases "TrimSuffix zone ''.'' = []")
  case True
  assume "zone \<noteq> []"
  then show ?thesis using True by (simp add: parentZone_def parent_name_def CutFirstLabel_def)
next
  case False
  then have "length (parentZone zone) < length (TrimSuffix zone ''.'')" unfolding parentZone_def by (rule parent_name_shorter)
  also have "\<dots> \<le> length zone" by (rule length_TrimSuffix)
  finally show ?thesis .
qed

text \<open>\<open>files\<close> lists the key files of a zone, \<open>load\<close> reads one.\<close>

function proxy_key_loop ::
  "(string \<Rightarrow> string list) \<Rightarrow> (string \<Rightarrow> key option) \<Rightarrow> string \<Rightarrow> string \<Rightarrow> proxy_key_error + (key \<times> string)"
where
  "proxy_key_loop files load zone candidate =
     (if candidate = [] then Inl (NoProxyKey (zone @ ''.''))
      else case files (candidate @ ''.'') of
        [] \<Rightarrow> proxy_key_loop files load zone (parentZone candidate)
      | [name] \<Rightarrow> (case load name of None \<Rightarrow> Inl (KeyNotLoaded name) | Some k \<Rightarrow> Inr (k, candidate @ ''.''))
      | _ \<Rightarrow> Inl (SeveralKeys candidate))"
  by pat_completeness auto
termination
  by (relation "measure (\<lambda>(_, _, _, c). length c)") (simp_all add: parentZone_shorter)

declare proxy_key_loop.simps [simp del]

definition FindAuthorizedProxyKey ::
  "(string \<Rightarrow> string list) \<Rightarrow> (string \<Rightarrow> key option) \<Rightarrow> string \<Rightarrow> proxy_key_error + (key \<times> string)"
where
  "FindAuthorizedProxyKey files load zoneArg =
     (let zone = Normalize zoneArg in
      if zone = [] then Inl ProxyZoneEmpty else proxy_key_loop files load zone zone)"

subsection \<open>The coordinators of the handlers\<close>

definition from_sum :: "'e + 'a \<Rightarrow> 'a option" where
  "from_sum x = (case x of Inl _ \<Rightarrow> None | Inr a \<Rightarrow> Some a)"

definition coordinator_of :: "network \<Rightarrow> Coordinator \<Rightarrow> (msg \<Rightarrow> msg option) \<Rightarrow> coordinator" where
  "coordinator_of net c sign =
     \<lparr>hasCoordinator = True, hasSigningKey = True,
      ResolveAuthoritativeZone = (\<lambda>z. from_sum (net_ResolveAuthoritativeZone net c z)),
      QueryRRs = (\<lambda>z n t. from_sum (net_QueryRRs net c z n t)),
      NewMsg = newmsg net, SignMessage = sign,
      SendUpdate = (\<lambda>z m. map_option Some (from_sum (net_SendUpdate net c z m)))\<rparr>"

definition srp_coordinator_of :: "network \<Rightarrow> Coordinator \<Rightarrow> (msg \<Rightarrow> msg option) \<Rightarrow> srpCoordinator" where
  "srp_coordinator_of net c sign =
     \<lparr>base = coordinator_of net c sign,
      QueryKeyAtName = (\<lambda>z n. from_sum (net_QueryKeyAtName net c z n)),
      QueryPTRExists = (\<lambda>z n. from_sum (net_QueryPTRExists net c z n))\<rparr>"

subsection \<open>Where an update goes\<close>

text \<open>
  The interface the sender of updates relies on: a positive answer means that the message was
  delivered, whatever delivery is; then so is everything \<open>upstream_send\<close> reports as accepted.
\<close>

locale delivering =
  fixes co :: coordinator and delivered :: "string \<Rightarrow> msg \<Rightarrow> msg \<Rightarrow> bool"
  assumes send_delivered: "SendUpdate co z m = Some (Some resp) \<Longrightarrow> delivered z m resp"
begin

lemma accepted_delivered:
  assumes "upstream_send lib co configured ps rs = (out, Inr resp)"
  shows "\<exists>zone m0 m. ResolveAuthoritativeZone co configured = Some zone \<and> out = [(zone, m)] \<and> delivered zone m resp \<and>
    msg_Rcode resp = RcodeSuccess \<and> NewMsg co zone TypeSOA = Some m0 \<and>
    SignMessage co (m0\<lparr>msg_Opcode := OpcodeUpdate, msg_Answer := msg_Answer m0 @ ps,
      msg_Ns := msg_Ns m0 @ rs, msg_Extra := msg_Extra m0 @ [opt_rr lib]\<rparr>) = Some m"
  using upstream_send_Inr [OF assms] send_delivered by blast

end

definition at_primary :: "network \<Rightarrow> Coordinator \<Rightarrow> string \<Rightarrow> msg \<Rightarrow> msg \<Rightarrow> bool" where
  "at_primary net c z m resp \<longleftrightarrow>
     (\<exists>server authZone nw. ResolveSOAMasterServer net c z = Inr (server, authZone) \<and> IsAtOrBelow z authZone \<and>
        length (msg_Question m) = 1 \<and> Normalize (rr_name (hd (msg_Question m))) = Normalize z \<and>
        nw \<in> {''udp'', ''tcp''} \<and> Exchange net nw server m = Some (Some resp))"

lemma from_sum_Some [simp]: "from_sum x = Some a \<longleftrightarrow> x = Inr a"
  by (cases x) (simp_all add: from_sum_def)

lemma soa_from_Some:
  "soa_from net fqdn req rs = Some soa \<Longrightarrow> \<exists>r \<in> set rs. \<exists>resp. Exchange net ''udp'' r req = Some (Some resp) \<and>
     (msg_Rcode resp = RcodeSuccess \<or> msg_Rcode resp = RcodeNameError) \<and> usable_soa fqdn resp = Some soa"
  by (induction rs) (auto split: option.splits if_splits)

lemma find_found: "find P xs = Some x \<Longrightarrow> x \<in> set xs \<and> P x"
  by (metis find_Some_iff nth_mem)

lemma usable_soa_Some:
  "usable_soa fqdn resp = Some soa \<Longrightarrow> soa \<in> set (msg_Answer resp @ msg_Ns resp) \<and> is_soa soa \<and>
     Normalize (rr_name soa) \<noteq> [] \<and> IsAtOrBelow fqdn (rr_name soa) \<and> Normalize (soa_ns soa) \<noteq> []"
  by (auto simp: usable_soa_def split: option.splits if_splits dest: find_found)

lemma IsAtOrBelow_dot: "IsAtOrBelow (if HasSuffix n ''.'' then n else n @ ''.'') z = IsAtOrBelow n z"
  by (simp add: IsAtOrBelow_def Normalize_snoc_dot Normalize_no_dot)

text \<open>The zone of a name is one a configured resolver named, at or above the name and not the root.\<close>

lemma discoverZone_encloses:
  assumes "discoverZone net c name = Inr soa"
  shows "IsAtOrBelow name (rr_name soa) \<and> Normalize (rr_name soa) \<noteq> [] \<and> is_soa soa \<and>
    (\<exists>r \<in> set (bootstrapResolvers c). \<exists>req resp. Exchange net ''udp'' r req = Some (Some resp) \<and>
      soa \<in> set (msg_Answer resp @ msg_Ns resp))"
proof -
  let ?f = "if HasSuffix name ''.'' then name else name @ ''.''"
  from assms obtain req where s: "soa_from net ?f req (bootstrapResolvers c) = Some soa"
    by (auto simp: discoverZone_def Let_def split: if_splits option.splits)
  from soa_from_Some [OF s] obtain r resp where r: "r \<in> set (bootstrapResolvers c)"
    "Exchange net ''udp'' r req = Some (Some resp)" "usable_soa ?f resp = Some soa" by blast
  have "IsAtOrBelow name (rr_name soa)" using usable_soa_Some [OF r(3)] by (simp only: IsAtOrBelow_dot)
  then show ?thesis using usable_soa_Some [OF r(3)] r(1,2) by blast
qed

lemma zone_encloses:
  "ResolveSOAMasterServer net c z = Inr (server, authZone) \<Longrightarrow> IsAtOrBelow z authZone"
  "net_ResolveAuthoritativeZone net c z = Inr authZone \<Longrightarrow> IsAtOrBelow z authZone"
  using discoverZone_encloses
  by (auto simp: ResolveSOAMasterServer_def net_ResolveAuthoritativeZone_def covers_def split: if_splits sum.splits option.splits)

lemma net_SendUpdate_Inr:
  assumes "net_SendUpdate net c z m = Inr resp"
  shows "at_primary net c z m resp"
proof -
  from assms obtain server authZone where s: "ResolveSOAMasterServer net c z = Inr (server, authZone)"
    "length (msg_Question m) = 1" "Normalize (rr_name (hd (msg_Question m))) = Normalize z"
    "Exchange net ''udp'' server m = Some (Some resp) \<or> Exchange net ''tcp'' server m = Some (Some resp)"
    by (auto simp: net_SendUpdate_def Let_def split: if_splits sum.splits option.splits)
  then show ?thesis using zone_encloses(1) [OF s(1)] by (auto simp: at_primary_def)
qed

interpretation primary: delivering "coordinator_of net c sign" "at_primary net c" for net c sign
  by unfold_locales (auto simp: coordinator_of_def net_SendUpdate_Inr)


subsection \<open>What an answer means\<close>

text \<open>A complete answer of the primary server: over UDP if it was not cut short, over TCP otherwise.\<close>

definition complete_answer :: "network \<Rightarrow> Coordinator \<Rightarrow> string \<Rightarrow> msg \<Rightarrow> msg \<Rightarrow> bool" where
  "complete_answer net c zoneHint req resp \<longleftrightarrow>
     (\<exists>server authZone. ResolveSOAMasterServer net c zoneHint = Inr (server, authZone) \<and> IsAtOrBelow zoneHint authZone \<and>
        (Exchange net ''udp'' server req = Some (Some resp) \<and> \<not> msg_Truncated resp \<or>
         Exchange net ''tcp'' server req = Some (Some resp)))"

lemma queryAuthoritative_Inr:
  "queryAuthoritative net c z req = Inr resp \<Longrightarrow> complete_answer net c z req resp"
  using zone_encloses(1)
  by (fastforce simp: queryAuthoritative_def complete_answer_def Let_def split: sum.splits prod.splits option.splits if_splits)

text \<open>
  C24. What the registrar takes for the absence of a KEY, or of a service pointer, was read from a
  complete answer of the primary server: a response cut short, a failed exchange and an error
  response are never taken for absence, and a present KEY is never missed in such an answer.
\<close>

theorem absence_from_complete_answer:
  "(QueryKeyAtName (srp_coordinator_of net c sign) z n = Some (st, ks) \<longrightarrow>
     (\<exists>req resp. newmsg net n TypeKEY = Some req \<and> complete_answer net c z req resp \<and>
       (if st = AuthNXDomain then msg_Rcode resp = RcodeNameError
        else msg_Rcode resp = RcodeSuccess \<and> ks = List.map_filter as_key (msg_Answer resp) \<and> (st = AuthNoKey \<longleftrightarrow> ks = [])))) \<and>
   (QueryPTRExists (srp_coordinator_of net c sign) z n = Some False \<longrightarrow>
     (\<exists>req resp. newmsg net n TypePTR = Some req \<and> complete_answer net c z req resp \<and>
       (msg_Rcode resp = RcodeNameError \<or> msg_Rcode resp = RcodeSuccess \<and> \<not> list_ex is_ptr_rr (msg_Answer resp))))"
proof (intro conjI impI)
  assume "QueryKeyAtName (srp_coordinator_of net c sign) z n = Some (st, ks)"
  then have q: "net_QueryKeyAtName net c z n = Inr (st, ks)" by (simp add: srp_coordinator_of_def)
  then obtain req resp where r: "newmsg net n TypeKEY = Some req" "queryAuthoritative net c z req = Inr resp"
    by (auto simp: net_QueryKeyAtName_def split: option.splits sum.splits)
  have "if st = AuthNXDomain then msg_Rcode resp = RcodeNameError
      else msg_Rcode resp = RcodeSuccess \<and> ks = List.map_filter as_key (msg_Answer resp) \<and> (st = AuthNoKey \<longleftrightarrow> ks = [])"
    using q r by (auto simp: net_QueryKeyAtName_def Let_def dns_consts split: if_splits)
  then show "\<exists>req resp. newmsg net n TypeKEY = Some req \<and> complete_answer net c z req resp \<and>
       (if st = AuthNXDomain then msg_Rcode resp = RcodeNameError
        else msg_Rcode resp = RcodeSuccess \<and> ks = List.map_filter as_key (msg_Answer resp) \<and> (st = AuthNoKey \<longleftrightarrow> ks = []))"
    using r queryAuthoritative_Inr by blast
next
  assume "QueryPTRExists (srp_coordinator_of net c sign) z n = Some False"
  then have q: "net_QueryPTRExists net c z n = Inr False" by (simp add: srp_coordinator_of_def)
  then obtain req resp where r: "newmsg net n TypePTR = Some req" "queryAuthoritative net c z req = Inr resp"
    by (auto simp: net_QueryPTRExists_def split: option.splits sum.splits)
  then show "\<exists>req resp. newmsg net n TypePTR = Some req \<and> complete_answer net c z req resp \<and>
       (msg_Rcode resp = RcodeNameError \<or> msg_Rcode resp = RcodeSuccess \<and> \<not> list_ex is_ptr_rr (msg_Answer resp))"
    using q queryAuthoritative_Inr [OF r(2)] by (auto simp: net_QueryPTRExists_def split: if_splits)
qed

subsection \<open>The key the proxy signs with\<close>

lemma cut_at_rest: "cut_at c s = (a, b, ok) \<Longrightarrow> \<exists>q. s = q @ b"
proof (induction s arbitrary: a)
  case (Cons x s)
  then show ?case by (auto split: if_splits prod.splits)
qed simp

lemma parentZone_above:
  assumes "\<not> HasSuffix z ''.''" "parentZone z \<noteq> []"
  shows "IsAtOrBelow z (parentZone z) \<and> \<not> HasSuffix (parentZone z) ''.''"
proof -
  have p: "parentZone z = parent_name z" using assms(1) by (simp add: parentZone_def TrimSuffix_id)
  obtain a b ok where c: "cut_at (CHR ''.'') z = (a, b, ok)" by (cases "cut_at (CHR ''.'') z") auto
  then have b: "parent_name z = b" by (simp add: parent_name_def CutFirstLabel_def)
  have "\<exists>q. z = q @ b" by (rule cut_at_rest [OF c])
  then have "\<not> HasSuffix b ''.''" using assms(1) by (auto simp: HasSuffix_iff)
  then show ?thesis using IsAtOrBelow_parent [of z] assms(2) by (simp add: p b)
qed

text \<open>The key found belongs to the closest zone at or above the asked one that has a key file, and that zone has one only.\<close>

lemma proxy_key_loop_Inr:
  assumes "proxy_key_loop files load zone cand = Inr (k, z)" and "\<not> HasSuffix cand ''.''"
  shows "\<exists>c. z = c @ ''.'' \<and> IsAtOrBelow cand c \<and> (\<exists>name. files z = [name] \<and> load name = Some k)"
  using assms
proof (induction files load zone cand rule: proxy_key_loop.induct)
  case (1 files load zone cand)
  then show ?case
  proof (cases "files (cand @ ''.'')")
    case Nil
    then have r: "cand \<noteq> []" "proxy_key_loop files load zone (parentZone cand) = Inr (k, z)"
      using "1.prems" by (auto simp: proxy_key_loop.simps [of files load zone cand] split: if_splits)
    then have p: "parentZone cand \<noteq> []" by (auto simp: proxy_key_loop.simps [of files load zone "[]"])
    show ?thesis using "1.IH" [OF r(1) Nil r(2)] parentZone_above [OF "1.prems"(2) p] IsAtOrBelow_trans by blast
  next
    case (Cons n ns)
    then show ?thesis
      using "1.prems" by (cases ns) (auto simp: proxy_key_loop.simps [of files load zone cand] split: if_splits option.splits)
  qed
qed

subsection \<open>Witnesses\<close>

definition sample_net :: network where
  "sample_net = \<lparr>Exchange = (\<lambda>nw server m. if nw = ''udp'' then None else Some (Some empty_msg)),
     newmsg = (\<lambda>n t. Some (empty_msg\<lparr>msg_Question := [\<lparr>rr_name = n, rr_class = ClassINET, rr_ttl = 0, rr_data = Other_data t []\<rparr>]\<rparr>)),
     got_slot = (\<lambda>_. True)\<rparr>"

definition sample_coordinator :: Coordinator where
  "sample_coordinator = NewCoordinator [] (Some \<lparr>su_Zone = ''srp.test'', su_Addr = ''127.0.0.1:53''\<rparr>)"


theorem absence_from_complete_answer_witness:
  "\<exists>req resp. complete_answer sample_net sample_coordinator ''srp.test.'' req resp \<and> msg_Rcode resp = RcodeSuccess \<and>
    List.map_filter as_key (msg_Answer resp) = []"
proof -
  have "QueryKeyAtName (srp_coordinator_of sample_net sample_coordinator Some) ''srp.test.'' ''a.srp.test.'' = Some (AuthNoKey, [])"
    by code_simp
  from absence_from_complete_answer [THEN conjunct1, rule_format, OF this] obtain req resp where
    "complete_answer sample_net sample_coordinator ''srp.test.'' req resp" "msg_Rcode resp = RcodeSuccess"
    "[] = List.map_filter as_key (msg_Answer resp)" by auto
  then show ?thesis by metis
qed

end
