(* ===== verification/Go_Quote.thy ===== *)
theory Go_Quote
  imports Prelude
begin

text \<open>
  UTF-8 and Go's quoted strings, as the snapshot of the lease store uses them (\<open>utf8.DecodeRune\<close>,
  \<open>utf8.AppendRune\<close>, \<open>strconv.Quote\<close> and \<open>strconv.Unquote\<close> of the Go library; \<open>quoteNodeKey\<close> and
  \<open>unquoteNodeKey\<close> of \<open>pkg/lease/state.go\<close>). Which code points above Latin-1 are printable is
  a table of that library: the argument \<open>wide\<close>, any predicate.

  A rune is its code point, a number; \<open>decode_rune\<close> gives none where the library gives the
  replacement character with width 1.
\<close>

subsection \<open>UTF-8\<close>

definition byte :: "char \<Rightarrow> nat" where
  "byte c = of_char c"

definition chr :: "nat \<Rightarrow> char" where
  "chr n = char_of n"

lemma byte_less [simp]: "byte c < 256"
  by (simp add: byte_def)

lemma chr_byte [simp]: "chr (byte c) = c"
  by (simp add: chr_def byte_def)

lemma byte_chr [simp]: "n < 256 \<Longrightarrow> byte (chr n) = n"
  by (simp add: chr_def byte_def)

lemma byte_inject [simp]: "byte a = byte b \<longleftrightarrow> a = b"
  by (metis chr_byte)

definition within :: "nat \<Rightarrow> nat \<Rightarrow> char \<Rightarrow> bool" where
  "within lo hi c \<longleftrightarrow> lo \<le> byte c \<and> byte c \<le> hi"

definition decode_rune :: "string \<Rightarrow> (nat \<times> nat) option" where
  "decode_rune s =
     (case s of
        [] \<Rightarrow> None
      | c # rest \<Rightarrow>
          let x = byte c in
          if x < 0x80 then Some (x, 1)
          else if 0xC2 \<le> x \<and> x \<le> 0xDF then
            (case rest of
               c1 # _ \<Rightarrow> if within 0x80 0xBF c1 then Some ((x - 0xC0) * 64 + (byte c1 - 0x80), 2) else None
             | _ \<Rightarrow> None)
          else if 0xE0 \<le> x \<and> x \<le> 0xEF then
            (case rest of
               c1 # c2 # _ \<Rightarrow>
                 if within (if x = 0xE0 then 0xA0 else 0x80) (if x = 0xED then 0x9F else 0xBF) c1 \<and> within 0x80 0xBF c2
                 then Some ((x - 0xE0) * 4096 + (byte c1 - 0x80) * 64 + (byte c2 - 0x80), 3) else None
             | _ \<Rightarrow> None)
          else if 0xF0 \<le> x \<and> x \<le> 0xF4 then
            (case rest of
               c1 # c2 # c3 # _ \<Rightarrow>
                 if within (if x = 0xF0 then 0x90 else 0x80) (if x = 0xF4 then 0x8F else 0xBF) c1 \<and> within 0x80 0xBF c2 \<and>
                    within 0x80 0xBF c3
                 then Some ((x - 0xF0) * 262144 + (byte c1 - 0x80) * 4096 + (byte c2 - 0x80) * 64 + (byte c3 - 0x80), 4)
                 else None
             | _ \<Rightarrow> None)
          else None)"

definition ValidRune :: "nat \<Rightarrow> bool" where
  "ValidRune r \<longleftrightarrow> r < 0xD800 \<or> 0xDFFF < r \<and> r \<le> 0x10FFFF"

definition AppendRune :: "nat \<Rightarrow> string" where
  "AppendRune r0 =
     (let r = (if ValidRune r0 then r0 else 0xFFFD) in
      if r < 0x80 then [chr r]
      else if r < 0x800 then [chr (0xC0 + r div 64), chr (0x80 + r mod 64)]
      else if r < 0x10000 then [chr (0xE0 + r div 4096), chr (0x80 + r div 64 mod 64), chr (0x80 + r mod 64)]
      else [chr (0xF0 + r div 262144), chr (0x80 + r div 4096 mod 64), chr (0x80 + r div 64 mod 64), chr (0x80 + r mod 64)])"

lemma digits64:
  assumes "(b::nat) < 64"
  shows "(a * 64 + b) div 64 = a" "(a * 64 + b) mod 64 = b"
  using assms by simp_all

lemma decode_two:
  assumes "2 \<le> a" "a < 32" "(b::nat) < 64" "r = a * 64 + b"
  shows "AppendRune r = [chr (0xC0 + a), chr (0x80 + b)] \<and> ValidRune r"
proof -
  have "0x80 \<le> r" "r < 0x800" "r div 64 = a" "r mod 64 = b" using assms by simp_all
  then show ?thesis by (simp add: AppendRune_def ValidRune_def Let_def)
qed

lemma div_steps: "(r::nat) div 4096 = r div 64 div 64" "r div 262144 = r div 4096 div 64"
  by (simp_all add: div_mult2_eq [symmetric])

lemma decode_three:
  assumes "a < 16" "(b::nat) < 64" "c < 64" "r = a * 4096 + b * 64 + c" "a = 0 \<Longrightarrow> 32 \<le> b" "a = 13 \<Longrightarrow> b < 32"
  shows "AppendRune r = [chr (0xE0 + a), chr (0x80 + b), chr (0x80 + c)] \<and> ValidRune r"
proof -
  have r: "r = (a * 64 + b) * 64 + c" using assms(4) by simp
  have 1: "r div 64 = a * 64 + b" "r mod 64 = c" unfolding r by (rule digits64 [OF assms(3)])+
  then have 2: "r div 4096 = a" "r div 64 mod 64 = b" using digits64 [OF assms(2)] by (simp_all add: div_steps)
  have "0x800 \<le> r" using assms(4,5) by (cases "a = 0") simp_all
  moreover have "r < 0x10000" using assms(1-4) by simp
  moreover have "ValidRune r"
  proof -
    consider "a < 13" | "a = 13" | "13 < a" by linarith
    then show ?thesis using assms(1-4,6) by cases (auto simp: ValidRune_def)
  qed
  ultimately show ?thesis using 1 2 by (simp add: AppendRune_def Let_def)
qed

lemma decode_four:
  assumes "a < 5" "(b::nat) < 64" "c < 64" "d < 64" "r = a * 262144 + b * 4096 + c * 64 + d" "a = 0 \<Longrightarrow> 16 \<le> b" "a = 4 \<Longrightarrow> b < 16"
  shows "AppendRune r = [chr (0xF0 + a), chr (0x80 + b), chr (0x80 + c), chr (0x80 + d)] \<and> ValidRune r"
proof -
  have r: "r = ((a * 64 + b) * 64 + c) * 64 + d" using assms(5) by simp
  have 1: "r div 64 = (a * 64 + b) * 64 + c" "r mod 64 = d" unfolding r by (rule digits64 [OF assms(4)])+
  have 2: "r div 4096 = a * 64 + b" "r div 64 mod 64 = c" unfolding div_steps 1 by (rule digits64 [OF assms(3)])+
  have 3: "r div 262144 = a" "r div 4096 mod 64 = b" unfolding div_steps(2) 2 by (rule digits64 [OF assms(2)])+
  have "0x10000 \<le> r" using assms(5,6) by (cases "a = 0") simp_all
  moreover have "ValidRune r"
  proof -
    consider "a < 4" | "a = 4" using assms(1) by linarith
    then have "r \<le> 0x10FFFF" using assms(2-5,7) by cases auto
    with calculation show ?thesis by (simp add: ValidRune_def)
  qed
  ultimately show ?thesis using 1 2 3 by (simp add: AppendRune_def Let_def)
qed

lemma byte_offset: "n \<le> byte c \<Longrightarrow> chr (n + (byte c - n)) = c"
  by simp

lemma AppendRune_decode:
  assumes "decode_rune s = Some (r, w)"
  shows "AppendRune r = take w s" "0 < w" "w \<le> length s" "decode_rune (take w s @ t) = Some (r, w)" "w = 1 \<longleftrightarrow> r < 0x80" "ValidRune r"
proof -
  from assms obtain c rest where s: "s = c # rest" by (auto simp: decode_rune_def split: list.splits)
  consider (one) "byte c < 0x80" "r = byte c" "w = 1"
    | (two) c1 t1 where "rest = c1 # t1" "0xC2 \<le> byte c" "byte c \<le> 0xDF" "within 0x80 0xBF c1" "w = 2"
      "r = (byte c - 0xC0) * 64 + (byte c1 - 0x80)"
    | (three) c1 c2 t1 where "rest = c1 # c2 # t1" "0xE0 \<le> byte c" "byte c \<le> 0xEF" "w = 3"
      "within (if byte c = 0xE0 then 0xA0 else 0x80) (if byte c = 0xED then 0x9F else 0xBF) c1" "within 0x80 0xBF c2"
      "r = (byte c - 0xE0) * 4096 + (byte c1 - 0x80) * 64 + (byte c2 - 0x80)"
    | (four) c1 c2 c3 t1 where "rest = c1 # c2 # c3 # t1" "0xF0 \<le> byte c" "byte c \<le> 0xF4" "w = 4"
      "within (if byte c = 0xF0 then 0x90 else 0x80) (if byte c = 0xF4 then 0x8F else 0xBF) c1" "within 0x80 0xBF c2" "within 0x80 0xBF c3"
      "r = (byte c - 0xF0) * 262144 + (byte c1 - 0x80) * 4096 + (byte c2 - 0x80) * 64 + (byte c3 - 0x80)"
    using assms unfolding s decode_rune_def
    by (auto simp: Let_def split: if_splits list.splits)
  then have "AppendRune r = take w s \<and> 0 < w \<and> w \<le> length s \<and> decode_rune (take w s @ t) = Some (r, w) \<and> (w = 1 \<longleftrightarrow> r < 0x80) \<and> ValidRune r"
  proof cases
    case one
    then show ?thesis by (simp add: s AppendRune_def ValidRune_def Let_def decode_rune_def)
  next
    case two
    have "AppendRune r = [chr (0xC0 + (byte c - 0xC0)), chr (0x80 + (byte c1 - 0x80))] \<and> ValidRune r"
      by (rule decode_two) (use two in \<open>auto simp: within_def\<close>)
    with two show ?thesis by (auto simp: s within_def decode_rune_def Let_def)
  next
    case three
    have "AppendRune r = [chr (0xE0 + (byte c - 0xE0)), chr (0x80 + (byte c1 - 0x80)), chr (0x80 + (byte c2 - 0x80))] \<and> ValidRune r"
      by (rule decode_three) (use three in \<open>auto simp: within_def split: if_splits\<close>)
    with three show ?thesis by (auto simp: s within_def decode_rune_def Let_def split: if_splits)
  next
    case four
    have "AppendRune r = [chr (0xF0 + (byte c - 0xF0)), chr (0x80 + (byte c1 - 0x80)), chr (0x80 + (byte c2 - 0x80)), chr (0x80 + (byte c3 - 0x80))] \<and> ValidRune r"
      by (rule decode_four) (use four in \<open>auto simp: within_def split: if_splits\<close>)
    with four show ?thesis by (auto simp: s within_def decode_rune_def Let_def split: if_splits)
  qed
  then show "AppendRune r = take w s" "0 < w" "w \<le> length s" "decode_rune (take w s @ t) = Some (r, w)" "w = 1 \<longleftrightarrow> r < 0x80" "ValidRune r" by blast+
qed

function ValidString :: "string \<Rightarrow> bool" where
  "ValidString s =
     (if s = [] then True
      else case decode_rune s of None \<Rightarrow> False | Some (r, w) \<Rightarrow> ValidString (drop w s))"
  by pat_completeness auto
termination
  by (relation "measure length") (auto dest: AppendRune_decode(2))

declare ValidString.simps [simp del]

lemma ValidString_append_rune: "decode_rune s = Some (r, w) \<Longrightarrow> ValidString (take w s @ t) = ValidString t"
  using AppendRune_decode(2,3) [of s r w] AppendRune_decode(4) [of s r w t]
  by (subst ValidString.simps) (auto split: prod.splits)

lemma ValidString_ascii: "list_all (\<lambda>c. byte c < 0x80) s \<Longrightarrow> ValidString (s @ t) = ValidString t"
proof (induction s)
  case (Cons c s)
  then have "decode_rune [c] = Some (byte c, 1)" by (simp add: decode_rune_def Let_def)
  from ValidString_append_rune [OF this, of "s @ t"] Cons show ?case by simp
qed simp

subsection \<open>Quote\<close>

text \<open>\<open>strconv.IsPrint\<close>.\<close>

definition IsPrint :: "(nat \<Rightarrow> bool) \<Rightarrow> nat \<Rightarrow> bool" where
  "IsPrint wide r \<longleftrightarrow>
     (if r \<le> 0xFF then 0x20 \<le> r \<and> r < 0x7F \<or> 0xA1 \<le> r \<and> r \<noteq> 0xAD else wide r)"

definition hexdigit :: "nat \<Rightarrow> char" where
  "hexdigit n = chr (if n < 10 then 48 + n else 87 + n)"

fun hex_of :: "nat \<Rightarrow> nat \<Rightarrow> string" where
  "hex_of 0 n = []"
| "hex_of (Suc k) n = hex_of k (n div 16) @ [hexdigit (n mod 16)]"

abbreviation (input) bs :: char where "bs \<equiv> CHR 0x5C"
abbreviation (input) dq :: char where "dq \<equiv> CHR 0x22"

definition escapes :: "(nat \<times> char) list" where
  "escapes = [(7, CHR ''a''), (8, CHR ''b''), (12, CHR ''f''), (10, CHR ''n''), (13, CHR ''r''), (9, CHR ''t''), (11, CHR ''v'')]"

definition appendEscapedRune :: "(nat \<Rightarrow> bool) \<Rightarrow> nat \<Rightarrow> string" where
  "appendEscapedRune wide r =
     (if r = byte dq \<or> r = byte bs then [bs, chr r]
      else if IsPrint wide r then AppendRune r
      else case map_of escapes r of
        Some c \<Rightarrow> [bs, c]
      | None \<Rightarrow>
          if r < 0x20 \<or> r = 0x7F then [bs, CHR ''x''] @ hex_of 2 r
          else let r' = (if ValidRune r then r else 0xFFFD) in
            if r' < 0x10000 then [bs, CHR ''u''] @ hex_of 4 r' else [bs, CHR ''U''] @ hex_of 8 r')"

function quote_body :: "(nat \<Rightarrow> bool) \<Rightarrow> string \<Rightarrow> string" where
  "quote_body wide s =
     (if s = [] then []
      else case decode_rune s of
        None \<Rightarrow> [bs, CHR ''x''] @ hex_of 2 (byte (hd s)) @ quote_body wide (tl s)
      | Some (r, w) \<Rightarrow> appendEscapedRune wide r @ quote_body wide (drop w s))"
  by pat_completeness auto
termination
  by (relation "measure (\<lambda>(_, s). length s)") (auto dest: AppendRune_decode(2))

declare quote_body.simps [simp del]

definition Quote :: "(nat \<Rightarrow> bool) \<Rightarrow> string \<Rightarrow> string" where
  "Quote wide s = [dq] @ quote_body wide s @ [dq]"

subsection \<open>Unquote\<close>

definition unhex :: "char \<Rightarrow> nat option" where
  "unhex c =
     (let n = byte c in
      if 48 \<le> n \<and> n \<le> 57 then Some (n - 48)
      else if 97 \<le> n \<and> n \<le> 102 then Some (n - 87)
      else if 65 \<le> n \<and> n \<le> 70 then Some (n - 55)
      else None)"

fun read_hex :: "nat \<Rightarrow> nat \<Rightarrow> string \<Rightarrow> (nat \<times> string) option" where
  "read_hex 0 v s = Some (v, s)"
| "read_hex (Suc k) v [] = None"
| "read_hex (Suc k) v (c # s) = (case unhex c of None \<Rightarrow> None | Some x \<Rightarrow> read_hex k (v * 16 + x) s)"

fun read_octal :: "nat \<Rightarrow> nat \<Rightarrow> string \<Rightarrow> (nat \<times> string) option" where
  "read_octal 0 v s = Some (v, s)"
| "read_octal (Suc k) v [] = None"
| "read_octal (Suc k) v (c # s) = (if 48 \<le> byte c \<and> byte c \<le> 55 then read_octal k (v * 8 + (byte c - 48)) s else None)"

definition escape_value :: "char \<Rightarrow> nat option" where
  "escape_value c = map_option fst (find (\<lambda>e. snd e = c) escapes)"

text \<open>\<open>strconv.UnquoteChar\<close> for the double quote: the rune, whether it is to be encoded, and what is left.\<close>

definition UnquoteChar :: "string \<Rightarrow> (nat \<times> bool \<times> string) option" where
  "UnquoteChar s =
     (case s of
        [] \<Rightarrow> None
      | c # rest \<Rightarrow>
          if c = dq then None
          else if 0x80 \<le> byte c then
            (case decode_rune s of Some (r, w) \<Rightarrow> Some (r, True, drop w s) | None \<Rightarrow> Some (0xFFFD, True, rest))
          else if c \<noteq> bs then Some (byte c, False, rest)
          else case rest of
            [] \<Rightarrow> None
          | e # t \<Rightarrow>
              (case escape_value e of
                 Some v \<Rightarrow> Some (v, False, t)
               | None \<Rightarrow>
                   if e = CHR ''x'' then map_option (\<lambda>(v, u). (v, False, u)) (read_hex 2 0 t)
                   else if e = CHR ''u'' \<or> e = CHR ''U'' then
                     (case read_hex (if e = CHR ''u'' then 4 else 8) 0 t of
                        None \<Rightarrow> None
                      | Some (v, u) \<Rightarrow> if ValidRune v then Some (v, True, u) else None)
                   else if 48 \<le> byte e \<and> byte e \<le> 55 then
                     (case read_octal 2 (byte e - 48) t of
                        None \<Rightarrow> None
                      | Some (v, u) \<Rightarrow> if 255 < v then None else Some (v, False, u))
                   else if e = bs \<or> e = dq then Some (byte e, False, t)
                   else None))"

lemma read_hex_shorter: "read_hex k v s = Some (x, t) \<Longrightarrow> length t \<le> length s"
  by (induction k v s rule: read_hex.induct) (auto split: option.splits)

lemma read_octal_shorter: "read_octal k v s = Some (x, t) \<Longrightarrow> length t \<le> length s"
  by (induction k v s rule: read_octal.induct) (auto split: if_splits)

lemma UnquoteChar_shorter:
  assumes "UnquoteChar s = Some (r, m, t)"
  shows "length t < length s"
proof (cases s)
  case Nil
  then show ?thesis using assms by (simp add: UnquoteChar_def)
next
  case (Cons c rest)
  have "length (drop w (c # rest)) < length (c # rest)" if "decode_rune (c # rest) = Some (x, w)" for x w
    using AppendRune_decode(2) [OF that] by simp
  then show ?thesis using assms Cons
    by (auto simp: UnquoteChar_def dest!: read_hex_shorter read_octal_shorter split: if_splits option.splits list.splits)
qed

text \<open>The loop over the characters up to a quote; the value with what is left from that quote on.\<close>

function unquote_loop :: "string \<Rightarrow> (string \<times> string) option" where
  "unquote_loop s =
     (if s = [] \<or> hd s = dq then Some ([], s)
      else case UnquoteChar s of
        None \<Rightarrow> None
      | Some (r, multibyte, rest) \<Rightarrow>
          if hd s = CHR 0x0A then None
          else (case unquote_loop rest of
              None \<Rightarrow> None
            | Some (out, rest') \<Rightarrow> Some ((if r < 0x80 \<or> \<not> multibyte then [chr r] else AppendRune r) @ out, rest')))"
  by pat_completeness auto
termination
  by (relation "measure length") (auto dest: UnquoteChar_shorter)

declare unquote_loop.simps [simp del]

text \<open>\<open>strconv.Unquote\<close> of a string that begins with a double quote.\<close>

definition Unquote :: "string \<Rightarrow> string option" where
  "Unquote s =
     (if length s < 2 \<or> dq \<notin> set (tl s) then None
      else
        let front = takeWhile (\<lambda>c. c \<noteq> dq) (tl s);
            rest = drop (length front + 2) s in
        if bs \<notin> set front \<and> CHR 0x0A \<notin> set front \<and> ValidString front
        then (if rest = [] then Some front else None)
        else case unquote_loop (tl s) of
          Some (out, [q]) \<Rightarrow> if q = dq then Some out else None
        | _ \<Rightarrow> None)"

definition quoteNodeKey :: "(nat \<Rightarrow> bool) \<Rightarrow> string \<Rightarrow> string" where
  "quoteNodeKey wide key = butlast (tl (Quote wide key))"

definition unquoteNodeKey :: "string \<Rightarrow> string option" where
  "unquoteNodeKey s = Unquote ([dq] @ s @ [dq])"

subsection \<open>The round trip\<close>

lemma quoteNodeKey_body: "quoteNodeKey wide key = quote_body wide key"
  by (simp add: quoteNodeKey_def Quote_def)

lemma unhex_hexdigit [simp]: "n < 16 \<Longrightarrow> unhex (hexdigit n) = Some n"
  by (simp add: unhex_def hexdigit_def Let_def)

lemma length_hex_of [simp]: "length (hex_of k n) = k"
  by (induction k n rule: hex_of.induct) auto

lemma read_hex_of: "n < 16 ^ k \<Longrightarrow> read_hex k v (hex_of k n @ t) = Some (v * 16 ^ k + n, t)"
proof (induction k arbitrary: n t)
  case (Suc k)
  have n: "n div 16 < 16 ^ k" using Suc.prems by (simp add: less_mult_imp_div_less mult.commute)
  have gen: "read_hex (j + 1) v (s @ c # t) = (case read_hex j v s of None \<Rightarrow> None | Some (x, _) \<Rightarrow> (case unhex c of None \<Rightarrow> None | Some y \<Rightarrow> Some (x * 16 + y, t)))"
    if "length s = j" for j s c and v t using that
    by (induction j v s rule: read_hex.induct) (auto split: option.splits)
  have "read_hex (Suc k) v (hex_of (Suc k) n @ t) = Some ((v * 16 ^ k + n div 16) * 16 + n mod 16, t)"
    using gen [of "hex_of k (n div 16)" k v "hexdigit (n mod 16)" t] Suc.IH [OF n, of "[]"] by simp
  also have "(v * 16 ^ k + n div 16) * 16 + n mod 16 = v * 16 ^ Suc k + n" by (simp add: algebra_simps)
  finally show ?case .
qed simp

lemma decode_first: "decode_rune s = Some (r, w) \<Longrightarrow> byte (hd s) < 0x80 \<longleftrightarrow> r < 0x80"
  using AppendRune_decode(5) [of s r w] by (auto simp: decode_rune_def Let_def split: list.splits if_splits)

lemma UnquoteChar_wide:
  assumes "decode_rune s = Some (r, w)" "0x80 \<le> r"
  shows "UnquoteChar (take w s @ t) = Some (r, True, t)" "hd (take w s @ t) \<noteq> dq" "hd (take w s @ t) \<noteq> CHR 0x0A"
proof -
  note d = AppendRune_decode(2,3) [OF assms(1)] AppendRune_decode(4) [OF assms(1), of t]
  obtain c u where cu: "take w s = c # u" using d(1,2) by (cases "take w s") auto
  have "byte c = byte (hd s)" using cu d(1) by (metis hd_take list.sel(1))
  then have c: "0x80 \<le> byte c" using decode_first [OF assms(1)] assms(2) by simp
  then have ne: "c \<noteq> dq" "c \<noteq> bs" "c \<noteq> CHR 0x0A" by (auto simp: byte_def)
  have "length (c # u) = w" using d(2) cu by (metis length_take min.absorb2)
  then have "drop w (c # u @ t) = t" by auto
  then show "UnquoteChar (take w s @ t) = Some (r, True, t)" using c ne d(3) by (simp add: UnquoteChar_def cu)
  show "hd (take w s @ t) \<noteq> dq" "hd (take w s @ t) \<noteq> CHR 0x0A" using ne cu by simp_all
qed

lemma UnquoteChar_hex:
  "r < 256 \<Longrightarrow> UnquoteChar ([bs, CHR ''x''] @ hex_of 2 r @ t) = Some (r, False, t)"
  "ValidRune r \<Longrightarrow> r < 0x10000 \<Longrightarrow> UnquoteChar ([bs, CHR ''u''] @ hex_of 4 r @ t) = Some (r, True, t)"
  "ValidRune r \<Longrightarrow> UnquoteChar ([bs, CHR ''U''] @ hex_of 8 r @ t) = Some (r, True, t)"
  using read_hex_of [of r 2 0 t] read_hex_of [of r 4 0 t] read_hex_of [of r 8 0 t]
  by (auto simp: UnquoteChar_def escape_value_def escapes_def byte_def ValidRune_def)

lemma UnquoteChar_escape:
  assumes "map_of escapes r = Some c"
  shows "UnquoteChar ([bs, c] @ t) = Some (r, False, t)" "r < 0x80"
  using assms by (auto simp: UnquoteChar_def escapes_def escape_value_def byte_def split: if_splits)

lemma chr_eq: "r < 256 \<Longrightarrow> chr r = c \<longleftrightarrow> r = byte c"
  by auto

lemma UnquoteChar_plain:
  assumes "r < 0x80" "r \<noteq> byte dq" "r \<noteq> byte bs"
  shows "UnquoteChar (chr r # t) = Some (r, False, t)"
proof -
  have "chr r \<noteq> dq" "chr r \<noteq> bs" "byte (chr r) = r" using assms by (simp_all add: chr_eq)
  then show ?thesis using assms(1) by (simp add: UnquoteChar_def)
qed

lemma UnquoteChar_backslashed:
  assumes "r = byte dq \<or> r = byte bs"
  shows "UnquoteChar (bs # chr r # t) = Some (r, False, t)"
proof -
  have "UnquoteChar (bs # dq # t) = Some (byte dq, False, t)" "UnquoteChar (bs # bs # t) = Some (byte bs, False, t)"
    by (simp_all add: UnquoteChar_def escape_value_def escapes_def byte_def)
  then show ?thesis using assms by auto
qed

lemma UnquoteChar_rune:
  assumes d: "decode_rune s = Some (r, w)"
  shows "\<exists>m. UnquoteChar (appendEscapedRune wide r @ t) = Some (r, m, t) \<and>
    (if r < 0x80 \<or> \<not> m then [chr r] else AppendRune r) = take w s \<and>
    (\<exists>c u. appendEscapedRune wide r = c # u \<and> c \<noteq> dq \<and> c \<noteq> CHR 0x0A)"
proof -
  note a = AppendRune_decode(1,2,3) [OF d] AppendRune_decode(5) [OF d] AppendRune_decode(6) [OF d]
  have small: "r < 0x80 \<Longrightarrow> take w s = [chr r]" using a(1) by (simp add: AppendRune_def ValidRune_def Let_def)
  consider (quoted) "r = byte dq \<or> r = byte bs"
    | (print) "r \<noteq> byte dq" "r \<noteq> byte bs" "IsPrint wide r"
    | (short) c where "r \<noteq> byte dq" "r \<noteq> byte bs" "\<not> IsPrint wide r" "map_of escapes r = Some c"
    | (hex) "r \<noteq> byte dq" "r \<noteq> byte bs" "\<not> IsPrint wide r" "map_of escapes r = None" by (cases "map_of escapes r") auto
  then show ?thesis
  proof cases
    case quoted
    then have "r < 0x80" by (auto simp: byte_def)
    then show ?thesis using quoted small UnquoteChar_backslashed [OF quoted, of t] by (auto simp: appendEscapedRune_def)
  next
    case print
    show ?thesis
    proof (cases "r < 0x80")
      case True
      then have "AppendRune r = [chr r]" by (simp add: AppendRune_def ValidRune_def Let_def)
      moreover have "chr r \<noteq> dq" using print(1) True by (simp add: chr_eq)
      moreover have "chr r \<noteq> CHR 0x0A"
        using print(3) True byte_chr [of r] by (auto simp: IsPrint_def byte_def split: if_splits)
      ultimately show ?thesis using True print small UnquoteChar_plain [OF True print(1,2), of t]
        by (intro exI [of _ False]) (simp add: appendEscapedRune_def)
    next
      case False
      have "take w s \<noteq> []" using a(2,3) by (cases s) auto
      then obtain c u where "take w s = c # u" by (cases "take w s") auto
      moreover have "appendEscapedRune wide r = take w s" using print a(1) by (simp add: appendEscapedRune_def)
      ultimately show ?thesis using False a(1) UnquoteChar_wide [OF d, of t] by auto
    qed
  next
    case short
    then show ?thesis using UnquoteChar_escape(1) [OF short(4), of t] UnquoteChar_escape(2) [OF short(4)] small by (auto simp: appendEscapedRune_def)
  next
    case hex
    show ?thesis
    proof (cases "r < 0x20 \<or> r = 0x7F")
      case True
      then have "r < 0x80" "r < 256" by auto
      then show ?thesis using True hex small UnquoteChar_hex(1) [of r t] by (auto simp: appendEscapedRune_def)
    next
      case False
      then have big: "0x80 \<le> r" using hex(3) by (auto simp: IsPrint_def split: if_splits)
      then show ?thesis using False hex a(1,5) UnquoteChar_hex(2,3) [of r t]
        by (cases "r < 0x10000") (auto simp: appendEscapedRune_def Let_def)
    qed
  qed
qed

lemma unquote_loop_quote: "unquote_loop (quote_body wide s @ dq # rest) = Some (s, dq # rest)"
proof (induction wide s rule: quote_body.induct)
  case (1 wide s)
  show ?case
  proof (cases "s = []")
    case True
    then show ?thesis by (simp add: quote_body.simps unquote_loop.simps)
  next
    case False
    show ?thesis
    proof (cases "decode_rune s")
      case None
      obtain c u where s: "s = c # u" using False by (cases s) auto
      have "quote_body wide s = [bs, CHR ''x''] @ hex_of 2 (byte c) @ quote_body wide u"
        using None s by (subst quote_body.simps) simp
      moreover have "unquote_loop (quote_body wide u @ dq # rest) = Some (u, dq # rest)"
        using "1.IH"(1) [OF False None] s by simp
      ultimately show ?thesis using s UnquoteChar_hex(1) [of "byte c" "quote_body wide u @ dq # rest"]
        by (subst unquote_loop.simps) simp
    next
      case (Some rw)
      obtain r w where rw: "rw = (r, w)" by (cases rw)
      have q: "quote_body wide s = appendEscapedRune wide r @ quote_body wide (drop w s)"
        using False Some rw by (subst quote_body.simps) simp
      have IH: "unquote_loop (quote_body wide (drop w s) @ dq # rest) = Some (drop w s, dq # rest)"
        using "1.IH"(2) [OF False Some] rw by simp
      from UnquoteChar_rune [OF Some [unfolded rw], of wide "quote_body wide (drop w s) @ dq # rest"]
      obtain m c u where "UnquoteChar (appendEscapedRune wide r @ quote_body wide (drop w s) @ dq # rest) =
          Some (r, m, quote_body wide (drop w s) @ dq # rest)"
        "(if r < 0x80 \<or> \<not> m then [chr r] else AppendRune r) = take w s"
        "appendEscapedRune wide r = c # u" "c \<noteq> dq" "c \<noteq> CHR 0x0A" by blast
      then show ?thesis using IH by (subst unquote_loop.simps) (auto simp: q)
    qed
  qed
qed

lemma escaped_cases:
  assumes "decode_rune s = Some (r, w)"
  shows "(appendEscapedRune wide r = take w s \<and> dq \<notin> set (take w s) \<and> bs \<notin> set (take w s)) \<or> (\<exists>u. appendEscapedRune wide r = bs # u)"
proof (cases "IsPrint wide r \<and> r \<noteq> byte dq \<and> r \<noteq> byte bs")
  case True
  then have eq: "appendEscapedRune wide r = take w s" using AppendRune_decode(1) [OF assms] by (simp add: appendEscapedRune_def)
  have "\<forall>c \<in> set (take w s). c \<noteq> dq \<and> c \<noteq> bs"
  proof (cases "r < 0x80")
    case small: True
    then have "take w s = [chr r]" using AppendRune_decode(1) [OF assms] by (simp add: AppendRune_def ValidRune_def Let_def)
    then show ?thesis using True small by (simp add: chr_eq)
  next
    case False
    have "\<forall>c \<in> set (AppendRune r). 0x80 \<le> byte c"
      using AppendRune_decode(6) [OF assms] False by (auto simp: AppendRune_def ValidRune_def Let_def less_mult_imp_div_less)
    then show ?thesis using AppendRune_decode(1) [OF assms] by (force simp: byte_def)
  qed
  then show ?thesis using eq by auto
next
  case False
  then show ?thesis by (auto simp: appendEscapedRune_def Let_def split: option.splits)
qed

text \<open>Either nothing is escaped, or the first backslash comes before every quote.\<close>

lemma quote_body_plain:
  "(quote_body wide s = s \<and> dq \<notin> set s \<and> bs \<notin> set s) \<or> bs \<in> set (takeWhile (\<lambda>c. c \<noteq> dq) (quote_body wide s))"
proof (induction wide s rule: quote_body.induct)
  case (1 wide s)
  show ?case
  proof (cases "s = []")
    case True
    then show ?thesis by (simp add: quote_body.simps)
  next
    case False
    show ?thesis
    proof (cases "decode_rune s")
      case None
      then have "quote_body wide s = bs # CHR ''x'' # hex_of 2 (byte (hd s)) @ quote_body wide (tl s)"
        using False by (subst quote_body.simps) simp
      then show ?thesis by simp
    next
      case (Some rw)
      obtain r w where rw: "rw = (r, w)" by (cases rw)
      have q: "quote_body wide s = appendEscapedRune wide r @ quote_body wide (drop w s)"
        using False Some rw by (subst quote_body.simps) simp
      from escaped_cases [OF Some [unfolded rw], of wide] show ?thesis
      proof
        assume e: "appendEscapedRune wide r = take w s \<and> dq \<notin> set (take w s) \<and> bs \<notin> set (take w s)"
        have s: "s = take w s @ drop w s" by simp
        have tw: "takeWhile (\<lambda>c. c \<noteq> dq) (take w s @ xs) = take w s @ takeWhile (\<lambda>c. c \<noteq> dq) xs" for xs
          using e by (intro takeWhile_append2) auto
        from "1.IH"(2) [OF False Some] rw
        have "(quote_body wide (drop w s) = drop w s \<and> dq \<notin> set (drop w s) \<and> bs \<notin> set (drop w s)) \<or>
            bs \<in> set (takeWhile (\<lambda>c. c \<noteq> dq) (quote_body wide (drop w s)))" by simp
        then show ?thesis using e s q tw by (metis Un_iff set_append)
      qed (auto simp: q)
    qed
  qed
qed

lemma hexdigit_ascii: "n < 16 \<Longrightarrow> byte (hexdigit n) < 0x80"
  by (simp add: hexdigit_def)

lemma hex_of_ascii: "list_all (\<lambda>c. byte c < 0x80) (hex_of k n)"
  by (induction k n rule: hex_of.induct) (auto simp: hexdigit_ascii)

lemma escaped_valid:
  assumes "decode_rune s = Some (r, w)"
  shows "ValidString (appendEscapedRune wide r @ t) = ValidString t"
proof (cases "IsPrint wide r \<and> r \<noteq> byte dq \<and> r \<noteq> byte bs")
  case True
  then have "appendEscapedRune wide r = take w s" using AppendRune_decode(1) [OF assms] by (simp add: appendEscapedRune_def)
  then show ?thesis using ValidString_append_rune [OF assms] by simp
next
  case False
  have "list_all (\<lambda>c. byte c < 0x80) (appendEscapedRune wide r)"
    using False hex_of_ascii by (auto simp: appendEscapedRune_def Let_def escapes_def byte_def chr_def split: option.splits if_splits)
  then show ?thesis by (rule ValidString_ascii)
qed

lemma quote_body_valid: "ValidString (quote_body wide s)"
proof (induction wide s rule: quote_body.induct)
  case (1 wide s)
  show ?case
  proof (cases "s = []")
    case True
    then show ?thesis by (simp add: quote_body.simps ValidString.simps)
  next
    case False
    show ?thesis
    proof (cases "decode_rune s")
      case None
      have "list_all (\<lambda>c. byte c < 0x80) (bs # CHR ''x'' # hex_of 2 (byte (hd s)))" using hex_of_ascii by (simp add: byte_def)
      from ValidString_ascii [OF this, of "quote_body wide (tl s)"] "1.IH"(1) [OF False None] None False
      show ?thesis by (subst quote_body.simps) simp
    next
      case (Some rw)
      obtain r w where rw: "rw = (r, w)" by (cases rw)
      show ?thesis using "1.IH"(2) [OF False Some] False Some rw escaped_valid [of s r w wide "quote_body wide (drop w s)"]
        by (subst quote_body.simps) simp
    qed
  qed
qed

text \<open>
  A node identity survives its trip through the snapshot: what \<open>quoteNodeKey\<close> writes for any byte
  string, valid UTF-8 or not, is valid UTF-8, and \<open>unquoteNodeKey\<close> gives the string back.
\<close>

lemma quoteNodeKey_roundtrip:
  shows unquote_quote: "unquoteNodeKey (quoteNodeKey wide key) = Some key"
    and quote_valid: "ValidString (quoteNodeKey wide key)"
proof -
  let ?q = "quote_body wide key"
  let ?front = "takeWhile (\<lambda>c. c \<noteq> dq) (?q @ [dq])"
  show "ValidString (quoteNodeKey wide key)" by (simp add: quoteNodeKey_body quote_body_valid)
  from quote_body_plain [of wide key] have "Unquote ([dq] @ ?q @ [dq]) = Some key"
  proof
    assume plain: "?q = key \<and> dq \<notin> set key \<and> bs \<notin> set key"
    then have "?front = key" by (simp add: takeWhile_append)
    then show ?thesis using plain unquote_loop_quote [of wide key "[]"] by (auto simp: Unquote_def Let_def)
  next
    assume "bs \<in> set (takeWhile (\<lambda>c. c \<noteq> dq) ?q)"
    moreover have "set (takeWhile (\<lambda>c. c \<noteq> dq) ?q) \<subseteq> set ?front"
      by (auto simp: takeWhile_append dest: set_takeWhileD)
    ultimately show ?thesis using unquote_loop_quote [of wide key "[]"] by (auto simp: Unquote_def Let_def)
  qed
  then show "unquoteNodeKey (quoteNodeKey wide key) = Some key" by (simp add: unquoteNodeKey_def quoteNodeKey_body)
qed

end
