(* ===== verification/Lease_Snapshot.thy ===== *)
theory Lease_Snapshot
  imports Store_Properties Go_Quote
begin

text \<open>
  Persistence of the lease store: \<open>ExportSnapshot\<close>, \<open>ImportSnapshot\<close>, \<open>SaveSnapshot\<close>,
  \<open>LoadSnapshot\<close> and the atomic write of \<open>pkg/lease/state.go\<close>, and the file store of
  \<open>pkg/lease/file_store.go\<close>.

  Packing and unpacking a record is the dns library's (\<open>PackRR\<close>, \<open>UnpackMsg\<close> of \<open>lib\<close>). JSON and
  SHA-256 are a record of functions, \<open>codec\<close>, of which \<open>codec_ok\<close> states what their documentation
  promises: a text of valid UTF-8 survives, and a raw value is read back byte for byte. A file
  system is a map from paths to contents. A JSON time keeps the instant; the zero time is 0.
\<close>

subsection \<open>Snapshots\<close>

record NodeSnapshot =
  sn_NodeKind :: "string + NodeKind"
  sn_NodeID :: string
  sn_ParentKeyName :: string
  sn_RRType :: u16
  sn_UpstreamZone :: string
  sn_LeaseDuration :: u32
  sn_RegisteredAt :: time
  sn_ExpiresAt :: time
  sn_KeyLeaseDuration :: u32
  RRWire :: string
  RRDisplay :: string

record LeaseTreeSnapshot =
  Version :: int
  GeneratedAt :: time
  Nodes :: "NodeSnapshot list"

definition leaseSnapshotVersion :: int where
  "leaseSnapshotVersion = 4"

datatype snapshot_error =
    CannotPack string
  | SnapshotIsNil
  | UnsupportedVersion int
  | InvalidWire
  | NotAKey
  | NoPublicKey
  | InvalidNodeID
  | NodeIDMismatch string string
  | InvalidParent
  | EmptyParent string
  | UnknownKind string
  | CannotMarshal
  | CannotWrite
  | CannotRead
  | NotAPair
  | Edited
  | CannotUnmarshal
  | PathEmpty
  | IntervalNotPositive
  | CannotCreateDirectory
  | CannotStat

definition rrToWire :: "dnslib \<Rightarrow> rr \<Rightarrow> string option" where
  "rrToWire lib r = PackRR lib r"

definition rrFromWire :: "dnslib \<Rightarrow> string \<Rightarrow> rr option" where
  "rrFromWire lib data =
     (case UnpackMsg lib data of
        Some ([], [r], [], []) \<Rightarrow> Some r
      | _ \<Rightarrow> None)"

fun all_rows :: "('a \<Rightarrow> 'e + 'b) \<Rightarrow> 'a list \<Rightarrow> 'e + 'b list" where
  "all_rows f [] = Inr []"
| "all_rows f (x # xs) =
     (case f x of
        Inl e \<Rightarrow> Inl e
      | Inr y \<Rightarrow> (case all_rows f xs of Inl e \<Rightarrow> Inl e | Inr ys \<Rightarrow> Inr (y # ys)))"

definition key_row :: "dnslib \<Rightarrow> (nat \<Rightarrow> bool) \<Rightarrow> string \<times> Record \<Rightarrow> snapshot_error + NodeSnapshot" where
  "key_row lib wide e =
     (case e of (nid, rec) \<Rightarrow>
        (case rrToWire lib (of_key (KeyRR rec)) of
           None \<Rightarrow> Inl (CannotPack nid)
         | Some wire \<Rightarrow>
             Inr \<lparr>sn_NodeKind = Inr NodeKindKEY, sn_NodeID = quoteNodeKey wide nid,
               sn_ParentKeyName = quoteNodeKey wide (ParentKeyName rec), sn_RRType = RRType rec,
               sn_UpstreamZone = UpstreamZone rec, sn_LeaseDuration = LeaseDuration rec,
               sn_RegisteredAt = RegisteredAt rec, sn_ExpiresAt = ExpiresAt rec,
               sn_KeyLeaseDuration = KeyLeaseDuration rec, RRWire = wire, RRDisplay = RRString lib (of_key (KeyRR rec))\<rparr>))"

definition record_row :: "dnslib \<Rightarrow> (nat \<Rightarrow> bool) \<Rightarrow> string \<times> NonKEYRecord \<Rightarrow> snapshot_error + NodeSnapshot" where
  "record_row lib wide e =
     (case e of (nid, rec) \<Rightarrow>
        (case rrToWire lib (RR rec) of
           None \<Rightarrow> Inl (CannotPack nid)
         | Some wire \<Rightarrow>
             Inr \<lparr>sn_NodeKind = Inr NodeKindNonKEY, sn_NodeID = [],
               sn_ParentKeyName = quoteNodeKey wide (ParentKeyName rec), sn_RRType = RRType rec,
               sn_UpstreamZone = nk_UpstreamZone rec, sn_LeaseDuration = LeaseDuration rec,
               sn_RegisteredAt = RegisteredAt rec, sn_ExpiresAt = ExpiresAt rec,
               sn_KeyLeaseDuration = 0, RRWire = wire, RRDisplay = RRString lib (RR rec)\<rparr>))"

text \<open>The entries of a map in the order of their sorted keys.\<close>

definition sorted_entries :: "'v gomap \<Rightarrow> (string \<times> 'v) list" where
  "sorted_entries m = map (\<lambda>k. (k, the (mget m k))) (sort_strings (mkeys m))"

definition ExportSnapshot :: "dnslib \<Rightarrow> (nat \<Rightarrow> bool) \<Rightarrow> time \<Rightarrow> store \<Rightarrow> snapshot_error + LeaseTreeSnapshot" where
  "ExportSnapshot lib wide now s =
     (case all_rows (key_row lib wide) (sorted_entries (leases s)) of
        Inl e \<Rightarrow> Inl e
      | Inr keys \<Rightarrow>
          (case all_rows (record_row lib wide) (sorted_entries (nonKeyRecords s)) of
             Inl e \<Rightarrow> Inl e
           | Inr recs \<Rightarrow> Inr \<lparr>Version = leaseSnapshotVersion, GeneratedAt = now, Nodes = keys @ recs\<rparr>))"

definition import_key :: "dnslib \<Rightarrow> time \<Rightarrow> NodeSnapshot \<Rightarrow> snapshot_error + (string \<times> Record)" where
  "import_key lib now node =
     (case rrFromWire lib (RRWire node) of
        None \<Rightarrow> Inl InvalidWire
      | Some r \<Rightarrow>
          (case as_key r of
             None \<Rightarrow> Inl NotAKey
           | Some keyRR \<Rightarrow>
               if PublicKey keyRR = [] then Inl NoPublicKey
               else
                 let nodeID = NodeKey lib keyRR in
                 (case unquoteNodeKey (sn_NodeID node) of
                    None \<Rightarrow> Inl InvalidNodeID
                  | Some storedID \<Rightarrow>
                      if storedID \<noteq> nodeID then Inl (NodeIDMismatch storedID nodeID)
                      else (case unquoteNodeKey (sn_ParentKeyName node) of
                          None \<Rightarrow> Inl InvalidParent
                        | Some parent \<Rightarrow>
                            let rrType = (if sn_RRType node = 0 then RRToType r else sn_RRType node) in
                            Inr (nodeID, \<lparr>NodeKind = NodeKindKEY, RRType = (if rrType = 0 then TypeKEY else rrType),
                              ExpiresAt = sn_ExpiresAt node, LeaseDuration = sn_LeaseDuration node,
                              RegisteredAt = (if sn_RegisteredAt node = 0 then now else sn_RegisteredAt node),
                              ParentKeyName = parent, KeyName = Normalize (key_name keyRR), KeyRR = keyRR,
                              KeyLeaseDuration = sn_KeyLeaseDuration node, UpstreamZone = Normalize (sn_UpstreamZone node)\<rparr>)))))"

definition import_record :: "dnslib \<Rightarrow> NodeSnapshot \<Rightarrow> snapshot_error + (string \<times> NonKEYRecord)" where
  "import_record lib node =
     (case rrFromWire lib (RRWire node) of
        None \<Rightarrow> Inl InvalidWire
      | Some r \<Rightarrow>
          let nodeID = RecordKey lib r in
          (case unquoteNodeKey (sn_ParentKeyName node) of
             None \<Rightarrow> Inl InvalidParent
           | Some parent \<Rightarrow>
               if parent = [] then Inl (EmptyParent nodeID)
               else Inr (nodeID, \<lparr>NodeKind = NodeKindNonKEY,
                 RRType = (if sn_RRType node = 0 then RRToType r else sn_RRType node),
                 ExpiresAt = sn_ExpiresAt node, LeaseDuration = sn_LeaseDuration node,
                 RegisteredAt = sn_RegisteredAt node, ParentKeyName = parent, RRKey = nodeID, RR = r,
                 nk_UpstreamZone = Normalize (sn_UpstreamZone node)\<rparr>)))"

fun import_nodes ::
  "dnslib \<Rightarrow> time \<Rightarrow> NodeSnapshot list \<Rightarrow> Record gomap \<Rightarrow> NonKEYRecord gomap \<Rightarrow>
   snapshot_error + (Record gomap \<times> NonKEYRecord gomap)"
where
  "import_nodes lib now [] ls rs = Inr (ls, rs)"
| "import_nodes lib now (node # rest) ls rs =
     (case sn_NodeKind node of
        Inr NodeKindKEY \<Rightarrow>
          (case import_key lib now node of
             Inl e \<Rightarrow> Inl e
           | Inr (nid, rec) \<Rightarrow> import_nodes lib now rest (mput nid rec ls) rs)
      | Inr NodeKindNonKEY \<Rightarrow>
          (case import_record lib node of
             Inl e \<Rightarrow> Inl e
           | Inr (nid, rec) \<Rightarrow> import_nodes lib now rest ls (mput nid rec rs))
      | Inl k \<Rightarrow> Inl (UnknownKind k))"

text \<open>The indices are rebuilt from the nodes, in the order of the maps (any order, in the code).\<close>

definition add_name :: "string \<times> Record \<Rightarrow> string list gomap \<Rightarrow> string list gomap" where
  "add_name e idx = mput (KeyName (snd e)) (sget idx (KeyName (snd e)) @ [fst e]) idx"

definition add_child :: "string \<times> string \<Rightarrow> string list gomap \<Rightarrow> string list gomap" where
  "add_child e kids =
     (if snd e = [] then kids else mput (snd e) (set_insert (fst e) (sget kids (snd e))) kids)"

definition ImportSnapshot :: "dnslib \<Rightarrow> time \<Rightarrow> LeaseTreeSnapshot option \<Rightarrow> store \<Rightarrow> snapshot_error + store" where
  "ImportSnapshot lib now snapshot s =
     (case snapshot of
        None \<Rightarrow> Inl SnapshotIsNil
      | Some sn \<Rightarrow>
          if Version sn \<noteq> leaseSnapshotVersion then Inl (UnsupportedVersion (Version sn))
          else (case import_nodes lib now (Nodes sn) [] [] of
              Inl e \<Rightarrow> Inl e
            | Inr (ls, rs) \<Rightarrow>
                Inr (s\<lparr>leases := ls, nonKeyRecords := rs, nameIdx := fold add_name ls [],
                  children := fold add_child (map (\<lambda>e. (fst e, ParentKeyName (snd e))) rs)
                    (fold add_child (map (\<lambda>e. (fst e, ParentKeyName (snd e))) ls) [])\<rparr>)))"

subsection \<open>The round trip of a snapshot\<close>

lemma all_rows_map: "\<forall>x \<in> set xs. f x = Inr (g x) \<Longrightarrow> all_rows f xs = Inr (map g xs)"
  by (induction xs) auto

lemma mget_fold_mput:
  "distinct (map fst es) \<Longrightarrow> mget (fold (\<lambda>e. mput (fst e) (snd e)) es m) k =
   (case map_of es k of Some v \<Rightarrow> Some v | None \<Rightarrow> mget m k)"
proof (induction es arbitrary: m)
  case (Cons e es)
  then have "map_of es (fst e) = None" by (simp add: map_of_eq_None_iff)
  with Cons show ?case by (cases "k = fst e") (auto simp: mget_mput split: option.splits)
qed simp

lemma mwf_fold_mput: "mwf m \<Longrightarrow> mwf (fold (\<lambda>e. mput (fst e) (snd e)) es m)"
  by (induction es arbitrary: m) auto

lemma sorted_entries_keys: "map fst (sorted_entries m) = sort_strings (mkeys m)"
  by (simp add: sorted_entries_def comp_def)

lemma sorted_entries_in: "(k, v) \<in> set (sorted_entries m) \<longleftrightarrow> mget m k = Some v"
  by (auto simp: sorted_entries_def mkeys_iff)

lemma map_of_sorted_entries: "mwf m \<Longrightarrow> map_of (sorted_entries m) k = mget m k"
proof -
  assume "mwf m"
  have "map_of (sorted_entries m) k = (if k \<in> set (mkeys m) then Some (the (mget m k)) else None)"
    by (simp add: sorted_entries_def map_of_map_restrict restrict_map_def)
  then show ?thesis by (auto simp: mkeys_iff)
qed

lemma sget_add_names: "sget (fold add_name es idx) n = sget idx n @ map fst (filter (\<lambda>e. KeyName (snd e) = n) es)"
  by (induction es arbitrary: idx) (auto simp: add_name_def sget_def mget_mput)

lemma sget_add_children:
  "set (sget (fold add_child es kids) p) = set (sget kids p) \<union> (if p = [] then {} else {c. (c, p) \<in> set es})"
  by (induction es arbitrary: kids) (auto simp: add_child_def sget_def mget_mput split: option.splits if_splits)

lemma wf_sets_add_children: "wf_sets kids \<Longrightarrow> wf_sets (fold add_child es kids)"
  by (induction es arbitrary: kids) (simp_all add: add_child_def wf_sets_mput wf_sets_sget)

lemma mwf_add_names: "mwf idx \<Longrightarrow> mwf (fold add_name es idx)"
  by (induction es arbitrary: idx) (auto simp: add_name_def)

lemma wf_sets_add_names:
  assumes "mwf ls"
  shows "wf_sets (fold add_name ls [])"
proof (rule wf_setsI)
  show "mwf (fold add_name ls [])" by (rule mwf_add_names) simp
  fix k xs
  assume xs: "mget (fold add_name ls []) k = Some xs"
  then have eq: "xs = map fst (filter (\<lambda>e. KeyName (snd e) = k) ls)" using sget_add_names [of ls "[]" k] by (simp add: sget_def)
  have "distinct xs" using assms eq by (simp add: mwf_def distinct_map_filter)
  moreover have "xs \<noteq> []"
  proof -
    have "mget (fold add_name es idx) k \<noteq> Some []" if "mget idx k \<noteq> Some []" for es idx
      using that by (induction es arbitrary: idx) (auto simp: add_name_def mget_mput)
    then show ?thesis using xs by fastforce
  qed
  ultimately show "xs \<noteq> [] \<and> distinct xs" by blast
qed

text \<open>What the proxy can restore: records the library can pack and unpack, complete keys, zones as \<open>Normalize\<close> leaves them
  and of valid UTF-8.\<close>

definition wire_ok :: "dnslib \<Rightarrow> rr \<Rightarrow> bool" where
  "wire_ok lib r \<longleftrightarrow> (\<exists>data. PackRR lib r = Some data \<and> UnpackMsg lib data = Some ([], [r], [], []))"

definition restorable :: "dnslib \<Rightarrow> store \<Rightarrow> bool" where
  "restorable lib s \<longleftrightarrow>
     (\<forall>k r. mget (leases s) k = Some r \<longrightarrow> wire_ok lib (of_key (KeyRR r)) \<and> PublicKey (KeyRR r) \<noteq> [] \<and>
        Normalize (UpstreamZone r) = UpstreamZone r \<and> ValidString (UpstreamZone r) \<and> RegisteredAt r \<noteq> 0) \<and>
     (\<forall>k r. mget (nonKeyRecords s) k = Some r \<longrightarrow> wire_ok lib (RR r) \<and> Normalize (nk_UpstreamZone r) = nk_UpstreamZone r \<and>
        ValidString (nk_UpstreamZone r))"

lemma rrFromWire_rrToWire: "wire_ok lib r \<Longrightarrow> \<exists>data. rrToWire lib r = Some data \<and> rrFromWire lib data = Some r"
  by (auto simp: wire_ok_def rrToWire_def rrFromWire_def)

text \<open>A snapshot read back may show other display texts; nothing reads them.\<close>

definition same_rows :: "NodeSnapshot list \<Rightarrow> NodeSnapshot list \<Rightarrow> bool" where
  "same_rows = list_all2 (\<lambda>a b. a\<lparr>RRDisplay := []\<rparr> = b\<lparr>RRDisplay := []\<rparr>)"

lemma same_row_fields:
  assumes "a\<lparr>RRDisplay := []\<rparr> = b\<lparr>RRDisplay := []\<rparr>"
  shows "sn_NodeKind a = sn_NodeKind b" "import_key lib now a = import_key lib now b" "import_record lib a = import_record lib b"
proof -
  have f: "sn_NodeID a = sn_NodeID b" "sn_ParentKeyName a = sn_ParentKeyName b" "sn_RRType a = sn_RRType b"
    "sn_UpstreamZone a = sn_UpstreamZone b" "sn_LeaseDuration a = sn_LeaseDuration b" "sn_RegisteredAt a = sn_RegisteredAt b"
    "sn_ExpiresAt a = sn_ExpiresAt b" "sn_KeyLeaseDuration a = sn_KeyLeaseDuration b" "RRWire a = RRWire b"
    using arg_cong [OF assms, of sn_NodeID] arg_cong [OF assms, of sn_ParentKeyName] arg_cong [OF assms, of sn_RRType]
      arg_cong [OF assms, of sn_UpstreamZone] arg_cong [OF assms, of sn_LeaseDuration] arg_cong [OF assms, of sn_RegisteredAt]
      arg_cong [OF assms, of sn_ExpiresAt] arg_cong [OF assms, of sn_KeyLeaseDuration] arg_cong [OF assms, of RRWire]
    by simp_all
  show "import_key lib now a = import_key lib now b" "import_record lib a = import_record lib b"
    unfolding import_key_def import_record_def f by (rule refl)+
  show "sn_NodeKind a = sn_NodeKind b" using arg_cong [OF assms, of sn_NodeKind] by simp
qed

lemma import_same_rows: "same_rows xs ys \<Longrightarrow> import_nodes lib now xs ls rs = import_nodes lib now ys ls rs"
  unfolding same_rows_def
proof (induction xs ys arbitrary: ls rs rule: list_all2_induct)
  case (Cons x xs y ys)
  note same_row_fields [OF Cons(1)]
  with Cons(3) show ?case by (simp split: sum.splits NodeKind.splits)
qed simp

lemma import_key_row:
  assumes "wf_lease lib nid r" "wire_ok lib (of_key (KeyRR r))" "PublicKey (KeyRR r) \<noteq> []"
    "Normalize (UpstreamZone r) = UpstreamZone r" "RegisteredAt r \<noteq> 0"
  obtains row where "key_row lib wide (nid, r) = Inr row" "sn_NodeKind row = Inr NodeKindKEY" "import_key lib now row = Inr (nid, r)"
proof -
  obtain data where d: "rrToWire lib (of_key (KeyRR r)) = Some data" "rrFromWire lib data = Some (of_key (KeyRR r))"
    using rrFromWire_rrToWire [OF assms(2)] by blast
  have "r = \<lparr>NodeKind = NodeKindKEY, RRType = TypeKEY, ExpiresAt = ExpiresAt r, LeaseDuration = LeaseDuration r,
      RegisteredAt = RegisteredAt r, ParentKeyName = ParentKeyName r, KeyName = Normalize (key_name (KeyRR r)), KeyRR = KeyRR r,
      KeyLeaseDuration = KeyLeaseDuration r, UpstreamZone = UpstreamZone r\<rparr>"
    using assms(1) by (cases r) (simp add: wf_lease_def)
  then show ?thesis using assms d
    by (intro that) (auto simp: key_row_def import_key_def unquote_quote wf_lease_def TypeKEY_def Let_def)
qed

lemma import_record_row:
  assumes "wf_record lib nid r" "wire_ok lib (RR r)" "Normalize (nk_UpstreamZone r) = nk_UpstreamZone r"
  obtains row where "record_row lib wide (nid, r) = Inr row" "sn_NodeKind row = Inr NodeKindNonKEY" "import_record lib row = Inr (nid, r)"
proof -
  obtain data where d: "rrToWire lib (RR r) = Some data" "rrFromWire lib data = Some (RR r)"
    using rrFromWire_rrToWire [OF assms(2)] by blast
  have "r = \<lparr>NodeKind = NodeKindNonKEY, RRType = RRToType (RR r), ExpiresAt = ExpiresAt r, LeaseDuration = LeaseDuration r,
      RegisteredAt = RegisteredAt r, ParentKeyName = ParentKeyName r, RRKey = nid, RR = RR r, nk_UpstreamZone = nk_UpstreamZone r\<rparr>"
    using assms(1) by (cases r) (simp add: wf_record_def)
  then show ?thesis using assms d
    by (intro that) (auto simp: record_row_def import_record_def unquote_quote wf_record_def Let_def)
qed

lemma import_key_rows:
  assumes "\<And>e. e \<in> set es \<Longrightarrow> sn_NodeKind (g e) = Inr NodeKindKEY \<and> import_key lib now (g e) = Inr e"
  shows "import_nodes lib now (map g es @ rest) ls rs = import_nodes lib now rest (fold (\<lambda>e. mput (fst e) (snd e)) es ls) rs"
  using assms by (induction es arbitrary: ls) (auto split: prod.splits)

lemma import_record_rows:
  assumes "\<And>e. e \<in> set es \<Longrightarrow> sn_NodeKind (g e) = Inr NodeKindNonKEY \<and> import_record lib (g e) = Inr e"
  shows "import_nodes lib now (map g es) ls rs = Inr (ls, fold (\<lambda>e. mput (fst e) (snd e)) es rs)"
  using assms by (induction es arbitrary: rs) (auto split: prod.splits)

text \<open>The texts of a row that JSON has to carry.\<close>

definition text_row :: "NodeSnapshot \<Rightarrow> bool" where
  "text_row n \<longleftrightarrow> ValidString (sn_NodeID n) \<and> ValidString (sn_ParentKeyName n) \<and> ValidString (sn_UpstreamZone n)"

lemma row_texts:
  "key_row lib wide (k, r) = Inr row \<Longrightarrow> ValidString (UpstreamZone r) \<Longrightarrow> text_row row"
  "record_row lib wide (k, q) = Inr row \<Longrightarrow> ValidString (nk_UpstreamZone q) \<Longrightarrow> text_row row"
  by (auto simp: key_row_def record_row_def text_row_def quote_valid ValidString.simps [of "[]"] split: option.splits)

lemma export_import:
  assumes wf: "wf_store lib s" and ok: "restorable lib s"
  obtains sn where "ExportSnapshot lib wide gen s = Inr sn" "Version sn = leaseSnapshotVersion" "\<forall>n \<in> set (Nodes sn). text_row n"
    "\<And>now. import_nodes lib now (Nodes sn) [] [] =
       Inr (fold (\<lambda>e. mput (fst e) (snd e)) (sorted_entries (leases s)) [],
            fold (\<lambda>e. mput (fst e) (snd e)) (sorted_entries (nonKeyRecords s)) [])"
proof -
  note w = wf_uptoD [OF wf [unfolded wf_store_def]]
  have "\<exists>row. key_row lib wide e = Inr row \<and> sn_NodeKind row = Inr NodeKindKEY \<and> (\<forall>now. import_key lib now row = Inr e)"
    if "e \<in> set (sorted_entries (leases s))" for e
  proof -
    obtain k r where e1: "e = (k, r)" by (cases e)
    then have e: "e = (k, r)" "mget (leases s) k = Some r" using that by (auto simp: sorted_entries_in)
    note r = ok [unfolded restorable_def, THEN conjunct1, rule_format, OF e(2)]
    obtain row where "key_row lib wide (k, r) = Inr row" "sn_NodeKind row = Inr NodeKindKEY"
      using import_key_row [OF w(5) [OF e(2)]] r by metis
    moreover have "import_key lib now row = Inr (k, r)" for now
      using import_key_row [OF w(5) [OF e(2)], of wide now] r calculation(1) by (metis sum.inject(2))
    ultimately show ?thesis using e by blast
  qed
  then obtain g where g: "\<forall>e \<in> set (sorted_entries (leases s)). key_row lib wide e = Inr (g e)"
      "\<And>e. e \<in> set (sorted_entries (leases s)) \<Longrightarrow> sn_NodeKind (g e) = Inr NodeKindKEY \<and> (\<forall>now. import_key lib now (g e) = Inr e)"
    by metis
  have "\<exists>row. record_row lib wide e = Inr row \<and> sn_NodeKind row = Inr NodeKindNonKEY \<and> import_record lib row = Inr e"
    if "e \<in> set (sorted_entries (nonKeyRecords s))" for e
  proof -
    obtain k r where e1: "e = (k, r)" by (cases e)
    then have e: "e = (k, r)" "mget (nonKeyRecords s) k = Some r" using that by (auto simp: sorted_entries_in)
    note r = ok [unfolded restorable_def, THEN conjunct2, rule_format, OF e(2)]
    show ?thesis using import_record_row [OF w(6) [OF e(2)]] r e(1) by metis
  qed
  then obtain h where h: "\<forall>e \<in> set (sorted_entries (nonKeyRecords s)). record_row lib wide e = Inr (h e)"
      "\<And>e. e \<in> set (sorted_entries (nonKeyRecords s)) \<Longrightarrow> sn_NodeKind (h e) = Inr NodeKindNonKEY \<and> import_record lib (h e) = Inr e"
    by metis
  have texts: "\<forall>n \<in> set (map g (sorted_entries (leases s)) @ map h (sorted_entries (nonKeyRecords s))). text_row n"
  proof -
    have "text_row (g e)" if "e \<in> set (sorted_entries (leases s))" for e
      using that g(1) ok row_texts(1) [of lib wide "fst e" "snd e"] sorted_entries_in [of "fst e" "snd e" "leases s"]
      by (auto simp: restorable_def)
    moreover have "text_row (h e)" if "e \<in> set (sorted_entries (nonKeyRecords s))" for e
      using that h(1) ok row_texts(2) [of lib wide "fst e" "snd e"] sorted_entries_in [of "fst e" "snd e" "nonKeyRecords s"]
      by (auto simp: restorable_def)
    ultimately show ?thesis by auto
  qed
  show ?thesis
  proof (rule that)
    show "ExportSnapshot lib wide gen s = Inr \<lparr>Version = leaseSnapshotVersion, GeneratedAt = gen,
        Nodes = map g (sorted_entries (leases s)) @ map h (sorted_entries (nonKeyRecords s))\<rparr>"
      by (simp add: ExportSnapshot_def all_rows_map [OF g(1)] all_rows_map [OF h(1)])
  next
    fix now
    show "import_nodes lib now (Nodes \<lparr>Version = leaseSnapshotVersion, GeneratedAt = gen,
        Nodes = map g (sorted_entries (leases s)) @ map h (sorted_entries (nonKeyRecords s))\<rparr>) [] [] =
       Inr (fold (\<lambda>e. mput (fst e) (snd e)) (sorted_entries (leases s)) [],
            fold (\<lambda>e. mput (fst e) (snd e)) (sorted_entries (nonKeyRecords s)) [])"
      using import_key_rows [of "sorted_entries (leases s)" g lib now] import_record_rows [of "sorted_entries (nonKeyRecords s)" h lib now]
        g(2) h(2) by simp
  qed (use texts in simp_all)
qed

lemma ImportSnapshot_restores:
  assumes wf: "wf_store lib s" and v: "Version sn = leaseSnapshotVersion"
    and im: "import_nodes lib now (Nodes sn) [] [] = Inr (ls, rs)"
    and eq: "mwf ls" "mwf rs" "mget ls = mget (leases s)" "mget rs = mget (nonKeyRecords s)"
  obtains s' where "ImportSnapshot lib now (Some sn) s0 = Inr s'" "wf_store lib s'" "abs_store s' = abs_store s"
proof -
  note w = wf_uptoD [OF wf [unfolded wf_store_def]]
  let ?kids = "fold add_child (map (\<lambda>e. (fst e, ParentKeyName (snd e))) rs) (fold add_child (map (\<lambda>e. (fst e, ParentKeyName (snd e))) ls) [])"
  let ?s = "s0\<lparr>leases := ls, nonKeyRecords := rs, nameIdx := fold add_name ls [], children := ?kids\<rparr>"
  have kids: "c \<in> set (sget ?kids p) \<longleftrightarrow> p \<noteq> [] \<and> parent_of ?s c = Some p" for c p
  proof -
    have "(c, p) \<in> set (map (\<lambda>e. (fst e, ParentKeyName (snd e))) ls) \<longleftrightarrow> (\<exists>r. mget ls c = Some r \<and> ParentKeyName r = p)"
      by (force simp: mget_iff_set [OF eq(1)])
    moreover have "(c, p) \<in> set (map (\<lambda>e. (fst e, ParentKeyName (snd e))) rs) \<longleftrightarrow> (\<exists>r. mget rs c = Some r \<and> ParentKeyName r = p)"
      by (force simp: mget_iff_set [OF eq(2)])
    ultimately show ?thesis using w(7) [of c] eq(3,4)
      unfolding sget_add_children by (auto simp: sget_None parent_of_def simp del: set_map split: option.splits)
  qed
  have "wf_upto lib {} ?s"
  proof (rule wf_uptoI)
    show "mwf (leases ?s)" "mwf (nonKeyRecords ?s)" using eq by simp_all
    show "wf_sets (nameIdx ?s)" using wf_sets_add_names [OF eq(1)] by simp
    show "wf_sets (children ?s)" by (simp add: wf_sets_add_children)
    show "wf_lease lib nid r" if "mget (leases ?s) nid = Some r" for nid r using that w(5) eq by simp
    show "wf_record lib nid r" if "mget (nonKeyRecords ?s) nid = Some r" for nid r using that w(6) eq by simp
    show "mget (leases ?s) nid = None \<or> mget (nonKeyRecords ?s) nid = None" for nid using w(7) eq by simp
    show "c \<in> set (sget (children ?s) p) \<longleftrightarrow> p \<noteq> [] \<and> p \<notin> {} \<and> parent_of ?s c = Some p" for p c using kids by simp
    show "nid \<in> set (sget (nameIdx ?s) n) \<longleftrightarrow> (\<exists>r. mget (leases ?s) nid = Some r \<and> KeyName r = n)" for n nid
      by (force simp: sget_add_names mget_iff_set [OF eq(1)] sget_None)
  qed
  moreover have "abs_store ?s = abs_store s" using eq(3,4) by (intro ext) (simp add: abs_store_def split: option.splits)
  ultimately show ?thesis using v im by (intro that [of ?s]) (simp_all add: ImportSnapshot_def wf_store_def)
qed

lemma restored_maps:
  assumes "mwf m"
  shows "mwf (fold (\<lambda>e. mput (fst e) (snd e)) (sorted_entries m) [])"
    "mget (fold (\<lambda>e. mput (fst e) (snd e)) (sorted_entries m) []) = mget m"
proof -
  have "distinct (map fst (sorted_entries m))" using assms by (simp add: sorted_entries_keys mwf_def mkeys_def)
  then show "mget (fold (\<lambda>e. mput (fst e) (snd e)) (sorted_entries m) []) = mget m"
    by (simp add: fun_eq_iff mget_fold_mput map_of_sorted_entries assms split: option.splits)
  show "mwf (fold (\<lambda>e. mput (fst e) (snd e)) (sorted_entries m) [])" by (rule mwf_fold_mput) simp
qed

subsection \<open>The file\<close>

record codec =
  Marshal :: "LeaseTreeSnapshot \<Rightarrow> string option"
  UnmarshalFile :: "string \<Rightarrow> (string \<times> string) option"
  UnmarshalSnapshot :: "string \<Rightarrow> LeaseTreeSnapshot option"
  Sha256 :: "string \<Rightarrow> string"

definition nl :: string where
  "nl = [CHR 0x0A]"

definition snapshotFileBytes :: "codec \<Rightarrow> string \<Rightarrow> string" where
  "snapshotFileBytes cd body =
     ''{'' @ nl @ ''  '' @ [CHR 0x22] @ ''sha256'' @ [CHR 0x22] @ '': '' @ [CHR 0x22] @ Sha256 cd body @ [CHR 0x22] @ '','' @ nl @
     ''  '' @ [CHR 0x22] @ ''snapshot'' @ [CHR 0x22] @ '': '' @ body @ nl @ ''}'' @ nl"

definition snapshot_data :: "dnslib \<Rightarrow> (nat \<Rightarrow> bool) \<Rightarrow> codec \<Rightarrow> time \<Rightarrow> store \<Rightarrow> snapshot_error + string" where
  "snapshot_data lib wide cd now s =
     (case ExportSnapshot lib wide now s of
        Inl e \<Rightarrow> Inl e
      | Inr sn \<Rightarrow> (case Marshal cd sn of None \<Rightarrow> Inl CannotMarshal | Some body \<Rightarrow> Inr (snapshotFileBytes cd body)))"

definition LoadSnapshot :: "dnslib \<Rightarrow> codec \<Rightarrow> time \<Rightarrow> string option \<Rightarrow> store \<Rightarrow> snapshot_error + store" where
  "LoadSnapshot lib cd now content s =
     (case content of
        None \<Rightarrow> Inl CannotRead
      | Some data \<Rightarrow>
          (case UnmarshalFile cd data of
             None \<Rightarrow> Inl CannotUnmarshal
           | Some (sha, raw) \<Rightarrow>
               if raw = [] \<or> sha = [] then Inl NotAPair
               else if data \<noteq> snapshotFileBytes cd raw then Inl Edited
               else (case UnmarshalSnapshot cd raw of
                   None \<Rightarrow> Inl CannotUnmarshal
                 | Some sn \<Rightarrow> ImportSnapshot lib now (Some sn) s)))"

text \<open>
  What \<open>encoding/json\<close> and \<open>crypto/sha256\<close> promise: a snapshot whose texts are valid UTF-8 is read
  back as it was, up to the display texts, and a raw value is the bytes it was parsed from.
\<close>

definition codec_ok :: "codec \<Rightarrow> LeaseTreeSnapshot \<Rightarrow> bool" where
  "codec_ok cd sn \<longleftrightarrow>
     ((\<forall>n \<in> set (Nodes sn). text_row n) \<longrightarrow>
        (\<exists>body sn'. Marshal cd sn = Some body \<and> body \<noteq> [] \<and> UnmarshalSnapshot cd body = Some sn' \<and>
           Version sn' = Version sn \<and> same_rows (Nodes sn') (Nodes sn))) \<and>
     (\<forall>body. Marshal cd sn = Some body \<longrightarrow> Sha256 cd body \<noteq> [] \<and>
        UnmarshalFile cd (snapshotFileBytes cd body) = Some (Sha256 cd body, body))"

subsection \<open>The atomic write\<close>

text \<open>
  \<open>writeFileAtomic\<close> step by step; every call of the operating system may fail, a write may have
  written any part of the data, and the process may die between any two steps. \<open>tmp\<close> is the name
  \<open>os.CreateTemp\<close> makes, of a file that does not exist.
\<close>

type_synonym disk = "string \<rightharpoonup> string"

datatype write_pc = AtCreate | AtWrite | AtSync | AtClose | AtRename | AtSyncDir | AtCleanup | AtEnd bool

inductive write_step :: "string \<Rightarrow> string \<Rightarrow> string \<Rightarrow> disk \<times> write_pc \<Rightarrow> disk \<times> write_pc \<Rightarrow> bool" for path tmp data where
  create: "d tmp = None \<Longrightarrow> write_step path tmp data (d, AtCreate) (d(tmp \<mapsto> []), AtWrite)"
| create_fails: "write_step path tmp data (d, AtCreate) (d, AtEnd False)"
| write_part: "write_step path tmp data (d, AtWrite) (d(tmp \<mapsto> take n data), AtWrite)"
| written: "write_step path tmp data (d, AtWrite) (d(tmp \<mapsto> data), AtSync)"
| write_fails: "write_step path tmp data (d, AtWrite) (d, AtCleanup)"
| synced: "write_step path tmp data (d, AtSync) (d, AtClose)"
| sync_fails: "write_step path tmp data (d, AtSync) (d, AtCleanup)"
| closed: "write_step path tmp data (d, AtClose) (d, AtRename)"
| close_fails: "write_step path tmp data (d, AtClose) (d, AtCleanup)"
| renamed: "write_step path tmp data (d, AtRename) (d(path := d tmp, tmp := None), AtSyncDir)"
| rename_fails: "write_step path tmp data (d, AtRename) (d, AtCleanup)"
| dir_synced: "write_step path tmp data (d, AtSyncDir) (d, AtEnd True)"
| dir_sync_fails: "write_step path tmp data (d, AtSyncDir) (d, AtCleanup)"
| removed: "write_step path tmp data (d, AtCleanup) (d(tmp := None), AtEnd False)"
| remove_fails: "write_step path tmp data (d, AtCleanup) (d, AtEnd False)"

inductive_cases write_stepE: "write_step path tmp data x y"

definition writeFileAtomic :: "string \<Rightarrow> string \<Rightarrow> string \<Rightarrow> disk \<Rightarrow> disk \<times> write_pc \<Rightarrow> bool" where
  "writeFileAtomic path tmp data d = (write_step path tmp data)\<^sup>*\<^sup>* (d, AtCreate)"

definition written_so_far :: "string \<Rightarrow> string \<Rightarrow> string \<Rightarrow> disk \<Rightarrow> disk \<times> write_pc \<Rightarrow> bool" where
  "written_so_far path tmp data d0 x \<longleftrightarrow>
     (\<forall>p. p \<noteq> tmp \<longrightarrow> p \<noteq> path \<longrightarrow> fst x p = d0 p) \<and>
     (case snd x of
        AtCreate \<Rightarrow> fst x = d0
      | AtWrite \<Rightarrow> fst x path = d0 path
      | AtSync \<Rightarrow> fst x path = d0 path \<and> fst x tmp = Some data
      | AtClose \<Rightarrow> fst x path = d0 path \<and> fst x tmp = Some data
      | AtRename \<Rightarrow> fst x path = d0 path \<and> fst x tmp = Some data
      | AtSyncDir \<Rightarrow> fst x path = Some data \<and> fst x tmp = None
      | AtCleanup \<Rightarrow> fst x path = d0 path \<or> fst x path = Some data
      | AtEnd ok \<Rightarrow> if ok then fst x path = Some data \<and> fst x tmp = None else fst x path = d0 path \<or> fst x path = Some data)"

lemma write_invariant:
  assumes "writeFileAtomic path tmp data d x" "tmp \<noteq> path"
  shows "written_so_far path tmp data d x"
  using assms(1) unfolding writeFileAtomic_def
proof (induction rule: rtranclp_induct)
  case base
  then show ?case by (simp add: written_so_far_def)
next
  case (step y z)
  from step(2,3) assms(2) show ?case by (auto simp: written_so_far_def elim!: write_stepE)
qed

lemma write_completes:
  assumes "d tmp = None" "tmp \<noteq> path"
  shows "writeFileAtomic path tmp data d (d(path \<mapsto> data), AtEnd True)"
proof -
  let ?W = "write_step path tmp data"
  have "?W (d, AtCreate) (d(tmp \<mapsto> []), AtWrite)" using assms(1) by (rule create)
  moreover have "?W (d(tmp \<mapsto> []), AtWrite) (d(tmp \<mapsto> data), AtSync)" using written [of path tmp data "d(tmp \<mapsto> [])"] by simp
  moreover have "?W (d(tmp \<mapsto> data), AtSync) (d(tmp \<mapsto> data), AtClose)" "?W (d(tmp \<mapsto> data), AtClose) (d(tmp \<mapsto> data), AtRename)"
    by (rule synced closed)+
  moreover have "?W (d(tmp \<mapsto> data), AtRename) (d(path \<mapsto> data), AtSyncDir)"
  proof -
    have "(d(tmp \<mapsto> data))(path := (d(tmp \<mapsto> data)) tmp, tmp := None) = d(path \<mapsto> data)" using assms by (auto simp: fun_eq_iff)
    then show ?thesis using renamed [of path tmp data "d(tmp \<mapsto> data)"] by simp
  qed
  moreover have "?W (d(path \<mapsto> data), AtSyncDir) (d(path \<mapsto> data), AtEnd True)" by (rule dir_synced)
  ultimately show ?thesis unfolding writeFileAtomic_def by (meson converse_rtranclp_into_rtranclp rtranclp.rtrancl_refl)
qed

subsection \<open>The file store\<close>

definition CheckSaveInterval :: "int \<Rightarrow> snapshot_error option" where
  "CheckSaveInterval d = (if d \<le> 0 then Some IntervalNotPositive else None)"

text \<open>\<open>stat\<close> is false when the file is there but cannot be examined.\<close>

definition ReadSnapshotFile :: "dnslib \<Rightarrow> codec \<Rightarrow> time \<Rightarrow> bool \<Rightarrow> disk \<Rightarrow> string \<Rightarrow> snapshot_error + (store \<times> bool)" where
  "ReadSnapshotFile lib cd now stat d path =
     (if d path = None then Inr (NewInMemoryManager, False)
      else if \<not> stat then Inl CannotStat
      else case LoadSnapshot lib cd now (d path) NewInMemoryManager of
        Inl e \<Rightarrow> Inl e
      | Inr s \<Rightarrow> Inr (s, True))"

record FileLeaseStore =
  inner :: store
  file_path :: string
  saveInterval :: int

text \<open>\<open>SaveSnapshot\<close>: the disk and the error after the write has ended in the way \<open>saved\<close> says.\<close>

definition SaveSnapshot ::
  "dnslib \<Rightarrow> (nat \<Rightarrow> bool) \<Rightarrow> codec \<Rightarrow> time \<Rightarrow> (string \<Rightarrow> disk \<Rightarrow> disk \<times> bool) \<Rightarrow> store \<Rightarrow> disk \<Rightarrow> disk \<times> snapshot_error option"
where
  "SaveSnapshot lib wide cd now saved s d =
     (case snapshot_data lib wide cd now s of
        Inl e \<Rightarrow> (d, Some e)
      | Inr data \<Rightarrow> (case saved data d of (d', ok) \<Rightarrow> (d', if ok then None else Some CannotWrite)))"

definition NewFileLeaseStore ::
  "dnslib \<Rightarrow> (nat \<Rightarrow> bool) \<Rightarrow> codec \<Rightarrow> time \<Rightarrow> bool \<Rightarrow> bool \<Rightarrow> (string \<Rightarrow> disk \<Rightarrow> disk \<times> bool) \<Rightarrow> string \<Rightarrow> int \<Rightarrow> disk \<Rightarrow>
   disk \<times> (snapshot_error + FileLeaseStore)"
where
  "NewFileLeaseStore lib wide cd now mkdir stat saved path interval d =
     (if path = [] then (d, Inl PathEmpty)
      else case CheckSaveInterval interval of
        Some e \<Rightarrow> (d, Inl e)
      | None \<Rightarrow>
          if \<not> mkdir then (d, Inl CannotCreateDirectory)
          else (case ReadSnapshotFile lib cd now stat d path of
              Inl e \<Rightarrow> (d, Inl e)
            | Inr (s, _) \<Rightarrow>
                (case SaveSnapshot lib wide cd now saved s d of
                   (d', Some e) \<Rightarrow> (d', Inl e)
                 | (d', None) \<Rightarrow> (d', Inr \<lparr>inner = s, file_path = path, saveInterval = interval\<rparr>))))"

subsection \<open>What a restart finds\<close>

lemma Load_restores:
  assumes wf: "wf_store lib s" and ok: "restorable lib s" and data: "snapshot_data lib wide cd gen s = Inr data"
    and cd: "\<And>sn. ExportSnapshot lib wide gen s = Inr sn \<Longrightarrow> codec_ok cd sn"
  obtains s' where "LoadSnapshot lib cd now (Some data) s0 = Inr s'" "wf_store lib s'" "abs_store s' = abs_store s"
proof -
  note w = wf_uptoD(1,2) [OF wf [unfolded wf_store_def]]
  obtain sn where sn: "ExportSnapshot lib wide gen s = Inr sn" "Version sn = leaseSnapshotVersion" "\<forall>n \<in> set (Nodes sn). text_row n"
    "\<And>now. import_nodes lib now (Nodes sn) [] [] =
       Inr (fold (\<lambda>e. mput (fst e) (snd e)) (sorted_entries (leases s)) [],
            fold (\<lambda>e. mput (fst e) (snd e)) (sorted_entries (nonKeyRecords s)) [])"
    using export_import [OF wf ok] by blast
  obtain body sn' where b: "Marshal cd sn = Some body" "body \<noteq> []" "UnmarshalSnapshot cd body = Some sn'"
    "Version sn' = Version sn" "same_rows (Nodes sn') (Nodes sn)" "Sha256 cd body \<noteq> []"
    "UnmarshalFile cd (snapshotFileBytes cd body) = Some (Sha256 cd body, body)"
    using cd [OF sn(1)] sn(3) by (auto simp: codec_ok_def)
  have eq: "data = snapshotFileBytes cd body" using data sn(1) b(1) by (simp add: snapshot_data_def)
  have im: "import_nodes lib now (Nodes sn') [] [] =
       Inr (fold (\<lambda>e. mput (fst e) (snd e)) (sorted_entries (leases s)) [],
            fold (\<lambda>e. mput (fst e) (snd e)) (sorted_entries (nonKeyRecords s)) [])"
    using import_same_rows [OF b(5)] sn(4) by simp
  have v: "Version sn' = leaseSnapshotVersion" using b(4) sn(2) by simp
  from ImportSnapshot_restores [OF wf v im restored_maps(1) [OF w(1)] restored_maps(1) [OF w(2)] restored_maps(2) [OF w(1)]
      restored_maps(2) [OF w(2)]]
  obtain s' where "ImportSnapshot lib now (Some sn') s0 = Inr s'" "wf_store lib s'" "abs_store s' = abs_store s" by blast
  then show ?thesis using that eq b by (simp add: LoadSnapshot_def)
qed

text \<open>
  C14. The leases survive a restart, also one in the middle of a save. While \<open>SaveSnapshot\<close> replaces
  the snapshot of one store by that of another, the process may die after any step, and any call of the
  operating system may fail: the next start finds a snapshot that loads, and gets a well-formed store
  with exactly the nodes of the old or of the new store, of the new one if the save reported success.
\<close>

theorem restart_finds_leases:
  assumes old: "wf_store lib s1" "restorable lib s1" "snapshot_data lib wide cd gen1 s1 = Inr data1"
      "\<And>sn. ExportSnapshot lib wide gen1 s1 = Inr sn \<Longrightarrow> codec_ok cd sn"
    and new: "wf_store lib s2" "restorable lib s2" "snapshot_data lib wide cd gen2 s2 = Inr data2"
      "\<And>sn. ExportSnapshot lib wide gen2 s2 = Inr sn \<Longrightarrow> codec_ok cd sn"
    and run: "d path = Some data1" "tmp \<noteq> path" "writeFileAtomic path tmp data2 d (d', pc)"
  shows "\<exists>s'. ReadSnapshotFile lib cd now True d' path = Inr (s', True) \<and> wf_store lib s' \<and>
    (abs_store s' = abs_store s1 \<or> abs_store s' = abs_store s2) \<and> (pc = AtEnd True \<longrightarrow> abs_store s' = abs_store s2)"
proof -
  have inv: "written_so_far path tmp data2 d (d', pc)" by (rule write_invariant [OF run(3,2)])
  obtain a where a: "LoadSnapshot lib cd now (Some data1) NewInMemoryManager = Inr a" "wf_store lib a" "abs_store a = abs_store s1"
    by (rule Load_restores [OF old])
  obtain b where b: "LoadSnapshot lib cd now (Some data2) NewInMemoryManager = Inr b" "wf_store lib b" "abs_store b = abs_store s2"
    by (rule Load_restores [OF new])
  have "d' path = Some data1 \<or> d' path = Some data2" using inv run(1) by (auto simp: written_so_far_def split: write_pc.splits if_splits)
  moreover have "pc = AtEnd True \<Longrightarrow> d' path = Some data2" using inv by (simp add: written_so_far_def)
  ultimately show ?thesis using a b
    by (cases "d' path = Some data2") (auto simp: ReadSnapshotFile_def)
qed

lemma LoadSnapshot_unedited:
  "LoadSnapshot lib cd now (Some data) s = Inr s' \<Longrightarrow> \<exists>sha raw. UnmarshalFile cd data = Some (sha, raw) \<and> data = snapshotFileBytes cd raw"
  by (auto simp: LoadSnapshot_def split: option.splits if_splits)

lemma corrupt_file_refused:
  assumes "d path = Some data" "LoadSnapshot lib cd now (Some data) NewInMemoryManager = Inl e"
    "NewFileLeaseStore lib wide cd now mkdir stat saved path interval d = (d', r)"
  shows "d' = d \<and> (\<exists>e. r = Inl e)"
  using assms by (auto simp: NewFileLeaseStore_def ReadSnapshotFile_def split: if_splits option.splits)

definition snap_lib :: dnslib where
  "snap_lib = sample_lib\<lparr>PackRR := (\<lambda>r. Some ''k''), UnpackMsg := (\<lambda>data. Some ([], [of_key parent_key], [], []))\<rparr>"

definition one_lease :: store where
  "one_lease = fst (Register snap_lib 5 (Some parent_key) 60 120 ''example'' NewInMemoryManager)"

definition lease_row :: NodeSnapshot where
  "lease_row = projr (key_row snap_lib (\<lambda>_. False) (hd (leases one_lease)))"

definition snap_codec :: codec where
  "snap_codec = \<lparr>Marshal = (\<lambda>sn. Some (if Nodes sn = [] then ''e'' else ''f'')),
     UnmarshalFile = (\<lambda>data. if data = snapshotFileBytes \<lparr>Marshal = (\<lambda>sn. None), UnmarshalFile = (\<lambda>_. None), UnmarshalSnapshot = (\<lambda>_. None), Sha256 = (\<lambda>b. ''s'')\<rparr> ''e''
        then Some (''s'', ''e'') else Some (''s'', ''f'')),
     UnmarshalSnapshot = (\<lambda>raw. Some \<lparr>Version = 4, GeneratedAt = 0, Nodes = (if raw = ''e'' then [] else [lease_row])\<rparr>),
     Sha256 = (\<lambda>b. ''s'')\<rparr>"

lemma snapshotFileBytes_s: "Sha256 cd b = ''s'' \<Longrightarrow> Sha256 ce b = ''s'' \<Longrightarrow> snapshotFileBytes cd b = snapshotFileBytes ce b"
  by (simp add: snapshotFileBytes_def)

lemma one_lease_is: "leases one_lease = [(NodeKey snap_lib parent_key, snd (hd (leases one_lease)))]" "nonKeyRecords one_lease = []"
  by code_simp+

lemma one_lease_facts:
  "NodeKind (snd (hd (leases one_lease))) = NodeKindKEY" "KeyRR (snd (hd (leases one_lease))) = parent_key"
  "UpstreamZone (snd (hd (leases one_lease))) = ''example''" "RegisteredAt (snd (hd (leases one_lease))) = 5"
  "Normalize ''example'' = ''example''" "ValidString ''example''" "PublicKey parent_key \<noteq> []"
  by code_simp+

lemma one_lease_good: "wf_store snap_lib one_lease" "restorable snap_lib one_lease"
proof -
  have "plain_text snap_lib" using plain_text_sample by (simp add: plain_text_def snap_lib_def)
  moreover have "snd (RegisterWithParent snap_lib 5 [] (Some parent_key) 60 120 ''example'' NewInMemoryManager) = None" by code_simp
  ultimately show "wf_store snap_lib one_lease"
    using RegisterWithParent_wf [OF wf_NewInMemoryManager] unfolding one_lease_def Register_def by (metis prod.collapse)
  have g: "mget (leases one_lease) k = Some r \<Longrightarrow> r = snd (hd (leases one_lease))" for k r
    by (subst (asm) one_lease_is(1)) (auto simp: mget_Cons split: if_splits)
  have "wire_ok snap_lib (of_key parent_key)" by (simp add: wire_ok_def snap_lib_def)
  then show "restorable snap_lib one_lease"
    using one_lease_facts by (auto simp: restorable_def one_lease_is(2) dest!: g)
qed

lemma empty_good: "wf_store snap_lib NewInMemoryManager" "restorable snap_lib NewInMemoryManager"
  by (rule wf_NewInMemoryManager) (simp add: restorable_def NewInMemoryManager_def)

lemma sorted_entries_small: "sorted_entries [] = []" "sorted_entries [(k, v)] = [(k, v)]"
  by (simp_all add: sorted_entries_def mkeys_def sort_strings_def mget_def)

lemma one_lease_row: "key_row snap_lib (\<lambda>_. False) (NodeKey snap_lib parent_key, snd (hd (leases one_lease))) = Inr lease_row"
proof -
  have "hd (leases one_lease) = (NodeKey snap_lib parent_key, snd (hd (leases one_lease)))"
    by (subst one_lease_is(1)) simp
  moreover have "\<exists>row. key_row snap_lib (\<lambda>_. False) e = Inr row" for e
    by (simp add: key_row_def rrToWire_def snap_lib_def split: prod.splits)
  ultimately show ?thesis unfolding lease_row_def by (metis sum.sel(2))
qed

lemma one_lease_export:
  "ExportSnapshot snap_lib (\<lambda>_. False) 1 one_lease = Inr \<lparr>Version = 4, GeneratedAt = 1, Nodes = [lease_row]\<rparr>"
  "ExportSnapshot snap_lib (\<lambda>_. False) 2 NewInMemoryManager = Inr \<lparr>Version = 4, GeneratedAt = 2, Nodes = []\<rparr>"
proof -
  show "ExportSnapshot snap_lib (\<lambda>_. False) 1 one_lease = Inr \<lparr>Version = 4, GeneratedAt = 1, Nodes = [lease_row]\<rparr>"
    unfolding ExportSnapshot_def one_lease_is(2)
    by (subst one_lease_is(1)) (simp add: sorted_entries_small one_lease_row leaseSnapshotVersion_def)
qed (simp add: ExportSnapshot_def NewInMemoryManager_def sorted_entries_small leaseSnapshotVersion_def)

lemma snap_codec_ok: "codec_ok snap_codec \<lparr>Version = 4, GeneratedAt = t, Nodes = [lease_row]\<rparr>" "codec_ok snap_codec \<lparr>Version = 4, GeneratedAt = t, Nodes = []\<rparr>"
  by (auto simp: codec_ok_def snap_codec_def same_rows_def snapshotFileBytes_def)

lemma snap_data:
  "snapshot_data snap_lib (\<lambda>_. False) snap_codec 1 one_lease = Inr (snapshotFileBytes snap_codec ''f'')"
  "snapshot_data snap_lib (\<lambda>_. False) snap_codec 2 NewInMemoryManager = Inr (snapshotFileBytes snap_codec ''e'')"
  by (simp_all add: snapshot_data_def one_lease_export) (simp_all add: snap_codec_def)

theorem restart_finds_leases_witness:
  "\<exists>s'. ReadSnapshotFile snap_lib snap_codec 3 True [''p'' \<mapsto> snapshotFileBytes snap_codec ''e''] ''p'' = Inr (s', True) \<and>
     abs_store s' = abs_store NewInMemoryManager"
proof -
  have run: "writeFileAtomic ''p'' ''p.1.tmp'' (snapshotFileBytes snap_codec ''e'') [''p'' \<mapsto> snapshotFileBytes snap_codec ''f'']
      ([''p'' \<mapsto> snapshotFileBytes snap_codec ''e''], AtEnd True)"
    using write_completes [of "[''p'' \<mapsto> snapshotFileBytes snap_codec ''f'']" "''p.1.tmp''" "''p''" "snapshotFileBytes snap_codec ''e''"] by simp
  from restart_finds_leases [OF one_lease_good snap_data(1) _ empty_good snap_data(2) _ _ _ run, of 3]
  show ?thesis using snap_codec_ok by (auto simp: one_lease_export)
qed

end
