(* ===== verification/Proxy_Config.thy ===== *)
theory Proxy_Config
  imports Lease_Policy Srp_Discovery
begin

text \<open>
  The configuration of the proxy (\<open>config/config.go\<close>): its records, the defaults, \<open>Validate\<close>
  and the map from opcodes to handler names. Reading YAML is a library's work: \<open>LoadConfig\<close> takes
  what the file system and the decoder give as arguments. A duration is a number of nanoseconds.

  \<open>SplitHostPort\<close> is \<open>net.SplitHostPort\<close> of the Go library; \<open>SplitHostPort_Join\<close> shows that it
  takes apart what \<open>JoinHostPort\<close> puts together.
\<close>

subsection \<open>Addresses\<close>

datatype addr_error = MissingPort | TooManyColons | MissingBracket | UnexpectedBracket

definition index_of :: "char \<Rightarrow> string \<Rightarrow> nat option" where
  "index_of c s = (if c \<in> set s then Some (length (takeWhile (\<lambda>x. x \<noteq> c) s)) else None)"

definition brackets_done :: "string \<Rightarrow> nat \<Rightarrow> nat \<Rightarrow> nat \<Rightarrow> string \<Rightarrow> addr_error + (string \<times> string)" where
  "brackets_done hp i j k host =
     (if CHR ''['' \<in> set (drop j hp) \<or> CHR '']'' \<in> set (drop k hp) then Inl UnexpectedBracket
      else Inr (host, drop (i + 1) hp))"

definition SplitHostPort :: "string \<Rightarrow> addr_error + (string \<times> string)" where
  "SplitHostPort hp =
     (case last_index hp '':'' of
        None \<Rightarrow> Inl MissingPort
      | Some i \<Rightarrow>
          if hd hp = CHR ''['' then
            (case index_of (CHR '']'') hp of
               None \<Rightarrow> Inl MissingBracket
             | Some e \<Rightarrow>
                 if e + 1 = length hp then Inl MissingPort
                 else if e + 1 = i then brackets_done hp i 1 (e + 1) (take (e - 1) (drop 1 hp))
                 else if hp ! (e + 1) = CHR '':'' then Inl TooManyColons
                 else Inl MissingPort)
          else if CHR '':'' \<in> set (take i hp) then Inl TooManyColons
          else brackets_done hp i 0 0 (take i hp))"

subsection \<open>The records\<close>

record ProcessingConfig =
  rule_Opcode :: u8
  Modules :: "string list"

record UpstreamConfig =
  up_Address :: string
  up_Protocol :: string
  up_Timeout :: int

record TLSConfig =
  tls_Address :: string
  tls_Cert :: string
  tls_Key :: string

record ServerConfig =
  sv_Address :: string
  Networks :: "string list"
  sv_TLS :: "TLSConfig option"
  RequestTimeout :: int

record proxy_Config =
  cfg_Server :: ServerConfig
  Upstreams :: "UpstreamConfig list"
  ProcessingRules :: "ProcessingConfig list"
  cfg_Handlers :: "config gomap"
  MaxInflightUpdates :: int

definition sec :: "int \<Rightarrow> int" where
  "sec n = n * 1000000000"

definition NewDefaultConfig :: proxy_Config where
  "NewDefaultConfig =
     \<lparr>cfg_Server = \<lparr>sv_Address = '':8053'', Networks = [''udp'', ''tcp''], sv_TLS = None, RequestTimeout = sec 15\<rparr>,
      Upstreams = [\<lparr>up_Address = ''8.8.8.8:53'', up_Protocol = ''udp'', up_Timeout = sec 5\<rparr>,
                   \<lparr>up_Address = ''1.1.1.1:53'', up_Protocol = ''udp'', up_Timeout = sec 5\<rparr>],
      ProcessingRules = [], cfg_Handlers = [], MaxInflightUpdates = 1\<rparr>"

datatype config_error =
    AddressEmpty
  | AddressInvalid addr_error
  | NoUpstreams
  | TimeoutNotPositive
  | TLSMissing
  | TLSAddressEmpty
  | TLSAddressInvalid addr_error
  | TLSKeysMissing
  | OpcodeTooLarge nat
  | ModulesEmpty nat
  | ModuleNameEmpty nat
  | UpstreamAddressEmpty nat
  | InflightNegative
  | ConfigUnreadable
  | ConfigUnparsable

subsection \<open>Validate\<close>

definition check_tls :: "ServerConfig \<Rightarrow> config_error option" where
  "check_tls s =
     (if ''tls'' \<notin> set (Networks s) then None
      else case sv_TLS s of
        None \<Rightarrow> Some TLSMissing
      | Some t \<Rightarrow>
          if tls_Address t = [] then Some TLSAddressEmpty
          else (case SplitHostPort (tls_Address t) of
              Inl e \<Rightarrow> Some (TLSAddressInvalid e)
            | Inr _ \<Rightarrow> if tls_Cert t = [] \<or> tls_Key t = [] then Some TLSKeysMissing else None))"

fun check_rules :: "nat \<Rightarrow> ProcessingConfig list \<Rightarrow> config_error option" where
  "check_rules i [] = None"
| "check_rules i (rule # rest) =
     (if 15 < rule_Opcode rule then Some (OpcodeTooLarge i)
      else if Modules rule = [] then Some (ModulesEmpty i)
      else if [] \<in> set (Modules rule) then Some (ModuleNameEmpty i)
      else check_rules (Suc i) rest)"

text \<open>The loop over the upstreams writes the default timeout into each it passes, also when it stops at one.\<close>

fun check_upstreams :: "nat \<Rightarrow> UpstreamConfig list \<Rightarrow> UpstreamConfig list \<times> config_error option" where
  "check_upstreams i [] = ([], None)"
| "check_upstreams i (u # rest) =
     (if up_Address u = [] then (u # rest, Some (UpstreamAddressEmpty i))
      else let u' = (if up_Timeout u \<le> 0 then u\<lparr>up_Timeout := sec 5\<rparr> else u);
               (rest', e) = check_upstreams (Suc i) rest
           in (u' # rest', e))"

definition Config_Validate :: "proxy_Config \<Rightarrow> proxy_Config \<times> config_error option" where
  "Config_Validate c =
     (if sv_Address (cfg_Server c) = [] then (c, Some AddressEmpty)
      else case SplitHostPort (sv_Address (cfg_Server c)) of
        Inl e \<Rightarrow> (c, Some (AddressInvalid e))
      | Inr _ \<Rightarrow>
          if Upstreams c = [] then (c, Some NoUpstreams)
          else if RequestTimeout (cfg_Server c) \<le> 0 then (c, Some TimeoutNotPositive)
          else case check_tls (cfg_Server c) of
            Some e \<Rightarrow> (c, Some e)
          | None \<Rightarrow>
              (case check_rules 0 (ProcessingRules c) of
                 Some e \<Rightarrow> (c, Some e)
               | None \<Rightarrow>
                   (case check_upstreams 0 (Upstreams c) of
                      (ups, Some e) \<Rightarrow> (c\<lparr>Upstreams := ups\<rparr>, Some e)
                    | (ups, None) \<Rightarrow>
                        (c\<lparr>Upstreams := ups\<rparr>, if MaxInflightUpdates c < 0 then Some InflightNegative else None))))"

text \<open>
  \<open>exists\<close> is what \<open>os.Stat\<close> says of the file, \<open>read\<close> its bytes, and \<open>unmarshal\<close> the decoder,
  which changes the defaults it is given.
\<close>

definition LoadConfig ::
  "bool \<Rightarrow> string option \<Rightarrow> (string \<Rightarrow> proxy_Config \<Rightarrow> proxy_Config option) \<Rightarrow> config_error + proxy_Config"
where
  "LoadConfig exists read unmarshal =
     (let checked = (\<lambda>c. case Config_Validate c of (c', None) \<Rightarrow> Inr c' | (_, Some e) \<Rightarrow> Inl e) in
      if \<not> exists then checked NewDefaultConfig
      else case read of
        None \<Rightarrow> Inl ConfigUnreadable
      | Some data \<Rightarrow>
          (case unmarshal data NewDefaultConfig of
             None \<Rightarrow> Inl ConfigUnparsable
           | Some c \<Rightarrow> checked c))"

text \<open>A later rule for the same opcode replaces an earlier one.\<close>

definition GetOpcodeMap :: "proxy_Config \<Rightarrow> u8 \<Rightarrow> string list option" where
  "GetOpcodeMap c = foldl (\<lambda>m rule. m(rule_Opcode rule \<mapsto> Modules rule)) Map.empty (ProcessingRules c)"

definition GetKeystoreDir :: "proxy_Config \<Rightarrow> string" where
  "GetKeystoreDir c =
     (case mget (cfg_Handlers c) ''update'' of
        None \<Rightarrow> []
      | Some u \<Rightarrow> (case mget u ''keystore_dir'' of Some (VString dir) \<Rightarrow> dir | _ \<Rightarrow> []))"

definition Use4ByteVariant :: "proxy_Config \<Rightarrow> bool" where
  "Use4ByteVariant c =
     (case mget (cfg_Handlers c) ''update'' of
        None \<Rightarrow> False
      | Some u \<Rightarrow> (case mget u ''prefer_4byte_variant'' of Some (VBool prefer) \<Rightarrow> prefer | _ \<Rightarrow> False))"

subsection \<open>What a valid configuration has\<close>

lemma last_index_single: "c \<notin> set s \<Longrightarrow> last_index (p @ c # s) [c] = Some (length p)"
proof (induction p)
  case Nil
  have "last_index s [c] = None"
    using Nil by (induction s) (auto simp: HasPrefix_def)
  then show ?case by (simp add: HasPrefix_def)
qed simp

lemma index_of_first: "c \<notin> set p \<Longrightarrow> index_of c (p @ c # s) = Some (length p)"
  by (induction p) (auto simp: index_of_def)

lemma SplitHostPort_Join:
  assumes "CHR ''['' \<notin> set host" "CHR '']'' \<notin> set host" "CHR ''['' \<notin> set port" "CHR '']'' \<notin> set port"
    "CHR '':'' \<notin> set port"
  shows "SplitHostPort (JoinHostPort host port) = Inr (host, port)"
proof (cases "CHR '':'' \<in> set host")
  case True
  let ?s = "CHR ''['' # host @ CHR '']'' # CHR '':'' # port"
  have "last_index ?s '':'' = Some (length host + 2)"
    using last_index_single [OF assms(5), of "CHR ''['' # host @ [CHR '']'']"] by simp
  moreover have "index_of (CHR '']'') ?s = Some (length host + 1)"
    using index_of_first [of "CHR '']''" "CHR ''['' # host" "CHR '':'' # port"] assms(2) by simp
  ultimately show ?thesis using True assms by (simp add: JoinHostPort_def SplitHostPort_def brackets_done_def)
next
  case False
  have "hd (host @ CHR '':'' # port) \<noteq> CHR ''[''" using assms(1) by (cases host) auto
  moreover have "last_index (host @ CHR '':'' # port) '':'' = Some (length host)" by (rule last_index_single [OF assms(5)])
  ultimately show ?thesis using False assms by (simp add: JoinHostPort_def SplitHostPort_def brackets_done_def)
qed

lemma check_rules_None:
  "check_rules i rs = None \<longleftrightarrow> (\<forall>r \<in> set rs. rule_Opcode r \<le> 15 \<and> Modules r \<noteq> [] \<and> [] \<notin> set (Modules r))"
  by (induction rs arbitrary: i) (auto simp: not_less)

lemma check_upstreams_None:
  "check_upstreams i us = (us', None) \<Longrightarrow>
   map up_Address us' = map up_Address us \<and> [] \<notin> set (map up_Address us) \<and> (\<forall>u \<in> set us'. 0 < up_Timeout u)"
  by (induction us arbitrary: i us')
    (force simp: sec_def not_le Let_def split: if_splits prod.splits)+

lemma Config_Validate_ok:
  assumes "Config_Validate c = (c', None)"
  shows "Upstreams c' \<noteq> []" "\<forall>u \<in> set (Upstreams c'). up_Address u \<noteq> [] \<and> 0 < up_Timeout u"
    "0 < RequestTimeout (cfg_Server c')" "0 \<le> MaxInflightUpdates c'"
    "\<forall>r \<in> set (ProcessingRules c'). rule_Opcode r \<le> 15 \<and> Modules r \<noteq> []"
    "Config_Validate c' = (c', None)"
proof -
  from assms obtain ups where 1: "Upstreams c \<noteq> []" "0 < RequestTimeout (cfg_Server c)" "check_tls (cfg_Server c) = None"
    "check_rules 0 (ProcessingRules c) = None" "check_upstreams 0 (Upstreams c) = (ups, None)"
    "c' = c\<lparr>Upstreams := ups\<rparr>" "\<not> MaxInflightUpdates c < 0" "sv_Address (cfg_Server c) \<noteq> []"
    "\<exists>x. SplitHostPort (sv_Address (cfg_Server c)) = Inr x"
    by (auto simp: Config_Validate_def split: if_splits option.splits sum.splits prod.splits)
  note u = check_upstreams_None [OF 1(5)]
  have nonempty: "ups \<noteq> []" using u 1(1) by auto
  have all: "\<forall>u \<in> set ups. up_Address u \<noteq> [] \<and> 0 < up_Timeout u"
    using u by (metis image_eqI list.set_map)
  have again: "check_upstreams i us = (us, None)" if "\<forall>u \<in> set us. up_Address u \<noteq> [] \<and> 0 < up_Timeout u" for us i
    using that by (induction us arbitrary: i) auto
  show "Upstreams c' \<noteq> []" using 1 nonempty by simp
  show "\<forall>u \<in> set (Upstreams c'). up_Address u \<noteq> [] \<and> 0 < up_Timeout u" using 1 all by simp
  show "0 < RequestTimeout (cfg_Server c')" "0 \<le> MaxInflightUpdates c'" using 1 by simp_all
  show "\<forall>r \<in> set (ProcessingRules c'). rule_Opcode r \<le> 15 \<and> Modules r \<noteq> []" using 1 by (simp add: check_rules_None)
  show "Config_Validate c' = (c', None)" using 1 nonempty again [OF all] by (auto simp: Config_Validate_def)
qed

lemma GetOpcodeMap_last:
  "GetOpcodeMap c opcode = map_option Modules (find (\<lambda>r. rule_Opcode r = opcode) (rev (ProcessingRules c)))"
proof -
  have "foldl (\<lambda>m rule. m(rule_Opcode rule \<mapsto> Modules rule)) m rs opcode =
      (case find (\<lambda>r. rule_Opcode r = opcode) (rev rs) of None \<Rightarrow> m opcode | Some r \<Rightarrow> Some (Modules r))"
    for rs and m :: "u8 \<Rightarrow> string list option"
    by (induction rs rule: rev_induct) auto
  from this [of Map.empty "ProcessingRules c"] show ?thesis unfolding GetOpcodeMap_def by (cases "find (\<lambda>r. rule_Opcode r = opcode) (rev (ProcessingRules c))") simp_all
qed

end
