(* ===== verification/Router.thy ===== *)
theory Router
  imports Update_Properties Srp_Properties Proxy_Config
begin

text \<open>
  The router (\<open>server/router.go\<close>), the resolver it forwards to (\<open>forward/forward.go\<close>) and the
  construction of the server (\<open>New\<close> of \<open>server/server.go\<close>).

  A handler is a function on the request and a state \<open>'w\<close> that all handlers share; what it panics
  with is the left side of the sum. A router's handlers are a Go map from names, here an
  association list: the order in which the dump visits them is the order of that list, any order.
  The text of a dump is what a handler gives for a level, a parameter.

  \<open>Query\<close> asks all servers at once and waits; what comes first is an argument, the list of the
  events its \<open>select\<close> sees. When nothing else comes the timer is the next event.

  The interface of a handler is the locale \<open>serving\<close>, what a router of such handlers does the
  locale \<open>routing\<close>; both handlers of the proxy are interpretations of the first, and the router
  with the two of them of the second.
\<close>

subsection \<open>The resolver\<close>

record Resolver =
  servers :: "string list"
  protocol :: string
  res_timeout :: int

datatype forward_error = ServerRequired | QueryTimeout | QueryCancelled | AllUpstreamsFailed | NoResolver

definition NewResolver :: "string list \<Rightarrow> string \<Rightarrow> int \<Rightarrow> forward_error + Resolver" where
  "NewResolver ss proto timeout =
     (if ss = [] then Inl ServerRequired
      else Inr \<lparr>servers = ss, protocol = (if proto = [] then ''udp'' else proto),
        res_timeout = (if timeout \<le> 0 then sec 5 else timeout)\<rparr>)"

text \<open>An exchange gives no message when it fails or times out.\<close>

type_synonym dns_exchange = "string \<Rightarrow> string \<Rightarrow> msg \<Rightarrow> msg option"

definition exchange :: "dns_exchange \<Rightarrow> Resolver \<Rightarrow> msg \<Rightarrow> string \<Rightarrow> msg option" where
  "exchange ex r m server = ex (if protocol r = [] then ''udp'' else protocol r) server m"

datatype event = Arrives string | TimedOut | Cancelled

fun collect :: "dns_exchange \<Rightarrow> Resolver \<Rightarrow> msg \<Rightarrow> nat \<Rightarrow> event list \<Rightarrow> forward_error + msg" where
  "collect ex r m 0 es = Inl AllUpstreamsFailed"
| "collect ex r m (Suc n) (Arrives server # es) =
     (case exchange ex r m server of Some resp \<Rightarrow> Inr resp | None \<Rightarrow> collect ex r m n es)"
| "collect ex r m (Suc n) (Cancelled # es) = Inl QueryCancelled"
| "collect ex r m (Suc n) (TimedOut # es) = Inl QueryTimeout"
| "collect ex r m (Suc n) [] = Inl QueryTimeout"

definition Query :: "dns_exchange \<Rightarrow> Resolver \<Rightarrow> event list \<Rightarrow> msg \<Rightarrow> forward_error + msg" where
  "Query ex r es m = collect ex r m (length (servers r)) es"

subsection \<open>The router\<close>

record 'w handler =
  handle :: "msg \<Rightarrow> 'w \<Rightarrow> panic + (HandlerResult option \<times> 'w)"
  DumpLeasesLevel :: "(string \<Rightarrow> 'w \<Rightarrow> string) option"
  DumpLeases :: "('w \<Rightarrow> string) option"

record 'w Router =
  opcodeMap :: "u8 \<Rightarrow> string list option"
  handlers :: "'w handler gomap"
  resolver :: "Resolver option"
  requestTimeout :: int

datatype route_panic = HandlerPanic panic | NilProcessedMessage

definition NewRouter :: "(u8 \<Rightarrow> string list option) \<Rightarrow> Resolver option \<Rightarrow> int \<Rightarrow> 'w Router option" where
  "NewRouter ops res timeout =
     (if timeout \<le> 0 then None
      else Some \<lparr>opcodeMap = ops, handlers = [], resolver = res, requestTimeout = timeout\<rparr>)"

definition RegisterHandler :: "string \<Rightarrow> 'w handler \<Rightarrow> 'w Router \<Rightarrow> 'w Router" where
  "RegisterHandler name h r = r\<lparr>handlers := mput name h (handlers r)\<rparr>"

definition moduleForOpcode :: "'w Router \<Rightarrow> u8 \<Rightarrow> string list option" where
  "moduleForOpcode r opcode = opcodeMap r opcode"

definition forwardMessage :: "dns_exchange \<Rightarrow> event list \<Rightarrow> 'w Router \<Rightarrow> msg \<Rightarrow> forward_error + msg" where
  "forwardMessage ex es r m = (case resolver r of None \<Rightarrow> Inl NoResolver | Some res \<Rightarrow> Query ex res es m)"

definition server_failure :: "msg \<Rightarrow> msg" where
  "server_failure m = empty_msg\<lparr>msg_ID := msg_ID m, msg_Rcode := RcodeServerFailure, msg_Response := True\<rparr>"

definition forwardToUpstream :: "dns_exchange \<Rightarrow> event list \<Rightarrow> 'w Router \<Rightarrow> msg \<Rightarrow> msg" where
  "forwardToUpstream ex es r m =
     (case forwardMessage ex es r m of Inl _ \<Rightarrow> server_failure m | Inr resp \<Rightarrow> resp)"

definition dumpQueryName :: string where
  "dumpQueryName = ''__dump.sig0lease.internal.''"

definition dumpQueryDebugName :: string where
  "dumpQueryDebugName = ''__dump.sig0lease.internal.debug.''"

definition isDumpQuery :: "msg \<Rightarrow> bool" where
  "isDumpQuery m =
     (case msg_Question m of
        [] \<Rightarrow> False
      | q # _ \<Rightarrow> RRToType q = TypeTXT \<and> (EqualFold (rr_name q) dumpQueryName \<or> EqualFold (rr_name q) dumpQueryDebugName))"

definition dumpLevelFromQuery :: "msg \<Rightarrow> string" where
  "dumpLevelFromQuery m =
     (case msg_Question m of
        [] \<Rightarrow> ''info''
      | q # _ \<Rightarrow> if EqualFold (rr_name q) dumpQueryDebugName then ''debug'' else ''info'')"

definition dump_of :: "string \<Rightarrow> 'w \<Rightarrow> 'w handler \<Rightarrow> string option" where
  "dump_of level w h =
     (case DumpLeasesLevel h of
        Some dump \<Rightarrow> Some (dump level w)
      | None \<Rightarrow> (case DumpLeases h of Some dump \<Rightarrow> Some (dump w) | None \<Rightarrow> None))"

definition dump_text :: "string \<Rightarrow> 'w handler gomap \<Rightarrow> 'w \<Rightarrow> string" where
  "dump_text level hs w =
     (let dumps = List.map_filter (dump_of level w) (mvals hs) in
      if dumps = []
      then (if level = ''debug'' then ''=== Lease Store Dump ==='' else ''=== Lease Store Summary ==='') @ [CHR 0x0A] @
           ''(no dump-capable handlers configured)'' @ [CHR 0x0A]
      else concat dumps)"

definition maxTxtLen :: nat where
  "maxTxtLen = 240"

function txt_chunks :: "string \<Rightarrow> string list" where
  "txt_chunks [] = []"
| "txt_chunks (c # cs) = take maxTxtLen (c # cs) # txt_chunks (drop maxTxtLen (c # cs))"
  by pat_completeness auto
termination
  by (relation "measure length") (auto simp: maxTxtLen_def)

definition handleDumpQuery :: "'w Router \<Rightarrow> msg \<Rightarrow> 'w \<Rightarrow> msg" where
  "handleDumpQuery r m w =
     empty_msg\<lparr>msg_ID := msg_ID m, msg_Response := True, msg_Authoritative := True, msg_Question := msg_Question m,
       msg_Answer := map (\<lambda>c. \<lparr>rr_name = dumpQueryName, rr_class = ClassINET, rr_ttl = 0, rr_data = TXT_data [c]\<rparr>)
         (txt_chunks (dump_text (dumpLevelFromQuery m) (handlers r) w))\<rparr>"

fun try_handlers ::
  "dns_exchange \<Rightarrow> event list \<Rightarrow> 'w Router \<Rightarrow> string list \<Rightarrow> msg \<Rightarrow> 'w \<Rightarrow> route_panic + (msg \<times> 'w)"
where
  "try_handlers ex es r [] m w = Inr (forwardToUpstream ex es r m, w)"
| "try_handlers ex es r (moduleName # rest) m w =
     (case mget (handlers r) moduleName of
        None \<Rightarrow> try_handlers ex es r rest m w
      | Some h \<Rightarrow>
          (case handle h m w of
             Inl p \<Rightarrow> Inl (HandlerPanic p)
           | Inr (None, w') \<Rightarrow> try_handlers ex es r rest m w'
           | Inr (Some result, w') \<Rightarrow>
               (case Status result of
                  StatusProcessed \<Rightarrow>
                    (case Message result of None \<Rightarrow> Inl NilProcessedMessage | Some x \<Rightarrow> Inr (x, w'))
                | StatusNotRelevant \<Rightarrow> try_handlers ex es r rest m w'
                | StatusError \<Rightarrow>
                    Inr (case Message result of Some x \<Rightarrow> x | None \<Rightarrow> server_failure m, w'))))"

definition Route :: "dns_exchange \<Rightarrow> event list \<Rightarrow> 'w Router \<Rightarrow> msg \<Rightarrow> 'w \<Rightarrow> route_panic + (msg \<times> 'w)" where
  "Route ex es r m w =
     (if isDumpQuery m then Inr (handleDumpQuery r m w, w)
      else case moduleForOpcode r (msg_Opcode m) of
        None \<Rightarrow> Inr (forwardToUpstream ex es r m, w)
      | Some moduleNames \<Rightarrow>
          if moduleNames = [] then Inr (forwardToUpstream ex es r m, w)
          else try_handlers ex es r moduleNames m w)"

subsection \<open>The server\<close>

datatype server_error = UpstreamRequired | ResolverFailed forward_error | RouterFailed

definition server_New :: "proxy_Config \<Rightarrow> server_error + 'w Router" where
  "server_New cfg =
     (case Upstreams cfg of
        [] \<Rightarrow> Inl UpstreamRequired
      | u # _ \<Rightarrow>
          (case NewResolver (filter (\<lambda>a. a \<noteq> []) (map up_Address (Upstreams cfg))) (up_Protocol u) (up_Timeout u) of
             Inl e \<Rightarrow> Inl (ResolverFailed e)
           | Inr res \<Rightarrow>
               (case NewRouter (GetOpcodeMap cfg) (Some res) (RequestTimeout (cfg_Server cfg)) of
                  None \<Rightarrow> Inl RouterFailed
                | Some r \<Rightarrow> Inr r)))"

text \<open>What \<open>handleRequest\<close> writes back: the router's answer, if the handlers did not panic.\<close>

definition handleRequest :: "dns_exchange \<Rightarrow> event list \<Rightarrow> 'w Router \<Rightarrow> msg \<Rightarrow> 'w \<Rightarrow> route_panic + (msg list \<times> 'w)" where
  "handleRequest ex es r m w = (case Route ex es r m w of Inl p \<Rightarrow> Inl p | Inr (resp, w') \<Rightarrow> Inr ([resp], w'))"

subsection \<open>Forwarding\<close>

lemma collect_Inr: "collect ex r m n es = Inr resp \<Longrightarrow> \<exists>s. Arrives s \<in> set es \<and> exchange ex r m s = Some resp"
  by (induction ex r m n es rule: collect.induct) (auto split: option.splits)

lemma collect_arrivals:
  "length ss \<le> n \<Longrightarrow> \<exists>s \<in> set ss. exchange ex r m s \<noteq> None \<Longrightarrow>
   \<exists>resp. collect ex r m n (map Arrives ss @ es) = Inr resp \<and> exchange ex r m (hd (dropWhile (\<lambda>s. exchange ex r m s = None) ss)) = Some resp"
proof (induction ss arbitrary: n)
  case (Cons s ss)
  then obtain k where "n = Suc k" "length ss \<le> k" by (cases n) auto
  with Cons show ?case by (cases "exchange ex r m s") auto
qed simp

subsection \<open>The dump\<close>

lemma concat_chunks: "concat (txt_chunks s) = s"
  by (induction s rule: txt_chunks.induct) auto

lemma length_chunks: "c \<in> set (txt_chunks s) \<Longrightarrow> c \<noteq> [] \<and> length c \<le> 240"
  by (induction s rule: txt_chunks.induct) (auto simp: maxTxtLen_def)

text \<open>The strings of a dump answer, put together, are the dump; each fits into a TXT string.\<close>

lemma handleDumpQuery_text:
  assumes "msg_Answer (handleDumpQuery R m w) = map (\<lambda>c. \<lparr>rr_name = dumpQueryName, rr_class = ClassINET, rr_ttl = 0, rr_data = TXT_data [c]\<rparr>) cs"
  shows "concat cs = dump_text (dumpLevelFromQuery m) (handlers R) w" "\<forall>c \<in> set cs. length c \<le> 240"
proof -
  have "inj (\<lambda>c. \<lparr>rr_name = dumpQueryName, rr_class = ClassINET, rr_ttl = 0, rr_data = TXT_data [c]\<rparr>)"
    by (rule injI) simp
  with assms have "cs = txt_chunks (dump_text (dumpLevelFromQuery m) (handlers R) w)"
    by (simp add: handleDumpQuery_def inj_map_eq_map)
  then show "concat cs = dump_text (dumpLevelFromQuery m) (handlers R) w" "\<forall>c \<in> set cs. length c \<le> 240"
    using concat_chunks length_chunks by auto
qed

subsection \<open>What a handler promises the router\<close>

definition replies :: "msg \<Rightarrow> HandlerResult \<Rightarrow> bool" where
  "replies m res \<longleftrightarrow> (\<exists>x. Message res = Some x \<and> msg_ID x = msg_ID m \<and> msg_Response x)"

locale serving =
  fixes run_handler :: "msg \<Rightarrow> 'w \<Rightarrow> panic + (HandlerResult option \<times> 'w)" and inv :: "'w \<Rightarrow> bool"
  assumes total: "inv w \<Longrightarrow> \<exists>res w'. run_handler m w = Inr (Some res, w') \<and> inv w'"
    and declines: "inv w \<Longrightarrow> run_handler m w = Inr (Some res, w') \<Longrightarrow> Status res = StatusNotRelevant \<Longrightarrow> w' = w"
    and answers: "inv w \<Longrightarrow> run_handler m w = Inr (Some res, w') \<Longrightarrow> Status res \<noteq> StatusNotRelevant \<Longrightarrow> replies m res"

definition declined :: "'w Router \<Rightarrow> msg \<Rightarrow> 'w \<Rightarrow> string \<Rightarrow> bool" where
  "declined R m w name \<longleftrightarrow> (\<forall>h. mget (handlers R) name = Some h \<longrightarrow>
     (\<exists>res. handle h m w = Inr (Some res, w) \<and> Status res = StatusNotRelevant))"

locale routing =
  fixes R :: "'w Router" and inv :: "'w \<Rightarrow> bool"
  assumes each: "mget (handlers R) name = Some h \<Longrightarrow> serving (handle h) inv"
begin

lemma try_handlers_ok:
  assumes "inv w"
  shows "(try_handlers ex es R ms m w = Inr (forwardToUpstream ex es R m, w) \<and> (\<forall>name \<in> set ms. declined R m w name)) \<or>
    (\<exists>before name rest h res x w'. ms = before @ name # rest \<and> (\<forall>n \<in> set before. declined R m w n) \<and>
       mget (handlers R) name = Some h \<and> handle h m w = Inr (Some res, w') \<and> inv w' \<and> Status res \<noteq> StatusNotRelevant \<and>
       Message res = Some x \<and> msg_ID x = msg_ID m \<and> msg_Response x \<and> try_handlers ex es R ms m w = Inr (x, w'))"
proof (induction ms)
  case (Cons name rest)
  show ?case
  proof (cases "declined R m w name")
    case True
    then have "try_handlers ex es R (name # rest) m w = try_handlers ex es R rest m w"
      by (auto simp: declined_def split: option.splits)
    with True Cons.IH show ?thesis by (metis append_Cons set_ConsD)
  next
    case False
    then obtain h where h: "mget (handlers R) name = Some h" by (auto simp: declined_def)
    note sv = each [OF h]
    obtain res w' where run: "handle h m w = Inr (Some res, w')" "inv w'" using serving.total [OF sv assms] by blast
    have st: "Status res \<noteq> StatusNotRelevant" using False h run serving.declines [OF sv assms run(1)] by (auto simp: declined_def)
    then obtain x where "Message res = Some x" "msg_ID x = msg_ID m" "msg_Response x"
      using serving.answers [OF sv assms run(1)] by (auto simp: replies_def)
    with h run st have "\<exists>x. Message res = Some x \<and> msg_ID x = msg_ID m \<and> msg_Response x \<and>
        try_handlers ex es R (name # rest) m w = Inr (x, w')"
      by (cases "Status res") auto
    with h run st show ?thesis by (metis append_Nil empty_iff empty_set)
  qed
qed simp

end

subsection \<open>The proxy's two handlers\<close>

record proxy_state =
  srp_st :: srp_state
  upd_st :: proxy

definition srp_module ::
  "dnslib \<Rightarrow> (msg \<Rightarrow> key \<Rightarrow> bool) \<Rightarrow> SRPHandler \<Rightarrow> srpCoordinator \<Rightarrow> srp_clock \<Rightarrow> bool \<Rightarrow> (string \<Rightarrow> srp_state \<Rightarrow> string) \<Rightarrow>
   proxy_state handler"
where
  "srp_module lib verify h co t isUDP dump =
     \<lparr>handle = (\<lambda>m w. case srp_Handle lib verify h co t isUDP (Some m) (srp_st w) of
          Inl p \<Rightarrow> Inl p
        | Inr (res, s) \<Rightarrow> Inr (Some res, w\<lparr>srp_st := s\<rparr>)),
      DumpLeasesLevel = Some (\<lambda>level w. dump level (srp_st w)), DumpLeases = None\<rparr>"

text \<open>\<open>before\<close> is the state when the request was checked, as in \<open>Handle\<close>.\<close>

definition update_module ::
  "dnslib \<Rightarrow> (msg \<Rightarrow> key \<Rightarrow> bool) \<Rightarrow> UpdateHandler \<Rightarrow> coordinator \<Rightarrow> clock \<Rightarrow> proxy \<Rightarrow> (string \<Rightarrow> proxy \<Rightarrow> string) \<Rightarrow>
   proxy_state handler"
where
  "update_module lib verify h co t before dump =
     \<lparr>handle = (\<lambda>m w. case Handle lib verify h co t (Some m) before (upd_st w) of
          Inl p \<Rightarrow> Inl p
        | Inr (res, y) \<Rightarrow> Inr (Some res, w\<lparr>upd_st := y\<rparr>)),
      DumpLeasesLevel = Some (\<lambda>level w. dump level (upd_st w)), DumpLeases = None\<rparr>"

definition proxy_inv :: "dnslib \<Rightarrow> srpCoordinator \<Rightarrow> coordinator \<Rightarrow> proxy_state \<Rightarrow> bool" where
  "proxy_inv lib sco co w \<longleftrightarrow> plain_text lib \<and> requireUpstream (base sco) \<and> requireUpstream co \<and>
     wf_store lib (lm (core (srp_st w))) \<and> wf_store lib (lm (upd_st w))"

lemma replies_error: "msg_ID r = msg_ID m \<Longrightarrow> replies m (NewErrorResult (Some (makeErrorResponse r rcode)))"
  by (simp add: replies_def NewErrorResult_def makeErrorResponse_def updateResponse_def)

lemma replies_failure: "replies r (update_failure r e)"
  by (simp add: update_failure_def replies_error)

lemma result_status:
  "Status (NewErrorResult x) = StatusError" "Status (NewProcessedResult y) = StatusProcessed"
  "Status NewNotRelevantResult = StatusNotRelevant" "Status (update_failure r e) = StatusError"
  by (simp_all add: update_failure_def NewErrorResult_def NewProcessedResult_def NewNotRelevantResult_def)

lemma refuseDotted_replies: "refuseDottedLabels r = Some res \<Longrightarrow> replies r res \<and> Status res = StatusError"
  by (auto simp: refuseDottedLabels_def replies_error result_status split: if_splits sum.splits option.splits)

lemma replies_success:
  "replies r (NewProcessedResult (buildSuccessResponse lib r ns l kl))"
  "msg_ID r' = msg_ID r \<Longrightarrow> replies r (NewProcessedResult (leaseResponse lib r' l kl))"
  by (simp_all add: replies_def NewProcessedResult_def buildSuccessResponse_def appendStatusNotes_def leaseResponse_def
      updateResponse_def Let_def)

lemma handleLocked_replies:
  assumes "handleLocked lib h co t r q y = Inr (res, y')"
  shows "replies r res \<and> Status res \<noteq> StatusNotRelevant"
  using assms
  by (auto simp: handleLocked_def handleC_def forwardAndApply_def Let_def replies_failure replies_success result_status
      split: if_splits sum.splits prod.splits option.splits)

lemma Handle_replies:
  assumes "wf_store lib (lm y)" "plain_text lib" "Handle lib verify h co t (Some m) y0 y = Inr (res, y')"
  shows "if Status res = StatusNotRelevant then y' = y \<and> \<not> hasUpdateLeaseOption m else replies m res"
proof -
  have "hasUpdateLeaseOption m \<Longrightarrow> replies m res \<and> Status res \<noteq> StatusNotRelevant"
    using assms(3) handleLocked_replies refuseDotted_replies replies_failure
    by (fastforce simp: Handle_def result_status split: if_splits option.splits sum.splits prod.splits)
  moreover have "\<not> hasUpdateLeaseOption m \<Longrightarrow> y' = y \<and> Status res = StatusNotRelevant"
    using assms(3) by (auto simp: Handle_def result_status)
  ultimately show ?thesis by auto
qed

lemma srp_request_ID: "srp_request verify h co udp m = Inr (Inr (r, cu)) \<Longrightarrow> msg_ID r = msg_ID m"
  by (auto simp: srp_request_def rewriteDefaultServiceARPA_def Let_def split: sum.splits list.splits if_splits option.splits)

lemma srp_error_replies:
  assumes "msg_ID r = msg_ID m" "\<forall>res. f = DottedLabels res \<longrightarrow> replies m res \<and> Status res = StatusError" "f \<noteq> NilRequest"
  shows "if Status (srp_error_reply r f) = StatusNotRelevant then f = ZoneNotEnabled \<or> (\<exists>e. f = NotSrp e)
         else replies m (srp_error_reply r f)"
  using assms by (cases f) (auto simp: srp_error_reply_def replies_error result_status)

definition late_failure :: "srp_failure \<Rightarrow> bool" where
  "late_failure f \<longleftrightarrow> (case f of NilRequest \<Rightarrow> False | NotSrp _ \<Rightarrow> False | ZoneNotEnabled \<Rightarrow> False | DottedLabels _ \<Rightarrow> False | _ \<Rightarrow> True)"

lemma fcfs_names_late: "fcfs_names view query zone refuse ns = Inl f \<Longrightarrow> late_failure f"
  by (induction view query zone refuse ns rule: fcfs_names.induct)
    (auto simp: late_failure_def split: sum.splits FCFSResult.splits)

lemma srp_locked_late: "srp_locked lib h co t r cu y = (Inl f, y') \<Longrightarrow> late_failure f"
  by (auto simp: srp_locked_def Let_def fcfs_names_late
      split: sum.splits option.splits prod.splits send_error.splits if_splits)
    (auto simp: late_failure_def)

lemma late_replies: "late_failure f \<Longrightarrow> msg_ID r = msg_ID m \<Longrightarrow> replies m (srp_error_reply r f) \<and> Status (srp_error_reply r f) = StatusError"
  by (cases f) (auto simp: late_failure_def srp_error_reply_def replies_error result_status)

lemma srp_request_early:
  assumes "srp_request verify h co udp m = Inr (Inl f)"
  shows "if Status (srp_error_reply m f) = StatusNotRelevant then True else replies m (srp_error_reply m f)"
proof -
  have "f \<noteq> NilRequest" "\<forall>res. f = DottedLabels res \<longrightarrow> refuseDottedLabels m = Some res"
    using assms by (auto simp: srp_request_def Let_def split: sum.splits list.splits if_splits option.splits)
  then have "\<forall>res. f = DottedLabels res \<longrightarrow> replies m res \<and> Status res = StatusError" "f \<noteq> NilRequest"
    using refuseDotted_replies by blast+
  from srp_error_replies [OF refl this] show ?thesis by (auto split: if_splits)
qed

lemma srp_Handle_replies:
  assumes "srp_Handle lib verify h co t udp (Some m) y = Inr (res, y')"
  shows "if Status res = StatusNotRelevant then y' = y else replies m res"
proof (cases "\<exists>r cu. srp_request verify h (base co) udp m = Inr (Inr (r, cu))")
  case True
  then obtain r cu where r: "srp_request verify h (base co) udp m = Inr (Inr (r, cu))" by blast
  note rid = srp_request_ID [OF r]
  have "late_failure LocksContended" by (simp add: late_failure_def)
  then have "(\<exists>f. late_failure f \<and> res = srp_error_reply r f) \<or> (\<exists>l kl. res = NewProcessedResult (leaseResponse lib r l kl))"
    using assms r by (auto simp: srp_Handle_def Let_def dest: srp_locked_late split: option.splits sum.splits prod.splits)
  then show ?thesis using late_replies [OF _ rid] replies_success(2) [OF rid] by (auto simp: result_status)
next
  case False
  then obtain f where "srp_request verify h (base co) udp m = Inr (Inl f)" "res = srp_error_reply m f" "y' = y"
    using assms by (auto simp: srp_Handle_def split: sum.splits)
  then show ?thesis using srp_request_early by (auto split: if_splits)
qed

lemma srp_serving: "serving (handle (srp_module lib verify h sco t udp dump)) (proxy_inv lib sco co)"
proof
  fix w m
  assume inv: "proxy_inv lib sco co w"
  then obtain res s where run: "srp_Handle lib verify h sco t udp (Some m) (srp_st w) = Inr (res, s)" "wf_store lib (lm (core s))"
    using srp_runs [of lib "srp_st w" sco verify h t udp "Some m"] by (auto simp: proxy_inv_def)
  then have eq: "handle (srp_module lib verify h sco t udp dump) m w = Inr (Some res, w\<lparr>srp_st := s\<rparr>)"
    by (simp add: srp_module_def)
  show "\<exists>res w'. handle (srp_module lib verify h sco t udp dump) m w = Inr (Some res, w') \<and> proxy_inv lib sco co w'"
    using eq run inv by (simp add: proxy_inv_def)
  fix res' w'
  assume "handle (srp_module lib verify h sco t udp dump) m w = Inr (Some res', w')"
  with eq have *: "res' = res" "w' = w\<lparr>srp_st := s\<rparr>" by simp_all
  show "w' = w" if "Status res' = StatusNotRelevant" using srp_Handle_replies [OF run(1)] * that by simp
  show "replies m res'" if "Status res' \<noteq> StatusNotRelevant" using srp_Handle_replies [OF run(1)] * that by simp
qed

lemma update_serving: "serving (handle (update_module lib verify h co t before dump)) (proxy_inv lib sco co)"
proof
  fix w m
  assume inv: "proxy_inv lib sco co w"
  then have hyps: "wf_store lib (lm (upd_st w))" "plain_text lib" "requireUpstream co" by (simp_all add: proxy_inv_def)
  then obtain res y where run: "Handle lib verify h co t (Some m) before (upd_st w) = Inr (res, y)" "wf_store lib (lm y)"
    using Handle_runs by blast
  then have eq: "handle (update_module lib verify h co t before dump) m w = Inr (Some res, w\<lparr>upd_st := y\<rparr>)"
    by (simp add: update_module_def)
  show "\<exists>res w'. handle (update_module lib verify h co t before dump) m w = Inr (Some res, w') \<and> proxy_inv lib sco co w'"
    using eq run inv by (simp add: proxy_inv_def)
  fix res' w'
  assume "handle (update_module lib verify h co t before dump) m w = Inr (Some res', w')"
  with eq have *: "res' = res" "w' = w\<lparr>upd_st := y\<rparr>" by simp_all
  note rep = Handle_replies [OF hyps(1,2) run(1)]
  show "w' = w" if "Status res' = StatusNotRelevant" using rep * that by simp
  show "replies m res'" if "Status res' \<noteq> StatusNotRelevant" using rep * that by simp
qed

record proxy_env =
  env_lib :: dnslib
  env_verify :: "msg \<Rightarrow> key \<Rightarrow> bool"
  env_srp :: SRPHandler
  env_srpCo :: srpCoordinator
  env_srpClock :: srp_clock
  env_UDP :: bool
  env_srpDump :: "string \<Rightarrow> srp_state \<Rightarrow> string"
  env_update :: UpdateHandler
  env_updateCo :: coordinator
  env_updateClock :: clock
  env_before :: proxy
  env_updateDump :: "string \<Rightarrow> proxy \<Rightarrow> string"

text \<open>The handlers \<open>newHandler\<close> of the command knows by name, and the registration of those the rules name.\<close>

definition newHandler :: "proxy_env \<Rightarrow> string \<Rightarrow> proxy_state handler option" where
  "newHandler env name =
     (if name = ''update_handler''
      then Some (update_module (env_lib env) (env_verify env) (env_update env) (env_updateCo env) (env_updateClock env)
             (env_before env) (env_updateDump env))
      else if name = ''srp_handler''
      then Some (srp_module (env_lib env) (env_verify env) (env_srp env) (env_srpCo env) (env_srpClock env) (env_UDP env)
             (env_srpDump env))
      else None)"

fun register_all :: "proxy_env \<Rightarrow> string list \<Rightarrow> proxy_state Router \<Rightarrow> proxy_state Router" where
  "register_all env [] r = r"
| "register_all env (name # rest) r =
     (if mget (handlers r) name \<noteq> None then register_all env rest r
      else case newHandler env name of
        None \<Rightarrow> register_all env rest r
      | Some h \<Rightarrow> register_all env rest (RegisterHandler name h r))"

definition env_inv :: "proxy_env \<Rightarrow> proxy_state \<Rightarrow> bool" where
  "env_inv env = proxy_inv (env_lib env) (env_srpCo env) (env_updateCo env)"

interpretation srp_serves: serving "handle (srp_module lib verify h sco t udp dump)" "proxy_inv lib sco co"
  for lib verify h sco t udp dump co
  by (rule srp_serving)

interpretation update_serves: serving "handle (update_module lib verify h co t before dump)" "proxy_inv lib sco co"
  for lib verify h co t before dump sco
  by (rule update_serving)

lemma newHandler_serving: "newHandler env name = Some h \<Longrightarrow> serving (handle h) (env_inv env)"
  by (auto simp: newHandler_def env_inv_def srp_serves.serving_axioms update_serves.serving_axioms split: if_splits)

lemma newHandler_frame:
  "newHandler env name = Some h \<Longrightarrow> handle h m w = Inr (res, w') \<Longrightarrow> srp_st w' = srp_st w \<or> upd_st w' = upd_st w"
  by (auto simp: newHandler_def srp_module_def update_module_def split: if_splits sum.splits prod.splits)

lemma register_all_handlers:
  "(\<And>n h. mget (handlers r) n = Some h \<Longrightarrow> newHandler env n = Some h) \<Longrightarrow>
   mget (handlers (register_all env mods r)) name =
     (if name \<in> set mods \<or> mget (handlers r) name \<noteq> None then newHandler env name else None)"
  by (induction env mods r rule: register_all.induct)
    (auto simp: RegisterHandler_def mget_mput split: if_splits option.splits)

lemma register_all_rest:
  "opcodeMap (register_all env mods r) = opcodeMap r" "resolver (register_all env mods r) = resolver r"
  by (induction env mods r rule: register_all.induct) (auto simp: RegisterHandler_def split: option.splits)

definition proxy_router :: "proxy_env \<Rightarrow> string list \<Rightarrow> proxy_state Router \<Rightarrow> proxy_state Router" where
  "proxy_router env mods r = register_all env mods (r\<lparr>handlers := []\<rparr>)"

lemma proxy_router_handlers:
  "mget (handlers (proxy_router env mods r)) name = (if name \<in> set mods then newHandler env name else None)"
  unfolding proxy_router_def by (subst register_all_handlers) auto

interpretation proxy_routes: routing "proxy_router env mods r" "env_inv env" for env mods r
  by (rule routing.intro) (auto simp: proxy_router_handlers newHandler_serving split: if_splits)

definition modules_for :: "'w Router \<Rightarrow> msg \<Rightarrow> string list" where
  "modules_for r m = (case moduleForOpcode r (msg_Opcode m) of None \<Rightarrow> [] | Some ms \<Rightarrow> ms)"

lemma Route_modules:
  "Route ex es r m w = (if isDumpQuery m then Inr (handleDumpQuery r m w, w) else try_handlers ex es r (modules_for r m) m w)"
  by (simp add: Route_def modules_for_def split: option.splits)

subsection \<open>Every request is answered\<close>

lemma dropWhile_split: "\<forall>x \<in> set xs. P x \<Longrightarrow> \<not> P y \<Longrightarrow> hd (dropWhile P (xs @ y # ys)) = y"
  by (induction xs) auto

text \<open>
  C15. Whatever arrives, the router with the proxy's handlers answers, without a panic and with both
  stores still well formed. A dump query gets the dump. A request that all handlers of its opcode
  decline (or that has none) is forwarded as it is, and nothing changes. Any other request is the
  business of the first handler in the configured order that does not decline: its answer, which
  carries the request's ID, is returned, and no other handler's state changes.
\<close>

theorem Route_first_handler:
  assumes "env_inv env w" and P: "P = proxy_router env mods r"
  shows "\<exists>resp w'. Route ex es P m w = Inr (resp, w') \<and> env_inv env w' \<and> (srp_st w' = srp_st w \<or> upd_st w' = upd_st w) \<and>
    (if isDumpQuery m then resp = handleDumpQuery P m w \<and> w' = w
     else if \<forall>name \<in> set (modules_for P m). declined P m w name then resp = forwardToUpstream ex es P m \<and> w' = w
     else msg_ID resp = msg_ID m \<and> msg_Response resp \<and>
       (\<exists>h res. mget (handlers P) (hd (dropWhile (declined P m w) (modules_for P m))) = Some h \<and>
          handle h m w = Inr (Some res, w') \<and> Message res = Some resp))"
proof (cases "isDumpQuery m")
  case True
  then show ?thesis using assms(1) by (simp add: Route_modules)
next
  case False
  from proxy_routes.try_handlers_ok [OF assms(1), where mods = mods and r = r and ex = ex and es = es and m = m and ms = "modules_for P m"]
  consider (forwarded) "try_handlers ex es P (modules_for P m) m w = Inr (forwardToUpstream ex es P m, w)"
      "\<forall>name \<in> set (modules_for P m). declined P m w name"
    | (handled) before name rest h res x w' where "modules_for P m = before @ name # rest" "\<forall>n \<in> set before. declined P m w n"
      "mget (handlers P) name = Some h" "handle h m w = Inr (Some res, w')" "env_inv env w'" "Status res \<noteq> StatusNotRelevant"
      "Message res = Some x" "msg_ID x = msg_ID m" "msg_Response x" "try_handlers ex es P (modules_for P m) m w = Inr (x, w')"
    unfolding P by blast
  then show ?thesis
  proof cases
    case forwarded
    then show ?thesis using False assms(1) by (simp add: Route_modules)
  next
    case handled
    have nd: "\<not> declined P m w name" using handled(3,4,6) by (auto simp: declined_def)
    then have "hd (dropWhile (declined P m w) (modules_for P m)) = name" unfolding handled(1) by (rule dropWhile_split [OF handled(2)])
    moreover have "\<not> (\<forall>name \<in> set (modules_for P m). declined P m w name)" using nd handled(1) by auto
    moreover have "srp_st w' = srp_st w \<or> upd_st w' = upd_st w"
      using newHandler_frame [OF _ handled(4)] handled(3) unfolding P by (auto simp: proxy_router_handlers split: if_splits)
    ultimately show ?thesis using False handled by (simp add: Route_modules) blast
  qed
qed

lemma server_New_valid:
  assumes "Config_Validate c = (c', None)"
  obtains R where "server_New c' = Inr R" "handlers R = []" "opcodeMap R = GetOpcodeMap c'" "0 < requestTimeout R"
    "resolver R = Some \<lparr>servers = map up_Address (Upstreams c'),
       protocol = (if up_Protocol (hd (Upstreams c')) = [] then ''udp'' else up_Protocol (hd (Upstreams c'))),
       res_timeout = up_Timeout (hd (Upstreams c'))\<rparr>"
proof -
  note v = Config_Validate_ok [OF assms]
  have f: "filter (\<lambda>a. a \<noteq> []) (map up_Address (Upstreams c')) = map up_Address (Upstreams c')" using v(2) by (simp add: filter_id_conv)
  from v(1) obtain u us where us: "Upstreams c' = u # us" by (cases "Upstreams c'") auto
  have "0 < up_Timeout u" using v(2) us by simp
  then show ?thesis using v(3) f us by (intro that) (auto simp: server_New_def NewResolver_def NewRouter_def)
qed


subsection \<open>Witnesses\<close>

definition sample_env :: proxy_env where
  "sample_env = \<lparr>env_lib = sample_lib, env_verify = (\<lambda>m k. True), env_srp = sample_srp, env_srpCo = sample_srp_co,
     env_srpClock = sample_srp_clock, env_UDP = False, env_srpDump = (\<lambda>level y. []), env_update = sample_handler,
     env_updateCo = sample_co, env_updateClock = sample_clock, env_before = sample_proxy, env_updateDump = (\<lambda>level y. [])\<rparr>"

definition sample_state :: proxy_state where
  "sample_state = \<lparr>srp_st = sample_srp_state, upd_st = sample_proxy\<rparr>"

definition sample_router :: "proxy_state Router" where
  "sample_router = \<lparr>opcodeMap = [5 \<mapsto> [''srp_handler'', ''update_handler'']], handlers = [], resolver = None, requestTimeout = 1\<rparr>"

definition sample_proxy_router :: "proxy_state Router" where
  "sample_proxy_router = proxy_router sample_env [''srp_handler'', ''update_handler''] sample_router"

lemma sample_env_inv: "env_inv sample_env sample_state"
  using sample_hyps service_hyps sample_srp_wf(2)
  by (simp add: env_inv_def proxy_inv_def sample_env_def sample_state_def requireUpstream_def sample_co_def)

theorem Route_first_handler_witness:
  "\<exists>resp w'. Route (\<lambda>_ _ _. None) [] sample_proxy_router register_request sample_state = Inr (resp, w') \<and>
    env_inv sample_env w' \<and> msg_ID resp = 7 \<and> msg_Response resp"
proof -
  have "\<not> isDumpQuery register_request" by code_simp
  moreover have "msg_ID register_request = 7" by code_simp
  moreover have "msg_ID (forwardToUpstream (\<lambda>_ _ _. None) [] sample_proxy_router m) = msg_ID m \<and>
      msg_Response (forwardToUpstream (\<lambda>_ _ _. None) [] sample_proxy_router m)" for m
    by (simp add: sample_proxy_router_def proxy_router_def forwardToUpstream_def forwardMessage_def register_all_rest
        sample_router_def server_failure_def del: register_all.simps)
  ultimately show ?thesis
    using Route_first_handler [OF sample_env_inv sample_proxy_router_def, of "\<lambda>_ _ _. None" "[]" register_request]
    by (auto split: if_splits)
qed

definition sample_address_query :: msg where
  "sample_address_query = empty_msg\<lparr>msg_ID := 9, msg_Question :=
     [\<lparr>rr_name = ''a.'', rr_class = ClassINET, rr_ttl = 0, rr_data = A_data []\<rparr>]\<rparr>"

definition second_answers :: dns_exchange where
  "second_answers proto server m = (if server = ''1.1.1.1:53'' then Some (m\<lparr>msg_Response := True\<rparr>) else None)"

lemma default_valid: "Config_Validate NewDefaultConfig = (NewDefaultConfig, None)"
  by code_simp


end
