(* ===== verification/Sig0_Signer.thy ===== *)
theory Sig0_Signer
  imports Lease_Option Node_Identity
begin

text \<open>
  Package \<open>pkg/sig0\<close>, file \<open>signer.go\<close>: SIG(0) transaction signatures (RFC 2931). The data that is
  signed is the RDATA of the SIG record without its signature, followed by the message
  (\<open>rdataOnlyPrefix\<close>); \<open>Sign\<close> and \<open>Verify\<close> choose the scheme by the algorithm of the key.

  Bytes are \<^typ>\<open>u8\<close>. The base64 of \<open>encoding/base64\<close> and the byte order of \<open>math/big\<close> are defined
  here. The schemes themselves (\<open>crypto/ed25519\<close>, \<open>crypto/ecdsa\<close>, the hash functions) and the dns
  library's \<open>CryptoSIG0\<close>, \<open>SIG0Sign\<close> and \<open>SIG0Verify\<close> are arguments: the records \<open>crypto\<close> and
  \<open>sig0lib\<close>. A private key is opaque, a text tagged by the Go type the code asks for. \<open>FillBytes\<close> panics when
  the number does not fit; that is the error \<open>BufferTooSmall\<close>.

  The theorems: equal signed data means equal SIG fields, signer and message; what \<open>SignMessage\<close> signs,
  \<open>VerifySignature\<close> accepts under the same key; and what it accepts was verified by the scheme of the
  key's algorithm over exactly these bytes.
\<close>

unbundle bit_operations_syntax

subsection \<open>Package encoding/base64\<close>

definition enc64 :: "nat \<Rightarrow> char" where
  "enc64 n = char_of (if n < 26 then n + 65 else if n < 52 then n + 71 else if n < 62 then n - 4 else if n = 62 then 43 else 47)"

definition val64 :: "char \<Rightarrow> nat option" where
  "val64 c =
     (let n = of_char c :: nat in
      if 65 \<le> n \<and> n \<le> 90 then Some (n - 65)
      else if 97 \<le> n \<and> n \<le> 122 then Some (n - 71)
      else if 48 \<le> n \<and> n \<le> 57 then Some (n + 4)
      else if n = 43 then Some 62
      else if n = 47 then Some 63
      else None)"

text \<open>\<open>StdEncoding\<close> pads with \<open>=\<close>; a decoder skips line breaks and ignores the unused bits of the last digit.\<close>

fun encode64 :: "u8 list \<Rightarrow> string" where
  "encode64 [] = []"
| "encode64 [a] = [enc64 (unat a div 4), enc64 (unat a mod 4 * 16), CHR ''='', CHR ''='']"
| "encode64 [a, b] = [enc64 (unat a div 4), enc64 (unat a mod 4 * 16 + unat b div 16), enc64 (unat b mod 16 * 4), CHR ''='']"
| "encode64 (a # b # c # rest) =
     [enc64 (unat a div 4), enc64 (unat a mod 4 * 16 + unat b div 16), enc64 (unat b mod 16 * 4 + unat c div 64), enc64 (unat c mod 64)] @
     encode64 rest"

fun decode_quads :: "string \<Rightarrow> u8 list option" where
  "decode_quads [] = Some []"
| "decode_quads (a # b # c # d # rest) =
     (case (val64 a, val64 b) of
        (Some x, Some y) \<Rightarrow>
          (if c = CHR ''='' then (if d = CHR ''='' \<and> rest = [] then Some [of_nat (x * 4 + y div 16)] else None)
           else case val64 c of
             None \<Rightarrow> None
           | Some z \<Rightarrow>
               (if d = CHR ''='' then (if rest = [] then Some [of_nat (x * 4 + y div 16), of_nat (y mod 16 * 16 + z div 4)] else None)
                else case val64 d of
                  None \<Rightarrow> None
                | Some w \<Rightarrow> (case decode_quads rest of
                    None \<Rightarrow> None
                  | Some bs \<Rightarrow> Some (of_nat (x * 4 + y div 16) # of_nat (y mod 16 * 16 + z div 4) # of_nat (z mod 4 * 64 + w) # bs))))
      | _ \<Rightarrow> None)"
| "decode_quads _ = None"

definition decode64 :: "string \<Rightarrow> u8 list option" where
  "decode64 s = decode_quads (filter (\<lambda>c. c \<noteq> CHR 0x0A \<and> c \<noteq> CHR 0x0D) s)"

subsection \<open>Package math/big\<close>

definition SetBytes :: "u8 list \<Rightarrow> nat" where
  "SetBytes bs = foldl (\<lambda>n b. 256 * n + unat b) 0 bs"

fun big_endian :: "nat \<Rightarrow> nat \<Rightarrow> u8 list" where
  "big_endian 0 n = []"
| "big_endian (Suc k) n = big_endian k (n div 256) @ [of_nat n]"

definition FillBytes :: "nat \<Rightarrow> nat \<Rightarrow> u8 list option" where
  "FillBytes k n = (if n < 256 ^ k then Some (big_endian k n) else None)"

subsection \<open>The signed data\<close>

definition bytes :: "string \<Rightarrow> u8 list" where
  "bytes s = map (\<lambda>c. of_nat (of_char c)) s"

definition appendUint32 :: "u8 list \<Rightarrow> u32 \<Rightarrow> u8 list" where
  "appendUint32 buf v = buf @ [ucast (drop_bit 24 v), ucast (drop_bit 16 v), ucast (drop_bit 8 v), ucast v]"

definition appendUint16 :: "u8 list \<Rightarrow> u16 \<Rightarrow> u8 list" where
  "appendUint16 buf v = buf @ [ucast (drop_bit 8 v), ucast v]"

definition canonicalDomainName :: "string \<Rightarrow> string" where
  "canonicalDomainName name =
     (let n = Fold name in
      if n = [] \<or> n = ''.'' then ''.'' else if \<not> HasSuffix n ''.'' then n @ ''.'' else n)"

function append_labels :: "u8 list \<Rightarrow> string \<Rightarrow> u8 list" where
  "append_labels buf name =
     (if name = [] then buf
      else let label = takeWhile (\<lambda>c. c \<noteq> CHR ''.'') name;
               rest = dropWhile (\<lambda>c. c \<noteq> CHR ''.'') name;
               buf' = buf @ [of_nat (length label)] @ bytes label
           in if rest = [] then buf' else append_labels buf' (tl rest))"
  by pat_completeness auto
termination
proof (relation "measure (\<lambda>(_, name). length name)", goal_cases)
  case (2 buf name label rest buf')
  then show ?case using length_dropWhile_le [of "\<lambda>c. c \<noteq> CHR ''.''" name]
    by (cases "dropWhile (\<lambda>c. c \<noteq> CHR ''.'') name") auto
qed simp

declare append_labels.simps [simp del]

definition appendDomainName :: "u8 list \<Rightarrow> string \<Rightarrow> u8 list" where
  "appendDomainName buf name =
     (let n = canonicalDomainName name in
      if n = ''.'' then buf @ [0] else append_labels buf (butlast n) @ [0])"

definition rdataOnlyPrefix :: "sig \<Rightarrow> u8 list" where
  "rdataOnlyPrefix sig =
     (let buf = [0, 0, sig_Algorithm sig, sig_Labels sig];
          buf = appendUint32 buf (OrigTTL sig);
          buf = appendUint32 buf (Expiration sig);
          buf = appendUint32 buf (Inception sig);
          buf = appendUint16 buf (sig_KeyTag sig)
      in appendDomainName buf (SignerName sig))"

subsection \<open>Signing and verifying\<close>

datatype Curve = P256 | P384
datatype Hash = SHA256 | SHA384

definition ecdsaCurve :: "u8 \<Rightarrow> (Curve \<times> nat \<times> Hash) option" where
  "ecdsaCurve algorithm =
     (if algorithm = 13 then Some (P256, 32, SHA256)
      else if algorithm = 14 then Some (P384, 48, SHA384)
      else None)"

datatype private_key = Ed25519Private string | EcdsaPrivate string | OtherSigner string | NoSigner string

record crypto =
  ed_sign :: "string \<Rightarrow> u8 list \<Rightarrow> u8 list option"
  ed_verify :: "u8 list \<Rightarrow> u8 list \<Rightarrow> u8 list \<Rightarrow> bool"
  ec_sign :: "string \<Rightarrow> u8 list \<Rightarrow> (nat \<times> nat) option"
  ec_verify :: "Curve \<Rightarrow> nat \<times> nat \<Rightarrow> u8 list \<Rightarrow> nat \<times> nat \<Rightarrow> bool"
  digest :: "Hash \<Rightarrow> u8 list \<Rightarrow> u8 list"
  base_Sign :: "private_key \<Rightarrow> key \<Rightarrow> sig \<Rightarrow> u8 list \<Rightarrow> u8 list option"
  base_Verify :: "key \<Rightarrow> sig \<Rightarrow> u8 list \<Rightarrow> bool"

datatype sign_error =
    NilMessage
  | NilKey
  | NilPrivateKey
  | NotACryptoSigner
  | WrongPrivateKey
  | SchemeFailed
  | BufferTooSmall
  | KeyNotBase64
  | KeyLength nat
  | SignatureNotBase64
  | SignatureLength nat
  | NotVerified
  | LibraryFailed

record sig0SignerImpl =
  impl_signer :: "private_key option"
  impl_key :: key
  impl_algorithm :: u8

definition ecdsaPublicKeyFromKEY :: "key \<Rightarrow> nat \<Rightarrow> sign_error + (nat \<times> nat)" where
  "ecdsaPublicKeyFromKEY k coordSize =
     (case decode64 (TrimSpace (PublicKey k)) of
        None \<Rightarrow> Inl KeyNotBase64
      | Some raw \<Rightarrow>
          if length raw \<noteq> 2 * coordSize then Inl (KeyLength (length raw))
          else Inr (SetBytes (take coordSize raw), SetBytes (drop coordSize raw)))"

definition signECDSA :: "crypto \<Rightarrow> sig0SignerImpl \<Rightarrow> sig \<Rightarrow> u8 list \<Rightarrow> Curve \<times> nat \<times> Hash \<Rightarrow> sign_error + u8 list" where
  "signECDSA cr s sig p = (\<lambda>(curve, coordSize, hash).
     case impl_signer s of
       Some (EcdsaPrivate priv) \<Rightarrow>
         (case ec_sign cr priv (digest cr hash (rdataOnlyPrefix sig @ p)) of
            None \<Rightarrow> Inl SchemeFailed
          | Some (r, sVal) \<Rightarrow>
              (case (FillBytes coordSize r, FillBytes coordSize sVal) of
                 (Some a, Some b) \<Rightarrow> Inr (a @ b)
               | _ \<Rightarrow> Inl BufferTooSmall))
     | _ \<Rightarrow> Inl WrongPrivateKey)"

definition verifyECDSA :: "crypto \<Rightarrow> sig0SignerImpl \<Rightarrow> sig \<Rightarrow> u8 list \<Rightarrow> Curve \<times> nat \<times> Hash \<Rightarrow> sign_error option" where
  "verifyECDSA cr s sig p = (\<lambda>(curve, coordSize, hash).
     case ecdsaPublicKeyFromKEY (impl_key s) coordSize of
       Inl e \<Rightarrow> Some e
     | Inr pub \<Rightarrow>
         (case decode64 (TrimSpace (Signature sig)) of
            None \<Rightarrow> Some SignatureNotBase64
          | Some raw \<Rightarrow>
              if length raw \<noteq> 2 * coordSize then Some (SignatureLength (length raw))
              else if ec_verify cr curve pub (digest cr hash (rdataOnlyPrefix sig @ p))
                        (SetBytes (take coordSize raw), SetBytes (drop coordSize raw))
              then None else Some NotVerified))"

definition Sign :: "crypto \<Rightarrow> sig0SignerImpl \<Rightarrow> sig \<Rightarrow> u8 list \<Rightarrow> sign_error + u8 list" where
  "Sign cr s sig p =
     (if impl_algorithm s = 15 then
        (case impl_signer s of
           Some (Ed25519Private priv) \<Rightarrow>
             (case ed_sign cr priv (rdataOnlyPrefix sig @ p) of None \<Rightarrow> Inl SchemeFailed | Some raw \<Rightarrow> Inr raw)
         | _ \<Rightarrow> Inl WrongPrivateKey)
      else case ecdsaCurve (impl_algorithm s) of
        Some curve \<Rightarrow> signECDSA cr s sig p curve
      | None \<Rightarrow>
          (case impl_signer s of
             None \<Rightarrow> Inl SchemeFailed
           | Some priv \<Rightarrow> (case base_Sign cr priv (impl_key s) sig p of None \<Rightarrow> Inl SchemeFailed | Some raw \<Rightarrow> Inr raw)))"

definition sig0_Verify :: "crypto \<Rightarrow> sig0SignerImpl \<Rightarrow> sig \<Rightarrow> u8 list \<Rightarrow> sign_error option" where
  "sig0_Verify cr s sig p =
     (if impl_algorithm s = 15 then
        (case decode64 (PublicKey (impl_key s)) of
           None \<Rightarrow> Some KeyNotBase64
         | Some pub \<Rightarrow>
             if length pub \<noteq> 32 then Some (KeyLength (length pub))
             else (case decode64 (Signature sig) of
                None \<Rightarrow> Some SignatureNotBase64
              | Some raw \<Rightarrow> if ed_verify cr pub (rdataOnlyPrefix sig @ p) raw then None else Some NotVerified))
      else case ecdsaCurve (impl_algorithm s) of
        Some curve \<Rightarrow> verifyECDSA cr s sig p curve
      | None \<Rightarrow> if base_Verify cr (impl_key s) sig p then None else Some NotVerified)"

text \<open>
  The library: \<open>SIG0Sign\<close> lets a signer sign the message whose SIG record is complete but for the
  signature, \<open>SIG0Verify\<close> lets a verifier check it.
\<close>

record sig0lib =
  SIG0Sign :: "msg \<Rightarrow> (sig \<Rightarrow> u8 list \<Rightarrow> sign_error + u8 list) \<Rightarrow> sign_error + msg"
  SIG0Verify :: "msg \<Rightarrow> key \<Rightarrow> (sig \<Rightarrow> u8 list \<Rightarrow> sign_error option) \<Rightarrow> sign_error option"

definition sig_rr :: "dnslib \<Rightarrow> u32 \<Rightarrow> key \<Rightarrow> sig" where
  "sig_rr lib now k =
     \<lparr>SignerName = key_name k, sig_Algorithm = Algorithm k, sig_KeyTag = KeyTag lib k, sig_Labels = 0, OrigTTL = 0,
      Expiration = now + 300, Inception = now - 300, Signature = []\<rparr>"

definition sig0_SignMessage :: "dnslib \<Rightarrow> crypto \<Rightarrow> sig0lib \<Rightarrow> int \<Rightarrow> msg option \<Rightarrow> key option \<Rightarrow> private_key option \<Rightarrow> sign_error + msg" where
  "sig0_SignMessage lib cr sl unix m keyRR privateKey =
     (case m of None \<Rightarrow> Inl NilMessage | Some msg \<Rightarrow>
      case keyRR of None \<Rightarrow> Inl NilKey | Some k \<Rightarrow>
      case privateKey of None \<Rightarrow> Inl NilPrivateKey | Some priv \<Rightarrow>
      case priv of NoSigner _ \<Rightarrow> Inl NotACryptoSigner | _ \<Rightarrow>
        SIG0Sign sl
          (msg\<lparr>msg_Pseudo := msg_Pseudo msg @
             [\<lparr>rr_name = ''.'', rr_class = ClassANY, rr_ttl = 0, rr_data = SIG_data (sig_rr lib (of_int unix) k)\<rparr>]\<rparr>)
          (Sign cr \<lparr>impl_signer = Some priv, impl_key = k, impl_algorithm = Algorithm k\<rparr>))"

definition VerifySignature :: "crypto \<Rightarrow> sig0lib \<Rightarrow> msg option \<Rightarrow> key option \<Rightarrow> sign_error option" where
  "VerifySignature cr sl m keyRR =
     (case m of None \<Rightarrow> Some NilMessage | Some msg \<Rightarrow>
      case keyRR of None \<Rightarrow> Some NilKey | Some k \<Rightarrow>
        SIG0Verify sl msg k (sig0_Verify cr \<lparr>impl_signer = None, impl_key = k, impl_algorithm = Algorithm k\<rparr>))"

subsection \<open>Round trips of the encodings\<close>

lemma of_char_enc64:
  "n < 64 \<Longrightarrow> (of_char (enc64 n) :: nat) = (if n < 26 then n + 65 else if n < 52 then n + 71 else if n < 62 then n - 4 else if n = 62 then 43 else 47)"
  by (auto simp: enc64_def)

lemma enc64_val64: "n < 64 \<Longrightarrow> val64 (enc64 n) = Some n"
  by (auto simp: val64_def of_char_enc64 Let_def)

lemma enc64_neq: "n < 64 \<Longrightarrow> of_char c < (43 :: nat) \<or> of_char c = (61 :: nat) \<Longrightarrow> enc64 n \<noteq> c"
  using of_char_enc64 [of n] by (auto split: if_splits)

lemma enc64_plain: "n < 64 \<Longrightarrow> enc64 n \<noteq> CHR ''='' \<and> \<not> is_space (enc64 n) \<and> enc64 n \<noteq> CHR 0x0A \<and> enc64 n \<noteq> CHR 0x0D"
  unfolding is_space_def by (simp add: enc64_neq)

lemma u8_less: "unat (a :: u8) < 256"
  using unsigned_less [of a] by simp

lemma u8_of_nat: "n < 256 \<Longrightarrow> m < 256 \<Longrightarrow> (of_nat n :: u8) = of_nat m \<longleftrightarrow> n = m"
proof -
  have "unat (of_nat n :: u8) = n" if "n < 256" for n using that by (simp add: unat_of_nat)
  then show "n < 256 \<Longrightarrow> m < 256 \<Longrightarrow> (of_nat n :: u8) = of_nat m \<longleftrightarrow> n = m" by metis
qed

lemma u8_of_unat: "of_nat (unat (a :: u8)) = a"
  by simp

lemma byte_div: "unat (a :: u8) div 4 < 64" "unat a div 16 < 16" "unat a div 64 < 4"
  using u8_less [of a] by simp_all

lemma byte_parts:
  "unat (a :: u8) div 4 < 64" "unat a mod 4 * 16 < 64" "unat a mod 16 * 4 < 64" "unat a mod 64 < 64"
  "unat a mod 4 * 16 + unat (b :: u8) div 16 < 64" "unat a mod 16 * 4 + unat b div 64 < 64"
proof -
  have m: "unat a mod 4 < 4" "unat a mod 16 < 16" by simp_all
  show "unat a div 4 < 64" by (rule byte_div)
  show "unat a mod 4 * 16 < 64" "unat a mod 16 * 4 < 64" "unat a mod 64 < 64" using m by simp_all
  show "unat a mod 4 * 16 + unat b div 16 < 64" "unat a mod 16 * 4 + unat b div 64 < 64"
    using m byte_div [of b] by linarith+
qed

text \<open>The bytes a decoder makes of the digits \<open>x\<close>, \<open>y\<close>, \<open>z\<close>, \<open>w\<close> of an encoded group.\<close>

lemma byte_joined:
  "of_nat (unat (a :: u8) div 4 * 4 + unat a mod 4 * 16 div 16) = a"
  "of_nat (unat a div 4 * 4 + (unat a mod 4 * 16 + unat (b :: u8) div 16) div 16) = a"
  "of_nat ((unat a mod 4 * 16 + unat b div 16) mod 16 * 16 + unat b mod 16 * 4 div 4) = b"
  "of_nat ((unat a mod 4 * 16 + unat b div 16) mod 16 * 16 + (unat b mod 16 * 4 + unat (c :: u8) div 64) div 4) = b"
  "of_nat ((unat b mod 16 * 4 + unat c div 64) mod 4 * 64 + unat c mod 64) = c"
proof -
  have e: "unat a mod 4 * 16 div 16 = unat a mod 4" "(unat a mod 4 * 16 + unat b div 16) div 16 = unat a mod 4"
    "(unat a mod 4 * 16 + unat b div 16) mod 16 = unat b div 16" "unat b mod 16 * 4 div 4 = unat b mod 16"
    "(unat b mod 16 * 4 + unat c div 64) div 4 = unat b mod 16" "(unat b mod 16 * 4 + unat c div 64) mod 4 = unat c div 64"
    using byte_div [of b] byte_div [of c] by simp_all
  have "unat a div 4 * 4 + unat a mod 4 * 16 div 16 = unat a"
    "unat a div 4 * 4 + (unat a mod 4 * 16 + unat b div 16) div 16 = unat a"
    "(unat a mod 4 * 16 + unat b div 16) mod 16 * 16 + unat b mod 16 * 4 div 4 = unat b"
    "(unat a mod 4 * 16 + unat b div 16) mod 16 * 16 + (unat b mod 16 * 4 + unat c div 64) div 4 = unat b"
    "(unat b mod 16 * 4 + unat c div 64) mod 4 * 64 + unat c mod 64 = unat c"
    by (simp_all only: e div_mult_mod_eq)
  then show "of_nat (unat (a :: u8) div 4 * 4 + unat a mod 4 * 16 div 16) = a"
    "of_nat (unat a div 4 * 4 + (unat a mod 4 * 16 + unat (b :: u8) div 16) div 16) = a"
    "of_nat ((unat a mod 4 * 16 + unat b div 16) mod 16 * 16 + unat b mod 16 * 4 div 4) = b"
    "of_nat ((unat a mod 4 * 16 + unat b div 16) mod 16 * 16 + (unat b mod 16 * 4 + unat (c :: u8) div 64) div 4) = b"
    "of_nat ((unat b mod 16 * 4 + unat c div 64) mod 4 * 64 + unat c mod 64) = c"
    by (simp_all only: u8_of_unat)
qed

lemma pad_plain: "\<not> is_space (CHR ''='')"
  by (simp add: is_space_def)

lemma encode64_plain: "c \<in> set (encode64 bs) \<Longrightarrow> \<not> is_space c \<and> c \<noteq> CHR 0x0A \<and> c \<noteq> CHR 0x0D"
  by (induction bs rule: encode64.induct) (auto simp: enc64_plain byte_parts pad_plain)

lemma decode_encode64: "decode64 (encode64 bs) = Some bs"
proof -
  have "filter (\<lambda>c. c \<noteq> CHR 0x0A \<and> c \<noteq> CHR 0x0D) (encode64 bs) = encode64 bs"
    using encode64_plain by (auto simp: filter_id_conv)
  moreover have "decode_quads (encode64 bs) = Some bs"
    by (induction bs rule: encode64.induct)
      (simp_all only: encode64.simps decode_quads.simps append.simps enc64_val64 enc64_plain byte_parts byte_joined
        option.case prod.case if_True if_False simp_thms)
  ultimately show ?thesis by (simp add: decode64_def)
qed

lemma TrimSpace_encode64: "TrimSpace (encode64 bs) = encode64 bs"
proof -
  have d: "dropWhile is_space xs = xs" if "\<And>c. c \<in> set xs \<Longrightarrow> \<not> is_space c" for xs
    using that by (cases xs) auto
  have "dropWhile is_space (encode64 bs) = encode64 bs" "dropWhile is_space (rev (encode64 bs)) = rev (encode64 bs)"
    by (rule d; use encode64_plain in auto)+
  then show ?thesis by (simp add: TrimSpace_def)
qed

lemma SetBytes_snoc: "SetBytes (bs @ [b]) = 256 * SetBytes bs + unat b"
  by (simp add: SetBytes_def)

lemma SetBytes_big_endian: "n < 256 ^ k \<Longrightarrow> SetBytes (big_endian k n) = n"
proof (induction k arbitrary: n)
  case (Suc k)
  have "n div 256 < 256 ^ k" using Suc.prems by (simp add: less_mult_imp_div_less mult.commute)
  then have "SetBytes (big_endian k (n div 256)) = n div 256" by (rule Suc.IH)
  moreover have "unat (of_nat n :: u8) = n mod 256" by (simp add: unat_of_nat)
  ultimately show ?case by (simp add: SetBytes_snoc)
qed (simp add: SetBytes_def)

lemma length_big_endian [simp]: "length (big_endian k n) = k"
  by (induction k arbitrary: n) simp_all

lemma FillBytes_Some: "FillBytes k n = Some bs \<Longrightarrow> length bs = k \<and> SetBytes bs = n"
  by (auto simp: FillBytes_def SetBytes_big_endian split: if_splits)

subsection \<open>The signed data is unambiguous\<close>

text \<open>The labels of a name in canonical form, and their wire form.\<close>

definition signer_labels :: "string \<Rightarrow> string list" where
  "signer_labels name = (if canonicalDomainName name = ''.'' then [] else split_at (CHR ''.'') (butlast (canonicalDomainName name)))"

definition proper_name :: "string \<Rightarrow> bool" where
  "proper_name name \<longleftrightarrow> list_all (\<lambda>l. l \<noteq> [] \<and> length l \<le> maxLabelLength) (signer_labels name)"

definition wire_label :: "string \<Rightarrow> u8 list" where
  "wire_label l = of_nat (length l) # bytes l"

definition wire_name :: "string list \<Rightarrow> u8 list" where
  "wire_name ls = concat (map wire_label ls) @ [0]"

lemma split_first:
  "split_at c s = (let l = takeWhile (\<lambda>x. x \<noteq> c) s; r = dropWhile (\<lambda>x. x \<noteq> c) s in
     if r = [] then [l] else l # split_at c (tl r))"
  by (induction s) (auto simp: Let_def split: list.splits)

lemma append_labels_split:
  "name \<noteq> [] \<Longrightarrow> last (split_at (CHR ''.'') name) \<noteq> [] \<Longrightarrow>
   append_labels buf name = buf @ concat (map wire_label (split_at (CHR ''.'') name))"
proof (induction buf name rule: append_labels.induct)
  case (1 buf name)
  let ?l = "takeWhile (\<lambda>c. c \<noteq> CHR ''.'') name" and ?r = "dropWhile (\<lambda>c. c \<noteq> CHR ''.'') name"
  show ?case
  proof (cases "?r = []")
    case True
    then have "split_at (CHR ''.'') name = [?l]" using split_first [of "CHR ''.''" name] unfolding Let_def by (simp only: if_True simp_thms)
    then show ?thesis using 1(2) True by (simp only: append_labels.simps [of buf name] wire_label_def Let_def) simp
  next
    case False
    then have s: "split_at (CHR ''.'') name = ?l # split_at (CHR ''.'') (tl ?r)"
      using split_first [of "CHR ''.''" name] unfolding Let_def by (simp only: if_False)
    then have t: "tl ?r \<noteq> []" "last (split_at (CHR ''.'') (tl ?r)) \<noteq> []"
      using 1(3) by (auto simp: Let_def)
    from 1(1) [OF 1(2) refl refl refl False t] show ?thesis
      using 1(2) False s by (simp add: append_labels.simps [of buf name] wire_label_def Let_def)
  qed
qed

lemma appendDomainName_wire: "proper_name name \<Longrightarrow> appendDomainName buf name = buf @ wire_name (signer_labels name)"
proof (cases "canonicalDomainName name = ''.''")
  case False
  let ?n = "butlast (canonicalDomainName name)"
  assume "proper_name name"
  then have l: "\<forall>l \<in> set (split_at (CHR ''.'') ?n). l \<noteq> []"
    using False by (auto simp: proper_name_def signer_labels_def list_all_iff)
  then have "last (split_at (CHR ''.'') ?n) \<noteq> []" using split_at_nonempty last_in_set by blast
  moreover from this have "?n \<noteq> []" by auto
  ultimately show ?thesis using False
    by (simp add: appendDomainName_def append_labels_split wire_name_def signer_labels_def Let_def)
qed (simp add: appendDomainName_def wire_name_def signer_labels_def Let_def)

lemma bytes_inject [simp]: "bytes a = bytes b \<longleftrightarrow> a = b"
proof -
  have "c = d" if "(of_nat (of_char c) :: u8) = of_nat (of_char d)" for c d :: char
  proof -
    have "(of_char c :: nat) = of_char d"
      using that by (subst (asm) u8_of_nat) simp_all
    then show ?thesis by simp
  qed
  then have "inj (\<lambda>c :: char. of_nat (of_char c) :: u8)" by (auto intro: injI)
  then show ?thesis by (simp add: bytes_def inj_map_eq_map)
qed

lemma wire_label_inject:
  assumes "wire_label a @ p = wire_label b @ q" and "length a \<le> 255" "length b \<le> 255"
  shows "a = b \<and> p = q"
proof -
  have "(of_nat (length a) :: u8) = of_nat (length b)" using assms(1) by (simp add: wire_label_def)
  then have "length a = length b" using assms(2,3) by (subst (asm) u8_of_nat) simp_all
  then have "length (bytes a) = length (bytes b)" by (simp add: bytes_def)
  then show ?thesis using assms(1) by (simp add: wire_label_def)
qed

lemma wire_name_inject:
  assumes "wire_name ls @ p = wire_name ms @ q"
    and "list_all (\<lambda>l. l \<noteq> [] \<and> length l \<le> maxLabelLength) ls" and "list_all (\<lambda>l. l \<noteq> [] \<and> length l \<le> maxLabelLength) ms"
  shows "ls = ms \<and> p = q"
  using assms
proof (induction ls arbitrary: ms)
  case Nil
  show ?case
  proof (cases ms)
    case (Cons m ms')
    then have "(of_nat (length m) :: u8) = 0" "length m \<le> 63" "m \<noteq> []"
      using Nil by (auto simp: wire_name_def wire_label_def maxLabelLength_def)
    then have False using u8_of_nat [of "length m" 0] by simp
    then show ?thesis ..
  qed (use Nil in \<open>simp add: wire_name_def\<close>)
next
  case (Cons l ls)
  show ?case
  proof (cases ms)
    case Nil
    then have "(of_nat (length l) :: u8) = 0" "length l \<le> 63" "l \<noteq> []"
      using Cons.prems by (auto simp: wire_name_def wire_label_def maxLabelLength_def)
    then have False using u8_of_nat [of "length l" 0] by simp
    then show ?thesis ..
  next
    case (Cons m ms')
    have "wire_label l @ (wire_name ls @ p) = wire_label m @ (wire_name ms' @ q)"
      using Cons.prems(1) Cons by (simp add: wire_name_def)
    then have "l = m \<and> wire_name ls @ p = wire_name ms' @ q"
      using Cons.prems(2,3) Cons by (intro wire_label_inject) (auto simp: maxLabelLength_def)
    then show ?thesis using Cons.IH Cons.prems(2,3) Cons by auto
  qed
qed

lemma u32_bytes_inject:
  assumes "(ucast (drop_bit 24 v) :: u8) = ucast (drop_bit 24 w)" "(ucast (drop_bit 16 v) :: u8) = ucast (drop_bit 16 w)"
    "(ucast (drop_bit 8 v) :: u8) = ucast (drop_bit 8 w)" "(ucast v :: u8) = ucast w"
  shows "v = (w :: u32)"
  by (metis assms Uint32_bytes)

lemma u16_bytes_inject:
  assumes "(ucast (drop_bit 8 v) :: u8) = ucast (drop_bit 8 w)" "(ucast v :: u8) = ucast w"
  shows "v = (w :: u16)"
proof (rule bit_word_eqI)
  fix n assume n: "n < LENGTH(16)"
  show "bit v n = bit w n"
  proof (cases "n < 8")
    case True
    then show ?thesis using arg_cong [OF assms(2), of "\<lambda>x. bit x n"] by (simp add: bit_simps)
  next
    case False
    then have "n - 8 < 8" using n by simp
    then show ?thesis using False arg_cong [OF assms(1), of "\<lambda>x. bit x (n - 8)"] by (simp add: bit_simps)
  qed
qed

lemma canonical_last: "canonicalDomainName name \<noteq> [] \<and> last (canonicalDomainName name) = CHR ''.''"
  by (auto simp: canonicalDomainName_def Let_def HasSuffix_iff)

lemma signer_labels_inject:
  assumes "signer_labels a = signer_labels b"
  shows "canonicalDomainName a = canonicalDomainName b"
proof -
  have c: "canonicalDomainName n = butlast (canonicalDomainName n) @ ''.''" for n
    using canonical_last [of n] by (metis append_butlast_last_id)
  have "butlast (canonicalDomainName a) = butlast (canonicalDomainName b)"
    using assms split_at_inj [of "CHR ''.''" "butlast (canonicalDomainName a)" "butlast (canonicalDomainName b)"]
    by (auto simp: signer_labels_def split: if_splits) (metis split_at_nonempty)+
  with c show ?thesis by metis
qed

text \<open>The eighteen bytes before the signer's name.\<close>

definition sig_header :: "sig \<Rightarrow> u8 list" where
  "sig_header s = [0, 0, sig_Algorithm s, sig_Labels s] @ PutUint32 (OrigTTL s) @ PutUint32 (Expiration s) @ PutUint32 (Inception s) @
     [ucast (drop_bit 8 (sig_KeyTag s)), ucast (sig_KeyTag s)]"

lemma rdataOnlyPrefix_header:
  "proper_name (SignerName s) \<Longrightarrow> rdataOnlyPrefix s = sig_header s @ wire_name (signer_labels (SignerName s))"
  by (simp add: rdataOnlyPrefix_def sig_header_def appendDomainName_wire appendUint32_def appendUint16_def PutUint32_def Let_def)

lemma PutUint32_inject [simp]: "PutUint32 v = PutUint32 w \<longleftrightarrow> v = w"
  using u32_bytes_inject [of v w] by (auto simp: PutUint32_def)

lemma length_sig_header: "length (sig_header s) = 18"
  by (simp add: sig_header_def PutUint32_def)

lemma sig_header_inject:
  assumes "sig_header s = sig_header t"
  shows "sig_Algorithm s = sig_Algorithm t \<and> sig_Labels s = sig_Labels t \<and> OrigTTL s = OrigTTL t \<and>
    Expiration s = Expiration t \<and> Inception s = Inception t \<and> sig_KeyTag s = sig_KeyTag t"
proof -
  have l: "length (PutUint32 v) = length (PutUint32 w)" for v w by (simp add: PutUint32_def)
  from assms show ?thesis
    by (simp add: sig_header_def append_eq_append_conv l) (blast intro: u16_bytes_inject)
qed

text \<open>
  C12. No signature can be read as one over other data: two SIG records and messages with the same signed
  bytes have the same algorithm, validity times, key tag and signer (up to case and a last dot), and
  the messages are equal. Signer names are those a message can carry: no empty label, none longer than
  63 octets.
\<close>

theorem signed_data_injective:
  assumes "rdataOnlyPrefix s @ p = rdataOnlyPrefix t @ q" and "proper_name (SignerName s)" and "proper_name (SignerName t)"
  shows "sig_Algorithm s = sig_Algorithm t \<and> sig_Labels s = sig_Labels t \<and> OrigTTL s = OrigTTL t \<and>
    Expiration s = Expiration t \<and> Inception s = Inception t \<and> sig_KeyTag s = sig_KeyTag t \<and>
    canonicalDomainName (SignerName s) = canonicalDomainName (SignerName t) \<and> p = q"
proof -
  have "sig_header s @ (wire_name (signer_labels (SignerName s)) @ p) = sig_header t @ (wire_name (signer_labels (SignerName t)) @ q)"
    using assms by (simp add: rdataOnlyPrefix_header)
  then have f: "sig_header s = sig_header t"
    and e: "wire_name (signer_labels (SignerName s)) @ p = wire_name (signer_labels (SignerName t)) @ q"
    using append_eq_append_conv [where xs = "sig_header s" and ys = "sig_header t"] by (simp_all only: length_sig_header simp_thms)
  have n: "signer_labels (SignerName s) = signer_labels (SignerName t) \<and> p = q"
    by (rule wire_name_inject [OF e]) (use assms(2,3) in \<open>simp_all only: proper_name_def\<close>)
  show ?thesis using sig_header_inject [OF f] signer_labels_inject [OF conjunct1 [OF n]] n by blast
qed


subsection \<open>What is signed, verifies\<close>

text \<open>
  What the dns library does: \<open>SIG0Sign\<close> hands the signer the SIG record of the message and the bytes
  before it, and enters the signature in base64; \<open>SIG0Verify\<close> accepts only what the verifier accepts
  on the SIG record of the message and these bytes, and accepts that if the message passes its other
  checks (\<open>usable\<close>).
\<close>

record sig0_view =
  covered :: "msg \<Rightarrow> u8 list"
  sig_in :: "msg \<Rightarrow> sig option"
  usable :: "msg \<Rightarrow> key \<Rightarrow> bool"

definition sig0lib_ok :: "sig0lib \<Rightarrow> sig0_view \<Rightarrow> bool" where
  "sig0lib_ok sl v \<longleftrightarrow>
     (\<forall>m sg m'. SIG0Sign sl m sg = Inr m' \<longrightarrow>
        (\<exists>s raw. sig_in v m = Some s \<and> sg s (covered v m) = Inr raw \<and> sig_in v m' = Some (s\<lparr>Signature := encode64 raw\<rparr>) \<and>
           covered v m' = covered v m)) \<and>
     (\<forall>m k ver. SIG0Verify sl m k ver = None \<longrightarrow> (\<exists>s. sig_in v m = Some s \<and> ver s (covered v m) = None)) \<and>
     (\<forall>m k ver s. usable v m k \<and> sig_in v m = Some s \<and> ver s (covered v m) = None \<longrightarrow> SIG0Verify sl m k ver = None)"

text \<open>A key and its private key: signatures under the one verify under the other.\<close>

definition key_pair :: "crypto \<Rightarrow> key \<Rightarrow> private_key \<Rightarrow> bool" where
  "key_pair cr k priv \<longleftrightarrow>
     (if Algorithm k = 15
      then \<exists>pub sk. priv = Ed25519Private sk \<and> decode64 (PublicKey k) = Some pub \<and> length pub = 32 \<and>
        (\<forall>data raw. ed_sign cr sk data = Some raw \<longrightarrow> ed_verify cr pub data raw)
      else \<exists>curve n h pub sk. ecdsaCurve (Algorithm k) = Some (curve, n, h) \<and> priv = EcdsaPrivate sk \<and>
        ecdsaPublicKeyFromKEY k n = Inr pub \<and> (\<forall>d rs. ec_sign cr sk d = Some rs \<longrightarrow> ec_verify cr curve pub d rs))"

lemma rdataOnlyPrefix_unsigned [simp]: "rdataOnlyPrefix (s\<lparr>Signature := t\<rparr>) = rdataOnlyPrefix s"
  by (simp add: rdataOnlyPrefix_def)

lemma Sign_verifies:
  assumes "Sign cr \<lparr>impl_signer = Some priv, impl_key = k, impl_algorithm = Algorithm k\<rparr> s p = Inr raw" and "key_pair cr k priv"
  shows "sig0_Verify cr \<lparr>impl_signer = None, impl_key = k, impl_algorithm = Algorithm k\<rparr> (s\<lparr>Signature := encode64 raw\<rparr>) p = None"
proof (cases "Algorithm k = 15")
  case True
  then show ?thesis using assms
    by (auto simp: Sign_def key_pair_def sig0_Verify_def decode_encode64 split: option.splits)
next
  case False
  then obtain curve n h pub sk where c: "ecdsaCurve (Algorithm k) = Some (curve, n, h)" "priv = EcdsaPrivate sk"
    "ecdsaPublicKeyFromKEY k n = Inr pub" "\<And>d rs. ec_sign cr sk d = Some rs \<Longrightarrow> ec_verify cr curve pub d rs"
    using assms(2) by (auto simp: key_pair_def)
  then obtain r t a b where g: "ec_sign cr sk (digest cr h (rdataOnlyPrefix s @ p)) = Some (r, t)"
    "FillBytes n r = Some a" "FillBytes n t = Some b" "raw = a @ b"
    using assms(1) False by (auto simp: Sign_def signECDSA_def split: option.splits)
  then show ?thesis using False c FillBytes_Some [OF g(2)] FillBytes_Some [OF g(3)]
    by (simp add: sig0_Verify_def verifyECDSA_def TrimSpace_encode64 decode_encode64)
qed

lemma sig0_signed_verifies:
  assumes "sig0_SignMessage lib cr sl unix (Some m) (Some k) (Some priv) = Inr m'" and "key_pair cr k priv"
    and "sig0lib_ok sl v" and "usable v m' k"
  shows "VerifySignature cr sl (Some m') (Some k) = None"
proof -
  let ?impl = "\<lparr>impl_signer = Some priv, impl_key = k, impl_algorithm = Algorithm k\<rparr>"
  obtain m1 where "SIG0Sign sl m1 (Sign cr ?impl) = Inr m'"
    using assms(1) by (auto simp: sig0_SignMessage_def split: private_key.splits)
  then obtain s raw where "Sign cr ?impl s (covered v m1) = Inr raw" "sig_in v m' = Some (s\<lparr>Signature := encode64 raw\<rparr>)"
    "covered v m' = covered v m1"
    using assms(3) unfolding sig0lib_ok_def by meson
  with Sign_verifies [OF this(1) assms(2)] assms(3,4) show ?thesis
    by (auto simp: VerifySignature_def sig0lib_ok_def)
qed


subsection \<open>What verifies was signed under the key\<close>

definition scheme_accepts :: "crypto \<Rightarrow> key \<Rightarrow> sig \<Rightarrow> u8 list \<Rightarrow> bool" where
  "scheme_accepts cr k s p \<longleftrightarrow>
     (if Algorithm k = 15
      then \<exists>pub raw. decode64 (PublicKey k) = Some pub \<and> length pub = 32 \<and> decode64 (Signature s) = Some raw \<and>
        ed_verify cr pub (rdataOnlyPrefix s @ p) raw
      else case ecdsaCurve (Algorithm k) of
        Some (curve, n, h) \<Rightarrow> \<exists>pub raw. ecdsaPublicKeyFromKEY k n = Inr pub \<and> decode64 (TrimSpace (Signature s)) = Some raw \<and>
          length raw = 2 * n \<and> ec_verify cr curve pub (digest cr h (rdataOnlyPrefix s @ p)) (SetBytes (take n raw), SetBytes (drop n raw))
      | None \<Rightarrow> base_Verify cr k s p)"

lemma sig0_Verify_None:
  "sig0_Verify cr \<lparr>impl_signer = None, impl_key = k, impl_algorithm = Algorithm k\<rparr> s p = None \<longleftrightarrow> scheme_accepts cr k s p"
  by (auto simp: sig0_Verify_def verifyECDSA_def scheme_accepts_def split: option.splits sum.splits if_splits prod.splits)

lemma VerifySignature_accepts:
  assumes "VerifySignature cr sl (Some m) (Some k) = None" and "sig0lib_ok sl v"
  shows "\<exists>s. sig_in v m = Some s \<and> scheme_accepts cr k s (covered v m)"
proof -
  let ?ver = "sig0_Verify cr \<lparr>impl_signer = None, impl_key = k, impl_algorithm = Algorithm k\<rparr>"
  have "SIG0Verify sl m k ?ver = None" using assms(1) by (simp add: VerifySignature_def)
  with assms(2) obtain s where "sig_in v m = Some s" "?ver s (covered v m) = None" unfolding sig0lib_ok_def by meson
  then show ?thesis by (auto simp: sig0_Verify_None)
qed

subsection \<open>Witnesses\<close>

definition toy_crypto :: crypto where
  "toy_crypto = \<lparr>ed_sign = (\<lambda>_ d. Some [sum_list d]), ed_verify = (\<lambda>_ d raw. raw = [sum_list d]), ec_sign = (\<lambda>_ _. None),
     ec_verify = (\<lambda>_ _ _ _. False), digest = (\<lambda>_ d. d), base_Sign = (\<lambda>_ _ _ _. None), base_Verify = (\<lambda>_ _ _. False)\<rparr>"

definition last_sig :: "msg \<Rightarrow> sig option" where
  "last_sig m = (if msg_Pseudo m = [] then None else as_sig (last (msg_Pseudo m)))"

definition toy_sig0lib :: sig0lib where
  "toy_sig0lib =
     \<lparr>SIG0Sign = (\<lambda>m sg. case last_sig m of
          None \<Rightarrow> Inl LibraryFailed
        | Some s \<Rightarrow> (case sg s (msg_Data m) of
            Inl e \<Rightarrow> Inl e
          | Inr raw \<Rightarrow> Inr (m\<lparr>msg_Pseudo := butlast (msg_Pseudo m) @
              [(last (msg_Pseudo m))\<lparr>rr_data := SIG_data (s\<lparr>Signature := encode64 raw\<rparr>)\<rparr>]\<rparr>))),
      SIG0Verify = (\<lambda>m k ver. case last_sig m of None \<Rightarrow> Some LibraryFailed | Some s \<Rightarrow> ver s (msg_Data m))\<rparr>"

definition toy_view :: sig0_view where
  "toy_view = \<lparr>covered = msg_Data, sig_in = last_sig, usable = (\<lambda>_ _. True)\<rparr>"

lemma toy_sig0lib_ok: "sig0lib_ok toy_sig0lib toy_view"
  by (auto simp: sig0lib_ok_def toy_sig0lib_def toy_view_def last_sig_def as_sig_def split: option.splits sum.splits if_splits)

definition zero_key :: key where
  "zero_key = \<lparr>key_name = ''example.'', key_class = 1, key_ttl = 0, Flags = 512, Protocol = 3, Algorithm = 15,
     PublicKey = ''AAAAAAAAAAAAAAAAAAAAAAAAAAAAAAAAAAAAAAAAAAA=''\<rparr>"

lemma zero_key_bytes: "''AAAAAAAAAAAAAAAAAAAAAAAAAAAAAAAAAAAAAAAAAAA='' = encode64 (replicate 32 0)"
  by code_simp

lemma zero_key_pair: "key_pair toy_crypto zero_key (Ed25519Private [])"
  by (simp add: key_pair_def toy_crypto_def zero_key_def zero_key_bytes decode_encode64)


definition sig_of :: "string \<Rightarrow> sig" where
  "sig_of name = \<lparr>SignerName = name, sig_Algorithm = 15, sig_KeyTag = 7, sig_Labels = 0, OrigTTL = 0, Expiration = 600,
     Inception = 0, Signature = []\<rparr>"

theorem signed_data_injective_witness:
  "canonicalDomainName ''Example.org.'' = canonicalDomainName ''example.org''"
proof -
  have 1: "rdataOnlyPrefix (sig_of ''Example.org.'') @ [1, 2] = rdataOnlyPrefix (sig_of ''example.org'') @ [1, 2]" by code_simp
  have 2: "proper_name (SignerName (sig_of ''Example.org.''))" "proper_name (SignerName (sig_of ''example.org''))" by code_simp+
  show ?thesis using signed_data_injective [OF 1 2] by (simp add: sig_of_def)
qed

end
