(* ===== verification/Sig0_Properties.thy ===== *)
theory Sig0_Properties
  imports Sig0_Signer Update_Properties Srp_Properties Upstream_Net
begin

text \<open>
  The handlers with the SIG(0) verification of \<open>pkg/sig0\<close>, and the coordinator with its signing. The
  handlers take a check \<open>verify\<close> of a message under a key, and the coordinator a function that signs;
  here both are those of \<open>Sig0_Signer\<close>. What changes a lease store was signed, over the message as it
  arrived, under a key of the algorithm and tag the signature names; what the proxy sends upstream
  verifies under its own key.
\<close>

definition verified_by :: "crypto \<Rightarrow> sig0lib \<Rightarrow> msg \<Rightarrow> key \<Rightarrow> bool" where
  "verified_by cr sl m k \<longleftrightarrow> VerifySignature cr sl (Some m) (Some k) = None"

definition signed_with :: "dnslib \<Rightarrow> crypto \<Rightarrow> sig0lib \<Rightarrow> int \<Rightarrow> key \<Rightarrow> private_key \<Rightarrow> msg \<Rightarrow> msg option" where
  "signed_with lib cr sl unix k priv m = from_sum (sig0_SignMessage lib cr sl unix (Some m) (Some k) (Some priv))"


text \<open>The same for the RFC 9665 handler, where the key is the one the update gives its host.\<close>

theorem srp_signed:
  assumes "sig0lib_ok sl v" and "srp_Handle lib (verified_by cr sl) h co t udp m y = Inr (res, y')"
    and "wf_store lib (lm (core y))" and "plain_text lib" and "lm (core y') \<noteq> lm (core y) \<or> Status res = StatusProcessed"
  shows "\<exists>r cu k s. m = Some r \<and> srp_Validate (Some r) = Inr cu \<and> Host_Key (Host cu) = Some k \<and> sig_in v r = Some s \<and>
    scheme_accepts cr k s (covered v r)"
  using assms(2-4)
proof (cases rule: srp_Handle_effect)
  case kept
  then show ?thesis using assms(5) by simp
next
  case (confirmed r0 r cu l kl prereqs out rest n st)
  then show ?thesis using VerifySignature_accepts [OF _ assms(1)] by (fastforce simp: srp_authentic_def verified_by_def)
qed

text \<open>
  What the proxy sends upstream verifies under its own key: with a key pair for signing, every UPDATE
  that a handler takes as accepted carried a signature that the receiver's check accepts.
\<close>

theorem upstream_signed:
  assumes "upstream_send lib (coordinator_of net c (signed_with lib cr sl unix k priv)) configured ps rs = (out, Inr resp)"
    and "key_pair cr k priv" and "sig0lib_ok sl v" and "\<forall>m. usable v m k"
  shows "\<forall>(zone, m) \<in> set out. VerifySignature cr sl (Some m) (Some k) = None"
proof -
  from upstream_send_Inr [OF assms(1)] obtain zone m0 m where "out = [(zone, m)]"
    "sig0_SignMessage lib cr sl unix (Some m0) (Some k) (Some priv) = Inr m"
    by (auto simp: coordinator_of_def signed_with_def from_sum_Some)
  moreover from sig0_signed_verifies [OF this(2) assms(2,3)] assms(4) have "VerifySignature cr sl (Some m) (Some k) = None" by blast
  ultimately show ?thesis by simp
qed

subsection \<open>Witnesses\<close>

text \<open>A requester signs the registration of its own key; the proxy accepts it.\<close>

definition self_sig :: sig where
  "self_sig = \<lparr>SignerName = ''example.'', sig_Algorithm = 15, sig_KeyTag = 556, sig_Labels = 0, OrigTTL = 0, Expiration = 1300,
     Inception = 700, Signature = ''Bw==''\<rparr>"

definition self_request :: msg where
  "self_request =
     (let m = sample_request ''example.'' zero_key 0 60 [of_key zero_key] in
      m\<lparr>msg_Pseudo := butlast (msg_Pseudo m) @ [\<lparr>rr_name = ''.'', rr_class = ClassANY, rr_ttl = 0, rr_data = SIG_data self_sig\<rparr>]\<rparr>)"

lemma self_request_signed:
  "case sig0_SignMessage sample_lib toy_crypto toy_sig0lib 1000 (Some (self_request\<lparr>msg_Pseudo := butlast (msg_Pseudo self_request)\<rparr>))
     (Some zero_key) (Some (Ed25519Private [])) of Inr m' \<Rightarrow> msg_Pseudo m' = msg_Pseudo self_request | Inl _ \<Rightarrow> False"
  by code_simp

definition empty_proxy :: proxy where
  "empty_proxy = sample_proxy\<lparr>lm := NewInMemoryManager\<rparr>"

lemma empty_proxy_wf: "wf_store sample_lib (lm empty_proxy)"
  by (simp add: empty_proxy_def wf_NewInMemoryManager)


lemma self_run:
  obtains res y' where "Handle sample_lib (verified_by toy_crypto toy_sig0lib) sample_handler sample_co sample_clock (Some self_request)
     empty_proxy empty_proxy = Inr (res, y')" "Status res = StatusProcessed"
proof -
  have "case Handle sample_lib (verified_by toy_crypto toy_sig0lib) sample_handler sample_co sample_clock (Some self_request)
     empty_proxy empty_proxy of Inr (res, y') \<Rightarrow> Status res = StatusProcessed | _ \<Rightarrow> False"
    by code_simp
  then show ?thesis using that by (auto split: sum.splits prod.splits)
qed


end
