(* ===== verification/Keystore.thy ===== *)
theory Keystore
  imports Sig0_Signer
begin

text \<open>
  Package \<open>pkg/keyrec\<close>: the key files of a keystore directory. \<open>loader.go\<close> lists them, finds those of
  a zone and loads one; \<open>generate.go\<close> makes a key, saves it, and finds or creates the key of a name.

  A keystore directory is a \<open>store_dir\<close>: missing, unreadable, or its entries by file name. The dns
  library's reading, printing and generation of keys, and the calls of the operating system that
  write, are the fields of \<open>key_env\<close>; both key files of a name lie directly in the directory, so a
  path is its file name. Log lines are left out.

  The theorems: \<open>FindKeysByZone\<close> finds exactly the key files of the zone, ED25519 first and in a fixed
  order; a key created for a name is the one every later run finds.
\<close>

subsection \<open>Directories\<close>

datatype entry = Directory | Locked | File string
datatype store_dir = Missing | Unreadable | Folder "entry gomap"
datatype dir_error = NotExist | ReadFailed

definition ReadDir :: "store_dir \<Rightarrow> dir_error + (string \<times> entry) list" where
  "ReadDir d =
     (case d of
        Missing \<Rightarrow> Inl NotExist
      | Unreadable \<Rightarrow> Inl ReadFailed
      | Folder m \<Rightarrow> Inr (List.map_filter (\<lambda>n. map_option (Pair n) (mget m n)) (sort_strings (mkeys m))))"

definition entry_of :: "store_dir \<Rightarrow> string \<Rightarrow> entry option" where
  "entry_of d name = (case d of Folder m \<Rightarrow> mget m name | _ \<Rightarrow> None)"

subsection \<open>loader.go\<close>

record key_env =
  ke_lib :: dnslib
  ReadRR :: "string \<Rightarrow> rr option"
  NewPrivate :: "key \<Rightarrow> string \<Rightarrow> private_key option"
  Generate :: "key \<Rightarrow> nat \<Rightarrow> (key \<times> private_key) option"
  PrivateKeyString :: "key \<Rightarrow> private_key \<Rightarrow> string"
  MkdirAll :: "store_dir \<Rightarrow> store_dir \<times> bool"
  WriteFile :: "string \<Rightarrow> string \<Rightarrow> store_dir \<Rightarrow> store_dir \<times> bool"

record LoadedKey =
  lk_Name :: string
  lk_PublicKey :: key
  lk_PrivateKey :: private_key

datatype key_error =
    KeyFileNotOpened string
  | KeyNotParsed string
  | NotAKey string
  | PrivateNotRead string
  | PrivateNotParsed string
  | ListFailed dir_error
  | NoKeyFile string
  | GenerateFailed string
  | DirRequired
  | SearchFailed dir_error
  | LoadExisting key_error
  | NoKeyFor string
  | MkdirFailed
  | WriteFailed string

definition LoadKeyFromFile :: "key_env \<Rightarrow> store_dir \<Rightarrow> string \<Rightarrow> key_error + LoadedKey" where
  "LoadKeyFromFile env d keyName =
     (let pubPath = keyName @ ''.key''; privPath = keyName @ ''.private'' in
      case entry_of d pubPath of
        None \<Rightarrow> Inl (KeyFileNotOpened pubPath)
      | Some Locked \<Rightarrow> Inl (KeyFileNotOpened pubPath)
      | Some Directory \<Rightarrow> Inl (KeyNotParsed pubPath)
      | Some (File text) \<Rightarrow>
          (case ReadRR env text of
             None \<Rightarrow> Inl (KeyNotParsed pubPath)
           | Some r \<Rightarrow>
               (case as_key r of
                  None \<Rightarrow> Inl (NotAKey pubPath)
                | Some k \<Rightarrow>
                    (case entry_of d privPath of
                       Some (File priv) \<Rightarrow>
                         (case NewPrivate env k priv of
                            None \<Rightarrow> Inl (PrivateNotParsed privPath)
                          | Some p \<Rightarrow> Inr \<lparr>lk_Name = keyName, lk_PublicKey = k, lk_PrivateKey = p\<rparr>)
                     | _ \<Rightarrow> Inl (PrivateNotRead privPath)))))"

definition add_key_name :: "string \<times> entry \<Rightarrow> string list \<Rightarrow> string list" where
  "add_key_name e names =
     (if snd e = Directory then names
      else if HasPrefix (fst e) ''K'' \<and> HasSuffix (fst e) ''.key'' then set_insert (TrimSuffix (fst e) ''.key'') names
      else names)"

definition ListKeysInDirectory :: "store_dir \<Rightarrow> dir_error + string list" where
  "ListKeysInDirectory d = (case ReadDir d of Inl e \<Rightarrow> Inl e | Inr entries \<Rightarrow> Inr (fold add_key_name entries []))"

definition FindKeysByZone :: "store_dir \<Rightarrow> string \<Rightarrow> dir_error + string list" where
  "FindKeysByZone d zone =
     (let zoneName = (if HasSuffix zone ''.'' then zone else zone @ ''.'');
          pre = ''K'' @ zoneName @ ''+'' in
      case ListKeysInDirectory d of
        Inl e \<Rightarrow> Inl e
      | Inr keys \<Rightarrow>
          (let matching = filter (\<lambda>n. HasPrefix n pre) keys;
               ed25519 = (\<lambda>n. HasPrefix (drop (length pre) n) ''015+'')
           in Inr (sort_strings (filter ed25519 matching) @ sort_strings (filter (\<lambda>n. \<not> ed25519 n) matching))))"

definition KeyExists :: "store_dir \<Rightarrow> string \<Rightarrow> key_error option" where
  "KeyExists d keyName =
     (case ListKeysInDirectory d of
        Inl e \<Rightarrow> Some (ListFailed e)
      | Inr keyFiles \<Rightarrow> if keyName \<in> set keyFiles then None else Some (NoKeyFile keyName))"

definition KeyFileName :: "dnslib \<Rightarrow> LoadedKey \<Rightarrow> string" where
  "KeyFileName lib lk =
     ''K'' @ key_name (lk_PublicKey lk) @ ''+'' @ pad_dec 3 (unat (Algorithm (lk_PublicKey lk))) @ ''+'' @ dec (unat (KeyTag lib (lk_PublicKey lk)))"

subsection \<open>generate.go\<close>

definition GenerateKey :: "key_env \<Rightarrow> string \<Rightarrow> u8 \<Rightarrow> u16 \<Rightarrow> nat \<Rightarrow> key_error + LoadedKey" where
  "GenerateKey env name algorithm flags bits =
     (case Generate env \<lparr>key_name = name, key_class = ClassINET, key_ttl = 0, Flags = flags, Protocol = 3,
              Algorithm = algorithm, PublicKey = []\<rparr> bits of
        None \<Rightarrow> Inl (GenerateFailed name)
      | Some (pub, priv) \<Rightarrow>
          Inr \<lparr>lk_Name = ''K'' @ name @ ''+'' @ pad_dec 3 (unat algorithm) @ ''+'' @ dec (unat (KeyTag (ke_lib env) pub)),
               lk_PublicKey = pub, lk_PrivateKey = priv\<rparr>)"

definition SaveToFile :: "key_env \<Rightarrow> LoadedKey \<Rightarrow> store_dir \<Rightarrow> store_dir \<times> key_error option" where
  "SaveToFile env lk d =
     (let keyPath = lk_Name lk @ ''.key''; privPath = lk_Name lk @ ''.private'' in
      case WriteFile env keyPath (RRString (ke_lib env) (of_key (lk_PublicKey lk)) @ [CHR 0x0A]) d of
        (d1, False) \<Rightarrow> (d1, Some (WriteFailed keyPath))
      | (d1, True) \<Rightarrow>
          (case WriteFile env privPath (PrivateKeyString env (lk_PublicKey lk) (lk_PrivateKey lk)) d1 of
             (d2, False) \<Rightarrow> (d2, Some (WriteFailed privPath))
           | (d2, True) \<Rightarrow> (d2, None)))"

definition existing_keys :: "store_dir \<Rightarrow> string \<Rightarrow> dir_error + string list" where
  "existing_keys d owner = (case FindKeysByZone d owner of Inl NotExist \<Rightarrow> Inr [] | r \<Rightarrow> r)"

definition ResolveOrCreateKey ::
  "key_env \<Rightarrow> string \<Rightarrow> store_dir \<Rightarrow> string \<Rightarrow> u8 \<Rightarrow> store_dir \<times> (key_error + (LoadedKey \<times> bool))"
where
  "ResolveOrCreateKey env dir d owner createAlgorithm =
     (if dir = [] then (d, Inl DirRequired)
      else case existing_keys d owner of
        Inl e \<Rightarrow> (d, Inl (SearchFailed e))
      | Inr (name # _) \<Rightarrow>
          (case LoadKeyFromFile env d name of
             Inl e \<Rightarrow> (d, Inl (LoadExisting e))
           | Inr k \<Rightarrow> (d, Inr (k, False)))
      | Inr [] \<Rightarrow>
          if createAlgorithm = 0 then (d, Inl (NoKeyFor owner))
          else (case GenerateKey env owner createAlgorithm 0 (if createAlgorithm = 14 then 384 else 256) of
             Inl e \<Rightarrow> (d, Inl e)
           | Inr k \<Rightarrow>
               (case MkdirAll env d of
                  (d1, False) \<Rightarrow> (d1, Inl MkdirFailed)
                | (d1, True) \<Rightarrow>
                    (case SaveToFile env k d1 of
                       (d2, Some e) \<Rightarrow> (d2, Inl e)
                     | (d2, None) \<Rightarrow> (d2, Inr (k, True))))))"

subsection \<open>What is found\<close>

definition is_file :: "store_dir \<Rightarrow> string \<Rightarrow> bool" where
  "is_file d name \<longleftrightarrow> (\<exists>e. entry_of d name = Some e \<and> e \<noteq> Directory)"

lemma HasPrefix_append [simp]: "HasPrefix (pre @ r) pre"
  by (auto simp: HasPrefix_iff)

lemma set_add_key_name:
  "set (add_key_name x ns) = set ns \<union> {n. fst x = n @ ''.key'' \<and> snd x \<noteq> Directory \<and> HasPrefix (fst x) ''K''}"
  by (auto simp: add_key_name_def HasSuffix_iff)

lemma fold_add_key_name:
  "set (fold add_key_name es ns) =
     set ns \<union> {n. \<exists>e. (n @ ''.key'', e) \<in> set es \<and> e \<noteq> Directory \<and> HasPrefix (n @ ''.key'') ''K''}"
  by (induction es arbitrary: ns) (auto simp: set_add_key_name)

lemma fold_add_key_name_distinct: "distinct ns \<Longrightarrow> distinct (fold add_key_name es ns)"
  by (induction es arbitrary: ns) (simp_all add: add_key_name_def)

lemma ListKeys_Folder:
  "\<exists>ks. ListKeysInDirectory (Folder m) = Inr ks \<and> distinct ks \<and>
     set ks = {n. is_file (Folder m) (n @ ''.key'') \<and> HasPrefix (n @ ''.key'') ''K''}"
  by (auto simp: ListKeysInDirectory_def ReadDir_def fold_add_key_name fold_add_key_name_distinct set_map_filter
      is_file_def entry_of_def mkeys_mget)

definition fqdn :: "string \<Rightarrow> string" where
  "fqdn zone = (if HasSuffix zone ''.'' then zone else zone @ ''.'')"

definition zone_prefix :: "string \<Rightarrow> string" where
  "zone_prefix zone = ''K'' @ fqdn zone @ ''+''"

lemma FindKeys_Folder:
  "\<exists>eds others. FindKeysByZone (Folder m) zone = Inr (eds @ others) \<and> distinct (eds @ others) \<and> sorted eds \<and> sorted others \<and>
     set (eds @ others) = {n. is_file (Folder m) (n @ ''.key'') \<and> HasPrefix n (zone_prefix zone)} \<and>
     (\<forall>n \<in> set eds. HasPrefix n (zone_prefix zone @ ''015+'')) \<and> (\<forall>n \<in> set others. \<not> HasPrefix n (zone_prefix zone @ ''015+''))"
proof -
  obtain ks where ks: "ListKeysInDirectory (Folder m) = Inr ks" "distinct ks"
    "set ks = {n. is_file (Folder m) (n @ ''.key'') \<and> HasPrefix (n @ ''.key'') ''K''}"
    using ListKeys_Folder by blast
  let ?p = "zone_prefix zone" and ?m = "filter (\<lambda>n. HasPrefix n (zone_prefix zone)) ks"
  let ?ed = "\<lambda>n. HasPrefix (drop (length (zone_prefix zone)) n) ''015+''"
  have r: "FindKeysByZone (Folder m) zone = Inr (sort_strings (filter ?ed ?m) @ sort_strings (filter (\<lambda>n. \<not> ?ed n) ?m))"
    by (simp add: FindKeysByZone_def ks(1) zone_prefix_def fqdn_def Let_def)
  have e: "?ed n \<longleftrightarrow> HasPrefix n (?p @ ''015+'')" if "HasPrefix n ?p" for n
    using that by (auto simp: HasPrefix_iff)
  have k: "HasPrefix (n @ ''.key'') ''K''" if "HasPrefix n ?p" for n
    using that by (auto simp: HasPrefix_iff zone_prefix_def)
  show ?thesis
    by (rule exI [of _ "sort_strings (filter ?ed ?m)"], rule exI [of _ "sort_strings (filter (\<lambda>n. \<not> ?ed n) ?m)"])
      (use r ks(2,3) e k in auto)
qed

text \<open>
  \<open>FindKeysByZone\<close> returns exactly the key files whose name says they belong to the zone, each once,
  those of ED25519 keys first, both groups in alphabetical order; the zone may be given with or
  without its last dot.
\<close>

theorem FindKeysByZone_exact:
  assumes "FindKeysByZone d zone = Inr names"
  shows "distinct names \<and> set names = {n. is_file d (n @ ''.key'') \<and> HasPrefix n (zone_prefix zone)} \<and>
    (\<exists>eds others. names = eds @ others \<and> sorted eds \<and> sorted others \<and>
       (\<forall>n \<in> set eds. HasPrefix n (zone_prefix zone @ ''015+'')) \<and> (\<forall>n \<in> set others. \<not> HasPrefix n (zone_prefix zone @ ''015+'')))"
proof -
  obtain m where "d = Folder m"
    using assms by (cases d) (auto simp: FindKeysByZone_def ListKeysInDirectory_def ReadDir_def Let_def)
  with FindKeys_Folder [of m zone] assms show ?thesis by fastforce
qed

subsection \<open>A created key is found again\<close>

text \<open>The calls that write do what they report, and the library reads back the key files it prints.\<close>

definition writes_ok :: "key_env \<Rightarrow> bool" where
  "writes_ok env \<longleftrightarrow>
     (\<forall>d d'. MkdirAll env d = (d', True) \<longrightarrow> d' = (case d of Missing \<Rightarrow> Folder [] | _ \<Rightarrow> d)) \<and>
     (\<forall>name data m d'. WriteFile env name data (Folder m) = (d', True) \<longrightarrow> d' = Folder (mput name (File data) m))"

definition reads_back :: "key_env \<Rightarrow> key \<Rightarrow> private_key \<Rightarrow> bool" where
  "reads_back env k p \<longleftrightarrow>
     ReadRR env (RRString (ke_lib env) (of_key k) @ [CHR 0x0A]) = Some (of_key k) \<and> NewPrivate env k (PrivateKeyString env k p) = Some p"

lemma existing_None:
  assumes "existing_keys d owner = Inr []"
  shows "d = Missing \<or> (\<exists>m. d = Folder m \<and> (\<forall>n. is_file d (n @ ''.key'') \<longrightarrow> \<not> HasPrefix n (zone_prefix owner)))"
proof (cases d)
  case (Folder m)
  then show ?thesis using FindKeys_Folder [of m owner] assms by (fastforce simp: existing_keys_def)
qed (use assms in \<open>simp_all add: existing_keys_def FindKeysByZone_def ListKeysInDirectory_def ReadDir_def Let_def\<close>)

lemma saved_alone:
  assumes "\<And>n. is_file (Folder m) (n @ ''.key'') \<Longrightarrow> \<not> HasPrefix n (zone_prefix owner)" and "HasPrefix name (zone_prefix owner)"
  shows "FindKeysByZone (Folder (mput (name @ ''.private'') (File b) (mput (name @ ''.key'') (File a) m))) owner = Inr [name]"
proof -
  let ?m = "mput (name @ ''.private'') (File b) (mput (name @ ''.key'') (File a) m)"
  obtain names where f: "FindKeysByZone (Folder ?m) owner = Inr names" "distinct names"
    "set names = {n. is_file (Folder ?m) (n @ ''.key'') \<and> HasPrefix n (zone_prefix owner)}"
    using FindKeys_Folder [of ?m owner] by blast
  have ne: "n @ ''.key'' \<noteq> name @ ''.private''" for n
    by (auto simp: append_eq_append_conv2 append_eq_Cons_conv Cons_eq_append_conv)
  have "set names = {name}"
    using assms ne unfolding f(3) by (auto simp: is_file_def entry_of_def mget_mput)
  with f(2) have "names = [name]" by (metis distinct_length_2_or_more distinct_singleton list.set_cases set_ConsD singletonD list.set_intros(1) insert_iff list.simps(15) neq_Nil_conv)
  with f(1) show ?thesis by simp
qed

text \<open>
  C36. A key that \<open>ResolveOrCreateKey\<close> has created for a fully qualified name is the one that every later
  call finds: the same key under the same name, without creating another, whether or not that call
  would be allowed to. The calls that write do what they report, and the dns library reads the two
  files back that it has printed.
\<close>

theorem created_key_found:
  assumes "ResolveOrCreateKey env dir d owner alg = (d', Inr (k, True))" and "HasSuffix owner ''.''" and "writes_ok env"
    and "reads_back env (lk_PublicKey k) (lk_PrivateKey k)"
  shows "ResolveOrCreateKey env dir d' owner alg' = (d', Inr (k, False))"
proof -
  from assms(1) obtain d1 where c: "dir \<noteq> []" "existing_keys d owner = Inr []" "MkdirAll env d = (d1, True)"
    "SaveToFile env k d1 = (d', None)"
    "GenerateKey env owner alg 0 (if alg = 14 then 384 else 256) = Inr k"
    by (auto simp: ResolveOrCreateKey_def split: if_splits sum.splits list.splits prod.splits bool.splits option.splits)
  define m where "m = (case d of Folder m \<Rightarrow> m | _ \<Rightarrow> [])"
  have "d1 = (case d of Missing \<Rightarrow> Folder [] | _ \<Rightarrow> d)" using c(3) assms(3) unfolding writes_ok_def by blast
  then have d1: "d1 = Folder m" using existing_None [OF c(2)] by (auto simp: m_def)
  have none: "\<not> HasPrefix n (zone_prefix owner)" if "is_file (Folder m) (n @ ''.key'')" for n
    using existing_None [OF c(2)] that by (auto simp: m_def is_file_def entry_of_def)
  have "lk_Name k = zone_prefix owner @ pad_dec 3 (unat alg) @ ''+'' @ dec (unat (KeyTag (ke_lib env) (lk_PublicKey k)))"
    using c(5) assms(2) by (auto simp: GenerateKey_def zone_prefix_def fqdn_def split: option.splits prod.splits)
  then have p: "HasPrefix (lk_Name k) (zone_prefix owner)" by simp
  let ?a = "RRString (ke_lib env) (of_key (lk_PublicKey k)) @ [CHR 0x0A]" and ?b = "PrivateKeyString env (lk_PublicKey k) (lk_PrivateKey k)"
  obtain d2 where w: "WriteFile env (lk_Name k @ ''.key'') ?a (Folder m) = (d2, True)" "WriteFile env (lk_Name k @ ''.private'') ?b d2 = (d', True)"
    using c(4) by (auto simp: d1 SaveToFile_def Let_def split: prod.splits bool.splits)
  then have d2: "d2 = Folder (mput (lk_Name k @ ''.key'') (File ?a) m)" using assms(3) unfolding writes_ok_def by blast
  then have d': "d' = Folder (mput (lk_Name k @ ''.private'') (File ?b) (mput (lk_Name k @ ''.key'') (File ?a) m))"
    using w(2) assms(3) unfolding writes_ok_def by blast
  have "existing_keys d' owner = Inr [lk_Name k]"
    unfolding existing_keys_def d' using saved_alone [OF none p] by simp
  moreover have "LoadKeyFromFile env d' (lk_Name k) = Inr k"
    using assms(4) by (simp add: LoadKeyFromFile_def d' entry_of_def mget_mput reads_back_def Let_def)
  ultimately show ?thesis using c(1) by (simp add: ResolveOrCreateKey_def)
qed

definition toy_key_env :: key_env where
  "toy_key_env = \<lparr>ke_lib = sample_lib, ReadRR = (\<lambda>_. Some (of_key (zero_key\<lparr>Flags := 0\<rparr>))), NewPrivate = (\<lambda>_ _. Some (Ed25519Private [])),
     Generate = (\<lambda>k _. Some (k\<lparr>PublicKey := PublicKey zero_key\<rparr>, Ed25519Private [])), PrivateKeyString = (\<lambda>_ _. ''p''),
     MkdirAll = (\<lambda>d. (case d of Missing \<Rightarrow> Folder [] | _ \<Rightarrow> d, True)),
     WriteFile = (\<lambda>name data d. case d of Folder m \<Rightarrow> (Folder (mput name (File data) m), True) | _ \<Rightarrow> (d, False))\<rparr>"

lemma toy_writes_ok: "writes_ok toy_key_env"
  by (auto simp: writes_ok_def toy_key_env_def)

lemma toy_created:
  obtains d' k where "ResolveOrCreateKey toy_key_env ''keys'' Missing ''example.'' 15 = (d', Inr (k, True))"
    "lk_PublicKey k = zero_key\<lparr>Flags := 0\<rparr>" "lk_PrivateKey k = Ed25519Private []"
  by (auto simp: ResolveOrCreateKey_def existing_keys_def FindKeysByZone_def ListKeysInDirectory_def ReadDir_def GenerateKey_def
      SaveToFile_def toy_key_env_def zero_key_def ClassINET_def Let_def)

theorem created_key_found_witness:
  "\<exists>d' k. ResolveOrCreateKey toy_key_env ''keys'' Missing ''example.'' 15 = (d', Inr (k, True)) \<and>
     ResolveOrCreateKey toy_key_env ''keys'' d' ''example.'' 0 = (d', Inr (k, False))"
proof (rule toy_created)
  fix d' k
  assume r: "ResolveOrCreateKey toy_key_env ''keys'' Missing ''example.'' 15 = (d', Inr (k, True))"
    "lk_PublicKey k = zero_key\<lparr>Flags := 0\<rparr>" "lk_PrivateKey k = Ed25519Private []"
  have "reads_back toy_key_env (lk_PublicKey k) (lk_PrivateKey k)" using r(2,3) by (simp add: reads_back_def toy_key_env_def)
  moreover have "HasSuffix ''example.'' ''.''" by (simp add: HasSuffix_def)
  ultimately show ?thesis using created_key_found [OF r(1) _ toy_writes_ok] r(1) by blast
qed

text \<open>
  Without its last dot the name is not found again: the file is named after the name as given, and
  looked for under the name with a dot. Every run then creates another key.
\<close>

lemma undotted_owner_not_found:
  "case ResolveOrCreateKey toy_key_env ''keys'' Missing ''example'' 15 of
     (d', Inr (k, True)) \<Rightarrow> snd (ResolveOrCreateKey toy_key_env ''keys'' d' ''example'' 0) = Inl (NoKeyFor ''example'')
   | _ \<Rightarrow> False"
  by code_simp

end
