(* ===== verification/Handler_Setup.thy ===== *)
theory Handler_Setup
  imports Router Upstream_Net Lease_Snapshot Keystore
begin

text \<open>
  How the command starts the proxy (\<open>cmd/sig0lease/main.go\<close>) and how a handler is set up
  (\<open>Setup\<close> of \<open>handlers/opcode5_setup.go\<close> and \<open>handlers/srp_setup.go\<close>; \<open>buildCoordinatorFromConfig\<close>
  and the choice of a lease store of \<open>handlers/handlers.go\<close>).

  The environment is the record \<open>setup_env\<close>: the keystore, environment variables, durations as
  \<open>time.ParseDuration\<close> reads them, type names as the dns library knows them, and the operating system
  as far as a snapshot file needs it. Texts are folded as ASCII. A store given directly as
  \<open>lease_manager\<close> is the argument \<open>given\<close>.
\<close>

subsection \<open>The environment\<close>

record setup_env =
  se_lib :: dnslib
  se_wide :: "nat \<Rightarrow> bool"
  se_codec :: codec
  se_now :: time
  se_disk :: disk
  se_mkdir :: "string \<Rightarrow> bool"
  se_stat :: "string \<Rightarrow> bool"
  se_saved :: "string \<Rightarrow> string \<Rightarrow> disk \<Rightarrow> disk \<times> bool"
  se_keystore :: "string \<Rightarrow> store_dir"
  se_keys :: key_env
  ParseDuration :: "string \<Rightarrow> int option"
  StringToType :: "string \<Rightarrow> u16 option"

datatype setup_error =
    UpstreamZoneRequired
  | KeystoreDirRequired
  | SigningKey proxy_key_error
  | UpstreamNotAString
  | UpstreamNotHostPort addr_error
  | BothStores
  | NotALeaseManager
  | StorageNotAMap
  | StorageTypeInvalid
  | StorageTypeUnknown string
  | StoragePathRequired
  | SaveIntervalNotAString
  | SaveIntervalInvalid
  | StorageFailed snapshot_error
  | BadPolicy policy_error

definition string_of :: "go_value option \<Rightarrow> string option" where
  "string_of v = (case v of Some (VString s) \<Rightarrow> Some s | _ \<Rightarrow> None)"

definition bool_of :: "go_value option \<Rightarrow> bool option" where
  "bool_of v = (case v of Some (VBool b) \<Rightarrow> Some b | _ \<Rightarrow> None)"

definition present :: "go_value option \<Rightarrow> bool" where
  "present v \<longleftrightarrow> v \<noteq> None \<and> v \<noteq> Some VNil"

definition to_upper :: "char \<Rightarrow> char" where
  "to_upper c = (if 97 \<le> byte c \<and> byte c \<le> 122 then chr (byte c - 32) else c)"

subsection \<open>The upstream\<close>

definition buildCoordinatorFromConfig :: "config \<Rightarrow> string \<Rightarrow> setup_error + Coordinator" where
  "buildCoordinatorFromConfig cfg zone =
     (let build = (\<lambda>st. Inr (NewCoordinator (parseStringSlice (map_of cfg ''bootstrap_resolvers'')) st)) in
      case map_of cfg ''upstream'' of
        Some raw \<Rightarrow>
          if raw = VNil then build None
          else (case raw of
              VString a \<Rightarrow>
                let addr = TrimSpace a in
                (case SplitHostPort addr of
                   Inl e \<Rightarrow> Inl (UpstreamNotHostPort e)
                 | Inr _ \<Rightarrow> build (Some \<lparr>su_Zone = zone, su_Addr = addr\<rparr>))
            | _ \<Rightarrow> Inl UpstreamNotAString)
      | None \<Rightarrow> build None)"

subsection \<open>The lease store\<close>

record leaseStorageConfig =
  lsc_path :: string
  lsc_interval :: int

definition parse_storage_type :: "config \<Rightarrow> setup_error + string" where
  "parse_storage_type cfg =
     (case map_of cfg ''type'' of
        None \<Rightarrow> Inr ''memory''
      | Some (VString s) \<Rightarrow> if TrimSpace s = [] then Inl StorageTypeInvalid else Inr (map fold_byte (TrimSpace s))
      | Some _ \<Rightarrow> Inl StorageTypeInvalid)"

definition parse_interval :: "setup_env \<Rightarrow> config \<Rightarrow> setup_error + int" where
  "parse_interval env cfg =
     (case map_of cfg ''save_interval'' of
        None \<Rightarrow> Inr (sec 30)
      | Some (VString s) \<Rightarrow>
          (case ParseDuration env s of
             None \<Rightarrow> Inl SaveIntervalInvalid
           | Some d \<Rightarrow> (case CheckSaveInterval d of Some e \<Rightarrow> Inl (StorageFailed e) | None \<Rightarrow> Inr d))
      | Some _ \<Rightarrow> Inl SaveIntervalNotAString)"

definition parseLeaseStorageConfig :: "setup_env \<Rightarrow> config \<Rightarrow> setup_error + leaseStorageConfig" where
  "parseLeaseStorageConfig env cfg =
     (case parse_storage_type cfg of
        Inl e \<Rightarrow> Inl e
      | Inr storageType \<Rightarrow>
          if storageType = ''memory'' then Inr \<lparr>lsc_path = [], lsc_interval = 0\<rparr>
          else if storageType = ''file'' then
            (case string_of (map_of cfg ''path'') of
               None \<Rightarrow> Inl StoragePathRequired
             | Some path \<Rightarrow>
                 if TrimSpace path = [] then Inl StoragePathRequired
                 else (case parse_interval env cfg of
                     Inl e \<Rightarrow> Inl e
                   | Inr interval \<Rightarrow> Inr \<lparr>lsc_path = path, lsc_interval = interval\<rparr>))
          else Inl (StorageTypeUnknown storageType))"

definition selectLeaseStore ::
  "setup_env \<Rightarrow> store option \<Rightarrow> config \<Rightarrow> setup_error + (store option \<times> leaseStorageConfig option)"
where
  "selectLeaseStore env given cfg =
     (let lmPresent = (given \<noteq> None \<or> present (map_of cfg ''lease_manager''));
          storagePresent = present (map_of cfg ''storage'') in
      if lmPresent \<and> storagePresent then Inl BothStores
      else if lmPresent then (case given of None \<Rightarrow> Inl NotALeaseManager | Some s \<Rightarrow> Inr (Some s, None))
      else if storagePresent then
        (case map_of cfg ''storage'' of
           Some (VMap m) \<Rightarrow>
             (case parseLeaseStorageConfig env m of Inl e \<Rightarrow> Inl e | Inr sc \<Rightarrow> Inr (None, Some sc))
         | _ \<Rightarrow> Inl StorageNotAMap)
      else Inr (None, None))"

text \<open>The store with the disk it leaves behind.\<close>

definition LeaseStoreFromConfig ::
  "setup_env \<Rightarrow> store option \<Rightarrow> config \<Rightarrow> bool \<Rightarrow> disk \<times> (setup_error + store)"
where
  "LeaseStoreFromConfig env given cfg readOnly =
     (let d = se_disk env in
      case selectLeaseStore env given cfg of
        Inl e \<Rightarrow> (d, Inl e)
      | Inr (Some s, _) \<Rightarrow> (d, Inr s)
      | Inr (None, None) \<Rightarrow> (d, Inr NewInMemoryManager)
      | Inr (None, Some sc) \<Rightarrow>
          if lsc_path sc = [] then (d, Inr NewInMemoryManager)
          else if readOnly then
            (d, case ReadSnapshotFile (se_lib env) (se_codec env) (se_now env) (se_stat env (lsc_path sc)) d (lsc_path sc) of
                  Inl e \<Rightarrow> Inl (StorageFailed e)
                | Inr (s, _) \<Rightarrow> Inr s)
          else
            (case NewFileLeaseStore (se_lib env) (se_wide env) (se_codec env) (se_now env) (se_mkdir env (lsc_path sc))
               (se_stat env (lsc_path sc)) (se_saved env (lsc_path sc)) (lsc_path sc) (lsc_interval sc) d of
               (d', Inl e) \<Rightarrow> (d', Inl (StorageFailed e))
             | (d', Inr fs) \<Rightarrow> (d', Inr (inner fs))))"

definition LeaseSnapshotPath :: "setup_env \<Rightarrow> config \<Rightarrow> setup_error + string" where
  "LeaseSnapshotPath env cfg =
     (case selectLeaseStore env None cfg of
        Inl e \<Rightarrow> Inl e
      | Inr (_, None) \<Rightarrow> Inr []
      | Inr (_, Some sc) \<Rightarrow> Inr (lsc_path sc))"

subsection \<open>The common beginning of both set-ups\<close>

definition setup_zone :: "config \<Rightarrow> setup_error + string" where
  "setup_zone cfg =
     (let zone = TrimSpace (case string_of (map_of cfg ''upstream_zone'') of Some z \<Rightarrow> z | None \<Rightarrow> []) in
      if zone = [] then Inl UpstreamZoneRequired else Inr zone)"

text \<open>The two calls of \<open>FindAuthorizedProxyKey\<close> into the keystore; an error of the first is dropped there.\<close>

definition key_files :: "store_dir \<Rightarrow> string \<Rightarrow> string list" where
  "key_files d zone = (case FindKeysByZone d zone of Inl _ \<Rightarrow> [] | Inr ns \<Rightarrow> ns)"

definition key_loaded :: "key_env \<Rightarrow> store_dir \<Rightarrow> string \<Rightarrow> key option" where
  "key_loaded env d name = (case LoadKeyFromFile env d name of Inl _ \<Rightarrow> None | Inr k \<Rightarrow> Some (lk_PublicKey k))"

definition setup_key :: "setup_env \<Rightarrow> config \<Rightarrow> string \<Rightarrow> setup_error + key" where
  "setup_key env cfg zone =
     (case string_of (map_of cfg ''keystore_dir'') of
        None \<Rightarrow> Inl KeystoreDirRequired
      | Some dir \<Rightarrow>
          if dir = [] then Inl KeystoreDirRequired
          else (case FindAuthorizedProxyKey (key_files (se_keystore env dir)) (key_loaded (se_keys env) (se_keystore env dir)) zone of
              Inl e \<Rightarrow> Inl (SigningKey e)
            | Inr (k, _) \<Rightarrow> Inr k))"

definition setup_policy :: "config \<Rightarrow> LeasePolicy \<Rightarrow> setup_error + LeasePolicy" where
  "setup_policy cfg p =
     (case map_of cfg ''lease_policy'' of
        None \<Rightarrow> Inr p
      | Some raw \<Rightarrow> (case parseLeasePolicy raw of Inl e \<Rightarrow> Inl (BadPolicy e) | Inr q \<Rightarrow> Inr q))"

definition no_policy :: LeasePolicy where
  "no_policy = \<lparr>MinKeyLease = 0, MaxKeyLease = 0, MinRRLease = 0, MaxRRLease = 0\<rparr>"

subsection \<open>Setup of the RFC 9664 handler\<close>

fun parse_types :: "setup_env \<Rightarrow> string list \<Rightarrow> u16 list" where
  "parse_types env [] = []"
| "parse_types env (n # ns) =
     (case StringToType env (TrimSpace (map to_upper n)) of
        Some t \<Rightarrow> t # parse_types env ns
      | None \<Rightarrow> parse_types env ns)"

definition parse_blacklist :: "setup_env \<Rightarrow> config \<Rightarrow> u16 list" where
  "parse_blacklist env cfg =
     (case map_of cfg ''blacklisted_types'' of
        Some (VStrings v) \<Rightarrow> parse_types env v
      | Some (VList v) \<Rightarrow> parse_types env (List.map_filter (\<lambda>x. string_of (Some x)) v)
      | _ \<Rightarrow> [])"

record update_setup =
  us_handler :: UpdateHandler
  us_coordinator :: Coordinator
  us_key :: key
  us_store :: store

definition update_Setup :: "setup_env \<Rightarrow> store option \<Rightarrow> config \<Rightarrow> disk \<times> (setup_error + update_setup)" where
  "update_Setup env given cfg =
     (case setup_zone cfg of
        Inl e \<Rightarrow> (se_disk env, Inl e)
      | Inr zone \<Rightarrow>
          (case setup_key env cfg zone of
             Inl e \<Rightarrow> (se_disk env, Inl e)
           | Inr k \<Rightarrow>
               (case LeaseStoreFromConfig env given cfg False of
                  (d, Inl e) \<Rightarrow> (d, Inl e)
                | (d, Inr s) \<Rightarrow>
                    (d, case setup_policy cfg no_policy of
                          Inl e \<Rightarrow> Inl e
                        | Inr policy \<Rightarrow>
                            (case parseRecordTTL cfg of
                               Inl e \<Rightarrow> Inl (BadPolicy e)
                             | Inr ttl \<Rightarrow>
                                 (case buildCoordinatorFromConfig cfg zone of
                                    Inl e \<Rightarrow> Inl e
                                  | Inr c \<Rightarrow>
                                      Inr \<lparr>us_handler = \<lparr>upstreamZone = zone, leasePolicy = policy, recordTTL = ttl,
                                             prefer4ByteVariant = (bool_of (map_of cfg ''prefer_4byte_variant'') = Some True),
                                             AllowOnlineKeyRegistration =
                                               (bool_of (map_of cfg ''allow_online_key_registration'') = Some True),
                                             blacklistedTypes = parse_blacklist env cfg\<rparr>,
                                           us_coordinator = c, us_key = k, us_store = s\<rparr>))))))"

subsection \<open>Setup of the RFC 9665 handler\<close>

record srp_setup =
  ss_handler :: SRPHandler
  ss_coordinator :: Coordinator
  ss_key :: key
  ss_store :: store

definition srp_Setup :: "setup_env \<Rightarrow> store option \<Rightarrow> config \<Rightarrow> disk \<times> (setup_error + srp_setup)" where
  "srp_Setup env given cfg =
     (case setup_zone cfg of
        Inl e \<Rightarrow> (se_disk env, Inl e)
      | Inr zone \<Rightarrow>
          (case setup_key env cfg zone of
             Inl e \<Rightarrow> (se_disk env, Inl e)
           | Inr k \<Rightarrow>
               (case buildCoordinatorFromConfig cfg zone of
                  Inl e \<Rightarrow> (se_disk env, Inl e)
                | Inr c \<Rightarrow>
                    (case setup_policy cfg no_policy of
                       Inl e \<Rightarrow> (se_disk env, Inl e)
                     | Inr policy \<Rightarrow>
                         (case parseRecordTTL cfg of
                            Inl e \<Rightarrow> (se_disk env, Inl (BadPolicy e))
                          | Inr ttl \<Rightarrow>
                              (case LeaseStoreFromConfig env given cfg False of
                                 (d, Inl e) \<Rightarrow> (d, Inl e)
                               | (d, Inr s) \<Rightarrow>
                                   (d, Inr \<lparr>ss_handler = \<lparr>srp_zone = zone,
                                          allowUDP = (bool_of (map_of cfg ''allow_udp'') = Some True),
                                          refuseOnForeignData = (bool_of (map_of cfg ''refuse_on_foreign_data'') \<noteq> Some False),
                                          rewriteARPA = (bool_of (map_of cfg ''rewrite_default_service_arpa'') = Some True),
                                          srp_policy = policy, srp_ttl = ttl,
                                          advertiseRegistrationDomain =
                                            (bool_of (map_of cfg ''advertise_registration_domain'') = Some True)\<rparr>,
                                        ss_coordinator = c, ss_key = k, ss_store = s\<rparr>)))))))"

subsection \<open>The command\<close>

text \<open>\<open>strconv.ParseUint\<close> with base 10 and 32 bits, \<open>strconv.ParseBool\<close>.\<close>

text \<open>\<open>strconv.ParseUint\<close> in base 10 for a number of the given bits.\<close>

definition ParseUint :: "nat \<Rightarrow> string \<Rightarrow> nat option" where
  "ParseUint bits v =
     (if v = [] \<or> \<not> list_all (\<lambda>c. 48 \<le> byte c \<and> byte c \<le> 57) v then None
      else let n = foldl (\<lambda>a c. a * 10 + (byte c - 48)) 0 v in
        if n < 2 ^ bits then Some n else None)"

definition ParseUint32 :: "string \<Rightarrow> u32 option" where
  "ParseUint32 v = map_option of_nat (ParseUint 32 v)"

definition ParseBool :: "string \<Rightarrow> bool option" where
  "ParseBool v =
     (if v \<in> {''1'', ''t'', ''T'', ''TRUE'', ''true'', ''True''} then Some True
      else if v \<in> {''0'', ''f'', ''F'', ''FALSE'', ''false'', ''False''} then Some False
      else None)"

definition setUintEnv :: "(string \<Rightarrow> string) \<Rightarrow> string \<Rightarrow> string \<Rightarrow> config \<Rightarrow> config" where
  "setUintEnv getenv envName field dst =
     (case ParseUint32 (getenv envName) of Some n \<Rightarrow> mput field (VUint32 n) dst | None \<Rightarrow> dst)"

definition set_from_env :: "string \<Rightarrow> string \<Rightarrow> config \<Rightarrow> config" where
  "set_from_env v field cfg = (if v = [] then cfg else mput field (VString v) cfg)"

definition applyUpdateHandlerEnvOverrides :: "(string \<Rightarrow> string) \<Rightarrow> config \<Rightarrow> config" where
  "applyUpdateHandlerEnvOverrides getenv cfg =
     (let c1 = set_from_env (getenv ''UPSTREAM_ZONE'') ''upstream_zone'' cfg;
          c2 = set_from_env (getenv ''KEYSTORE_DIR'') ''keystore_dir'' c1;
          c3 = (case ParseBool (getenv ''ALLOW_ONLINE_KEY_REGISTRATION'') of
                  Some b \<Rightarrow> mput ''allow_online_key_registration'' (VBool b) c2
                | None \<Rightarrow> c2);
          p0 = (case map_of c3 ''lease_policy'' of Some (VMap m) \<Rightarrow> m | _ \<Rightarrow> []);
          p = setUintEnv getenv ''POLICY_MAX_RR_LEASE'' ''max_rr_lease_sec''
               (setUintEnv getenv ''POLICY_MIN_RR_LEASE'' ''min_rr_lease_sec''
                 (setUintEnv getenv ''POLICY_MAX_KEY_LEASE'' ''max_key_lease_sec''
                   (setUintEnv getenv ''POLICY_MIN_KEY_LEASE'' ''min_key_lease_sec'' p0)))
      in if p = [] then c3 else mput ''lease_policy'' (VMap p) c3)"

definition withBootstrapResolvers :: "config \<Rightarrow> proxy_Config \<Rightarrow> config" where
  "withBootstrapResolvers handlerCfg appCfg =
     (if map_of handlerCfg ''bootstrap_resolvers'' \<noteq> None then handlerCfg
      else let addrs = filter (\<lambda>a. a \<noteq> []) (map up_Address (Upstreams appCfg)) in
        if addrs = [] then handlerCfg else mput ''bootstrap_resolvers'' (VStrings addrs) handlerCfg)"

definition enabledModules :: "proxy_Config \<Rightarrow> string list" where
  "enabledModules cfg =
     remdups_adj (sort_strings (concat (map (\<lambda>opcode. the (GetOpcodeMap cfg opcode))
       (remdups (map rule_Opcode (ProcessingRules cfg))))))"

definition section_of :: "proxy_Config \<Rightarrow> string \<Rightarrow> config" where
  "section_of cfg name = (case mget (cfg_Handlers cfg) name of Some m \<Rightarrow> m | None \<Rightarrow> [])"

text \<open>\<open>absPath\<close> is \<open>filepath.Abs\<close>; \<open>file_id\<close> is what \<open>os.Stat\<close> finds: an error, no file, or the identity of a file.\<close>

datatype start_error =
    PathFailed
  | UpdateSection setup_error
  | SrpSection setup_error
  | SameSnapshot string string
  | SetupFailed string setup_error

definition sameFile :: "(string \<Rightarrow> string option) \<Rightarrow> (string \<Rightarrow> nat option option) \<Rightarrow> string \<Rightarrow> string \<Rightarrow> start_error + bool" where
  "sameFile absPath file_id a b =
     (case absPath a of
        None \<Rightarrow> Inl PathFailed
      | Some absA \<Rightarrow>
          (case absPath b of
             None \<Rightarrow> Inl PathFailed
           | Some absB \<Rightarrow>
               if absA = absB then Inr True
               else (case file_id absA of
                   None \<Rightarrow> Inl PathFailed
                 | Some None \<Rightarrow> Inr False
                 | Some (Some i) \<Rightarrow>
                     (case file_id absB of
                        None \<Rightarrow> Inl PathFailed
                      | Some None \<Rightarrow> Inr False
                      | Some (Some j) \<Rightarrow> Inr (i = j)))))"

definition checkSeparateLeaseStores ::
  "setup_env \<Rightarrow> (string \<Rightarrow> string option) \<Rightarrow> (string \<Rightarrow> nat option option) \<Rightarrow> proxy_Config \<Rightarrow> start_error option"
where
  "checkSeparateLeaseStores env absPath file_id cfg =
     (let enabled = enabledModules cfg in
      if ''update_handler'' \<notin> set enabled \<or> ''srp_handler'' \<notin> set enabled then None
      else case LeaseSnapshotPath env (section_of cfg ''update'') of
        Inl e \<Rightarrow> Some (UpdateSection e)
      | Inr updatePath \<Rightarrow>
          (case LeaseSnapshotPath env (section_of cfg ''srp_handler'') of
             Inl e \<Rightarrow> Some (SrpSection e)
           | Inr srpPath \<Rightarrow>
               if updatePath = [] \<or> srpPath = [] then None
               else (case sameFile absPath file_id updatePath srpPath of
                   Inl e \<Rightarrow> Some e
                 | Inr same \<Rightarrow> if same then Some (SameSnapshot updatePath srpPath) else None)))"

record started =
  st_update :: "update_setup option"
  st_srp :: "srp_setup option"
  st_disk :: disk

definition handler_config :: "(string \<Rightarrow> string) \<Rightarrow> proxy_Config \<Rightarrow> string \<Rightarrow> config" where
  "handler_config getenv cfg name =
     (if name = ''update_handler''
      then withBootstrapResolvers (applyUpdateHandlerEnvOverrides getenv (section_of cfg ''update'')) cfg
      else withBootstrapResolvers (section_of cfg ''srp_handler'') cfg)"

text \<open>The loop of \<open>main\<close> over the module names, in whatever order the map of opcodes gives them.\<close>

fun setup_modules ::
  "setup_env \<Rightarrow> (string \<Rightarrow> string) \<Rightarrow> proxy_Config \<Rightarrow> string list \<Rightarrow> started \<Rightarrow> start_error + started"
where
  "setup_modules env getenv cfg [] st = Inr st"
| "setup_modules env getenv cfg (name # rest) st =
     (if name = ''update_handler'' \<and> st_update st = None then
        (case update_Setup (env\<lparr>se_disk := st_disk st\<rparr>) None (handler_config getenv cfg name) of
           (d, Inl e) \<Rightarrow> Inl (SetupFailed name e)
         | (d, Inr u) \<Rightarrow> setup_modules env getenv cfg rest (st\<lparr>st_update := Some u, st_disk := d\<rparr>))
      else if name = ''srp_handler'' \<and> st_srp st = None then
        (case srp_Setup (env\<lparr>se_disk := st_disk st\<rparr>) None (handler_config getenv cfg name) of
           (d, Inl e) \<Rightarrow> Inl (SetupFailed name e)
         | (d, Inr s) \<Rightarrow> setup_modules env getenv cfg rest (st\<lparr>st_srp := Some s, st_disk := d\<rparr>))
      else setup_modules env getenv cfg rest st)"

subsection \<open>A started proxy\<close>

text \<open>
  The proxy that \<open>main\<close> has set up. Of \<open>e\<close>, what changes from request to request is taken: the
  clocks, the transport, the earlier view of the store. The coordinators are those of \<open>Upstream_Net\<close>
  over a network \<open>net\<close>, signing with the key found in the keystore.
\<close>

definition started_env :: "network \<Rightarrow> (key \<Rightarrow> msg \<Rightarrow> msg option) \<Rightarrow> started \<Rightarrow> proxy_env \<Rightarrow> proxy_env" where
  "started_env net sign st e =
     e\<lparr>env_update := (case st_update st of Some u \<Rightarrow> us_handler u | None \<Rightarrow> env_update e),
       env_updateCo := (case st_update st of
           Some u \<Rightarrow> coordinator_of net (us_coordinator u) (sign (us_key u))
         | None \<Rightarrow> coordinator_of net (NewCoordinator [] None) (\<lambda>_. None)),
       env_srp := (case st_srp st of Some s \<Rightarrow> ss_handler s | None \<Rightarrow> env_srp e),
       env_srpCo := (case st_srp st of
           Some s \<Rightarrow> srp_coordinator_of net (ss_coordinator s) (sign (ss_key s))
         | None \<Rightarrow> srp_coordinator_of net (NewCoordinator [] None) (\<lambda>_. None))\<rparr>"

definition fresh_proxy :: "store \<Rightarrow> proxy" where
  "fresh_proxy s = \<lparr>lm = s, tms = newExpiryTimers, locks = NewNodeLocks, sent = []\<rparr>"

definition started_state :: "started \<Rightarrow> proxy_state" where
  "started_state st =
     \<lparr>srp_st = \<lparr>core = fresh_proxy (case st_srp st of Some s \<Rightarrow> ss_store s | None \<Rightarrow> NewInMemoryManager),
        serviceTypes = [], domainEnumPresent = []\<rparr>,
      upd_st = fresh_proxy (case st_update st of Some u \<Rightarrow> us_store u | None \<Rightarrow> NewInMemoryManager)\<rparr>"

text \<open>The requests the listeners hand over one after the other, each with its environment and what its forwarding would see.\<close>

fun serve_all ::
  "dns_exchange \<Rightarrow> network \<Rightarrow> (key \<Rightarrow> msg \<Rightarrow> msg option) \<Rightarrow> started \<Rightarrow> string list \<Rightarrow> proxy_state Router \<Rightarrow>
   (proxy_env \<times> event list \<times> msg) list \<Rightarrow> proxy_state \<Rightarrow> route_panic + (msg list list \<times> proxy_state)"
where
  "serve_all ex net sign st mods r [] w = Inr ([], w)"
| "serve_all ex net sign st mods r ((e, es, m) # rest) w =
     (case handleRequest ex es (proxy_router (started_env net sign st e) mods r) m w of
        Inl p \<Rightarrow> Inl p
      | Inr (out, w') \<Rightarrow>
          (case serve_all ex net sign st mods r rest w' of
             Inl p \<Rightarrow> Inl p
           | Inr (outs, w'') \<Rightarrow> Inr (out # outs, w'')))"

lemma Route_runs:
  assumes "env_inv env w"
  shows "\<exists>resp w'. Route ex es (proxy_router env mods r) m w = Inr (resp, w') \<and> env_inv env w'"
proof (cases "isDumpQuery m")
  case False
  with proxy_routes.try_handlers_ok [OF assms, where mods = mods and r = r and ex = ex and es = es and m = m
      and ms = "modules_for (proxy_router env mods r) m"] assms
  show ?thesis by (auto simp: Route_modules)
qed (simp add: Route_modules assms)

lemma started_env_inv:
  "env_inv (started_env net sign st e) w \<longleftrightarrow>
     plain_text (env_lib e) \<and> wf_store (env_lib e) (lm (core (srp_st w))) \<and> wf_store (env_lib e) (lm (upd_st w))"
  by (auto simp: env_inv_def proxy_inv_def started_env_def coordinator_of_def srp_coordinator_of_def requireUpstream_def
      split: option.splits)

lemma serve_all_runs:
  assumes "\<forall>x \<in> set reqs. env_lib (fst x) = lib" "plain_text lib"
    "wf_store lib (lm (core (srp_st w)))" "wf_store lib (lm (upd_st w))"
  shows "\<exists>outs w'. serve_all ex net sign st mods r reqs w = Inr (outs, w') \<and> length outs = length reqs \<and>
    (\<forall>out \<in> set outs. length out = 1) \<and> wf_store lib (lm (core (srp_st w'))) \<and> wf_store lib (lm (upd_st w'))"
  using assms
proof (induction reqs arbitrary: w)
  case (Cons x reqs)
  obtain e es m where x: "x = (e, es, m)" by (cases x)
  let ?env = "started_env net sign st e"
  have "env_lib e = lib" using Cons.prems x by simp
  then have "env_inv ?env w" using Cons.prems started_env_inv by blast
  from Route_runs [OF this, where ex = ex and es = es and mods = mods and r = r and m = m]
  obtain resp w1 where r1: "Route ex es (proxy_router ?env mods r) m w = Inr (resp, w1)" "env_inv ?env w1" by blast
  have w1: "wf_store lib (lm (core (srp_st w1)))" "wf_store lib (lm (upd_st w1))"
    using r1(2) \<open>env_lib e = lib\<close> started_env_inv by blast+
  have "\<forall>x \<in> set reqs. env_lib (fst x) = lib" using Cons.prems(1) by simp
  from Cons.IH [OF this Cons.prems(2) w1] r1(1) show ?case by (auto simp: x handleRequest_def)
qed simp

lemma memory_store:
  "selectLeaseStore env None cfg = Inr (None, None) \<Longrightarrow> LeaseStoreFromConfig env None cfg ro = (se_disk env, Inr NewInMemoryManager)"
  by (simp add: LeaseStoreFromConfig_def Let_def)

definition good_settings :: "string \<Rightarrow> u32 \<Rightarrow> LeasePolicy \<Rightarrow> bool" where
  "good_settings zone ttl p \<longleftrightarrow> zone \<noteq> [] \<and> 0 < ttl \<and> ttl \<le> MaxInt32 \<and> validate p = None"

lemma setup_policy_valid: "setup_policy cfg no_policy = Inr p \<Longrightarrow> validate p = None"
  by (auto simp: setup_policy_def no_policy_def parseLeasePolicy_def Let_def validate_def split: option.splits sum.splits go_value.splits if_splits)

lemma configured_ttl_range: "parseRecordTTL cfg = Inr ttl \<Longrightarrow> 0 < ttl \<and> ttl \<le> MaxInt32"
  by (auto simp: parseRecordTTL_def defaultRecordTTL_def MaxInt32_def word_gt_0 not_less split: option.splits if_splits)

lemma setup_zone_nonempty: "setup_zone cfg = Inr z \<Longrightarrow> z \<noteq> []"
  by (auto simp: setup_zone_def Let_def split: if_splits)

lemma update_Setup_ok:
  assumes "update_Setup env given cfg = (d, Inr u)"
  shows "good_settings (upstreamZone (us_handler u)) (recordTTL (us_handler u)) (leasePolicy (us_handler u))"
    "\<exists>d'. LeaseStoreFromConfig env given cfg False = (d', Inr (us_store u))"
  using assms setup_policy_valid configured_ttl_range setup_zone_nonempty
  by (auto simp: update_Setup_def good_settings_def split: sum.splits prod.splits)

lemma srp_Setup_ok:
  assumes "srp_Setup env given cfg = (d, Inr s)"
  shows "good_settings (srp_zone (ss_handler s)) (srp_ttl (ss_handler s)) (srp_policy (ss_handler s))"
    "\<exists>d'. LeaseStoreFromConfig env given cfg False = (d', Inr (ss_store s))"
  using assms setup_policy_valid configured_ttl_range setup_zone_nonempty
  by (auto simp: srp_Setup_def good_settings_def split: sum.splits prod.splits)

definition set_up :: "dnslib \<Rightarrow> started \<Rightarrow> bool" where
  "set_up lib st \<longleftrightarrow>
     (\<forall>u. st_update st = Some u \<longrightarrow> wf_store lib (us_store u) \<and>
        good_settings (upstreamZone (us_handler u)) (recordTTL (us_handler u)) (leasePolicy (us_handler u))) \<and>
     (\<forall>s. st_srp st = Some s \<longrightarrow> wf_store lib (ss_store s) \<and>
        good_settings (srp_zone (ss_handler s)) (srp_ttl (ss_handler s)) (srp_policy (ss_handler s)))"

lemma setup_modules_ok:
  assumes "setup_modules env getenv cfg mods st0 = Inr st" "set_up lib st0"
    and loads: "\<And>d cfg d' s. LeaseStoreFromConfig (env\<lparr>se_disk := d\<rparr>) None cfg False = (d', Inr s) \<Longrightarrow> wf_store lib s"
  shows "set_up lib st"
  using assms(1,2)
proof (induction mods arbitrary: st0)
  case (Cons name rest)
  consider (update) d u where "update_Setup (env\<lparr>se_disk := st_disk st0\<rparr>) None (handler_config getenv cfg name) = (d, Inr u)"
      "setup_modules env getenv cfg rest (st0\<lparr>st_update := Some u, st_disk := d\<rparr>) = Inr st"
    | (srp) d s where "srp_Setup (env\<lparr>se_disk := st_disk st0\<rparr>) None (handler_config getenv cfg name) = (d, Inr s)"
      "setup_modules env getenv cfg rest (st0\<lparr>st_srp := Some s, st_disk := d\<rparr>) = Inr st"
    | (other) "setup_modules env getenv cfg rest st0 = Inr st"
    using Cons.prems(1) by (auto split: if_splits prod.splits sum.splits)
  then show ?case
  proof cases
    case update
    have "set_up lib (st0\<lparr>st_update := Some u, st_disk := d\<rparr>)"
      using Cons.prems(2) update_Setup_ok [OF update(1)] loads by (auto simp: set_up_def)
    then show ?thesis by (rule Cons.IH [OF update(2)])
  next
    case srp
    have "set_up lib (st0\<lparr>st_srp := Some s, st_disk := d\<rparr>)"
      using Cons.prems(2) srp_Setup_ok [OF srp(1)] loads by (auto simp: set_up_def)
    then show ?thesis by (rule Cons.IH [OF srp(2)])
  next
    case other
    then show ?thesis using Cons.prems(2) by (rule Cons.IH)
  qed
qed simp

lemma LoadConfig_valid: "LoadConfig exists read unmarshal = Inr cfg \<Longrightarrow> \<exists>c. Config_Validate c = (cfg, None)"
  by (auto simp: LoadConfig_def Let_def split: if_splits option.splits prod.splits)


text \<open>
  A keystore that cannot be read is reported as one without a key: the search drops the error and
  goes on to the parent zones.
\<close>

lemma proxy_key_loop_Nil: "proxy_key_loop (\<lambda>_. []) load zone cand = Inl (NoProxyKey (zone @ ''.''))"
  by (induction "\<lambda>_ :: string. [] :: string list" load zone cand rule: proxy_key_loop.induct) (simp add: proxy_key_loop.simps)

lemma unreadable_keystore:
  assumes "string_of (map_of cfg ''keystore_dir'') = Some dir" "dir \<noteq> []" "se_keystore env dir = Unreadable" "Normalize zone \<noteq> []"
  shows "setup_key env cfg zone = Inl (SigningKey (NoProxyKey (Normalize zone @ ''.'')))"
proof -
  have "key_files Unreadable = (\<lambda>_. [])"
    by (auto simp: key_files_def FindKeysByZone_def ListKeysInDirectory_def ReadDir_def Let_def)
  then show ?thesis using assms by (simp add: setup_key_def FindAuthorizedProxyKey_def proxy_key_loop_Nil Let_def)
qed

subsection \<open>A witness\<close>

definition sample_yaml :: "string \<Rightarrow> proxy_Config \<Rightarrow> proxy_Config option" where
  "sample_yaml data c =
     Some (c\<lparr>ProcessingRules := [\<lparr>rule_Opcode = 5, Modules = [''update_handler'']\<rparr>],
       cfg_Handlers := [(''update'', [(''upstream_zone'', VString ''e.''), (''keystore_dir'', VString ''k'')])]\<rparr>)"

definition sample_setup :: setup_env where
  "sample_setup = \<lparr>se_lib = sample_lib, se_wide = (\<lambda>_. False), se_codec = snap_codec, se_now = 0, se_disk = Map.empty,
     se_mkdir = (\<lambda>_. False), se_stat = (\<lambda>_. True), se_saved = (\<lambda>path data d. (d, False)),
     se_keystore = (\<lambda>_. Folder [(''Ke.+015+1.key'', File []), (''Ke.+015+1.private'', File [])]), se_keys = toy_key_env,
     ParseDuration = (\<lambda>_. None), StringToType = (\<lambda>_. None)\<rparr>"

text \<open>Where no directory can be made, no file store is ever built.\<close>

lemma sample_loads:
  assumes "LeaseStoreFromConfig (sample_setup\<lparr>se_disk := d\<rparr>) None cfg False = (d', Inr s)"
  shows "wf_store sample_lib s"
proof -
  have "s = NewInMemoryManager"
    using assms by (auto simp: LeaseStoreFromConfig_def selectLeaseStore_def NewFileLeaseStore_def sample_setup_def Let_def
        split: sum.splits prod.splits option.splits if_splits go_value.splits)
  then show ?thesis by (simp add: wf_NewInMemoryManager)
qed

lemma sample_load: "\<exists>cfg. LoadConfig True (Some ''y'') sample_yaml = Inr cfg \<and>
    (\<exists>st. setup_modules sample_setup (\<lambda>_. []) cfg [''update_handler''] \<lparr>st_update = None, st_srp = None, st_disk = Map.empty\<rparr> = Inr st)"
proof -
  let ?c = "the (sample_yaml ''y'' NewDefaultConfig)"
  have 1: "LoadConfig True (Some ''y'') sample_yaml = Inr ?c" by code_simp
  have "case update_Setup sample_setup None (handler_config (\<lambda>_. []) ?c ''update_handler'') of (_, Inr _) \<Rightarrow> True | _ \<Rightarrow> False"
    by code_simp
  moreover have "sample_setup\<lparr>se_disk := Map.empty\<rparr> = sample_setup" by (simp add: sample_setup_def)
  ultimately show ?thesis using 1 by (auto split: prod.splits sum.splits)
qed


end
