(* ===== verification/Client_Commands.thy ===== *)
theory Client_Commands
  imports Handler_Setup Lease_Client Srp_Client Sig0_Properties
begin

text \<open>
  The two client commands, from their arguments to the request: \<open>cmd/sig0lease-client/main.go\<close> builds a
  lease update, places the signer's key and signs; \<open>cmd/sig0lease-srp-client/main.go\<close> turns its flags
  into the configuration of an SRP client.

  A command that prints an error and exits is the value \<open>Inl\<close>. The output, the flag parser of package
  \<open>flag\<close> (whose values are the record \<open>srp_flags\<close>), \<open>netip.ParseAddr\<close> and the dns library's parser of
  records are arguments or left out; a keystore directory is that of \<open>Keystore\<close>.

  The theorems: the proxy reads from a request exactly the records and durations of the arguments, and
  finds the signer's key in it wherever the placement asks for it; the SRP command declares exactly the
  instances of its flags, each with its own texts and subtypes.
\<close>

unbundle bit_operations_syntax

subsection \<open>Arguments of sig0lease-client\<close>

datatype command_error =
    KeystoreRequired
  | InvalidSigner string
  | TcpAndTls
  | InvalidAlgorithm string
  | InvalidTTL string
  | Usage
  | InvalidLease string
  | InvalidKeyLease string
  | InvalidSpec string rr_spec_error
  | IncompleteKeySpec string
  | KeyUnavailable key_error
  | SameKeyTwice
  | SameKeyWithoutSigner
  | RequestNotBuilt new_update_error
  | SignerNotInUpdate
  | SignerInUpdate
  | RequestNotSigned sign_error
  | NotTampered

definition flag_values :: "string \<Rightarrow> string list \<Rightarrow> string list" where
  "flag_values pre args = map (drop (length pre)) (filter (\<lambda>a. HasPrefix a pre) args)"

definition without_flag :: "string \<Rightarrow> string list \<Rightarrow> string list" where
  "without_flag pre args = filter (\<lambda>a. \<not> HasPrefix a pre) args"

definition last_value :: "string \<Rightarrow> string list \<Rightarrow> string" where
  "last_value dflt vs = (if vs = [] then dflt else last vs)"

definition extractKeystoreFlag :: "string list \<Rightarrow> string list \<times> string" where
  "extractKeystoreFlag args = (without_flag ''--keystore='' args, last_value [] (flag_values ''--keystore='' args))"

definition resolveKeystoreDir :: "(string \<Rightarrow> string) \<Rightarrow> string \<Rightarrow> command_error + string" where
  "resolveKeystoreDir getenv flagValue =
     (if flagValue \<noteq> [] then Inr flagValue
      else if getenv ''CLIENT_KEYSTORE_DIR'' \<noteq> [] then Inr (getenv ''CLIENT_KEYSTORE_DIR'')
      else Inl KeystoreRequired)"

definition extractSignerLocationFlag :: "string list \<Rightarrow> string list \<times> string" where
  "extractSignerLocationFlag args = (without_flag ''--signer='' args, last_value ''auto'' (flag_values ''--signer='' args))"

definition extractSameKeyFlag :: "string list \<Rightarrow> string list \<times> bool" where
  "extractSameKeyFlag args = (filter (\<lambda>a. a \<noteq> ''--same-key'') args, ''--same-key'' \<in> set args)"

definition extractKeyAlgFlag :: "string list \<Rightarrow> command_error + (string list \<times> u8 option)" where
  "extractKeyAlgFlag args =
     (let vs = flag_values ''--k='' args in
      case find (\<lambda>v. ParseUint 8 v = None) vs of
        Some v \<Rightarrow> Inl (InvalidAlgorithm v)
      | None \<Rightarrow> Inr (without_flag ''--k='' args, if vs = [] then None else map_option of_nat (ParseUint 8 (last vs))))"

definition defaultKeyTTL :: u32 where
  "defaultKeyTTL = 300"

definition extractTTLFlag :: "string list \<Rightarrow> command_error + (string list \<times> u32)" where
  "extractTTLFlag args =
     (let vs = flag_values ''--ttl='' args in
      case find (\<lambda>v. ParseUint 32 v = None \<or> ParseUint 32 v = Some 0) vs of
        Some v \<Rightarrow> Inl (InvalidTTL v)
      | None \<Rightarrow> Inr (without_flag ''--ttl='' args,
          case vs of [] \<Rightarrow> defaultKeyTTL | _ \<Rightarrow> (case ParseUint32 (last vs) of Some n \<Rightarrow> n | None \<Rightarrow> defaultKeyTTL)))"

fun extractProtocolFlag :: "string \<Rightarrow> string list \<Rightarrow> command_error + (string list \<times> string)" where
  "extractProtocolFlag proto [] = Inr ([], proto)"
| "extractProtocolFlag proto (a # args) =
     (if a = ''--tcp'' \<or> a = ''--tls'' then
        (let p = (if a = ''--tcp'' then ''tcp'' else ''tls'') in
         if proto \<noteq> ''udp'' \<and> proto \<noteq> p then Inl TcpAndTls else extractProtocolFlag p args)
      else case extractProtocolFlag proto args of
        Inl e \<Rightarrow> Inl e
      | Inr (rest, p) \<Rightarrow> Inr (a # rest, p))"

fun parse_specs :: "(string \<Rightarrow> rr option option) \<Rightarrow> string list \<Rightarrow> command_error + (key list \<times> rr list)" where
  "parse_specs parse [] = Inr ([], [])"
| "parse_specs parse (spec # texts) =
     (case ParseAdditionalRRSpec parse spec of
        Inl e \<Rightarrow> Inl (InvalidSpec spec e)
      | Inr r \<Rightarrow>
          (case as_key r of
             Some k \<Rightarrow>
               if Algorithm k = 0 \<or> Protocol k = 0 \<or> TrimSpace (PublicKey k) = [] then Inl (IncompleteKeySpec spec)
               else (case parse_specs parse texts of Inl e \<Rightarrow> Inl e | Inr (ks, rs) \<Rightarrow> Inr (k # ks, rs))
           | None \<Rightarrow> (case parse_specs parse texts of Inl e \<Rightarrow> Inl e | Inr (ks, rs) \<Rightarrow> Inr (ks, r # rs))))"

record lease_command =
  lc_signer :: string
  lc_sameKey :: bool
  lc_protocol :: string
  lc_alg :: "u8 option"
  lc_ttl :: u32
  lc_keyname :: string
  lc_lease :: u32
  lc_keyLease :: u32
  lc_keys :: "key list"
  lc_others :: "rr list"

definition parse_positional ::
  "(string \<Rightarrow> rr option option) \<Rightarrow> string list \<Rightarrow> command_error + (string \<times> u32 \<times> u32 \<times> key list \<times> rr list)"
where
  "parse_positional parse args =
     (case args of
        keyname # leaseText # keyLeaseText # texts \<Rightarrow>
          (case ParseUint32 leaseText of None \<Rightarrow> Inl (InvalidLease leaseText) | Some lease \<Rightarrow>
           case ParseUint32 keyLeaseText of None \<Rightarrow> Inl (InvalidKeyLease keyLeaseText) | Some keyLease \<Rightarrow>
           case parse_specs parse texts of Inl e \<Rightarrow> Inl e | Inr (ks, rs) \<Rightarrow> Inr (keyname, lease, keyLease, ks, rs))
      | _ \<Rightarrow> Inl Usage)"

definition parse_command :: "(string \<Rightarrow> rr option option) \<Rightarrow> string list \<Rightarrow> command_error + lease_command" where
  "parse_command parse args0 =
     (case extractSignerLocationFlag args0 of (args1, signer) \<Rightarrow>
      if signer \<notin> {''auto'', ''update'', ''additional'', ''none''} then Inl (InvalidSigner signer)
      else case extractSameKeyFlag args1 of (args2, sameKey) \<Rightarrow>
      case extractProtocolFlag ''udp'' args2 of Inl e \<Rightarrow> Inl e | Inr (args3, proto) \<Rightarrow>
      case extractKeyAlgFlag args3 of Inl e \<Rightarrow> Inl e | Inr (args4, alg) \<Rightarrow>
      case extractTTLFlag args4 of Inl e \<Rightarrow> Inl e | Inr (args5, ttl) \<Rightarrow>
      case parse_positional parse args5 of Inl e \<Rightarrow> Inl e | Inr (keyname, lease, keyLease, ks, rs) \<Rightarrow>
        Inr \<lparr>lc_signer = signer, lc_sameKey = sameKey, lc_protocol = proto, lc_alg = alg, lc_ttl = ttl, lc_keyname = keyname,
          lc_lease = lease, lc_keyLease = keyLease, lc_keys = ks, lc_others = rs\<rparr>)"

subsection \<open>The request of sig0lease-client\<close>

text \<open>The key: with \<open>--k\<close> that of an owner name, found or created; without it that of a file name.\<close>

definition client_key :: "key_env \<Rightarrow> string \<Rightarrow> store_dir \<Rightarrow> lease_command \<Rightarrow> store_dir \<times> (command_error + LoadedKey)" where
  "client_key env dir d c =
     (case lc_alg c of
        Some alg \<Rightarrow>
          (case ResolveOrCreateKey env dir d (lc_keyname c) alg of
             (d', Inl e) \<Rightarrow> (d', Inl (KeyUnavailable e))
           | (d', Inr (k, _)) \<Rightarrow> (d', Inr k))
      | None \<Rightarrow>
          (d, case KeyExists d (lc_keyname c) of
             Some e \<Rightarrow> Inl (KeyUnavailable e)
           | None \<Rightarrow> (case LoadKeyFromFile env d (lc_keyname c) of Inl e \<Rightarrow> Inl (KeyUnavailable e) | Inr k \<Rightarrow> Inr k)))"

definition keyRRFromClientKey :: "LoadedKey \<Rightarrow> u32 \<Rightarrow> key" where
  "keyRRFromClientKey lk ttl =
     \<lparr>key_name = key_name (lk_PublicKey lk), key_class = ClassINET, key_ttl = ttl, Flags = Flags (lk_PublicKey lk),
      Protocol = Protocol (lk_PublicKey lk), Algorithm = Algorithm (lk_PublicKey lk), PublicKey = PublicKey (lk_PublicKey lk)\<rparr>"

definition addSignerKeyToAdditional :: "msg \<Rightarrow> LoadedKey \<Rightarrow> u32 \<Rightarrow> msg" where
  "addSignerKeyToAdditional m lk ttl = m\<lparr>msg_Extra := msg_Extra m @ [of_key (keyRRFromClientKey lk ttl)]\<rparr>"

definition update_keys :: "lease_command \<Rightarrow> LoadedKey \<Rightarrow> command_error + key list" where
  "update_keys c lk =
     (if \<not> lc_sameKey c then Inr (lc_keys c)
      else if list_ex (\<lambda>k. EqualFold (key_name k) (key_name (lk_PublicKey lk))) (lc_keys c) then Inl SameKeyTwice
      else if lc_signer c = ''none'' then Inl SameKeyWithoutSigner
      else Inr (lc_keys c @ [keyRRFromClientKey lk (lc_ttl c)]))"

definition is_signer :: "LoadedKey \<Rightarrow> key \<Rightarrow> bool" where
  "is_signer lk k \<longleftrightarrow> EqualFold (key_name k) (key_name (lk_PublicKey lk)) \<and> Flags k = Flags (lk_PublicKey lk) \<and>
     Protocol k = Protocol (lk_PublicKey lk) \<and> Algorithm k = Algorithm (lk_PublicKey lk) \<and>
     TrimSpace (PublicKey k) = TrimSpace (PublicKey (lk_PublicKey lk))"

definition place_signer :: "lease_command \<Rightarrow> LoadedKey \<Rightarrow> key list \<Rightarrow> msg \<Rightarrow> command_error + msg" where
  "place_signer c lk ks m =
     (let inUpdate = list_ex (is_signer lk) ks in
      if lc_signer c = ''update'' then (if inUpdate then Inr m else Inl SignerNotInUpdate)
      else if lc_signer c = ''additional'' then Inr (addSignerKeyToAdditional m lk (lc_ttl c))
      else if lc_signer c = ''none'' then (if inUpdate then Inl SignerInUpdate else Inr m)
      else Inr (if inUpdate then m else addSignerKeyToAdditional m lk (lc_ttl c)))"

definition lease_request ::
  "dnslib \<Rightarrow> (string \<Rightarrow> u16 \<Rightarrow> msg option) \<Rightarrow> lease_command \<Rightarrow> LoadedKey \<Rightarrow> command_error + msg"
where
  "lease_request lib new c lk =
     (case update_keys c lk of Inl e \<Rightarrow> Inl e | Inr ks \<Rightarrow>
      case NewLeaseUpdate lib new (key_name (lk_PublicKey lk)) ks (lc_others c) (lc_lease c) (lc_keyLease c) of
        Inl e \<Rightarrow> Inl (RequestNotBuilt e)
      | Inr m \<Rightarrow> place_signer c lk ks m)"

text \<open>
  The command that tests the proxy's check: after signing it flips the lowest bit of the first public
  key in the update, or else in the additional section.
\<close>

definition flip_key :: "rr \<Rightarrow> rr option" where
  "flip_key r =
     (case as_key r of
        None \<Rightarrow> None
      | Some k \<Rightarrow>
          (case decode64 (PublicKey k) of
             Some (b # rest) \<Rightarrow> Some (of_key (k\<lparr>PublicKey := encode64 ((b XOR 1) # rest)\<rparr>))
           | _ \<Rightarrow> None))"

fun flip_first :: "rr list \<Rightarrow> rr list option option" where
  "flip_first [] = None"
| "flip_first (r # rs) =
     (if as_key r = None then map_option (map_option (\<lambda>rs'. r # rs')) (flip_first rs)
      else Some (map_option (\<lambda>r'. r' # rs) (flip_key r)))"

definition flipOnePayloadBit :: "msg \<Rightarrow> msg option" where
  "flipOnePayloadBit m =
     (case flip_first (msg_Ns m) of
        Some ns \<Rightarrow> map_option (\<lambda>rs. m\<lparr>msg_Ns := rs\<rparr>) ns
      | None \<Rightarrow>
          (case flip_first (msg_Extra m) of
             Some ex \<Rightarrow> map_option (\<lambda>rs. m\<lparr>msg_Extra := rs\<rparr>) ex
           | None \<Rightarrow> None))"

definition cmdRegRefWithMode ::
  "dnslib \<Rightarrow> crypto \<Rightarrow> sig0lib \<Rightarrow> (string \<Rightarrow> u16 \<Rightarrow> msg option) \<Rightarrow> (string \<Rightarrow> rr option option) \<Rightarrow> key_env \<Rightarrow> int \<Rightarrow>
   string \<Rightarrow> store_dir \<Rightarrow> string list \<Rightarrow> bool \<Rightarrow> store_dir \<times> (command_error + (msg \<times> string))"
where
  "cmdRegRefWithMode lib cr sl new parse env unix dir d args tamper =
     (case parse_command parse args of
        Inl e \<Rightarrow> (d, Inl e)
      | Inr c \<Rightarrow>
          (case client_key env dir d c of
             (d', Inl e) \<Rightarrow> (d', Inl e)
           | (d', Inr lk) \<Rightarrow>
               (d', case lease_request lib new c lk of Inl e \<Rightarrow> Inl e | Inr m \<Rightarrow>
                  case sig0_SignMessage lib cr sl unix (Some m) (Some (lk_PublicKey lk)) (Some (lk_PrivateKey lk)) of
                    Inl e \<Rightarrow> Inl (RequestNotSigned e)
                  | Inr sm \<Rightarrow>
                      if \<not> tamper then Inr (sm, lc_protocol c)
                      else case flipOnePayloadBit sm of None \<Rightarrow> Inl NotTampered | Some tm \<Rightarrow> Inr (tm, lc_protocol c))))"

subsection \<open>The proxy reads what the arguments say\<close>

lemma parse_specs_ok:
  "parse_specs parse ts = Inr (ks, rs) \<Longrightarrow> (\<forall>k \<in> set ks. \<not> incomplete_key k) \<and> (\<forall>r \<in> set rs. as_key r = None)"
proof (induction parse ts arbitrary: ks rs rule: parse_specs.induct)
  case (2 parse t ts)
  from 2(3) obtain r where r: "ParseAdditionalRRSpec parse t = Inr r" by (cases "ParseAdditionalRRSpec parse t") simp_all
  show ?case
  proof (cases "as_key r")
    case None
    with 2(3) r obtain rs' where "parse_specs parse ts = Inr (ks, rs')" "rs = r # rs'" by (auto split: sum.splits)
    with 2(1) [OF r None] None show ?thesis by simp
  next
    case (Some k)
    with 2(3) r obtain ks' where k: "\<not> (Algorithm k = 0 \<or> Protocol k = 0 \<or> TrimSpace (PublicKey k) = [])"
      "parse_specs parse ts = Inr (ks', rs)" "ks = k # ks'" by (auto split: sum.splits if_splits)
    with 2(2) [OF r Some k(1,2)] show ?thesis by (simp add: incomplete_key_def)
  qed
qed simp

lemma parse_command_ok:
  assumes "parse_command parse args = Inr c"
  shows "(\<forall>k \<in> set (lc_keys c). \<not> incomplete_key k) \<and> (\<forall>r \<in> set (lc_others c). as_key r = None)"
proof -
  from assms obtain args' n l kl ks rs where "parse_positional parse args' = Inr (n, l, kl, ks, rs)" "lc_keys c = ks" "lc_others c = rs"
    by (auto simp: parse_command_def split: prod.splits sum.splits if_splits)
  moreover from this(1) have "\<exists>ts. parse_specs parse ts = Inr (ks, rs)"
    by (auto simp: parse_positional_def split: list.splits option.splits sum.splits prod.splits)
  ultimately show ?thesis using parse_specs_ok by auto
qed

lemma client_key_rr:
  "is_signer lk (keyRRFromClientKey lk ttl)" "incomplete_key (keyRRFromClientKey lk ttl) \<longleftrightarrow> incomplete_key (lk_PublicKey lk)"
  by (simp_all add: is_signer_def keyRRFromClientKey_def incomplete_key_def EqualFold_iff)

lemma update_keys_ok:
  assumes "update_keys c lk = Inr ks" "\<forall>k \<in> set (lc_keys c). \<not> incomplete_key k" "\<not> incomplete_key (lk_PublicKey lk)"
  shows "\<forall>k \<in> set ks. \<not> incomplete_key k"
  using assms by (auto simp: update_keys_def client_key_rr split: if_splits)

lemma additional_keys_append:
  "(\<forall>r \<in> set rs. as_key r = None) \<Longrightarrow> extractAdditionalSigningKeys (rs @ ss) = extractAdditionalSigningKeys ss"
  by (induction rs) auto

lemma FindOption_key:
  "FindOption (Some (m\<lparr>msg_Extra := msg_Extra m @ [of_key k]\<rparr>)) = FindOption (Some m)"
proof -
  have "scan (rs @ [of_key k]) = scan rs" for rs
    by (induction rs) (auto simp: of_key_def split: rdata.splits option.splits)
  then show ?thesis by (simp add: FindOption_def split: option.split)
qed

lemma parseLease_key: "parseLease p prefer4 (m\<lparr>msg_Extra := msg_Extra m @ [of_key k]\<rparr>) = parseLease p prefer4 m"
  by (simp only: parseLease_def FindOption_key)


definition sample_args :: "string list" where
  "sample_args = [''K'', ''--same-key'', ''3'', ''6'', ''--tcp'', ''a'']"

definition sample_parse :: "string \<Rightarrow> rr option option" where
  "sample_parse s = Some (Some host_address)"

definition sample_loaded :: LoadedKey where
  "sample_loaded = \<lparr>lk_Name = ''K'', lk_PublicKey = child_key, lk_PrivateKey = Ed25519Private []\<rparr>"

lemma sample_numbers: "ParseUint32 ''3'' = Some 3" "ParseUint32 ''6'' = Some 6"
  by (simp_all add: ParseUint32_def ParseUint_def byte_def)

lemma sample_record: "ParseAdditionalRRSpec sample_parse ''a'' = Inr host_address" "as_key host_address = None"
  by code_simp+

lemma sample_positional:
  "parse_positional sample_parse [''K'', ''3'', ''6'', ''a''] = Inr (''K'', 3, 6, [], [host_address])"
  by (simp add: parse_positional_def sample_numbers sample_record)

lemma sample_flags:
  "extractSignerLocationFlag sample_args = (sample_args, ''auto'')"
  "extractSameKeyFlag sample_args = ([''K'', ''3'', ''6'', ''--tcp'', ''a''], True)"
  "extractProtocolFlag ''udp'' [''K'', ''3'', ''6'', ''--tcp'', ''a''] = Inr ([''K'', ''3'', ''6'', ''a''], ''tcp'')"
  "extractKeyAlgFlag [''K'', ''3'', ''6'', ''a''] = Inr ([''K'', ''3'', ''6'', ''a''], None)"
  "extractTTLFlag [''K'', ''3'', ''6'', ''a''] = Inr ([''K'', ''3'', ''6'', ''a''], 300)"
  by (simp_all add: extractSignerLocationFlag_def extractSameKeyFlag_def extractKeyAlgFlag_def extractTTLFlag_def flag_values_def
      without_flag_def last_value_def sample_args_def HasPrefix_def defaultKeyTTL_def)

lemma sample_command:
  "parse_command sample_parse sample_args = Inr \<lparr>lc_signer = ''auto'', lc_sameKey = True, lc_protocol = ''tcp'', lc_alg = None, lc_ttl = 300,
     lc_keyname = ''K'', lc_lease = 3, lc_keyLease = 6, lc_keys = [], lc_others = [host_address]\<rparr>"
  by (simp add: parse_command_def sample_flags sample_positional)


subsection \<open>Flags of sig0lease-srp-client\<close>

datatype srp_flag_error =
    DomainAndHostRequired
  | ZeroTTL
  | UdpAndTls
  | InvalidDiscovery string
  | InvalidAddr string
  | InvalidInstance string
  | InvalidPort string
  | DuplicateInstance string
  | InvalidRemove string
  | DuplicateLabel string
  | InvalidTXT string
  | InvalidSubtype string
  | UndeclaredLabel string
  | WithdrawnLabel string
  | NoKeystore
  | KeyFailed key_error

type_synonym declared = "InstanceConfig gomap \<times> string list"

fun add_instances :: "string list \<Rightarrow> declared \<Rightarrow> srp_flag_error + declared" where
  "add_instances [] st = Inr st"
| "add_instances (t # ts) (byLabel, order) =
     (case cut_at (CHR '':'') t of
        (label, rest, True) \<Rightarrow>
          (case cut_at (CHR '':'') rest of
             (svc, portText, True) \<Rightarrow>
               (case ParseUint 16 portText of
                  None \<Rightarrow> Inl (InvalidPort t)
                | Some port \<Rightarrow>
                    if mget byLabel label \<noteq> None then Inl (DuplicateInstance label)
                    else add_instances ts
                      (mput label \<lparr>ic_Label = label, ic_ServiceType = svc, ic_Subtypes = [], ic_Port = of_nat port, ic_TXT = [], ic_Remove = False\<rparr> byLabel,
                       order @ [label]))
           | _ \<Rightarrow> Inl (InvalidInstance t))
      | _ \<Rightarrow> Inl (InvalidInstance t))"

fun add_removes :: "string list \<Rightarrow> declared \<Rightarrow> srp_flag_error + declared" where
  "add_removes [] st = Inr st"
| "add_removes (t # ts) (byLabel, order) =
     (case cut_at (CHR '':'') t of
        (label, svc, True) \<Rightarrow>
          (if mget byLabel label \<noteq> None then Inl (DuplicateLabel label)
           else add_removes ts
             (mput label \<lparr>ic_Label = label, ic_ServiceType = svc, ic_Subtypes = [], ic_Port = 0, ic_TXT = [], ic_Remove = True\<rparr> byLabel,
              order @ [label]))
      | _ \<Rightarrow> Inl (InvalidRemove t))"

text \<open>The loops over \<open>-txt\<close> and \<open>-subtype\<close> differ in the field they append to and in the error for a flag without colon.\<close>

fun add_values ::
  "(string \<Rightarrow> InstanceConfig \<Rightarrow> InstanceConfig) \<Rightarrow> (string \<Rightarrow> srp_flag_error) \<Rightarrow> string list \<Rightarrow> InstanceConfig gomap \<Rightarrow>
   srp_flag_error + InstanceConfig gomap"
where
  "add_values upd bad [] byLabel = Inr byLabel"
| "add_values upd bad (t # ts) byLabel =
     (case cut_at (CHR '':'') t of
        (label, v, True) \<Rightarrow>
          (case mget byLabel label of
             None \<Rightarrow> Inl (UndeclaredLabel label)
           | Some i \<Rightarrow> if ic_Remove i then Inl (WithdrawnLabel label) else add_values upd bad ts (mput label (upd v i) byLabel))
      | _ \<Rightarrow> Inl (bad t))"

definition add_txt :: "string \<Rightarrow> InstanceConfig \<Rightarrow> InstanceConfig" where
  "add_txt v i = i\<lparr>ic_TXT := ic_TXT i @ [v]\<rparr>"

definition add_subtype :: "string \<Rightarrow> InstanceConfig \<Rightarrow> InstanceConfig" where
  "add_subtype v i = i\<lparr>ic_Subtypes := ic_Subtypes i @ [v]\<rparr>"

definition parseInstances :: "string list \<Rightarrow> string list \<Rightarrow> string list \<Rightarrow> string list \<Rightarrow> srp_flag_error + InstanceConfig list" where
  "parseInstances insts removes txts subtypes =
     (case add_instances insts ([], []) of Inl e \<Rightarrow> Inl e | Inr st1 \<Rightarrow>
      case add_removes removes st1 of Inl e \<Rightarrow> Inl e | Inr (m2, order) \<Rightarrow>
      case add_values add_txt InvalidTXT txts m2 of Inl e \<Rightarrow> Inl e | Inr m3 \<Rightarrow>
      case add_values add_subtype InvalidSubtype subtypes m3 of Inl e \<Rightarrow> Inl e | Inr m4 \<Rightarrow>
        Inr (map (\<lambda>l. the (mget m4 l)) order))"

record srp_flags =
  fl_domain :: string
  fl_host :: string
  fl_server :: string
  fl_discovery :: string
  fl_lease :: nat
  fl_keylease :: nat
  fl_ttl :: nat
  fl_udp :: bool
  fl_tls :: bool
  fl_keystore :: string
  fl_alg :: nat
  fl_maxRenames :: int
  fl_addrs :: "string list"
  fl_resolvers :: "string list"
  fl_instances :: "string list"
  fl_removes :: "string list"
  fl_txts :: "string list"
  fl_subtypes :: "string list"

fun parse_addrs :: "(string \<Rightarrow> Addr option) \<Rightarrow> string list \<Rightarrow> srp_flag_error + Addr list" where
  "parse_addrs parse [] = Inr []"
| "parse_addrs parse (a # rest) =
     (case parse a of
        None \<Rightarrow> Inl (InvalidAddr a)
      | Some addr \<Rightarrow> (case parse_addrs parse rest of Inl e \<Rightarrow> Inl e | Inr addrs \<Rightarrow> Inr (addr # addrs)))"

definition resolveKey :: "key_env \<Rightarrow> string \<Rightarrow> store_dir \<Rightarrow> string \<Rightarrow> string \<Rightarrow> u8 \<Rightarrow> store_dir \<times> (srp_flag_error + LoadedKey)" where
  "resolveKey env dir d host domain algorithm =
     (case ResolveOrCreateKey env dir d (ensureFQDN (host @ ''.'' @ TrimSuffix domain ''.'')) algorithm of
        (d', Inl e) \<Rightarrow> (d', Inl (KeyFailed e))
      | (d', Inr (k, _)) \<Rightarrow> (d', Inr k))"

definition check_flags :: "(string \<Rightarrow> Addr option) \<Rightarrow> srp_flags \<Rightarrow> srp_flag_error + (Network \<times> DiscoveryMode \<times> Addr list \<times> InstanceConfig list)" where
  "check_flags parseAddr f =
     (if fl_domain f = [] \<or> fl_host f = [] then Inl DomainAndHostRequired
      else if fl_ttl f = 0 then Inl ZeroTTL
      else if fl_udp f \<and> fl_tls f then Inl UdpAndTls
      else
        let network = (if fl_udp f then NetworkUDP else if fl_tls f then NetworkTLS else NetworkTCP) in
        case (if fl_discovery f = ''closest'' then Some DiscoveryClosest
              else if fl_discovery f = ''apex'' then Some DiscoveryApexOnly else None) of
          None \<Rightarrow> Inl (InvalidDiscovery (fl_discovery f))
        | Some mode \<Rightarrow>
            (case parse_addrs parseAddr (fl_addrs f) of Inl e \<Rightarrow> Inl e | Inr addrs \<Rightarrow>
             case parseInstances (fl_instances f) (fl_removes f) (fl_txts f) (fl_subtypes f) of Inl e \<Rightarrow> Inl e | Inr insts \<Rightarrow>
             Inr (network, mode, addrs, insts)))"

definition srp_command_config ::
  "key_env \<Rightarrow> (string \<Rightarrow> Addr option) \<Rightarrow> (string \<Rightarrow> string) \<Rightarrow> srp_flags \<Rightarrow> store_dir \<Rightarrow> store_dir \<times> (srp_flag_error + Config)"
where
  "srp_command_config env parseAddr getenv f d =
     (case check_flags parseAddr f of
        Inl e \<Rightarrow> (d, Inl e)
      | Inr (network, mode, addrs, insts) \<Rightarrow>
          (case resolveKeystoreDir getenv (fl_keystore f) of
             Inl _ \<Rightarrow> (d, Inl NoKeystore)
           | Inr dir \<Rightarrow>
               (case resolveKey env dir d (fl_host f) (fl_domain f) (of_nat (fl_alg f)) of
                  (d', Inl e) \<Rightarrow> (d', Inl e)
                | (d', Inr k) \<Rightarrow>
                    (d', Inr \<lparr>Domain = fl_domain f, HostLabel = fl_host f, cfg_Addresses = addrs, cfg_Instances = insts,
                       cfg_Key = Some (lk_PublicKey k), RequestedLease = of_nat (fl_lease f), RequestedKeyLease = of_nat (fl_keylease f),
                       TTL = of_nat (fl_ttl f), RegistrarAddr = fl_server f, cfg_Discovery = mode, Resolvers = fl_resolvers f,
                       cfg_Query = None, cfg_Network = network, Timeout = 0, MaxRenames = fl_maxRenames f\<rparr>))))"

subsection \<open>The instances of the flags\<close>

definition spec_label :: "string \<Rightarrow> string" where
  "spec_label t = fst (cut_at (CHR '':'') t)"

definition spec_value :: "string \<Rightarrow> string" where
  "spec_value t = fst (snd (cut_at (CHR '':'') t))"

definition values_for :: "string \<Rightarrow> string list \<Rightarrow> string list" where
  "values_for l ts = map spec_value (filter (\<lambda>t. spec_label t = l) ts)"

definition declared_instance :: "string \<Rightarrow> InstanceConfig" where
  "declared_instance t =
     \<lparr>ic_Label = spec_label t, ic_ServiceType = spec_label (spec_value t), ic_Subtypes = [],
      ic_Port = of_nat (the (ParseUint 16 (spec_value (spec_value t)))), ic_TXT = [], ic_Remove = False\<rparr>"

definition withdrawn_instance :: "string \<Rightarrow> InstanceConfig" where
  "withdrawn_instance t =
     \<lparr>ic_Label = spec_label t, ic_ServiceType = spec_value t, ic_Subtypes = [], ic_Port = 0, ic_TXT = [], ic_Remove = True\<rparr>"

text \<open>What the loops keep: the map has exactly the labels of the order, each once.\<close>

definition declares :: "declared \<Rightarrow> InstanceConfig list \<Rightarrow> bool" where
  "declares st is \<longleftrightarrow> distinct (snd st) \<and> (\<forall>l. mget (fst st) l \<noteq> None \<longleftrightarrow> l \<in> set (snd st)) \<and>
     map (\<lambda>l. mget (fst st) l) (snd st) = map Some is \<and> map ic_Label is = snd st"

lemma declares_add:
  assumes "declares (m, order) is" "mget m (ic_Label i) = None"
  shows "declares (mput (ic_Label i) i m, order @ [ic_Label i]) (is @ [i])"
proof -
  have n: "ic_Label i \<notin> set order" using assms by (auto simp: declares_def)
  then have "map (\<lambda>l. mget (mput (ic_Label i) i m) l) order = map (\<lambda>l. mget m l) order" by (intro map_cong) (auto simp: mget_mput)
  with assms(1) n show ?thesis by (auto simp: declares_def mget_mput)
qed

lemma add_instances_declares:
  "add_instances ts st = Inr st' \<Longrightarrow> declares st is \<Longrightarrow> declares st' (is @ map declared_instance ts)"
proof (induction ts arbitrary: st "is")
  case (Cons t ts)
  obtain m order where st: "st = (m, order)" by (cases st)
  from Cons(2) obtain l rest svc pt port where c: "cut_at (CHR '':'') t = (l, rest, True)" "cut_at (CHR '':'') rest = (svc, pt, True)"
    "ParseUint 16 pt = Some port" "mget m l = None"
    by (auto simp: st split: prod.splits bool.splits option.splits if_splits)
  have i: "declared_instance t = \<lparr>ic_Label = l, ic_ServiceType = svc, ic_Subtypes = [], ic_Port = of_nat port, ic_TXT = [], ic_Remove = False\<rparr>"
    using c by (simp add: declared_instance_def spec_label_def spec_value_def)
  have "declares (mput l (declared_instance t) m, order @ [l]) (is @ [declared_instance t])"
    using declares_add [OF Cons(3) [unfolded st], of "declared_instance t"] c(4) by (simp add: i)
  with Cons(1) [OF _ this] Cons(2) c show ?case by (simp add: i st)
qed simp

lemma add_removes_declares:
  "add_removes ts st = Inr st' \<Longrightarrow> declares st is \<Longrightarrow> declares st' (is @ map withdrawn_instance ts)"
proof (induction ts arbitrary: st "is")
  case (Cons t ts)
  obtain m order where st: "st = (m, order)" by (cases st)
  from Cons(2) obtain l svc where c: "cut_at (CHR '':'') t = (l, svc, True)" "mget m l = None"
    by (auto simp: st split: prod.splits bool.splits if_splits)
  have i: "withdrawn_instance t = \<lparr>ic_Label = l, ic_ServiceType = svc, ic_Subtypes = [], ic_Port = 0, ic_TXT = [], ic_Remove = True\<rparr>"
    using c by (simp add: withdrawn_instance_def spec_label_def spec_value_def)
  have "declares (mput l (withdrawn_instance t) m, order @ [l]) (is @ [withdrawn_instance t])"
    using declares_add [OF Cons(3) [unfolded st], of "withdrawn_instance t"] c(2) by (simp add: i)
  with Cons(1) [OF _ this] Cons(2) c show ?case by (simp add: i st)
qed simp

lemma add_values_result:
  assumes "\<And>v i. ic_Remove (upd v i) = ic_Remove i"
  shows "add_values upd bad ts m = Inr m' \<Longrightarrow>
    (\<forall>l. mget m' l = map_option (fold upd (values_for l ts)) (mget m l)) \<and>
    (\<forall>t \<in> set ts. \<exists>i. mget m (spec_label t) = Some i \<and> \<not> ic_Remove i)"
proof (induction ts arbitrary: m)
  case Nil
  then show ?case by (simp add: values_for_def option.map_ident)
next
  case (Cons t ts)
  from Cons(2) obtain l v i where c: "cut_at (CHR '':'') t = (l, v, True)" "mget m l = Some i" "\<not> ic_Remove i"
    "add_values upd bad ts (mput l (upd v i) m) = Inr m'"
    by (auto split: prod.splits bool.splits option.splits if_splits)
  have lv: "spec_label t = l" "spec_value t = v" using c(1) by (simp_all add: spec_label_def spec_value_def)
  from Cons(1) [OF c(4)] have r: "mget m' k = map_option (fold upd (values_for k ts)) (if k = l then Some (upd v i) else mget m k)"
    and w: "t' \<in> set ts \<Longrightarrow> \<exists>j. (if spec_label t' = l then Some (upd v i) else mget m (spec_label t')) = Some j \<and> \<not> ic_Remove j" for k t'
    by (auto simp: mget_mput split: if_splits)
  have "mget m' k = map_option (fold upd (values_for k (t # ts))) (mget m k)" for k
    using r [of k] lv c(2) by (auto simp: values_for_def)
  moreover have "\<exists>j. mget m (spec_label t') = Some j \<and> \<not> ic_Remove j" if "t' \<in> set (t # ts)" for t'
    using that w [of t'] lv c(2,3) by (auto split: if_splits)
  ultimately show ?case by blast
qed

lemma fold_add_txt: "fold add_txt vs i = i\<lparr>ic_TXT := ic_TXT i @ vs\<rparr>"
  by (induction vs arbitrary: i) (simp_all add: add_txt_def)

lemma fold_add_subtype: "fold add_subtype vs i = i\<lparr>ic_Subtypes := ic_Subtypes i @ vs\<rparr>"
  by (induction vs arbitrary: i) (simp_all add: add_subtype_def)

lemma values_for_none: "l \<notin> spec_label ` set ts \<Longrightarrow> values_for l ts = []"
  by (auto simp: values_for_def filter_empty_conv)

lemma declares_mget: "declares (m, order) is \<Longrightarrow> i \<in> set is \<Longrightarrow> mget m (ic_Label i) = Some i"
  unfolding declares_def by (metis (mono_tags, lifting) fst_conv list.map_comp map_eq_conv o_apply snd_conv)

lemma declares_label:
  assumes "declares (m, order) is" "mget m l = Some i"
  shows "i \<in> set is \<and> ic_Label i = l"
proof -
  have "l \<in> ic_Label ` set is" using assms by (auto simp: declares_def simp flip: set_map)
  then obtain j where "j \<in> set is" "ic_Label j = l" by blast
  with declares_mget [OF assms(1) this(1)] assms(2) show ?thesis by simp
qed

text \<open>
  The instances of \<open>sig0lease-srp-client\<close> are exactly those of its flags: one for each
  \<open>-instance\<close>, in their order, with its own \<open>-txt\<close> and \<open>-subtype\<close> values in the order they were given,
  then one for each \<open>-remove\<close>, which has neither. The labels differ from each other, and no value was
  given for a label that is not declared by an \<open>-instance\<close>.
\<close>

theorem parseInstances_exact:
  assumes "parseInstances insts removes txts subtypes = Inr cfgs"
  shows "cfgs = map (\<lambda>t. (declared_instance t)\<lparr>ic_TXT := values_for (spec_label t) txts, ic_Subtypes := values_for (spec_label t) subtypes\<rparr>) insts @
      map withdrawn_instance removes \<and>
    distinct (map spec_label (insts @ removes)) \<and> spec_label ` set (txts @ subtypes) \<subseteq> spec_label ` set insts"
proof -
  from assms obtain st1 m2 order m3 m4 where s: "add_instances insts ([], []) = Inr st1" "add_removes removes st1 = Inr (m2, order)"
    "add_values add_txt InvalidTXT txts m2 = Inr m3" "add_values add_subtype InvalidSubtype subtypes m3 = Inr m4"
    and cfgs: "cfgs = map (\<lambda>l. the (mget m4 l)) order"
    by (auto simp: parseInstances_def split: sum.splits)
  let ?is = "map declared_instance insts @ map withdrawn_instance removes"
  have "declares ([], []) []" by (simp add: declares_def)
  then have d: "declares (m2, order) ?is" using add_removes_declares [OF s(2) add_instances_declares [OF s(1)], of "[]"] by simp
  have "ic_Remove (add_txt v i) = ic_Remove i" "ic_Remove (add_subtype v i) = ic_Remove i" for v i
    by (simp_all add: add_txt_def add_subtype_def)
  note r = add_values_result [OF this(1) s(3)] add_values_result [OF this(2) s(4)]
  have order: "order = map spec_label (insts @ removes)" "distinct order"
    using d by (auto simp: declares_def declared_instance_def withdrawn_instance_def)
  have live: "spec_label t \<in> spec_label ` set insts" if t: "t \<in> set (txts @ subtypes)" for t
  proof -
    obtain i where "mget m2 (spec_label t) = Some i" "\<not> ic_Remove i"
      using t r by (fastforce simp: fold_add_txt)
    with declares_label [OF d this(1)] show ?thesis by (auto simp: declared_instance_def withdrawn_instance_def intro: rev_image_eqI)
  qed
  let ?v = "\<lambda>i. i\<lparr>ic_TXT := ic_TXT i @ values_for (ic_Label i) txts, ic_Subtypes := ic_Subtypes i @ values_for (ic_Label i) subtypes\<rparr>"
  have "order = map ic_Label ?is" using d by (simp add: declares_def)
  then have "cfgs = map ?v ?is"
    unfolding cfgs using declares_mget [OF d] r by (simp add: fold_add_txt fold_add_subtype)
  moreover have "withdrawn_instance t = ?v (withdrawn_instance t)" if "t \<in> set removes" for t
  proof -
    have "spec_label t \<notin> spec_label ` set insts" using that order by auto
    then have "spec_label t \<notin> spec_label ` set txts" "spec_label t \<notin> spec_label ` set subtypes"
      using live by fastforce+
    then show ?thesis by (simp add: withdrawn_instance_def values_for_none)
  qed
  ultimately show ?thesis using order live by (auto simp: declared_instance_def)
qed

theorem parseInstances_exact_witness:
  "\<exists>cfgs. parseInstances [''A:_h:8''] [''B:_h''] [''A:x'', ''A:y''] [''A:z''] = Inr cfgs \<and> length cfgs = 2 \<and>
     ic_TXT (hd cfgs) = [''x'', ''y''] \<and> ic_Subtypes (hd cfgs) = [''z''] \<and> ic_Remove (last cfgs)"
proof -
  have "ParseUint 16 ''8'' = Some 8" by (simp add: ParseUint_def byte_def)
  then have "case parseInstances [''A:_h:8''] [''B:_h''] [''A:x'', ''A:y''] [''A:z''] of Inr _ \<Rightarrow> True | Inl _ \<Rightarrow> False"
    by (simp add: parseInstances_def add_txt_def add_subtype_def mget_mput)
  then obtain cfgs where p: "parseInstances [''A:_h:8''] [''B:_h''] [''A:x'', ''A:y''] [''A:z''] = Inr cfgs" by (auto split: sum.splits)
  with parseInstances_exact [OF p] show ?thesis
    by (simp add: declared_instance_def withdrawn_instance_def values_for_def spec_label_def spec_value_def)
qed

text \<open>
  The check of \<open>-ttl\<close> looks at the number before it is cut to 32 bits: a multiple of \<open>2 ^ 32\<close> passes and
  reaches the client library as zero, which reads it as its default.
\<close>

lemma ttl_checked_before_cut:
  assumes "srp_command_config env parseAddr getenv f d = (d', Inr cf)"
  shows "fl_ttl f \<noteq> 0" and "fl_ttl f = 2 ^ 32 \<Longrightarrow> TTL cf = 0"
  using assms by (auto simp: srp_command_config_def check_flags_def Let_def split: sum.splits if_splits prod.splits option.splits)

text \<open>
  The client library refuses a configuration of the command only for its labels or its durations: the
  domain, the host, the modes and the key are those the command has already checked.
\<close>

lemma srp_command_refused:
  assumes "srp_command_config env parseAddr getenv f d = (d', Inr cf)" and "NewClient cenv cf = Inl e"
  shows "CheckLabel (HostLabel cf) \<noteq> None \<or> check_configs (cfg_Instances cf) \<noteq> None \<or>
    RequestedKeyLease (lease_defaults cf) < RequestedLease (lease_defaults cf)"
proof -
  have "Domain cf \<noteq> []" "HostLabel cf \<noteq> []" "mode_valid (cfg_Discovery cf)" "network_valid (cfg_Network cf)" "cfg_Key cf \<noteq> None"
    using assms(1) by (auto simp: mode_valid_def network_valid_def srp_command_config_def check_flags_def Let_def split: sum.splits if_splits prod.splits option.splits)
  then show ?thesis
    using assms(2) by (auto simp: NewClient_def lease_defaults_def Let_def split: option.splits if_splits)
qed

end
