(* ===== verification/Lease_Dump.thy ===== *)
theory Lease_Dump
  imports Store_Properties Go_Quote
begin

text \<open>
  The dumps of the lease stores, which the command prints for \<open>--dump\<close> and \<open>--dump-debug\<close>:
  \<open>UpdateHandler.DumpLeasesLevel\<close> and \<open>dumpLeaseTreeLevel\<close> of \<open>handlers/opcode5_lease.go\<close> and
  \<open>SRPHandler.DumpLeasesLevel\<close> of \<open>handlers/srp_handler.go\<close>. The texts of a time and of a record are
  arguments (\<open>time.Format\<close>, the dns library's \<open>String\<close>).

  The tree is written by a recursion over the children of a node, and the parent names come from the
  records, so nothing in the code itself keeps it from running in a circle. It is modelled with fuel;
  as many steps as there are nodes are shown to be enough for every store, because only a node that
  no other node has as a child is a root and every node is a child of at most one.
\<close>

record dump_texts =
  dt_time :: "time \<Rightarrow> string"
  dt_key :: "key \<Rightarrow> string"
  dt_rr :: "rr \<Rightarrow> string"

subsection \<open>Package fmt: padding\<close>

function rune_count :: "string \<Rightarrow> nat" where
  "rune_count s =
     (if s = [] then 0
      else case decode_rune s of
        None \<Rightarrow> Suc (rune_count (tl s))
      | Some (r, w) \<Rightarrow> Suc (rune_count (drop w s)))"
  by pat_completeness auto
termination
  by (relation "measure length") (auto dest: AppendRune_decode(2))

declare rune_count.simps [simp del]

definition pad_right :: "nat \<Rightarrow> string \<Rightarrow> string" where
  "pad_right w s = s @ replicate (w - rune_count s) (CHR '' '')"

text \<open>\<open>strings.ToLower\<close>; only an ASCII string has one of the ASCII words it is compared with as its lower case.\<close>

definition ToLower :: "string \<Rightarrow> string" where
  "ToLower s = map fold_byte s"

abbreviation nl :: string where
  "nl \<equiv> [CHR 0x0A]"

definition bool_text :: "bool \<Rightarrow> string" where
  "bool_text b = (if b then ''true'' else ''false'')"

subsection \<open>The nodes of the tree\<close>

record leaseDumpNode =
  dn_keyRec :: "Record option"
  dn_nonKeyRec :: "NonKEYRecordSet option"
  dn_children :: "string list"

definition valueOrNone :: "string \<Rightarrow> string" where
  "valueOrNone v = (if v = [] then ''(none)'' else v)"

definition addNode :: "string \<Rightarrow> (leaseDumpNode \<Rightarrow> leaseDumpNode) \<Rightarrow> leaseDumpNode gomap \<Rightarrow> leaseDumpNode gomap" where
  "addNode nameArg upd nodes =
     (let name = Normalize nameArg in
      if name = [] then nodes
      else mput name (upd (case mget nodes name of Some d \<Rightarrow> d | None \<Rightarrow> \<lparr>dn_keyRec = None, dn_nonKeyRec = None, dn_children = []\<rparr>)) nodes)"

definition key_nodes :: "store \<Rightarrow> leaseDumpNode gomap" where
  "key_nodes s = fold (\<lambda>rec. addNode (key_name (KeyRR rec)) (\<lambda>d. d\<lparr>dn_keyRec := Some rec\<rparr>)) (ListAll s) []"

definition owner_nodes :: "store \<Rightarrow> leaseDumpNode gomap \<Rightarrow> leaseDumpNode gomap" where
  "owner_nodes s nodes =
     fold (\<lambda>owner ns. if Get s owner \<noteq> None then ns else addNode owner (\<lambda>d. d\<lparr>dn_nonKeyRec := GetNonKEYRecordSet s owner\<rparr>) ns)
       (ListOwners s) nodes"

definition data_node :: "dnslib \<Rightarrow> store \<Rightarrow> leaseDumpNode \<Rightarrow> leaseDumpNode" where
  "data_node lib s d =
     (case dn_keyRec d of
        None \<Rightarrow> d
      | Some rec \<Rightarrow>
          (case GetNonKEYRecordSet s (NodeKey lib (KeyRR rec)) of
             None \<Rightarrow> d
           | Some rs \<Rightarrow> d\<lparr>dn_nonKeyRec := Some rs\<rparr>))"

definition dump_nodes :: "dnslib \<Rightarrow> store \<Rightarrow> leaseDumpNode gomap" where
  "dump_nodes lib s = map (map_prod id (data_node lib s)) (owner_nodes s (key_nodes s))"

text \<open>The loop that puts every node under its parent, or under its zone, or among the orphans.\<close>

type_synonym placed = "leaseDumpNode gomap \<times> string list gomap \<times> string list"

definition parent_node :: "leaseDumpNode gomap \<Rightarrow> Record \<Rightarrow> string option" where
  "parent_node nodes rec =
     (let p = Normalize (ParentKeyName rec) in
      if p = [] then None
      else case mget nodes p of
        Some d \<Rightarrow> if dn_keyRec d \<noteq> None then Some p else None
      | None \<Rightarrow> None)"

definition place_node :: "string \<Rightarrow> placed \<Rightarrow> placed" where
  "place_node name st =
     (case st of (nodes, roots, orphans) \<Rightarrow>
      case mget nodes name of
        None \<Rightarrow> st
      | Some d \<Rightarrow>
          (case dn_keyRec d of
             None \<Rightarrow> if dn_nonKeyRec d \<noteq> None then (nodes, roots, orphans @ [name]) else st
           | Some rec \<Rightarrow>
               (case parent_node nodes rec of
                  Some p \<Rightarrow>
                    (case mget nodes p of
                       Some pd \<Rightarrow> (mput p (pd\<lparr>dn_children := dn_children pd @ [name]\<rparr>) nodes, roots, orphans)
                     | None \<Rightarrow> st)
                | None \<Rightarrow>
                    let z = Normalize (UpstreamZone rec); zone = (if z = [] then ''(unknown)'' else z) in
                    (nodes, mput zone (sget roots zone @ [name]) roots, orphans))))"

definition place_nodes :: "leaseDumpNode gomap \<Rightarrow> placed" where
  "place_nodes nodes = fold place_node (mkeys nodes) (nodes, [], [])"

subsection \<open>Writing\<close>

definition key_lines :: "dump_texts \<Rightarrow> time \<Rightarrow> string \<Rightarrow> string \<Rightarrow> Record \<Rightarrow> string" where
  "key_lines t now indent name rec =
     indent @ ''Key: '' @ name @ nl @
     indent @ ''  ParentKey: '' @ valueOrNone (Normalize (ParentKeyName rec)) @ nl @
     indent @ ''  UpstreamZone: '' @ valueOrNone (UpstreamZone rec) @ nl @
     indent @ ''  KeyRR: '' @ dt_key t (KeyRR rec) @ nl @
     indent @ ''  ExpiresAt: '' @ dt_time t (ExpiresAt rec) @ nl @
     indent @ ''  LeaseDuration: '' @ dec (unat (LeaseDuration rec)) @ ''s'' @ nl @
     indent @ ''  KeyLeaseDuration: '' @ dec (unat (KeyLeaseDuration rec)) @ ''s'' @ nl @
     indent @ ''  RegisteredAt: '' @ dt_time t (RegisteredAt rec) @ nl @
     indent @ ''  IsExpired: '' @ bool_text (IsExpired now rec) @ nl"

definition record_lines :: "dump_texts \<Rightarrow> string \<Rightarrow> string \<Rightarrow> NonKEYRecord \<Rightarrow> string" where
  "record_lines t indent rk e =
     indent @ ''      '' @ rk @ nl @
     indent @ ''        RR: '' @ dt_rr t (RR e) @ nl @
     indent @ ''        ExpiresAt: '' @ dt_time t (ExpiresAt e) @ nl @
     indent @ ''        LeaseDuration: '' @ dec (unat (LeaseDuration e)) @ ''s'' @ nl"

definition data_lines :: "dump_texts \<Rightarrow> string \<Rightarrow> NonKEYRecordSet \<Rightarrow> string" where
  "data_lines t indent rs =
     indent @ ''  Non-KEY lease:'' @ nl @
     (if Records rs \<noteq> [] then
        indent @ ''    Records:'' @ nl @
        concat (map (\<lambda>rk. case mget (Records rs) rk of Some e \<Rightarrow> record_lines t indent rk e | None \<Rightarrow> []) (sort_strings (mkeys (Records rs))))
      else indent @ ''    Records: (none)'' @ nl) @
     indent @ ''    UpstreamZone: '' @ valueOrNone (set_UpstreamZone rs) @ nl"

fun all_texts :: "string option list \<Rightarrow> string option" where
  "all_texts [] = Some []"
| "all_texts (None # xs) = None"
| "all_texts (Some x # xs) = map_option (\<lambda>y. x @ y) (all_texts xs)"

fun writeNode :: "nat \<Rightarrow> dump_texts \<Rightarrow> time \<Rightarrow> leaseDumpNode gomap \<Rightarrow> string \<Rightarrow> string \<Rightarrow> string option" where
  "writeNode 0 t now nodes name indent = None"
| "writeNode (Suc n) t now nodes name indent =
     (case mget nodes name of
        None \<Rightarrow> Some []
      | Some d \<Rightarrow>
          let own = (case dn_keyRec d of
                 Some rec \<Rightarrow> key_lines t now indent name rec
               | None \<Rightarrow> indent @ ''Non-KEY-only lease: '' @ name @ nl) @
               (case dn_nonKeyRec d of Some rs \<Rightarrow> data_lines t indent rs | None \<Rightarrow> []) in
          if dn_children d = [] then Some (own @ nl)
          else map_option (\<lambda>kids. own @ indent @ ''  Children:'' @ nl @ kids @ nl)
            (all_texts (map (\<lambda>c. writeNode n t now nodes c (indent @ ''    '')) (sort_strings (dn_children d)))))"

definition dumpLeaseTreeLevel :: "dnslib \<Rightarrow> dump_texts \<Rightarrow> time \<Rightarrow> store \<Rightarrow> string option" where
  "dumpLeaseTreeLevel lib t now s =
     (let nodes = dump_nodes lib s in
      if nodes = [] then Some (''=== Lease Store Dump ==='' @ nl @ ''(empty)'' @ nl)
      else case place_nodes nodes of (placed, roots, orphans) \<Rightarrow>
        let write = (\<lambda>name. writeNode (Suc (length nodes)) t now placed name ''  '') in
        map_option (\<lambda>x. ''=== Lease Store Dump ==='' @ nl @ x)
          (all_texts
             (concat (map (\<lambda>zone. Some (''Zone: '' @ zone @ nl) # map write (sget roots zone)) (sort_strings (mkeys roots))) @
              (if orphans = [] then [] else Some (''Orphan data leases:'' @ nl) # map write (sort_strings orphans)))))"

definition owner_line :: "time \<Rightarrow> store \<Rightarrow> string \<Rightarrow> string" where
  "owner_line now s name =
     (let keyStatus = (case Get s name of None \<Rightarrow> ''absent'' | Some rec \<Rightarrow> if IsExpired now rec then ''expired'' else ''active'');
          rs = GetNonKEYRecordSet s name;
          count = (case rs of None \<Rightarrow> 0 | Some r \<Rightarrow> length (Records r));
          status = (case rs of None \<Rightarrow> ''absent'' | Some _ \<Rightarrow> if count > 0 then ''active'' else ''empty'')
      in ''Key: '' @ pad_right 40 name @ '' KEY='' @ pad_right 8 keyStatus @ '' NonKEY='' @ dec count @ ''  Status='' @ status @ nl)"

definition DumpLeasesLevel :: "dnslib \<Rightarrow> dump_texts \<Rightarrow> time \<Rightarrow> string \<Rightarrow> store \<Rightarrow> string option" where
  "DumpLeasesLevel lib t now level s =
     (if ToLower (TrimSpace level) = ''debug'' then dumpLeaseTreeLevel lib t now s
      else Some (''=== Lease Store Summary ==='' @ nl @
        (if ListOwners s = [] then ''(empty)'' @ nl else concat (map (owner_line now s) (ListOwners s)))))"

subsection \<open>The dump of the SRP registrar\<close>

definition srp_node_lines :: "dnslib \<Rightarrow> dump_texts \<Rightarrow> (nat \<Rightarrow> bool) \<Rightarrow> time \<Rightarrow> bool \<Rightarrow> store \<Rightarrow> Record \<Rightarrow> string" where
  "srp_node_lines lib t wide now isDebug s rec =
     (let nodeKey = NodeKey lib (KeyRR rec);
          rs = GetNonKEYRecordSet s nodeKey;
          count = (case rs of None \<Rightarrow> 0 | Some r \<Rightarrow> length (Records r));
          status = (if IsExpired now rec then ''expired'' else ''active'')
      in if \<not> isDebug then ''Key: '' @ pad_right 40 nodeKey @ '' KEY='' @ pad_right 8 status @ '' NonKEY='' @ dec count @ nl
         else ''Key: '' @ nodeKey @ nl @ ''  KeyRR: '' @ dt_key t (KeyRR rec) @ nl @ ''  Status: '' @ status @ nl @
           ''  ExpiresAt: '' @ dt_time t (ExpiresAt rec) @ nl @ ''  ParentKeyName: '' @ Quote wide (ParentKeyName rec) @ nl @
           (case rs of None \<Rightarrow> [] | Some r \<Rightarrow>
              concat (map (\<lambda>nk. ''    RR: '' @ dt_rr t (RR nk) @ nl @ ''      ExpiresAt: '' @ dt_time t (ExpiresAt nk) @ nl) (mvals (Records r)))))"

definition srp_DumpLeasesLevel :: "dnslib \<Rightarrow> dump_texts \<Rightarrow> (nat \<Rightarrow> bool) \<Rightarrow> time \<Rightarrow> string \<Rightarrow> store \<Rightarrow> string" where
  "srp_DumpLeasesLevel lib t wide now level s =
     (let isDebug = (ToLower (TrimSpace level) = ''debug'') in
      (if isDebug then ''=== SRP Lease Store Dump ==='' @ nl else ''=== SRP Lease Store Summary ==='' @ nl) @
      (if ListAll s = [] then ''(empty)'' @ nl
       else concat (map (srp_node_lines lib t wide now isDebug s) (sort_key (\<lambda>rec. NodeKey lib (KeyRR rec)) (ListAll s)))))"

subsection \<open>Writing ends\<close>

text \<open>The parent under which a node is put, from the nodes before any is put.\<close>

definition dump_parent :: "leaseDumpNode gomap \<Rightarrow> string \<Rightarrow> string option" where
  "dump_parent nodes c = Option.bind (Option.bind (mget nodes c) dn_keyRec) (parent_node nodes)"

fun linked :: "('a \<Rightarrow> 'a option) \<Rightarrow> 'a list \<Rightarrow> bool" where
  "linked par [] = False"
| "linked par [x] \<longleftrightarrow> par x = None"
| "linked par (x # y # ys) \<longleftrightarrow> par x = Some y \<and> linked par (y # ys)"

lemma linked_unique: "linked par (x # xs) \<Longrightarrow> linked par (x # ys) \<Longrightarrow> xs = ys"
proof (induction xs arbitrary: x ys)
  case Nil
  then show ?case by (cases ys) auto
next
  case (Cons a xs)
  then show ?case by (cases ys) auto
qed

lemma linked_suffix: "linked par (as @ x # ys) \<Longrightarrow> linked par (x # ys)"
proof (induction as)
  case (Cons a as)
  then show ?case by (cases as) auto
qed simp

lemma linked_distinct: "linked par xs \<Longrightarrow> distinct xs"
proof (induction par xs rule: linked.induct)
  case (3 par x y ys)
  have "x \<notin> set (y # ys)"
  proof
    assume "x \<in> set (y # ys)"
    then obtain as zs where ys: "y # ys = as @ x # zs" using split_list by metis
    with 3(2) have l: "linked par (x # as @ x # zs)" by simp
    have "as @ x # zs = zs" using linked_unique [OF l linked_suffix [of par "x # as" x zs]] l by simp
    then have "length (as @ x # zs) = length zs" by simp
    then show False by simp
  qed
  with 3 show ?case by simp
qed auto

lemma all_texts_Some: "(\<exists>x. all_texts xs = Some x) \<longleftrightarrow> None \<notin> set xs"
  by (induction xs rule: all_texts.induct) auto

lemma writeNode_ends:
  assumes child: "\<And>p d c. mget nodes p = Some d \<Longrightarrow> c \<in> set (dn_children d) \<Longrightarrow> par c = Some p \<and> c \<in> names"
    and fin: "finite names"
  shows "linked par (name # ws) \<Longrightarrow> set (name # ws) \<subseteq> names \<Longrightarrow> card names < length ws + n \<Longrightarrow>
    \<exists>x. writeNode n t now nodes name indent = Some x"
proof (induction n arbitrary: name ws indent)
  case 0
  have "length (name # ws) = card (set (name # ws))" using linked_distinct [OF 0(1)] by (simp only: distinct_card)
  also have "\<dots> \<le> card names" using 0(2) fin by (rule card_mono [rotated])
  finally show ?case using 0(3) by simp
next
  case (Suc n)
  have "None \<notin> set (map (\<lambda>c. writeNode n t now nodes c (indent @ ''    '')) (sort_strings (dn_children d)))"
    if d: "mget nodes name = Some d" for d
  proof
    assume "None \<in> set (map (\<lambda>c. writeNode n t now nodes c (indent @ ''    '')) (sort_strings (dn_children d)))"
    then obtain c where c: "c \<in> set (dn_children d)" "writeNode n t now nodes c (indent @ ''    '') = None"
      by (auto simp: sort_strings_def)
    have "linked par (c # name # ws)" "set (c # name # ws) \<subseteq> names" using child [OF d c(1)] Suc(2,3) by auto
    from Suc(1) [OF this, of "indent @ ''    ''"] Suc(4) c(2) show False by simp
  qed
  then show ?case unfolding all_texts_Some [symmetric] by (auto simp: Let_def split: option.split)
qed

definition placed_ok :: "leaseDumpNode gomap \<Rightarrow> placed \<Rightarrow> bool" where
  "placed_ok nodes0 st \<longleftrightarrow> (case st of (nodes, roots, orphans) \<Rightarrow>
     (\<forall>n. map_option dn_keyRec (mget nodes n) = map_option dn_keyRec (mget nodes0 n)) \<and>
     (\<forall>p d. mget nodes p = Some d \<longrightarrow> (\<forall>c \<in> set (dn_children d). dump_parent nodes0 c = Some p)) \<and>
     (\<forall>z. \<forall>n \<in> set (sget roots z) \<union> set orphans. dump_parent nodes0 n = None \<and> mget nodes0 n \<noteq> None))"

lemma parent_node_cong:
  assumes "\<And>n. map_option dn_keyRec (mget nodes n) = map_option dn_keyRec (mget nodes0 n)"
  shows "parent_node nodes = parent_node nodes0"
proof
  show "parent_node nodes rec = parent_node nodes0 rec" for rec
    using assms [of "Normalize (ParentKeyName rec)"] by (auto simp: parent_node_def Let_def split: option.splits)
qed

lemma place_node_ok:
  assumes "placed_ok nodes0 st"
  shows "placed_ok nodes0 (place_node name st)"
proof -
  obtain nodes roots orphans where st: "st = (nodes, roots, orphans)" by (cases st)
  have k: "map_option dn_keyRec (mget nodes n) = map_option dn_keyRec (mget nodes0 n)" for n
    using assms by (simp add: placed_ok_def st)
  show ?thesis
  proof (cases "mget nodes name")
    case None
    then show ?thesis using assms by (simp add: place_node_def st)
  next
    case (Some d)
    then obtain d0 where d0: "mget nodes0 name = Some d0" "dn_keyRec d0 = dn_keyRec d" using k [of name] by (cases "mget nodes0 name") auto
    then have par: "dump_parent nodes0 name = Option.bind (dn_keyRec d) (parent_node nodes)"
      using parent_node_cong [OF k] by (simp add: dump_parent_def)
    show ?thesis
    proof (cases "dump_parent nodes0 name")
      case None
      have s: "sget (mput z (sget roots z @ [name]) roots) z' = (if z' = z then sget roots z @ [name] else sget roots z')" for z z'
        by (simp add: sget_def mget_mput)
      show ?thesis using None assms Some d0 par
        by (auto simp: place_node_def placed_ok_def st Let_def s split: option.split)
    next
      case (Some p)
      then obtain rec where rec: "dn_keyRec d = Some rec" "parent_node nodes rec = Some p" using par by (cases "dn_keyRec d") auto
      then obtain pd where pd: "mget nodes p = Some pd" by (auto simp: parent_node_def Let_def split: if_splits option.splits)
      with k [of p] have "Some (dn_keyRec pd) = map_option dn_keyRec (mget nodes0 p)" by simp
      then show ?thesis using assms \<open>mget nodes name = Some d\<close> rec Some pd
        by (auto simp: place_node_def placed_ok_def st mget_mput)
    qed
  qed
qed

lemma place_nodes_ok:
  assumes "\<And>p d. mget nodes p = Some d \<Longrightarrow> dn_children d = []"
  shows "placed_ok nodes (place_nodes nodes)"
proof -
  have "placed_ok nodes (fold place_node ns (nodes, [], []))" for ns
  proof (rule fold_invariant [where Q = "\<lambda>_. True" and P = "placed_ok nodes"])
    show "placed_ok nodes (nodes, [], [])" using assms by (simp add: placed_ok_def sget_def)
  qed (simp_all add: place_node_ok)
  then show ?thesis by (simp add: place_nodes_def)
qed

definition no_children :: "leaseDumpNode gomap \<Rightarrow> bool" where
  "no_children nodes \<longleftrightarrow> (\<forall>p d. mget nodes p = Some d \<longrightarrow> dn_children d = [])"

lemma addNode_no_children:
  assumes "no_children nodes" "\<And>d. dn_children (upd d) = dn_children d"
  shows "no_children (addNode name upd nodes)"
  using assms by (auto simp: no_children_def addNode_def Let_def mget_mput split: option.splits)

lemma mget_map_prod: "mget (map (map_prod id f) m) k = map_option f (mget m k)"
  by (induction m) (auto simp: mget_Cons)

lemma data_node_children [simp]: "dn_children (data_node lib s d) = dn_children d"
  by (simp add: data_node_def split: option.split)

lemma dump_nodes_no_children: "no_children (dump_nodes lib s)"
proof -
  have k: "no_children (fold (\<lambda>rec. addNode (key_name (KeyRR rec)) (\<lambda>d. d\<lparr>dn_keyRec := Some rec\<rparr>)) rs ns)" if "no_children ns" for rs ns
    using that by (induction rs arbitrary: ns) (simp_all add: addNode_no_children)
  have o: "no_children (fold (\<lambda>owner ns. if Get s owner \<noteq> None then ns
      else addNode owner (\<lambda>d. d\<lparr>dn_nonKeyRec := GetNonKEYRecordSet s owner\<rparr>) ns) os ns)" if "no_children ns" for os ns
    using that by (induction os arbitrary: ns) (simp_all add: addNode_no_children)
  have "no_children (owner_nodes s (key_nodes s))"
    unfolding owner_nodes_def key_nodes_def by (intro o k) (simp add: no_children_def)
  then show ?thesis
    by (auto simp: no_children_def dump_nodes_def mget_map_prod)
qed

lemma dump_parent_node: "dump_parent nodes c = Some p \<Longrightarrow> c \<in> set (mkeys nodes)"
  by (cases "mget nodes c") (auto simp: dump_parent_def mkeys_def mget_def dest: map_of_SomeD intro: rev_image_eqI)

lemma mget_mkeys: "mget m k \<noteq> None \<Longrightarrow> k \<in> set (mkeys m)"
  by (auto simp: mkeys_def mget_def dest: map_of_SomeD intro: rev_image_eqI)

text \<open>
  C28. Dumping a store ends, at every level and for every store, also one whose parent names form a
  circle or name no node.
\<close>

theorem DumpLeasesLevel_ends: "\<exists>text. DumpLeasesLevel lib t now level s = Some text"
proof -
  let ?nodes = "dump_nodes lib s"
  obtain placed roots orphans where pl: "place_nodes ?nodes = (placed, roots, orphans)" by (cases "place_nodes ?nodes")
  have ok: "placed_ok ?nodes (placed, roots, orphans)"
    using place_nodes_ok [of ?nodes] dump_nodes_no_children [of lib s] by (simp add: no_children_def pl)
  have small: "card (set (mkeys ?nodes)) < Suc (length ?nodes)"
    using card_length [of "mkeys ?nodes"] by (simp add: mkeys_def)
  have "\<exists>x. writeNode (Suc (length ?nodes)) t now placed name ''  '' = Some x"
    if "name \<in> set (sget roots z) \<union> set orphans" for name z
  proof (rule writeNode_ends [where par = "dump_parent ?nodes" and names = "set (mkeys ?nodes)" and ws = "[]"])
    show "linked (dump_parent ?nodes) [name]" "set [name] \<subseteq> set (mkeys ?nodes)"
      using ok that mget_mkeys [of ?nodes name] by (auto simp: placed_ok_def)
    show "dump_parent ?nodes c = Some p \<and> c \<in> set (mkeys ?nodes)" if "mget placed p = Some d" "c \<in> set (dn_children d)" for p d c
      using ok that dump_parent_node by (auto simp: placed_ok_def)
  qed (use small in simp_all)
  then have w: "writeNode (Suc (length ?nodes)) t now placed name ''  '' \<noteq> None" if "name \<in> set (sget roots z) \<union> set orphans" for name z
    using that by blast
  have "\<exists>x. dumpLeaseTreeLevel lib t now s = Some x"
    unfolding dumpLeaseTreeLevel_def Let_def pl prod.case
    by (auto simp: all_texts_Some sort_strings_def simp del: writeNode.simps dest: w [OF UnI1] w [OF UnI2] dest!: sym [of None])
  then show ?thesis by (simp add: DumpLeasesLevel_def)
qed

subsection \<open>What the tree leaves out\<close>

text \<open>
  The nodes are kept by plain name: of several keys at one name the tree shows one, the last that the
  map of leases returns.
\<close>

definition key_at :: "leaseDumpNode gomap \<Rightarrow> string \<Rightarrow> Record option" where
  "key_at nodes n = Option.bind (mget nodes n) dn_keyRec"

lemma key_at_addNode:
  "key_at (addNode name upd nodes) n =
     (if n = Normalize name \<and> n \<noteq> [] then
        dn_keyRec (upd (case mget nodes n of Some d \<Rightarrow> d | None \<Rightarrow> \<lparr>dn_keyRec = None, dn_nonKeyRec = None, dn_children = []\<rparr>))
      else key_at nodes n)"
  by (auto simp: key_at_def addNode_def Let_def mget_mput)

lemma key_nodes_last:
  "key_at (key_nodes s) n =
    (let rs = filter (\<lambda>rec. n \<noteq> [] \<and> Normalize (key_name (KeyRR rec)) = n) (ListAll s) in if rs = [] then None else Some (last rs))"
proof -
  have "key_at (fold (\<lambda>rec. addNode (key_name (KeyRR rec)) (\<lambda>d. d\<lparr>dn_keyRec := Some rec\<rparr>)) rs ns) n =
      (let ms = filter (\<lambda>rec. n \<noteq> [] \<and> Normalize (key_name (KeyRR rec)) = n) rs in if ms = [] then key_at ns n else Some (last ms))" for rs ns
    by (induction rs arbitrary: ns) (auto simp: Let_def key_at_addNode)
  moreover have "key_at [] n = None" by (simp add: key_at_def)
  ultimately show ?thesis by (auto simp: key_nodes_def Let_def)
qed

lemma dump_nodes_key: "key_at (dump_nodes lib s) n = key_at (key_nodes s) n"
proof -
  have "key_at (fold (\<lambda>owner ns. if Get s owner \<noteq> None then ns
      else addNode owner (\<lambda>d. d\<lparr>dn_nonKeyRec := GetNonKEYRecordSet s owner\<rparr>) ns) os ns) n = key_at ns n" for os ns
    by (induction os arbitrary: ns) (auto simp: key_at_addNode, auto simp: key_at_def split: option.splits)
  moreover have "dn_keyRec (data_node lib s d) = dn_keyRec d" for d by (simp add: data_node_def split: option.split)
  ultimately show ?thesis
    by (simp add: dump_nodes_def owner_nodes_def key_at_def mget_map_prod bind_map_option comp_def)
qed

text \<open>
  The parent of a record is a node identity, the name of the key with its algorithm and tag, and the
  nodes are looked up by plain name: as long as no key is named like a node identity, the tree is flat,
  and every key is written directly under its zone.
\<close>

lemma tree_is_flat:
  assumes "\<And>rec rec'. rec \<in> set (ListAll s) \<Longrightarrow> rec' \<in> set (ListAll s) \<Longrightarrow> Normalize (key_name (KeyRR rec)) \<noteq> Normalize (ParentKeyName rec')"
    and "place_nodes (dump_nodes lib s) = (placed, roots, orphans)" and "mget placed p = Some d"
  shows "dn_children d = []"
proof (rule ccontr)
  assume "dn_children d \<noteq> []"
  then obtain c where c: "c \<in> set (dn_children d)" by (cases "dn_children d") auto
  have "placed_ok (dump_nodes lib s) (placed, roots, orphans)"
    using place_nodes_ok [of "dump_nodes lib s"] dump_nodes_no_children [of lib s] by (simp add: no_children_def assms(2))
  then have "dump_parent (dump_nodes lib s) c = Some p" using assms(3) c by (auto simp: placed_ok_def)
  then obtain rec where rec: "key_at (dump_nodes lib s) c = Some rec" and p: "parent_node (dump_nodes lib s) rec = Some p"
    by (cases "key_at (dump_nodes lib s) c") (auto simp: dump_parent_def key_at_def bind_eq_Some_conv)
  then have p': "p = Normalize (ParentKeyName rec)" "p \<noteq> []" "key_at (dump_nodes lib s) p \<noteq> None"
    by (auto simp: parent_node_def key_at_def Let_def split: if_splits option.splits)
  have mem: "r \<in> set (ListAll s) \<and> Normalize (key_name (KeyRR r)) = n" if "key_at (dump_nodes lib s) n = Some r" for n r
    using that last_in_set [of "filter (\<lambda>rec. n \<noteq> [] \<and> Normalize (key_name (KeyRR rec)) = n) (ListAll s)"]
    by (auto simp: dump_nodes_key key_nodes_last Let_def split: if_splits)
  with mem [OF rec] p' mem assms(1) show False by fastforce
qed

end
