(* ===== verification/Spec2Isabelle.thy ===== *)
theory Spec2Isabelle
  imports Dnsname Lease_Option Store_Properties Node_Locks Lease_Policy Upstream Expiry_Properties
    Update_Properties Srp_Properties Srp_Update Srp_Client Lease_Client Upstream_Net Lease_Snapshot
    Router Sig0_Properties Client_Commands Lease_Dump
begin

text \<open>
  A verification development for sig0lease, a proxy in front of an authoritative DNS server.
  Clients lease names from it: they send DNS UPDATE requests signed with SIG(0) that carry the
  Update Lease option of RFC 9664, the proxy checks them, forwards what it accepts to the
  authoritative server under its own key, remembers every forwarded record with its lease in a
  tree of KEY nodes and data records, and deletes it upstream when the lease runs out. A second
  handler of the same shape is the registrar of the Service Registration Protocol, RFC 9665.

  \<^bold>\<open>How the parts interact.\<close> The command (cmd/sig0lease/main.go) reads a configuration
  (config/config.go), sets the handlers up with their lease stores and keys, and registers them
  with a router (server/router.go), which offers a request to the handlers of its opcode in order
  and forwards what none of them takes. A request reaches one of two handlers, \<^verbatim>\<open>UpdateHandler.Handle\<close>
  (handlers/opcode5*.go) or \<^verbatim>\<open>SRPHandler.Handle\<close> (handlers/srp_handler.go). Both read the lease
  option (pkg/lease/lease.go), clamp it to a policy (handlers/lease_policy.go), lock the nodes
  they are about to touch (pkg/lease/nodelock.go), decide with the lease store
  (pkg/lease/state.go) and queries to the authoritative server, send one UPDATE
  (pkg/updatecore), and only then change the store and the expiry timers
  (handlers/opcode5_lease.go). The timers later run lease events, which go the same way. A file
  store (pkg/lease/file_store.go) keeps snapshots of the leases over a restart. On the other side
  are the requesters: the library of an SRP client (client/srp), the reading of lease answers
  (client/lease_response.go) and the two commands that use them. Both sides sign and verify with
  pkg/sig0 and keep their keys with pkg/keyrec.

  \<^bold>\<open>Theories and sources.\<close>

  \<^item> Prelude: Go maps as association lists, byte strings, decimal and hexadecimal text, sorting,
    and the lemma collections the components use. Dns_Model: messages, resource records and the
    third-party dns library as the record \<^verbatim>\<open>dnslib\<close> of functions (key tag, RDATA text and length).
  \<^item> Dnsname: pkg/dnsname (folding, normalisation, labels, the wire scan of \<^verbatim>\<open>DottedWireLabel\<close>).
  \<^item> Lease_Option: pkg/lease/lease.go, the option of RFC 9664 with its encodings.
  \<^item> Node_Identity: \<^verbatim>\<open>NodeKey\<close> and \<^verbatim>\<open>RecordKey\<close>. Lease_Store: the in-memory store, method by method.
    Store_Invariant, Store_Tree, Store_Spec and Store_Properties: its invariant, the walks over
    the parent links, and an abstract forest (a map from identities to parent and record) that
    the methods refine.
  \<^item> Node_Locks: pkg/lease/nodelock.go as a step relation over the sets held.
  \<^item> Lease_Policy: policies, clamping, record TTLs. Upstream: results, responses, the forwarded
    UPDATE and the in-flight limiter (handlers/result.go, handlers.go, pkg/updatecore).
  \<^item> Expiry and Expiry_Properties: timers, lease events and reconciliation.
  \<^item> Update_Handler, Update_Plan, Update_Properties: the RFC 9664 handler, the plans its four
    cases build, and its properties.
  \<^item> Dnssd: pkg/dnssd. Srp_Classify and Srp_Structure: pkg/srp/names.go, instruction.go and
    validate.go, and the shape of what they accept. Srp_Fcfs: pkg/srp/fcfs.go, response.go and
    pkg/updatecore/authquery.go. Srp_Handler, Srp_Effects, Srp_Properties: the registrar, what its
    local changes can touch, and its properties.
  \<^item> Upstream_Net: pkg/updatecore/coordinator.go, zone discovery, sending and querying over an
    exchange with servers, and the coordinators the handlers take, built from it.
  \<^item> Go_Quote, Lease_Snapshot: Go's quoted strings, with which node identities are written, and the
    snapshots of the store with the atomic write of their file, as steps that may stop anywhere.
    Lease_Dump: the dumps of the stores.
  \<^item> Proxy_Config, Router, Handler_Setup: configuration, routing and forwarding (server/router.go,
    forward/forward.go, \<^verbatim>\<open>New\<close> and \<^verbatim>\<open>handleRequest\<close> of server/server.go), and the start of the proxy.
  \<^item> Srp_Update, Srp_Discovery, Srp_Client: the update builder of pkg/srp/update.go, and discovery,
    registration, renaming and the refresh loop of client/srp. Lease_Client: pkg/dnsmsg/update.go and
    client/lease_response.go.
  \<^item> Sig0_Signer: pkg/sig0/signer.go, the bytes that are signed, signing and verifying.
    Sig0_Properties: the handlers and the coordinator with it. Keystore: pkg/keyrec.
    Client_Commands: the commands sig0lease-client and sig0lease-srp-client from their arguments to
    the request.

  \<^bold>\<open>How code is rendered.\<close> A struct is a record with the fields of the source, a pointer that may
  be nil an option, a Go map an association list whose keys are distinct (\<^verbatim>\<open>mwf\<close>), a string a list
  of bytes, a duration or time an integer, a 32-bit lease a \<^verbatim>\<open>32 word\<close>. Errors and panics are
  constructors of sum types, so a function that may panic returns a sum. The clock readings of a
  request are arguments. What the handlers ask the authoritative server, and signature
  verification, are the fields of the records \<^verbatim>\<open>coordinator\<close> and \<^verbatim>\<open>srpCoordinator\<close>, over which every
  theorem is quantified; Upstream_Net and Sig0_Properties give the code's own. The messages sent are
  appended to a log in the state, so that what goes upstream can be compared with what changes
  locally. Log lines are left out.

  \<^bold>\<open>Parameters.\<close> Code outside the repository is an argument: the exchange of one message with a
  server, the dns library's packing, signing and key files, JSON with SHA-256, the YAML decoder,
  \<^verbatim>\<open>time.ParseDuration\<close>, Go's table of printable runes, the signature schemes. What a theorem needs of
  it is a named predicate (\<^verbatim>\<open>plain_text\<close>, \<^verbatim>\<open>codec_ok\<close>, \<^verbatim>\<open>sig0lib_ok\<close>, \<^verbatim>\<open>key_pair\<close>, \<^verbatim>\<open>reads_back\<close>, \<^verbatim>\<open>writes_ok\<close>), and
  the witness of the theorem has a concrete function that satisfies it.

  \<^bold>\<open>Interfaces.\<close> Locales state what one part relies on: \<^verbatim>\<open>finite_map\<close> the operations on Go maps,
  \<^verbatim>\<open>lease_tree\<close> what expiry uses of the store, \<^verbatim>\<open>delivering\<close> what a handler may conclude from an accepted
  UPDATE, \<^verbatim>\<open>serving\<close> a handler as the router sees it, \<^verbatim>\<open>routing\<close> the router as the server sees it. Each
  is interpreted on the definitions of the code.

  \<^bold>\<open>What is shown.\<close> For both handlers: nothing changes and nothing is sent without a verified
  signature; the store changes only after one UPDATE was accepted that publishes every entered
  and deletes every dropped record; every changed node was locked; a node is only ever deleted by
  itself, its parent or its expiry; no panic, the store invariant kept and the locks released;
  the granted lease in the reply is the lease stored. For the registrar also: what a valid SRP
  update looks like, first-come naming with the prerequisites that close the race with other
  writers, and that the service enumeration records follow the live instances and settle. For the
  store: its invariant in every reachable state and refinement of the forest. For the locks:
  mutual exclusion and progress. For expiry: what a lease event removes, in which order, and that
  a node that holds leases keeps a timer. For the option, names and service types: round trips
  and equivalences. For the coordinator: an UPDATE counts as accepted only if the primary server of
  the zone accepted it, and a record as absent only by a complete answer. For persistence: the
  leases survive a restart at any moment of a save. For the server: the first handler that does not
  decline answers alone, a request nobody wants is forwarded, and a proxy that has started answers
  every request. For the requesters: what they build is accepted and read as what was asked for,
  also after renames and from the commands' arguments; the refresh loop keeps its pace; discovery
  takes the closest registrar; a lease is given up no later than by the proxy. For signatures: the
  signed bytes determine header and message, what is signed verifies, and a change of the store
  needs a signature that the scheme of the key accepts. For the dumps: they end for every store.
  Corner cases in which the code departs from its comments are lemmas beside
  the properties of their component.

  \<^bold>\<open>Termination and bounds.\<close> Every loop is a structural recursion or has a measure, with one
  exception: the debug dump writes its tree with as much fuel as the tree has nodes plus one, and
  \<^verbatim>\<open>DumpLeasesLevel_ends\<close> shows that this is enough for every store. The walks over the parent links
  (\<^verbatim>\<open>subtree_loop\<close>, \<^verbatim>\<open>collect_loop\<close>) end because each identity is visited at most once, the wire scan
  \<^verbatim>\<open>dottedName_loop\<close> because of its offset and the hop limit of the source. The refresh loop of the
  SRP client runs forever; its model is one turn, and the theorems hold in every state its turns
  reach. Durations are 64-bit where they can wrap around (\<^verbatim>\<open>refreshDelay\<close>); the floating-point
  factor of the refresh time is taken as exact.

  \<^bold>\<open>Not modelled.\<close> Listeners, TLS and the sockets of the client (server/transport_tls.go,
  client/client.go), which only move messages; the cryptographic schemes; logging and the output of
  the commands; the ticker that saves a file store periodically, each save being modelled; the
  dump mode of the proxy's command; the commands verify and list-keys. Concurrency is modelled where
  the code orders it, by the node locks: a handler holds its locks from the decision to the last
  change, so its run is one step of the model.
\<close>

end
